(* ===== verification/Prelude.thy ===== *)
theory Prelude
  imports Main "HOL-Library.Word" "HOL-Library.Char_ord"
begin

text \<open>
  Shared vocabulary of the development: errors as the left side of a sum with
  its sequencing operators, byte strings with the little- and big-endian codecs of
  \<open>DataView\<close>, the insertion-ordered \<open>Map\<close> of JavaScript, and the string
  operations the code calls.

  A JavaScript string is a \<open>string\<close>: each \<open>char\<close> is one UTF-16 code unit below
  \<open>0x100\<close>, so the models speak of Latin-1 text and every string operation below is
  exact on it.  A \<open>Uint8Array\<close> is a list of bytes.
\<close>

unbundle bit_operations_syntax

named_theorems result_simps \<open>inversion of successful and failing computations\<close>
named_theorems codec_simps \<open>lengths and round trips of the byte codecs\<close>

type_synonym byte = "8 word"
type_synonym bytes = "8 word list"

section \<open>Results\<close>

text \<open>A \<open>throw\<close> is \<open>Inl\<close>, a returned value is \<open>Inr\<close>.\<close>

definition rbind :: "'e + 'a \<Rightarrow> ('a \<Rightarrow> 'e + 'b) \<Rightarrow> 'e + 'b" where
  "rbind r f = (case r of Inl e \<Rightarrow> Inl e | Inr x \<Rightarrow> f x)"

definition ensure :: "bool \<Rightarrow> 'e \<Rightarrow> 'e + unit" where
  "ensure c e = (if c then Inr () else Inl e)"

fun mapR :: "('a \<Rightarrow> 'e + 'b) \<Rightarrow> 'a list \<Rightarrow> 'e + 'b list" where
  "mapR f [] = Inr []"
| "mapR f (x # xs) = (case f x of Inl e \<Rightarrow> Inl e | Inr y \<Rightarrow>
     (case mapR f xs of Inl e \<Rightarrow> Inl e | Inr ys \<Rightarrow> Inr (y # ys)))"

lemma rbind_Inl [simp]: "rbind (Inl e) f = Inl e"
  by (simp add: rbind_def)

lemma rbind_Inr [simp]: "rbind (Inr x) f = f x"
  by (simp add: rbind_def)

lemma rbind_cong [fundef_cong]:
  "r = r' \<Longrightarrow> (\<And>x. r' = Inr x \<Longrightarrow> f x = g x) \<Longrightarrow> rbind r f = rbind r' g"
  by (cases r') auto

lemma rbind_eq_Inr [result_simps]: "rbind r f = Inr y \<longleftrightarrow> (\<exists>x. r = Inr x \<and> f x = Inr y)"
  by (cases r) auto

lemma rbind_eq_Inl [result_simps]:
  "rbind r f = Inl e \<longleftrightarrow> r = Inl e \<or> (\<exists>x. r = Inr x \<and> f x = Inl e)"
  by (cases r) auto

lemma ensure_eq_Inr [result_simps]: "ensure c e = Inr u \<longleftrightarrow> c"
  by (simp add: ensure_def)

lemma ensure_eq_Inl [result_simps]: "ensure c e = Inl e' \<longleftrightarrow> \<not> c \<and> e' = e"
  by (auto simp: ensure_def)

lemma ensure_True [simp]: "ensure True e = Inr ()"
  by (simp add: ensure_def)

lemma ensure_False [simp]: "ensure False e = Inl e"
  by (simp add: ensure_def)

lemma mapR_ext: "(\<And>x. x \<in> set ys \<Longrightarrow> f x = g x) \<Longrightarrow> mapR f ys = mapR g ys"
  by (induction ys) (auto split: sum.splits)

lemma mapR_cong [fundef_cong]:
  "xs = ys \<Longrightarrow> (\<And>x. x \<in> set ys \<Longrightarrow> f x = g x) \<Longrightarrow> mapR f xs = mapR g ys"
  using mapR_ext by blast

lemma mapR_eq_Inr: "mapR f xs = Inr ys \<longleftrightarrow> list_all2 (\<lambda>x y. f x = Inr y) xs ys"
proof (induction xs arbitrary: ys)
  case Nil
  show ?case by auto
next
  case (Cons x xs)
  show ?case
  proof (cases "f x")
    case (Inl e)
    then show ?thesis by (cases ys) auto
  next
    case (Inr y)
    then show ?thesis by (cases ys; cases "mapR f xs") (auto simp: Cons.IH [symmetric])
  qed
qed

lemma mapR_eq_Inl: "mapR f xs = Inl e \<Longrightarrow> \<exists>x\<in>set xs. f x = Inl e"
  by (induction xs) (auto split: sum.splits)

lemma mapR_length [result_simps]: "mapR f xs = Inr ys \<Longrightarrow> length ys = length xs"
  by (simp add: mapR_eq_Inr list_all2_lengthD)

lemma mapR_mem: "mapR f xs = Inr ys \<Longrightarrow> y \<in> set ys \<Longrightarrow> \<exists>x\<in>set xs. f x = Inr y"
  by (auto simp: mapR_eq_Inr in_set_conv_nth list_all2_conv_all_nth) (metis nth_mem)

lemma mapR_mem_of: "mapR f xs = Inr ys \<Longrightarrow> x \<in> set xs \<Longrightarrow> \<exists>y\<in>set ys. f x = Inr y"
  by (induction xs arbitrary: ys) (auto split: sum.splits)

lemma mapR_all: "(\<And>x. x \<in> set xs \<Longrightarrow> f x = Inr (g x)) \<Longrightarrow> mapR f xs = Inr (map g xs)"
  by (induction xs) auto

section \<open>Bytes\<close>

text \<open>\<open>DataView.setUint16/32\<close> and \<open>getUint16/32\<close>, little-endian, at any width.\<close>

fun le_bytes :: "nat \<Rightarrow> nat \<Rightarrow> bytes" where
  "le_bytes 0 n = []"
| "le_bytes (Suc k) n = word_of_nat (n mod 256) # le_bytes k (n div 256)"

fun le_nat :: "bytes \<Rightarrow> nat" where
  "le_nat [] = 0"
| "le_nat (b # bs) = unat b + 256 * le_nat bs"

lemma length_le_bytes [simp, codec_simps]: "length (le_bytes k n) = k"
  by (induction k arbitrary: n) auto

lemma unat_byte_of_nat [simp]: "unat (word_of_nat (n mod 256) :: 8 word) = n mod 256"
  by (simp add: unat_of_nat)

lemma le_nat_le_bytes [codec_simps]: "le_nat (le_bytes k n) = n mod 256 ^ k"
proof (induction k arbitrary: n)
  case 0
  show ?case by simp
next
  case (Suc k)
  have "le_nat (le_bytes (Suc k) n) = n mod 256 + 256 * (n div 256 mod 256 ^ k)"
    by (simp add: Suc.IH)
  also have "\<dots> = n mod (256 * 256 ^ k)"
    by (simp add: mod_mult2_eq)
  finally show ?case by simp
qed

lemma byte_bound: "unat (b :: 8 word) < 256"
  using unsigned_less [of b] by simp

lemma le_nat_bound: "le_nat bs < 256 ^ length bs"
proof (induction bs)
  case Nil
  show ?case by simp
next
  case (Cons b bs)
  have "unat b < 256" by (rule byte_bound)
  with Cons show ?case by simp
qed

lemma le_bytes_le_nat [codec_simps]: "length bs = k \<Longrightarrow> le_bytes k (le_nat bs) = bs"
proof (induction bs arbitrary: k)
  case Nil
  then show ?case by simp
next
  case (Cons b bs)
  have b: "unat b < 256" by (rule byte_bound)
  from Cons.prems obtain k' where k: "k = Suc k'" and "length bs = k'" by auto
  with Cons.IH have "le_bytes k' (le_nat bs) = bs" by simp
  with b show ?case by (simp add: k)
qed

text \<open>\<open>setBigInt64\<close>: the low 64 bits of the integer; \<open>getBigInt64\<close>: two's complement.\<close>

definition i64_wrap :: "int \<Rightarrow> nat" where
  "i64_wrap i = nat (i mod 2 ^ 64)"

definition i64_value :: "nat \<Rightarrow> int" where
  "i64_value n = (if n < 2 ^ 63 then int n else int n - 2 ^ 64)"

definition i64_le :: "int \<Rightarrow> bytes" where
  "i64_le i = le_bytes 8 (i64_wrap i)"

definition i64_be :: "int \<Rightarrow> bytes" where
  "i64_be i = rev (i64_le i)"

definition i64_of_le :: "bytes \<Rightarrow> int" where
  "i64_of_le bs = i64_value (le_nat bs)"

definition i64_of_be :: "bytes \<Rightarrow> int" where
  "i64_of_be bs = i64_of_le (rev bs)"

lemma length_i64 [simp, codec_simps]: "length (i64_le i) = 8" "length (i64_be i) = 8"
  by (simp_all add: i64_le_def i64_be_def)

lemma i64_value_wrap: "- (2 ^ 63) \<le> i \<Longrightarrow> i < 2 ^ 63 \<Longrightarrow> i64_value (i64_wrap i) = i"
proof -
  assume lo: "- (2 ^ 63) \<le> i" and hi: "i < 2 ^ 63"
  show ?thesis
  proof (cases "0 \<le> i")
    case True
    then have "i mod 2 ^ 64 = i" using hi by simp
    with True hi show ?thesis by (simp add: i64_value_def i64_wrap_def nat_less_iff)
  next
    case False
    have "i mod 2 ^ 64 = (i + 2 ^ 64) mod 2 ^ 64" by simp
    also have "\<dots> = i + 2 ^ 64" using lo False by (intro mod_pos_pos_trivial) auto
    finally have m: "i mod 2 ^ 64 = i + 2 ^ 64" .
    from lo have "\<not> nat (i + 2 ^ 64) < 2 ^ 63" by (simp add: nat_less_iff)
    with m lo show ?thesis by (simp add: i64_value_def i64_wrap_def)
  qed
qed

lemma i64_wrap_bound: "i64_wrap i < 256 ^ 8"
  by (simp add: i64_wrap_def nat_less_iff)

lemma i64_le_roundtrip [codec_simps]:
  "- (2 ^ 63) \<le> i \<Longrightarrow> i < 2 ^ 63 \<Longrightarrow> i64_of_le (i64_le i) = i"
  using i64_wrap_bound [of i]
  by (simp add: i64_of_le_def i64_le_def le_nat_le_bytes i64_value_wrap)

lemma i64_be_roundtrip [codec_simps]:
  "- (2 ^ 63) \<le> i \<Longrightarrow> i < 2 ^ 63 \<Longrightarrow> i64_of_be (i64_be i) = i"
  by (simp add: i64_of_be_def i64_be_def i64_le_roundtrip)

lemma i64_le_inj:
  assumes "i64_le i = i64_le j" "- (2 ^ 63) \<le> i" "i < 2 ^ 63" "- (2 ^ 63) \<le> j" "j < 2 ^ 63"
  shows "i = j"
  using assms i64_le_roundtrip by metis

section \<open>Insertion-ordered maps\<close>

text \<open>
  The \<open>Map\<close> of JavaScript: \<open>set\<close> on a present key keeps its place, on a new key
  appends; \<open>delete\<close> removes the entry, so a later \<open>set\<close> moves the key to the end.
\<close>

type_synonym ('k, 'v) jsmap = "('k \<times> 'v) list"

definition jm_get :: "('k, 'v) jsmap \<Rightarrow> 'k \<Rightarrow> 'v option" where
  "jm_get m k = map_of m k"

definition jm_has :: "('k, 'v) jsmap \<Rightarrow> 'k \<Rightarrow> bool" where
  "jm_has m k \<longleftrightarrow> k \<in> fst ` set m"

fun jm_set :: "'k \<Rightarrow> 'v \<Rightarrow> ('k, 'v) jsmap \<Rightarrow> ('k, 'v) jsmap" where
  "jm_set k v [] = [(k, v)]"
| "jm_set k v ((k', v') # m) = (if k' = k then (k, v) # m else (k', v') # jm_set k v m)"

definition jm_del :: "'k \<Rightarrow> ('k, 'v) jsmap \<Rightarrow> ('k, 'v) jsmap" where
  "jm_del k m = filter (\<lambda>(k', _). k' \<noteq> k) m"

text \<open>\<open>new Map(entries)\<close>: later entries overwrite earlier ones in place.\<close>

definition jm_of :: "('k \<times> 'v) list \<Rightarrow> ('k, 'v) jsmap" where
  "jm_of es = fold (\<lambda>(k, v). jm_set k v) es []"

definition jm_ok :: "('k, 'v) jsmap \<Rightarrow> bool" where
  "jm_ok m \<longleftrightarrow> distinct (map fst m)"

text \<open>The contract the clients of a key/value store rely on, and that of a map.\<close>

locale kv_store =
  fixes get :: "'m \<Rightarrow> 'k \<Rightarrow> 'v option"
    and put :: "'k \<Rightarrow> 'v \<Rightarrow> 'm \<Rightarrow> 'm"
    and ok :: "'m \<Rightarrow> bool"
  assumes get_put: "get (put k v m) j = (if j = k then Some v else get m j)"
    and ok_put: "ok m \<Longrightarrow> ok (put k v m)"
begin

lemma get_put_same: "get (put k v m) k = Some v"
  by (simp add: get_put)

lemma get_fold_put:
  "get (fold (\<lambda>(k, v). put k v) es m) j =
     (case map_of (rev es) j of Some v \<Rightarrow> Some v | None \<Rightarrow> get m j)"
proof (induction es arbitrary: m)
  case Nil
  show ?case by simp
next
  case (Cons e es)
  obtain k v where "e = (k, v)" by (cases e)
  then show ?case by (auto simp: Cons.IH get_put map_add_def split: option.splits)
qed

lemma ok_fold_put: "ok m \<Longrightarrow> ok (fold (\<lambda>(k, v). put k v) es m)"
  by (induction es arbitrary: m) (auto simp: ok_put)

lemma get_fold_put_mono:
  "get m j \<noteq> None \<Longrightarrow> get (fold (\<lambda>(k, v). put k v) es m) j \<noteq> None"
  by (simp add: get_fold_put split: option.splits)

end

locale js_map = kv_store get put ok
  for get :: "'m \<Rightarrow> 'k \<Rightarrow> 'v option"
    and put :: "'k \<Rightarrow> 'v \<Rightarrow> 'm \<Rightarrow> 'm"
    and ok :: "'m \<Rightarrow> bool" +
  fixes del :: "'k \<Rightarrow> 'm \<Rightarrow> 'm"
  assumes get_del: "get (del k m) j = (if j = k then None else get m j)"
    and ok_del: "ok m \<Longrightarrow> ok (del k m)"
begin

text \<open>A run of updates, each a value to set or a key to delete, leaves the last word on every key.\<close>

lemma get_updates:
  "get (fold (\<lambda>(k, w). case w of None \<Rightarrow> del k | Some v \<Rightarrow> put k v) us m) j =
     (case map_of (rev us) j of Some w \<Rightarrow> w | None \<Rightarrow> get m j)"
proof (induction us arbitrary: m)
  case Nil
  show ?case by simp
next
  case (Cons u us)
  obtain k w where "u = (k, w)" by (cases u)
  then show ?case
    by (cases w) (auto simp: Cons.IH get_put get_del map_add_def split: option.splits)
qed

lemma ok_updates:
  "ok m \<Longrightarrow> ok (fold (\<lambda>(k, w). case w of None \<Rightarrow> del k | Some v \<Rightarrow> put k v) us m)"
  by (induction us arbitrary: m) (auto simp: ok_put ok_del split: option.splits)

end

lemma jm_get_set: "jm_get (jm_set k v m) j = (if j = k then Some v else jm_get m j)"
  by (induction m rule: jm_set.induct) (auto simp: jm_get_def)

lemma jm_get_del: "jm_get (jm_del k m) j = (if j = k then None else jm_get m j)"
  by (induction m) (auto simp: jm_get_def jm_del_def)

lemma jm_set_keys: "set (map fst (jm_set k v m)) = insert k (set (map fst m))"
  by (induction k v m rule: jm_set.induct) auto

lemma jm_ok_set: "jm_ok m \<Longrightarrow> jm_ok (jm_set k v m)"
proof (induction k v m rule: jm_set.induct)
  case (2 k v k' v' m)
  then show ?case using jm_set_keys [of k v m] by (auto simp: jm_ok_def)
qed (simp add: jm_ok_def)

lemma jm_ok_del: "jm_ok m \<Longrightarrow> jm_ok (jm_del k m)"
  by (simp add: jm_ok_def jm_del_def distinct_map_filter)

interpretation jm: js_map jm_get jm_set jm_ok jm_del
  by unfold_locales (simp_all add: jm_get_set jm_get_del jm_ok_set jm_ok_del)

lemma jm_get_Nil [simp]: "jm_get [] k = None"
  by (simp add: jm_get_def)

lemma jm_ok_Nil [simp]: "jm_ok []"
  by (simp add: jm_ok_def)

lemma jm_has_iff: "jm_has m k \<longleftrightarrow> jm_get m k \<noteq> None"
  by (simp add: jm_has_def jm_get_def map_of_eq_None_iff)

lemma jm_get_keys: "jm_get m k \<noteq> None \<longleftrightarrow> k \<in> set (map fst m)"
  by (auto simp: jm_get_def map_of_eq_None_iff)

lemma jm_get_mem: "jm_ok m \<Longrightarrow> jm_get m k = Some v \<longleftrightarrow> (k, v) \<in> set m"
  by (simp add: jm_get_def jm_ok_def map_of_eq_Some_iff)

lemma jm_set_present: "jm_get m k \<noteq> None \<Longrightarrow> map fst (jm_set k v m) = map fst m"
  by (induction k v m rule: jm_set.induct) (auto simp: jm_get_def split: if_splits)

lemma jm_set_absent: "jm_get m k = None \<Longrightarrow> jm_set k v m = m @ [(k, v)]"
  by (induction k v m rule: jm_set.induct) (auto simp: jm_get_def split: if_splits)

lemma jm_of_get: "jm_get (jm_of es) k = map_of (rev es) k"
  using jm.get_fold_put [of es "[]" k] by (simp add: jm_of_def split: option.splits)

lemma jm_of_ok: "jm_ok (jm_of es)"
  unfolding jm_of_def by (rule jm.ok_fold_put) simp

lemma jm_of_distinct: "distinct (map fst es) \<Longrightarrow> jm_of es = es"
proof (induction es rule: rev_induct)
  case Nil
  show ?case by (simp add: jm_of_def)
next
  case (snoc e es)
  obtain k v where e: "e = (k, v)" by (cases e)
  with snoc have "jm_get es k = None" "jm_of es = es"
    by (auto simp: jm_get_def map_of_eq_None_iff)
  then show ?case by (simp add: jm_of_def e jm_set_absent)
qed

lemma jm_set_mem: "(k, v) \<in> set (jm_set j w m) \<Longrightarrow> (k = j \<and> v = w) \<or> (k, v) \<in> set m"
  by (induction j w m rule: jm_set.induct) (auto split: if_splits)

lemma map_of_rev_distinct: "distinct (map fst es) \<Longrightarrow> map_of (rev es) = map_of es"
  by (metis distinct_rev map_of_inject_set rev_map set_rev)

section \<open>Strings\<close>

text \<open>\<open>toLowerCase\<close> on Latin-1 code units: ASCII letters and the accented capitals.\<close>

definition lower_char :: "char \<Rightarrow> char" where
  "lower_char c = (let n = of_char c :: nat in
     if (65 \<le> n \<and> n \<le> 90) \<or> (192 \<le> n \<and> n \<le> 222 \<and> n \<noteq> 215) then char_of (n + 32) else c)"

definition to_lower :: "string \<Rightarrow> string" where
  "to_lower s = map lower_char s"

text \<open>\<open>TextEncoder.encode\<close>: one byte below \<open>0x80\<close>, two above.\<close>

definition utf8_char :: "char \<Rightarrow> bytes" where
  "utf8_char c = (let n = of_char c :: nat in
     if n < 128 then [word_of_nat n] else [word_of_nat (192 + n div 64), word_of_nat (128 + n mod 64)])"

definition utf8 :: "string \<Rightarrow> bytes" where
  "utf8 s = concat (map utf8_char s)"

definition utf8_length :: "string \<Rightarrow> nat" where
  "utf8_length s = length (utf8 s)"

fun starts_with :: "string \<Rightarrow> string \<Rightarrow> bool" where
  "starts_with s [] = True"
| "starts_with [] (p # ps) = False"
| "starts_with (c # cs) (p # ps) = (c = p \<and> starts_with cs ps)"

definition ends_with :: "string \<Rightarrow> string \<Rightarrow> bool" where
  "ends_with s p = starts_with (rev s) (rev p)"

fun str_includes :: "string \<Rightarrow> string \<Rightarrow> bool" where
  "str_includes [] p = (p = [])"
| "str_includes (c # cs) p = (starts_with (c # cs) p \<or> str_includes cs p)"

lemma starts_with_iff: "starts_with s p \<longleftrightarrow> (\<exists>t. s = p @ t)"
  by (induction s p rule: starts_with.induct) auto

lemma starts_with_drop: "starts_with s p \<Longrightarrow> s = p @ drop (length p) s"
  by (auto simp: starts_with_iff)

lemma ends_with_iff: "ends_with s p \<longleftrightarrow> (\<exists>t. s = t @ p)"
proof
  assume "ends_with s p"
  then obtain t where "rev s = rev p @ t" by (auto simp: ends_with_def starts_with_iff)
  then have "s = rev t @ p" by (metis rev_append rev_rev_ident)
  then show "\<exists>t. s = t @ p" ..
next
  assume "\<exists>t. s = t @ p"
  then show "ends_with s p" by (auto simp: ends_with_def starts_with_iff)
qed

lemma str_includes_iff: "str_includes s p \<longleftrightarrow> (\<exists>a b. s = a @ p @ b)"
proof (induction s)
  case Nil
  show ?case by auto
next
  case (Cons c s)
  show ?case
  proof
    assume "str_includes (c # s) p"
    then consider "starts_with (c # s) p" | "str_includes s p" by auto
    then show "\<exists>a b. c # s = a @ p @ b"
    proof cases
      case 1
      then obtain t where "c # s = [] @ p @ t" by (auto simp: starts_with_iff)
      then show ?thesis by blast
    next
      case 2
      then obtain a b where "s = a @ p @ b" using Cons.IH by blast
      then have "c # s = (c # a) @ p @ b" by simp
      then show ?thesis by blast
    qed
  next
    assume "\<exists>a b. c # s = a @ p @ b"
    then obtain a b where ab: "c # s = a @ p @ b" by blast
    show "str_includes (c # s) p"
    proof (cases a)
      case Nil
      with ab have "starts_with (c # s) p" by (auto simp: starts_with_iff)
      then show ?thesis by simp
    next
      case (Cons d a')
      with ab have "s = a' @ p @ b" by simp
      with Cons.IH show ?thesis by auto
    qed
  qed
qed

lemma utf8_append [simp]: "utf8 (s @ t) = utf8 s @ utf8 t"
  by (simp add: utf8_def)

lemma utf8_Nil [simp]: "utf8 [] = []"
  by (simp add: utf8_def)

lemma utf8_Cons: "utf8 (c # s) = utf8_char c @ utf8 s"
  by (simp add: utf8_def)

text \<open>
  \<open>TextDecoder("utf-8", {fatal: true}).decode\<close>: a malformed sequence throws, and a
  well-formed one above \<open>U+00FF\<close> is outside the string type of the model; both are \<open>None\<close>.
\<close>

fun utf8_decode :: "bytes \<Rightarrow> string option" where
  "utf8_decode [] = Some []"
| "utf8_decode (b # bs) =
     (if unat b < 128 then map_option (\<lambda>s. char_of (unat b) # s) (utf8_decode bs)
      else (case bs of
          [] \<Rightarrow> None
        | b' # bs' \<Rightarrow>
            if (unat b = 194 \<or> unat b = 195) \<and> 128 \<le> unat b' \<and> unat b' < 192
            then map_option (\<lambda>s. char_of ((unat b - 192) * 64 + (unat b' - 128)) # s) (utf8_decode bs')
            else None))"

lemma of_char_bound: "(of_char c :: nat) < 256"
proof -
  have "(of_char c :: nat) = of_char c mod 256" by (rule of_char_mod_256 [symmetric])
  then show ?thesis by (metis mod_less_divisor zero_less_numeral)
qed

lemma unat_small: "n < 256 \<Longrightarrow> unat (word_of_nat n :: 8 word) = n"
  by (simp add: unat_of_nat)

lemma utf8_char_narrow: "(of_char c :: nat) < 128 \<Longrightarrow> \<exists>b. utf8_char c = [b] \<and> unat b = of_char c"
  by (simp add: utf8_char_def unat_small)

lemma utf8_char_wide:
  assumes "\<not> (of_char c :: nat) < 128"
  obtains h l where "utf8_char c = [h, l]" "unat h = 192 + of_char c div 64" "unat l = 128 + of_char c mod 64"
    "(of_char c :: nat) div 64 = 2 \<or> (of_char c :: nat) div 64 = 3"
proof -
  let ?n = "of_char c :: nat"
  have n: "?n < 256" by (rule of_char_bound)
  have d: "?n div 64 = 2 \<or> ?n div 64 = 3" using assms n by arith
  have hi: "unat (word_of_nat (192 + ?n div 64) :: byte) = 192 + ?n div 64"
    using d by (intro unat_small) auto
  have "?n mod 64 < 64" by simp
  then have lo: "unat (word_of_nat (128 + ?n mod 64) :: byte) = 128 + ?n mod 64"
    by (intro unat_small) linarith
  from assms have "utf8_char c = [word_of_nat (192 + ?n div 64), word_of_nat (128 + ?n mod 64)]"
    by (simp add: utf8_char_def Let_def del: of_nat_add)
  from that [OF this hi lo d] show thesis .
qed

lemma utf8_decode_char: "utf8_decode (utf8_char c @ bs) = map_option (\<lambda>s. c # s) (utf8_decode bs)"
proof (cases "(of_char c :: nat) < 128")
  case True
  then obtain b where "utf8_char c = [b]" "unat b = of_char c" using utf8_char_narrow by blast
  with True show ?thesis by simp
next
  case False
  then obtain h l where hl: "utf8_char c = [h, l]" "unat h = 192 + of_char c div 64"
      "unat l = 128 + of_char c mod 64" "(of_char c :: nat) div 64 = 2 \<or> (of_char c :: nat) div 64 = 3"
    by (rule utf8_char_wide)
  have "(of_char c :: nat) div 64 * 64 + of_char c mod 64 = of_char c" by simp
  moreover have "(of_char c :: nat) mod 64 < 64" by simp
  ultimately show ?thesis using hl by (auto simp del: div_mult_mod_eq)
qed

lemma utf8_decode_utf8 [codec_simps]: "utf8_decode (utf8 s) = Some s"
  by (induction s) (simp_all add: utf8_Cons utf8_decode_char)

lemma utf8_inj: "utf8 s = utf8 t \<Longrightarrow> s = t"
  by (metis option.inject utf8_decode_utf8)

lemma utf8_Nil_iff [simp]: "utf8 s = [] \<longleftrightarrow> s = []"
  by (metis utf8_Nil utf8_inj)

text \<open>\<open>JSON.stringify\<close> of a string, and of an array of strings.\<close>

definition hex_digit :: "nat \<Rightarrow> char" where
  "hex_digit n = char_of (if n < 10 then 48 + n else 87 + n)"

definition json_quote_char :: "char \<Rightarrow> string" where
  "json_quote_char c = (let n = of_char c :: nat in
     if n = 34 then [CHR 0x5C, CHR 0x22]
     else if n = 92 then [CHR 0x5C, CHR 0x5C]
     else if n = 8 then [CHR 0x5C, CHR ''b'']
     else if n = 9 then [CHR 0x5C, CHR ''t'']
     else if n = 10 then [CHR 0x5C, CHR ''n'']
     else if n = 12 then [CHR 0x5C, CHR ''f'']
     else if n = 13 then [CHR 0x5C, CHR ''r'']
     else if n < 32 then [CHR 0x5C, CHR ''u'', CHR ''0'', CHR ''0'', hex_digit (n div 16), hex_digit (n mod 16)]
     else [c])"

definition json_quote :: "string \<Rightarrow> string" where
  "json_quote s = [CHR 0x22] @ concat (map json_quote_char s) @ [CHR 0x22]"

fun join_with :: "string \<Rightarrow> string list \<Rightarrow> string" where
  "join_with sep [] = []"
| "join_with sep [s] = s"
| "join_with sep (s # t # ss) = s @ sep @ join_with sep (t # ss)"

definition json_string_array :: "string list \<Rightarrow> string" where
  "json_string_array ss = ''['' @ join_with '','' (map json_quote ss) @ '']''"

text \<open>Decimal notation of integers.\<close>

fun nat_to_string :: "nat \<Rightarrow> string" where
  "nat_to_string n = (if n < 10 then [char_of (48 + n)] else nat_to_string (n div 10) @ [char_of (48 + n mod 10)])"

declare nat_to_string.simps [simp del]

definition int_to_string :: "int \<Rightarrow> string" where
  "int_to_string i = (if i < 0 then CHR ''-'' # nat_to_string (nat (- i)) else nat_to_string (nat i))"

definition decimal_value :: "string \<Rightarrow> nat" where
  "decimal_value s = foldl (\<lambda>a c. 10 * a + (of_char c - 48)) 0 s"

lemma decimal_value_nat [codec_simps]: "decimal_value (nat_to_string n) = n"
proof (induction n rule: nat_to_string.induct)
  case (1 n)
  show ?case
  proof (cases "n < 10")
    case True
    then show ?thesis by (simp add: nat_to_string.simps [of n] decimal_value_def)
  next
    case False
    have "(48 + n mod 10) mod 256 = 48 + n mod 10" by (intro mod_less) presburger
    with False 1 show ?thesis
      by (simp add: nat_to_string.simps [of n] decimal_value_def)
  qed
qed

lemma nat_to_string_inj [simp]: "nat_to_string m = nat_to_string n \<longleftrightarrow> m = n"
  by (metis decimal_value_nat)

lemma split_at_separator:
  assumes "xs @ z # ys = xs' @ z # ys'" "z \<notin> set xs" "z \<notin> set xs'"
  shows "xs = xs' \<and> ys = ys'"
  using assms
proof (induction xs arbitrary: xs')
  case Nil
  then show ?case by (cases xs') auto
next
  case (Cons x xs)
  then show ?case by (cases xs') auto
qed

section \<open>Sorting with a comparison function\<close>

text \<open>\<open>Array.sort\<close> is stable: an element stays before those it is not greater than.\<close>

fun insert_by :: "('a \<Rightarrow> 'a \<Rightarrow> bool) \<Rightarrow> 'a \<Rightarrow> 'a list \<Rightarrow> 'a list" where
  "insert_by le x [] = [x]"
| "insert_by le x (y # ys) = (if le x y then x # y # ys else y # insert_by le x ys)"

definition sort_by :: "('a \<Rightarrow> 'a \<Rightarrow> bool) \<Rightarrow> 'a list \<Rightarrow> 'a list" where
  "sort_by le xs = foldr (insert_by le) xs []"

lemma sort_by_simps [simp]: "sort_by le [] = []" "sort_by le (x # xs) = insert_by le x (sort_by le xs)"
  by (simp_all add: sort_by_def)

lemma set_insert_by [simp]: "set (insert_by le x xs) = insert x (set xs)"
  by (induction xs) auto

lemma set_sort_by [simp]: "set (sort_by le xs) = set xs"
  by (induction xs) auto

lemma length_insert_by [simp]: "length (insert_by le x xs) = Suc (length xs)"
  by (induction xs) auto

lemma length_sort_by [simp]: "length (sort_by le xs) = length xs"
  by (induction xs) auto

locale total_preorder =
  fixes le :: "'a \<Rightarrow> 'a \<Rightarrow> bool"
  assumes total: "le a b \<or> le b a"
    and trans: "le a b \<Longrightarrow> le b c \<Longrightarrow> le a c"
begin

lemma sorted_insert_by: "sorted_wrt le xs \<Longrightarrow> sorted_wrt le (insert_by le x xs)"
proof (induction xs)
  case (Cons y ys)
  then show ?case using total [of x y] trans by (cases "le x y") auto
qed simp

lemma sorted_sort_by: "sorted_wrt le (sort_by le xs)"
  by (induction xs) (auto intro: sorted_insert_by)

end

lemma sort_by_sorted: "sorted_wrt le xs \<Longrightarrow> sort_by le xs = xs"
proof (induction xs)
  case (Cons x xs)
  then show ?case by (cases xs) auto
qed simp

end
