(* ===== verification/JsValue.thy ===== *)
theory JsValue
  imports Complex_Main Prelude
begin

text \<open>
  The JavaScript values that filters and payloads carry, as the canonical read-out of an
  Arrow column yields them, with the operators of the language the code applies to them:
  IEEE double arithmetic, the relational operators, the conversions, and the structural
  equality \<open>deepEqual\<close> of \<open>src/filter-pushdown/evaluate.ts\<close>.
\<close>

section \<open>Numbers\<close>

text \<open>
  A double: \<open>NaN\<close>, an infinity (\<open>True\<close> is the negative one), negative zero, or a finite
  value as the rational it denotes (\<open>Fin 0\<close> is positive zero).
\<close>

datatype jsnum = NaN | Inf bool | NegZero | Fin rat

definition pow2 :: "int \<Rightarrow> rat" where
  "pow2 k = (if 0 \<le> k then 2 ^ nat k else 1 / 2 ^ nat (- k))"

fun bit_length :: "nat \<Rightarrow> nat" where
  "bit_length n = (if n = 0 then 0 else Suc (bit_length (n div 2)))"

declare bit_length.simps [simp del]

text \<open>The exponent of the binade of a positive rational.\<close>

definition ilog2 :: "rat \<Rightarrow> int" where
  "ilog2 a = (let (n, d) = quotient_of a;
                  k = int (bit_length (nat n)) - int (bit_length (nat d))
              in if pow2 k \<le> a then k else k - 1)"

definition round_half_even :: "rat \<Rightarrow> int" where
  "round_half_even r = (let f = \<lfloor>r\<rfloor>; d = r - of_int f in
     if d < 1 / 2 then f else if 1 / 2 < d then f + 1 else if even f then f else f + 1)"

text \<open>Round to nearest, ties to even; \<open>neg\<close> is the sign a zero result gets.\<close>

definition round_double :: "bool \<Rightarrow> rat \<Rightarrow> jsnum" where
  "round_double neg x =
     (if x = 0 then (if neg then NegZero else Fin 0)
      else let a = \<bar>x\<bar>;
               q = max (ilog2 a) (- 1022) - 52;
               r = of_int (round_half_even (a / pow2 q)) * pow2 q
           in if pow2 1024 \<le> r then Inf (x < 0)
              else if r = 0 then (if x < 0 then NegZero else Fin 0)
              else Fin (if x < 0 then - r else r))"

definition num_of_int :: "int \<Rightarrow> jsnum" where
  "num_of_int i = (if \<bar>i\<bar> \<le> 2 ^ 53 then Fin (of_int i) else round_double False (of_int i))"

fun num_sign :: "jsnum \<Rightarrow> bool" where
  "num_sign NaN = False"
| "num_sign (Inf s) = s"
| "num_sign NegZero = True"
| "num_sign (Fin r) = (r < 0)"

fun num_value :: "jsnum \<Rightarrow> rat" where
  "num_value (Fin r) = r"
| "num_value _ = 0"

definition num_zero :: "jsnum \<Rightarrow> bool" where
  "num_zero x \<longleftrightarrow> x = NegZero \<or> x = Fin 0"

fun num_neg :: "jsnum \<Rightarrow> jsnum" where
  "num_neg NaN = NaN"
| "num_neg (Inf s) = Inf (\<not> s)"
| "num_neg NegZero = Fin 0"
| "num_neg (Fin r) = (if r = 0 then NegZero else Fin (- r))"

definition num_add :: "jsnum \<Rightarrow> jsnum \<Rightarrow> jsnum" where
  "num_add x y = (case (x, y) of
     (NaN, _) \<Rightarrow> NaN | (_, NaN) \<Rightarrow> NaN
   | (Inf s, Inf t) \<Rightarrow> if s = t then Inf s else NaN
   | (Inf s, _) \<Rightarrow> Inf s | (_, Inf t) \<Rightarrow> Inf t
   | (NegZero, NegZero) \<Rightarrow> NegZero
   | _ \<Rightarrow> round_double False (num_value x + num_value y))"

definition num_mul :: "jsnum \<Rightarrow> jsnum \<Rightarrow> jsnum" where
  "num_mul x y = (let s = (num_sign x \<noteq> num_sign y) in case (x, y) of
     (NaN, _) \<Rightarrow> NaN | (_, NaN) \<Rightarrow> NaN
   | (Inf _, _) \<Rightarrow> if num_zero y then NaN else Inf s
   | (_, Inf _) \<Rightarrow> if num_zero x then NaN else Inf s
   | _ \<Rightarrow> round_double s (num_value x * num_value y))"

definition num_div :: "jsnum \<Rightarrow> jsnum \<Rightarrow> jsnum" where
  "num_div x y = (let s = (num_sign x \<noteq> num_sign y) in case (x, y) of
     (NaN, _) \<Rightarrow> NaN | (_, NaN) \<Rightarrow> NaN
   | (Inf _, Inf _) \<Rightarrow> NaN
   | (Inf _, _) \<Rightarrow> Inf s
   | (_, Inf _) \<Rightarrow> if s then NegZero else Fin 0
   | _ \<Rightarrow> if num_zero y then (if num_zero x then NaN else Inf s)
         else round_double s (num_value x / num_value y))"

definition rat_trunc :: "rat \<Rightarrow> int" where
  "rat_trunc r = (if 0 \<le> r then \<lfloor>r\<rfloor> else - \<lfloor>- r\<rfloor>)"

text \<open>\<open>%\<close>: the remainder has the sign of the dividend, and is exact.\<close>

definition num_mod :: "jsnum \<Rightarrow> jsnum \<Rightarrow> jsnum" where
  "num_mod x y = (case (x, y) of
     (NaN, _) \<Rightarrow> NaN | (_, NaN) \<Rightarrow> NaN
   | (Inf _, _) \<Rightarrow> NaN
   | (_, Inf _) \<Rightarrow> x
   | _ \<Rightarrow> if num_zero y then NaN
         else let a = num_value x; b = num_value y; r = a - b * of_int (rat_trunc (a / b))
              in if r = 0 then (if num_sign x then NegZero else Fin 0) else Fin r)"

fun num_trunc :: "jsnum \<Rightarrow> jsnum" where
  "num_trunc (Fin r) = (if rat_trunc r = 0 then (if r < 0 then NegZero else Fin 0) else Fin (of_int (rat_trunc r)))"
| "num_trunc x = x"

text \<open>\<open>===\<close> and \<open><\<close> on numbers.\<close>

definition num_eq :: "jsnum \<Rightarrow> jsnum \<Rightarrow> bool" where
  "num_eq x y = (case (x, y) of
     (NaN, _) \<Rightarrow> False | (_, NaN) \<Rightarrow> False
   | (Inf s, Inf t) \<Rightarrow> s = t | (Inf _, _) \<Rightarrow> False | (_, Inf _) \<Rightarrow> False
   | _ \<Rightarrow> num_value x = num_value y)"

definition num_lt :: "jsnum \<Rightarrow> jsnum \<Rightarrow> bool" where
  "num_lt x y = (case (x, y) of
     (NaN, _) \<Rightarrow> False | (_, NaN) \<Rightarrow> False
   | (Inf s, Inf t) \<Rightarrow> s \<and> \<not> t | (Inf s, _) \<Rightarrow> s | (_, Inf t) \<Rightarrow> \<not> t
   | _ \<Rightarrow> num_value x < num_value y)"

definition is_integer :: "jsnum \<Rightarrow> bool" where
  "is_integer x = (case x of NegZero \<Rightarrow> True | Fin r \<Rightarrow> of_int \<lfloor>r\<rfloor> = r | _ \<Rightarrow> False)"

definition num_floor :: "jsnum \<Rightarrow> int" where
  "num_floor x = \<lfloor>num_value x\<rfloor>"

text \<open>\<open>Number.isSafeInteger\<close>.\<close>

definition is_safe_integer :: "jsnum \<Rightarrow> bool" where
  "is_safe_integer x \<longleftrightarrow> is_integer x \<and> \<bar>num_floor x\<bar> \<le> 2 ^ 53 - 1"

section \<open>Values\<close>

datatype jsval =
    VUndef | VNull | VBool bool | VNum jsnum | VBig int | VStr string | VBytes bytes
  | VArr "jsval list" | VObj "(string \<times> jsval) list"

fun is_object :: "jsval \<Rightarrow> bool" where
  "is_object (VBytes _) = True" | "is_object (VArr _) = True" | "is_object (VObj _) = True"
| "is_object _ = False"

definition byte_num :: "byte \<Rightarrow> jsval" where
  "byte_num b = VNum (Fin (of_nat (unat b)))"

definition index_props :: "jsval list \<Rightarrow> (string \<times> jsval) list" where
  "index_props vs = zip (map nat_to_string [0..<length vs]) vs"

text \<open>\<open>Object.entries\<close>: own enumerable properties.\<close>

fun own_props :: "jsval \<Rightarrow> (string \<times> jsval) list" where
  "own_props (VObj es) = es"
| "own_props (VArr vs) = index_props vs"
| "own_props (VBytes bs) = index_props (map byte_num bs)"
| "own_props _ = []"

fun jsize :: "jsval \<Rightarrow> nat" where
  "jsize (VArr vs) = Suc (sum_list (map jsize vs))"
| "jsize (VObj es) = Suc (sum_list (map (\<lambda>e. jsize (snd e)) es))"
| "jsize (VBytes bs) = Suc (length bs)"
| "jsize _ = 1"

lemma member_sum_list: "x \<in> set xs \<Longrightarrow> (f x :: nat) \<le> sum_list (map f xs)"
  by (induction xs) auto

lemma own_props_smaller [termination_simp]: "(k, v) \<in> set (own_props a) \<Longrightarrow> jsize v < jsize a"
proof (cases a)
  case (VBytes bs)
  assume "(k, v) \<in> set (own_props a)"
  with VBytes have "v \<in> byte_num ` set bs" and "bs \<noteq> []"
    by (auto simp: index_props_def dest: set_zip_rightD)
  then show ?thesis using VBytes by (cases bs) (auto simp: byte_num_def)
next
  case (VArr vs)
  assume "(k, v) \<in> set (own_props a)"
  with VArr have "v \<in> set vs" by (auto simp: index_props_def dest: set_zip_rightD)
  then show ?thesis using VArr member_sum_list [of v vs jsize] by simp
next
  case (VObj es)
  assume "(k, v) \<in> set (own_props a)"
  then show ?thesis using VObj member_sum_list [of "(k, v)" es "\<lambda>e. jsize (snd e)"] by simp
qed simp_all

lemmas own_props_smaller_kinds [termination_simp] =
  own_props_smaller [of _ _ "VArr vs" for vs, simplified]
  own_props_smaller [of _ _ "VObj es" for es, simplified]
  own_props_smaller [of _ _ "VBytes bs" for bs, simplified]

lemma zip_member_smaller [termination_simp]: "(x, y) \<in> set (zip xs ys) \<Longrightarrow> jsize x < Suc (sum_list (map jsize xs))"
  by (drule set_zip_leftD) (simp add: member_sum_list less_Suc_eq_le)

definition num_same :: "jsnum \<Rightarrow> jsnum \<Rightarrow> bool" where
  "num_same x y \<longleftrightarrow> num_eq x y \<or> (x = NaN \<and> y = NaN)"

text \<open>\<open>===\<close> between values that are not both objects.\<close>

definition strict_equal :: "jsval \<Rightarrow> jsval \<Rightarrow> bool" where
  [simp]: "strict_equal a b = (case a of VNum x \<Rightarrow> (case b of VNum y \<Rightarrow> num_eq x y | _ \<Rightarrow> False) | _ \<Rightarrow> a = b)"

text \<open>\<open>deepEqual\<close>.\<close>

function deepEqual :: "jsval \<Rightarrow> jsval \<Rightarrow> bool" where
  "deepEqual left right =
     (case (left, right) of
        (VNum x, VNum y) \<Rightarrow> num_same x y
      | (VBytes a, VBytes b) \<Rightarrow> a = b
      | (VArr xs, VArr ys) \<Rightarrow> length xs = length ys \<and> list_all (\<lambda>(x, y). deepEqual x y) (zip xs ys)
      | _ \<Rightarrow>
          if is_object left \<and> is_object right
          then length (own_props left) = length (own_props right) \<and>
               list_all (\<lambda>(k, v). case map_of (own_props right) k of
                   None \<Rightarrow> False | Some w \<Rightarrow> deepEqual v w) (own_props left)
          else strict_equal left right)"
  by pat_completeness auto
termination
  by (relation "measure (\<lambda>(a, b). jsize a)") (auto simp: own_props_smaller_kinds zip_member_smaller)

declare deepEqual.simps [simp del]

lemma deepEqual_atom:
  "\<not> (is_object left \<and> is_object right) \<Longrightarrow> \<not> (\<exists>x y. left = VNum x \<and> right = VNum y) \<Longrightarrow>
     deepEqual left right = strict_equal left right"
  by (subst deepEqual.simps) (auto split: jsval.splits)

section \<open>\<open>deepEqual\<close> is an equivalence\<close>

text \<open>
  Every value has a canonical form in which equality of values is equality: an object of
  any kind is the finite map of its properties, and the two zeros are one.
\<close>

datatype canonical = CAtom jsval | CObj "string \<Rightarrow> canonical option"

fun canon_num :: "jsnum \<Rightarrow> jsnum" where
  "canon_num NegZero = Fin 0"
| "canon_num x = x"

function canon :: "jsval \<Rightarrow> canonical" where
  "canon v = (if is_object v then CObj (\<lambda>k. map_option snd (map_of (map (\<lambda>(k, w). (k, (k, canon w))) (own_props v)) k))
              else CAtom (case v of VNum x \<Rightarrow> VNum (canon_num x) | _ \<Rightarrow> v))"
  by pat_completeness auto
termination
  by (relation "measure jsize") (auto simp: own_props_smaller)

declare canon.simps [simp del]

text \<open>Objects have distinct property names, hereditarily.\<close>

fun wf_val :: "jsval \<Rightarrow> bool" where
  "wf_val (VObj es) = (distinct (map fst es) \<and> list_all (\<lambda>e. wf_val (snd e)) es)"
| "wf_val (VArr vs) = list_all wf_val vs"
| "wf_val _ = True"

lemma num_same_canon: "num_same x y \<longleftrightarrow> canon_num x = canon_num y"
  by (cases x; cases y) (auto simp: num_same_def num_eq_def)

lemma index_props_keys: "map fst (index_props vs) = map nat_to_string [0..<length vs]"
  by (simp add: index_props_def)

lemma own_props_wf:
  assumes "wf_val v"
  shows "distinct (map fst (own_props v))" and "(k, w) \<in> set (own_props v) \<Longrightarrow> wf_val w"
proof -
  have "distinct (map nat_to_string [0..<n])" for n
    by (simp add: distinct_map inj_on_def)
  then show "distinct (map fst (own_props v))"
    using assms by (cases v) (simp_all add: index_props_keys)
  show "(k, w) \<in> set (own_props v) \<Longrightarrow> wf_val w"
    using assms by (cases v) (auto simp: index_props_def list_all_iff byte_num_def dest!: set_zip_rightD)
qed

lemma canon_object:
  assumes "is_object v"
  shows "canon v = CObj (\<lambda>k. map_option canon (map_of (own_props v) k))"
proof -
  have "map_option snd (map_of (map (\<lambda>(k, w). (k, (k, canon w))) ps) k) = map_option canon (map_of ps k)"
    for ps :: "(string \<times> jsval) list" and k
    by (induction ps) auto
  with assms show ?thesis by (simp add: canon.simps [of v])
qed

lemma map_of_index: "map_of (index_props vs) (nat_to_string i) = (if i < length vs then Some (vs ! i) else None)"
proof (cases "i < length vs")
  case True
  have "distinct (map fst (index_props vs))" unfolding index_props_keys by (simp add: distinct_map inj_on_def)
  moreover have "(nat_to_string i, vs ! i) \<in> set (index_props vs)"
    using True by (auto simp: index_props_def in_set_zip intro!: exI [of _ i])
  ultimately show ?thesis using True by simp
next
  case False
  then have "nat_to_string i \<notin> set (map fst (index_props vs))" unfolding index_props_keys by auto
  then have "map_of (index_props vs) (nat_to_string i) = None" by (simp add: map_of_eq_None_iff)
  with False show ?thesis by simp
qed

text \<open>Equal maps of properties, as \<open>deepEqual\<close> checks them on the entries.\<close>

lemma entries_equal_iff:
  assumes "distinct (map fst es)" "distinct (map fst fs)"
  shows "length es = length fs \<and> (\<forall>(k, v)\<in>set es. \<exists>w. map_of fs k = Some w \<and> f v = f w)
     \<longleftrightarrow> (\<lambda>k. map_option f (map_of es k)) = (\<lambda>k. map_option f (map_of fs k))" (is "?L \<longleftrightarrow> ?R")
proof
  assume l: ?L
  have sub: "fst ` set es \<subseteq> fst ` set fs"
  proof
    fix k assume "k \<in> fst ` set es"
    then obtain v where "(k, v) \<in> set es" by auto
    with l obtain w where "map_of fs k = Some w" by blast
    then show "k \<in> fst ` set fs" by (metis fst_conv image_eqI map_of_SomeD)
  qed
  have "card (fst ` set es) = length es" "card (fst ` set fs) = length fs"
    using assms by (metis distinct_card length_map list.set_map)+
  with l sub have keys: "fst ` set es = fst ` set fs"
    by (intro card_subset_eq) auto
  show ?R
  proof
    fix k
    show "map_option f (map_of es k) = map_option f (map_of fs k)"
    proof (cases "map_of es k")
      case None
      then have "map_of fs k = None" using keys by (simp add: map_of_eq_None_iff)
      with None show ?thesis by simp
    next
      case (Some v)
      then have "(k, v) \<in> set es" by (rule map_of_SomeD)
      with l Some show ?thesis by force
    qed
  qed
next
  assume r: ?R
  have dom: "dom (map_of es) = dom (map_of fs)"
    using r by (auto simp: dom_def fun_eq_iff) (metis option.map_disc_iff option.distinct(1) not_None_eq)+
  have "length es = length fs"
    using dom assms by (metis distinct_card dom_map_of_conv_image_fst length_map list.set_map)
  moreover have "\<exists>w. map_of fs k = Some w \<and> f v = f w" if "(k, v) \<in> set es" for k v
  proof -
    from that assms(1) have "map_of es k = Some v" by simp
    with r have "map_option f (map_of fs k) = Some (f v)" by (metis option.simps(9))
    then show ?thesis by auto
  qed
  ultimately show ?L by auto
qed

lemma canon_atom: "\<not> is_object v \<Longrightarrow> canon v = CAtom (case v of VNum x \<Rightarrow> VNum (canon_num x) | _ \<Rightarrow> v)"
  by (simp add: canon.simps [of v])

lemma index_props_equal_iff:
  "(\<lambda>k. map_option f (map_of (index_props xs) k)) = (\<lambda>k. map_option f (map_of (index_props ys) k))
   \<longleftrightarrow> length xs = length ys \<and> list_all (\<lambda>(x, y). f x = f y) (zip xs ys)" (is "?L \<longleftrightarrow> ?R")
proof
  assume l: ?L
  have pt: "map_option f (if i < length xs then Some (xs ! i) else None) =
      map_option f (if i < length ys then Some (ys ! i) else None)" for i
    using fun_cong [OF l, of "nat_to_string i"] by (simp add: map_of_index)
  have "i < length xs \<longleftrightarrow> i < length ys" for i
    using pt [of i] by (auto split: if_splits)
  then have len: "length xs = length ys" by (metis linorder_neqE_nat nat_less_le)
  moreover have "f (xs ! i) = f (ys ! i)" if "i < length xs" for i
    using pt [of i] that len by simp
  ultimately show ?R by (auto simp: list_all_length)
next
  assume r: ?R
  show ?L
  proof
    fix k
    show "map_option f (map_of (index_props xs) k) = map_option f (map_of (index_props ys) k)"
    proof (cases "\<exists>i<length xs. k = nat_to_string i")
      case True
      then obtain i where "i < length xs" "k = nat_to_string i" by blast
      with r show ?thesis by (auto simp: map_of_index list_all_length)
    next
      case False
      then have "k \<notin> set (map fst (index_props xs))" "k \<notin> set (map fst (index_props ys))"
        using r by (auto simp: index_props_keys)
      then have "map_of (index_props xs) k = None" "map_of (index_props ys) k = None"
        by (simp_all add: map_of_eq_None_iff)
      then show ?thesis by simp
    qed
  qed
qed

lemma canon_byte_num: "canon (byte_num a) = canon (byte_num b) \<longleftrightarrow> a = b"
  by (simp add: canon_atom byte_num_def word_unat_eq_iff del: of_nat_unat)

lemma deepEqual_canon: "wf_val a \<Longrightarrow> wf_val b \<Longrightarrow> deepEqual a b \<longleftrightarrow> canon a = canon b"
proof (induction a arbitrary: b rule: measure_induct_rule [where f = jsize])
  case (less left right)
  note wf = own_props_wf [OF less.prems(1)] own_props_wf [OF less.prems(2)]
  consider (num) x y where "left = VNum x" "right = VNum y"
    | (bytes) a b where "left = VBytes a" "right = VBytes b"
    | (arr) xs ys where "left = VArr xs" "right = VArr ys"
    | (obj) "is_object left" "is_object right" "\<not> (\<exists>xs ys. left = VArr xs \<and> right = VArr ys)"
        "\<not> (\<exists>a b. left = VBytes a \<and> right = VBytes b)"
    | (atom) "\<not> (is_object left \<and> is_object right)" "\<not> (\<exists>x y. left = VNum x \<and> right = VNum y)"
    by blast
  then show ?case
  proof cases
    case num
    then show ?thesis by (simp add: deepEqual.simps [of "VNum x" "VNum y"] canon_atom num_same_canon)
  next
    case bytes
    have "canon left = canon right \<longleftrightarrow> a = b"
      unfolding bytes by (simp add: canon_object index_props_equal_iff list_all_length canon_byte_num list_eq_iff_nth_eq cong: conj_cong)
    with bytes show ?thesis by (simp add: deepEqual.simps [of "VBytes a" "VBytes b"])
  next
    case arr
    have "deepEqual x y \<longleftrightarrow> canon x = canon y" if xy: "(x, y) \<in> set (zip xs ys)" for x y
    proof -
      have "wf_val x" "wf_val y"
        using xy less.prems arr by (auto simp: list_all_iff dest: set_zip_leftD set_zip_rightD)
      moreover have "jsize x < jsize left" using zip_member_smaller [OF xy] arr by simp
      ultimately show ?thesis by (intro less.IH)
    qed
    then have "list_all (\<lambda>(x, y). deepEqual x y) (zip xs ys) = list_all (\<lambda>(x, y). canon x = canon y) (zip xs ys)"
      by (auto simp: list_all_iff)
    with arr show ?thesis
      by (simp add: deepEqual.simps [of "VArr xs" "VArr ys"] canon_object index_props_equal_iff)
  next
    case obj
    have step: "deepEqual left right \<longleftrightarrow> length (own_props left) = length (own_props right) \<and>
        (\<forall>(k, v)\<in>set (own_props left). \<exists>w. map_of (own_props right) k = Some w \<and> deepEqual v w)"
      using obj by (cases left; cases right)
        (auto simp: deepEqual.simps [of "VArr _"] deepEqual.simps [of "VBytes _"] deepEqual.simps [of "VObj _"]
            list_all_iff split: option.splits)
    have "deepEqual v w \<longleftrightarrow> canon v = canon w"
      if kv: "(k, v) \<in> set (own_props left)" "map_of (own_props right) k = Some w" for k v w
    proof -
      have "wf_val v" "wf_val w" using kv wf by (auto dest: map_of_SomeD)
      moreover have "jsize v < jsize left" using kv(1) by (rule own_props_smaller)
      ultimately show ?thesis by (intro less.IH)
    qed
    then have "deepEqual left right \<longleftrightarrow> length (own_props left) = length (own_props right) \<and>
        (\<forall>(k, v)\<in>set (own_props left). \<exists>w. map_of (own_props right) k = Some w \<and> canon v = canon w)"
      unfolding step by (fastforce split: prod.splits)
    also have "\<dots> \<longleftrightarrow> canon left = canon right"
      unfolding entries_equal_iff [OF wf(1) wf(3)] by (simp add: canon_object obj)
    finally show ?thesis .
  next
    case atom
    then have "deepEqual left right = strict_equal left right"
      by (rule deepEqual_atom)
    also have "\<dots> \<longleftrightarrow> canon left = canon right"
      using atom by (cases left; cases right) (auto simp: canon_atom canon_object)
    finally show ?thesis .
  qed
qed

lemma deepEqual_refl: "wf_val a \<Longrightarrow> deepEqual a a"
  by (simp add: deepEqual_canon)

lemma deepEqual_sym: "wf_val a \<Longrightarrow> wf_val b \<Longrightarrow> deepEqual a b \<Longrightarrow> deepEqual b a"
  by (simp add: deepEqual_canon)

lemma deepEqual_trans:
  "wf_val a \<Longrightarrow> wf_val b \<Longrightarrow> wf_val c \<Longrightarrow> deepEqual a b \<Longrightarrow> deepEqual b c \<Longrightarrow> deepEqual a c"
  by (simp add: deepEqual_canon)

section \<open>Conversions and the relational operator\<close>

text \<open>
  The number formatting and parsing of the engine, which the language specifies as
  algorithms on decimal expansions, stay arguments: \<open>String(number)\<close>,
  \<open>Number(string)\<close>, and \<open>BigInt(string)\<close> with \<open>None\<close> for its \<open>SyntaxError\<close>.
\<close>

record host =
  num_to_string :: "jsnum \<Rightarrow> string"
  string_to_num :: "string \<Rightarrow> jsnum"
  string_to_bigint :: "string \<Rightarrow> int option"

text \<open>\<open>String(value)\<close>.\<close>

fun js_to_string :: "host \<Rightarrow> jsval \<Rightarrow> string" where
  "js_to_string h VUndef = ''undefined''"
| "js_to_string h VNull = ''null''"
| "js_to_string h (VBool b) = (if b then ''true'' else ''false'')"
| "js_to_string h (VNum x) = num_to_string h x"
| "js_to_string h (VBig i) = int_to_string i"
| "js_to_string h (VStr s) = s"
| "js_to_string h (VBytes bs) = join_with '','' (map (\<lambda>b. nat_to_string (unat b)) bs)"
| "js_to_string h (VArr vs) = join_with '',''
     (map (\<lambda>v. if v = VNull \<or> v = VUndef then [] else js_to_string h v) vs)"
| "js_to_string h (VObj _) = ''[object Object]''"

text \<open>\<open>Number(value)\<close>.\<close>

fun js_to_number :: "host \<Rightarrow> jsval \<Rightarrow> jsnum" where
  "js_to_number h VUndef = NaN"
| "js_to_number h VNull = Fin 0"
| "js_to_number h (VBool b) = Fin (if b then 1 else 0)"
| "js_to_number h (VNum x) = x"
| "js_to_number h (VBig i) = num_of_int i"
| "js_to_number h (VStr s) = string_to_num h s"
| "js_to_number h v = string_to_num h (js_to_string h v)"

fun str_less :: "string \<Rightarrow> string \<Rightarrow> bool" where
  "str_less _ [] = False"
| "str_less [] (_ # _) = True"
| "str_less (c # cs) (d # ds) =
     (if (of_char c :: nat) < of_char d then True
      else if (of_char d :: nat) < of_char c then False else str_less cs ds)"

definition to_primitive :: "host \<Rightarrow> jsval \<Rightarrow> jsval" where
  "to_primitive h v = (if is_object v then VStr (js_to_string h v) else v)"

definition big_less_num :: "int \<Rightarrow> jsnum \<Rightarrow> bool" where
  "big_less_num i x = (case x of NaN \<Rightarrow> False | Inf s \<Rightarrow> \<not> s | _ \<Rightarrow> of_int i < num_value x)"

definition num_less_big :: "jsnum \<Rightarrow> int \<Rightarrow> bool" where
  "num_less_big x i = (case x of NaN \<Rightarrow> False | Inf s \<Rightarrow> s | _ \<Rightarrow> num_value x < of_int i)"

text \<open>\<open>left < right\<close>.\<close>

definition js_less :: "host \<Rightarrow> jsval \<Rightarrow> jsval \<Rightarrow> bool" where
  "js_less h left right = (case (to_primitive h left, to_primitive h right) of
     (VStr a, VStr b) \<Rightarrow> str_less a b
   | (VBig i, VBig j) \<Rightarrow> i < j
   | (VBig i, VStr s) \<Rightarrow> (case string_to_bigint h s of None \<Rightarrow> False | Some j \<Rightarrow> i < j)
   | (VStr s, VBig j) \<Rightarrow> (case string_to_bigint h s of None \<Rightarrow> False | Some i \<Rightarrow> i < j)
   | (VBig i, b) \<Rightarrow> big_less_num i (js_to_number h b)
   | (a, VBig j) \<Rightarrow> num_less_big (js_to_number h a) j
   | (a, b) \<Rightarrow> num_lt (js_to_number h a) (js_to_number h b))"

end
