(* ===== verification/ArrowTypes.thy ===== *)
theory ArrowTypes
  imports JsValue
begin

text \<open>
  The backend-neutral Arrow surface of \<open>src/arrow/types.ts\<close> and
  \<open>src/arrow/predicates.ts\<close>: data types, fields, schemas, the type predicates and the
  structural key \<open>typeSignature\<close>, and a batch as the canonical read-out of its columns.
\<close>

section \<open>Types\<close>

text \<open>
  The parameters a type carries are the ones the code reads: bit widths and signedness,
  precisions and scales, units, sizes, children.  A field lists under \<open>f_ext\<close> the
  extension names its type object shows (\<open>extensionName\<close>, \<open>extension_name\<close>).
\<close>

datatype arrow_type =
    TNull
  | TInt nat bool
  | TFloat nat
  | TBinary
  | TUtf8
  | TBool
  | TDecimal nat int int
  | TDate nat
  | TTime nat
  | TTimestamp nat "string option"
  | TInterval nat
  | TList arrow_field
  | TStruct "arrow_field list"
  | TUnion nat "arrow_field list"
  | TFixedSizeBinary nat
  | TFixedSizeList nat arrow_field
  | TMap arrow_field
  | TDuration nat
  | TLargeBinary
  | TLargeUtf8
  | TDictionary arrow_type arrow_type bool
and arrow_field =
    Field (f_name: string) (f_type: arrow_type) (f_nullable: bool)
          (f_metadata: "(string \<times> string) list") (f_ext: "string list")

fun typeId :: "arrow_type \<Rightarrow> int" where
  "typeId TNull = 1"
| "typeId (TInt _ _) = 2"
| "typeId (TFloat _) = 3"
| "typeId TBinary = 4"
| "typeId TUtf8 = 5"
| "typeId TBool = 6"
| "typeId (TDecimal _ _ _) = 7"
| "typeId (TDate _) = 8"
| "typeId (TTime _) = 9"
| "typeId (TTimestamp _ _) = 10"
| "typeId (TInterval _) = 11"
| "typeId (TList _) = 12"
| "typeId (TStruct _) = 13"
| "typeId (TUnion _ _) = 14"
| "typeId (TFixedSizeBinary _) = 15"
| "typeId (TFixedSizeList _ _) = 16"
| "typeId (TMap _) = 17"
| "typeId (TDuration _) = 18"
| "typeId TLargeBinary = 19"
| "typeId TLargeUtf8 = 20"
| "typeId (TDictionary _ _ _) = - 1"

definition isNull :: "arrow_type \<Rightarrow> bool" where "isNull t \<longleftrightarrow> typeId t = 1"
definition isInt :: "arrow_type \<Rightarrow> bool" where "isInt t \<longleftrightarrow> typeId t = 2"
definition isFloat :: "arrow_type \<Rightarrow> bool" where "isFloat t \<longleftrightarrow> typeId t = 3"
definition isBinary :: "arrow_type \<Rightarrow> bool" where "isBinary t \<longleftrightarrow> typeId t = 4 \<or> typeId t = 19"
definition isUtf8 :: "arrow_type \<Rightarrow> bool" where "isUtf8 t \<longleftrightarrow> typeId t = 5 \<or> typeId t = 20"
definition isBool :: "arrow_type \<Rightarrow> bool" where "isBool t \<longleftrightarrow> typeId t = 6"
definition isDecimal :: "arrow_type \<Rightarrow> bool" where "isDecimal t \<longleftrightarrow> typeId t = 7"
definition isDate :: "arrow_type \<Rightarrow> bool" where "isDate t \<longleftrightarrow> typeId t = 8"
definition isTime :: "arrow_type \<Rightarrow> bool" where "isTime t \<longleftrightarrow> typeId t = 9"
definition isTimestamp :: "arrow_type \<Rightarrow> bool" where "isTimestamp t \<longleftrightarrow> typeId t = 10"
definition isList :: "arrow_type \<Rightarrow> bool" where "isList t \<longleftrightarrow> typeId t = 12"
definition isStruct :: "arrow_type \<Rightarrow> bool" where "isStruct t \<longleftrightarrow> typeId t = 13"

lemmas type_predicates = isNull_def isInt_def isFloat_def isBinary_def isUtf8_def isBool_def
  isDecimal_def isDate_def isTime_def isTimestamp_def isList_def isStruct_def

text \<open>The children a type object shows.\<close>

fun type_children :: "arrow_type \<Rightarrow> arrow_field list option" where
  "type_children (TList f) = Some [f]"
| "type_children (TStruct fs) = Some fs"
| "type_children (TUnion _ fs) = Some fs"
| "type_children (TFixedSizeList _ f) = Some [f]"
| "type_children (TMap f) = Some [f]"
| "type_children _ = None"

definition brackets :: "string \<Rightarrow> string \<Rightarrow> string \<Rightarrow> string" where
  "brackets l body r = l @ body @ r"

fun typeSignature :: "arrow_type \<Rightarrow> string"
  and kids_signature :: "arrow_field list \<Rightarrow> string list"
  and field_signature :: "arrow_field \<Rightarrow> string" where
  "typeSignature (TInt w sg) = ''int'' @ nat_to_string w @ (if sg then [] else ''u'')"
| "typeSignature (TFloat p) = ''float'' @ nat_to_string p"
| "typeSignature (TDecimal w p s) =
     ''decimal'' @ nat_to_string w @ brackets ''('' (int_to_string p @ '','' @ int_to_string s) '')''"
| "typeSignature (TDate u) = ''8'' @ brackets ''['' (nat_to_string u) '']''"
| "typeSignature (TTime u) = ''9'' @ brackets ''['' (nat_to_string u) '']''"
| "typeSignature (TDuration u) = ''18'' @ brackets ''['' (nat_to_string u) '']''"
| "typeSignature (TTimestamp u tz) =
     ''ts'' @ brackets ''['' (nat_to_string u @ '','' @ (case tz of None \<Rightarrow> [] | Some z \<Rightarrow> z)) '']''"
| "typeSignature (TInterval u) = ''iv'' @ brackets ''['' (nat_to_string u) '']''"
| "typeSignature (TFixedSizeBinary n) = ''fsb'' @ brackets ''('' (nat_to_string n) '')''"
| "typeSignature (TFixedSizeList n f) =
     ''fsl'' @ brackets ''('' (nat_to_string n @ '','' @ join_with '','' [field_signature f]) '')''"
| "typeSignature (TList f) = ''12'' @ brackets ''<'' (join_with '','' [field_signature f]) ''>''"
| "typeSignature (TStruct fs) = ''13'' @ brackets ''<'' (join_with '','' (kids_signature fs)) ''>''"
| "typeSignature (TMap f) = ''17'' @ brackets ''<'' (join_with '','' [field_signature f]) ''>''"
| "typeSignature (TUnion mode fs) =
     ''union'' @ brackets ''('' (nat_to_string mode @ '','' @ join_with '','' (kids_signature fs)) '')''"
| "typeSignature (TDictionary d i ordered) =
     ''dict'' @ brackets ''('' (typeSignature d @ '','' @ typeSignature i @ '','' @
        (if ordered then ''true'' else ''false'')) '')''"
| "typeSignature TNull = ''1''"
| "typeSignature TBinary = ''4''"
| "typeSignature TUtf8 = ''5''"
| "typeSignature TBool = ''6''"
| "typeSignature TLargeBinary = ''19''"
| "typeSignature TLargeUtf8 = ''20''"
| "kids_signature [] = []"
| "kids_signature (f # fs) = field_signature f # kids_signature fs"
| "field_signature (Field n t _ _ _) = n @ '':'' @ typeSignature t"

section \<open>Schemas and batches\<close>

record vgi_schema =
  s_fields :: "arrow_field list"
  s_metadata :: "(string \<times> string) list"

text \<open>
  \<open>readCanonicalValue\<close> of a backend is what a column holds here: a value per row, and
  \<open>null\<close> where a row has none.
\<close>

record vgi_batch =
  b_schema :: vgi_schema
  b_rows :: nat
  b_columns :: "jsval list list"

definition getChildAt :: "vgi_batch \<Rightarrow> nat \<Rightarrow> jsval list option" where
  "getChildAt b i = (if i < length (b_columns b) then Some (b_columns b ! i) else None)"

definition readCanonicalValue :: "jsval list \<Rightarrow> nat \<Rightarrow> jsval" where
  "readCanonicalValue column row =
     (if row < length column then (if column ! row = VUndef then VNull else column ! row) else VNull)"

definition field_at :: "vgi_schema \<Rightarrow> nat \<Rightarrow> arrow_field option" where
  "field_at s i = (if i < length (s_fields s) then Some (s_fields s ! i) else None)"

definition metadata_get :: "vgi_schema \<Rightarrow> string \<Rightarrow> string option" where
  "metadata_get s k = map_of (s_metadata s) k"

section \<open>What the structural key tells apart\<close>

text \<open>
  Field names go into the key as they are, so a name can imitate the punctuation: a
  one-field struct and a two-field struct share a key.
\<close>

lemma typeSignature_collision:
  "typeSignature (TStruct [Field ''a:int32,b'' (TInt 32 True) True [] []]) =
   typeSignature (TStruct [Field ''a'' (TInt 32 True) True [] [], Field ''b'' (TInt 32 True) True [] []])"
proof -
  have "nat_to_string 32 = ''32''" by code_simp
  then show ?thesis by simp
qed

end
