(* ===== verification/FilterTypes.thy ===== *)
theory FilterTypes
  imports ArrowTypes
begin

text \<open>
  The filter expressions of \<open>src/filter-pushdown/types.ts\<close>, the evaluation context, the
  options a deserialization is given, and the identity keys of
  \<open>src/filter-pushdown/capabilities.ts\<close>.
\<close>

datatype ComparisonOp = EQ | NE | LT | LE | GT | GE | DISTINCT_FROM | NOT_DISTINCT_FROM

datatype ArithmeticOp = OpAdd | OpSubtract | OpMultiply | OpDivide | OpModulo

datatype PredicateMode = Required | Advisory

datatype PredicateSource = SrcQuery | SrcJoin | SrcTopN | SrcSplitRefinement | SrcOther

datatype StandardFilterFunction = SfStartsWith | SfEndsWith | SfContains | SfListContains

record FunctionIdentity =
  fi_namespace :: string
  fi_name :: string
  fi_version :: int

datatype call_function = StandardFn StandardFilterFunction | ExtensionFn FunctionIdentity

record EvaluationContext =
  profile :: string
  timeZone :: "string option"
  calendar :: "string option"
  defaultCollation :: "string option"
  ieeeFloatingPointOps :: "bool option"
  integerDivision :: "bool option"
  providerFingerprint :: "string option"

datatype FilterSet =
    SetLiteral int arrow_field "jsval list"
  | SetExternal int int string "jsval list" vgi_batch

fun set_values :: "FilterSet \<Rightarrow> jsval list" where
  "set_values (SetLiteral _ _ vs) = vs"
| "set_values (SetExternal _ _ _ vs _) = vs"

datatype FilterExpression =
    EColumn int string "arrow_type option"
  | EField FilterExpression int string arrow_type
  | ELiteral int arrow_field jsval
  | ECompare ComparisonOp FilterExpression FilterExpression
  | EAnd "FilterExpression list"
  | EOr "FilterExpression list"
  | ENot FilterExpression
  | EIsNull FilterExpression bool
  | EIn FilterExpression FilterSet bool
  | ECast FilterExpression int arrow_field
  | EArith ArithmeticOp FilterExpression FilterExpression
  | ENegate FilterExpression
  | ECall call_function "FilterExpression list" "jsval option"
  | ERuntime FunctionIdentity FilterExpression int arrow_field jsval bool bool

record FilterPredicate =
  fp_id :: string
  fp_revision :: int
  fp_mode :: PredicateMode
  fp_source :: PredicateSource
  fp_expression :: FilterExpression

text \<open>
  \<open>evaluationContexts\<close> lists a profile with an optional provider fingerprint;
  an absent list behaves as the empty one.
\<close>

record DeserializeFilterOptions =
  extensionFunctions :: "FunctionIdentity list"
  runtimeAlgorithms :: "FunctionIdentity list"
  evaluationContexts :: "(string \<times> string option) list"
  outputSchema :: vgi_schema
  joinKeyBatches :: "vgi_batch list"

text \<open>A thrown \<open>FilterV2Error\<close>, or an error of the language itself.\<close>

datatype filter_error = FilterV2Error string | JsError string

definition filterFunctionIdentityKey :: "FunctionIdentity \<Rightarrow> string" where
  "filterFunctionIdentityKey i = fi_namespace i @ ''/'' @ fi_name i @ ''@'' @ int_to_string (fi_version i)"

definition SUPPORTED_EXTENSION_FUNCTIONS :: "string list" where
  "SUPPORTED_EXTENSION_FUNCTIONS = [''duckdb.spatial/intersects_extent@1'']"

definition supportsExtensionFilterFunction :: "FunctionIdentity \<Rightarrow> bool" where
  "supportsExtensionFilterFunction i \<longleftrightarrow> filterFunctionIdentityKey i \<in> set SUPPORTED_EXTENSION_FUNCTIONS"

end
