(* ===== verification/Wkb.thy ===== *)
theory Wkb
  imports FilterTypes
begin

text \<open>
  The WKB reader of \<open>src/filter-pushdown/evaluate.ts\<close> (\<open>WkbBoundsReader\<close>, \<open>wkbBBox\<close>),
  which reads a geometry's bounding box.  The reader's state is its offset; every read
  returns the value and the new offset, or the error thrown.
\<close>

type_synonym 'a wkb = "filter_error + ('a \<times> nat)"

record Bounds =
  minX :: jsnum
  minY :: jsnum
  maxX :: jsnum
  maxY :: jsnum

text \<open>\<open>getFloat64\<close>: the value of 64 bits.\<close>

definition f64_of_bits :: "nat \<Rightarrow> jsnum" where
  "f64_of_bits n =
     (let sign = 2 ^ 63 \<le> n; ex = (n div 2 ^ 52) mod 2 ^ 11; man = n mod 2 ^ 52 in
      if ex = 2047 then (if man = 0 then Inf sign else NaN)
      else let m = (if ex = 0 then of_nat man else of_nat (man + 2 ^ 52));
               v = m * pow2 (int (max ex 1) - 1075)
           in if v = 0 then (if sign then NegZero else Fin 0) else Fin (if sign then - v else v))"

definition wkb_require :: "bytes \<Rightarrow> nat \<Rightarrow> nat \<Rightarrow> filter_error + unit" where
  "wkb_require view off len = ensure (off + len \<le> length view) (FilterV2Error ''truncated WKB geometry'')"

definition wkb_slice :: "bytes \<Rightarrow> nat \<Rightarrow> nat \<Rightarrow> bytes" where
  "wkb_slice view off len = take len (drop off view)"

definition wkb_endian :: "bool \<Rightarrow> bytes \<Rightarrow> nat" where
  "wkb_endian littleEndian bs = le_nat (if littleEndian then bs else rev bs)"

definition wkb_byte :: "bytes \<Rightarrow> nat \<Rightarrow> nat wkb" where
  "wkb_byte view off = rbind (wkb_require view off 1) (\<lambda>_. Inr (unat (view ! off), off + 1))"

definition wkb_uint32 :: "bytes \<Rightarrow> bool \<Rightarrow> nat \<Rightarrow> nat wkb" where
  "wkb_uint32 view littleEndian off =
     rbind (wkb_require view off 4) (\<lambda>_. Inr (wkb_endian littleEndian (wkb_slice view off 4), off + 4))"

definition wkb_float64 :: "bytes \<Rightarrow> bool \<Rightarrow> nat \<Rightarrow> jsnum wkb" where
  "wkb_float64 view littleEndian off =
     rbind (wkb_require view off 8)
       (\<lambda>_. Inr (f64_of_bits (wkb_endian littleEndian (wkb_slice view off 8)), off + 8))"

fun wkb_skip :: "bytes \<Rightarrow> bool \<Rightarrow> nat \<Rightarrow> nat \<Rightarrow> filter_error + nat" where
  "wkb_skip view littleEndian 0 off = Inr off"
| "wkb_skip view littleEndian (Suc k) off =
     rbind (wkb_float64 view littleEndian off) (\<lambda>(_, off). wkb_skip view littleEndian k off)"

definition num_finite :: "jsnum \<Rightarrow> bool" where
  "num_finite x \<longleftrightarrow> (case x of NaN \<Rightarrow> False | Inf _ \<Rightarrow> False | _ \<Rightarrow> True)"

definition wkb_point :: "bytes \<Rightarrow> bool \<Rightarrow> nat \<Rightarrow> nat \<Rightarrow> Bounds option wkb" where
  "wkb_point view littleEndian dimensions off =
     rbind (wkb_float64 view littleEndian off) (\<lambda>(x, off).
     rbind (wkb_float64 view littleEndian off) (\<lambda>(y, off).
     rbind (wkb_skip view littleEndian (dimensions - 2) off) (\<lambda>off.
     if x = NaN \<and> y = NaN then Inr (None, off)
     else rbind (ensure (num_finite x \<and> num_finite y) (FilterV2Error ''WKB coordinate must be finite''))
       (\<lambda>_. Inr (Some \<lparr>minX = x, minY = y, maxX = x, maxY = y\<rparr>, off)))))"

definition wkb_count :: "bytes \<Rightarrow> bool \<Rightarrow> nat \<Rightarrow> nat wkb" where
  "wkb_count view littleEndian off =
     rbind (wkb_uint32 view littleEndian off) (\<lambda>(count, off).
     rbind (ensure (count \<le> (length view - off) div 4) (FilterV2Error ''WKB element count exceeds payload size''))
       (\<lambda>_. Inr (count, off)))"

text \<open>\<open>Math.min\<close> and \<open>Math.max\<close> of two numbers.\<close>

definition num_min :: "jsnum \<Rightarrow> jsnum \<Rightarrow> jsnum" where
  "num_min x y = (if x = NaN \<or> y = NaN then NaN else if num_lt x y then x else if num_lt y x then y
     else if num_sign x then x else y)"

definition num_max :: "jsnum \<Rightarrow> jsnum \<Rightarrow> jsnum" where
  "num_max x y = (if x = NaN \<or> y = NaN then NaN else if num_lt x y then y else if num_lt y x then x
     else if num_sign x then y else x)"

definition wkb_merge :: "Bounds option \<Rightarrow> Bounds option \<Rightarrow> Bounds option" where
  "wkb_merge left right = (case (left, right) of
     (None, _) \<Rightarrow> right
   | (Some l, None) \<Rightarrow> left
   | (Some l, Some r) \<Rightarrow> Some
       \<lparr>minX = num_min (minX l) (minX r), minY = num_min (minY l) (minY r),
        maxX = num_max (maxX l) (maxX r), maxY = num_max (maxY l) (maxY r)\<rparr>)"

text \<open>The counted loops: read an element, merge it into the bounds so far.\<close>

fun wkb_times :: "(nat \<Rightarrow> Bounds option wkb) \<Rightarrow> nat \<Rightarrow> Bounds option \<Rightarrow> nat \<Rightarrow> Bounds option wkb" where
  "wkb_times el 0 bounds off = Inr (bounds, off)"
| "wkb_times el (Suc k) bounds off =
     rbind (el off) (\<lambda>(b, off). wkb_times el k (wkb_merge bounds b) off)"

definition wkb_counted :: "bytes \<Rightarrow> bool \<Rightarrow> (nat \<Rightarrow> Bounds option wkb) \<Rightarrow> nat \<Rightarrow> Bounds option wkb" where
  "wkb_counted view littleEndian el off =
     rbind (wkb_count view littleEndian off) (\<lambda>(count, off). wkb_times el count None off)"

definition wkb_points :: "bytes \<Rightarrow> bool \<Rightarrow> nat \<Rightarrow> nat \<Rightarrow> Bounds option wkb" where
  "wkb_points view littleEndian dimensions off =
     wkb_counted view littleEndian (wkb_point view littleEndian dimensions) off"

text \<open>
  The type word: flags in the top bits, and the ISO codes 1000, 2000 and 3000.  Masking with
  \<open>0x0fffffff\<close> keeps the low 28 bits.
\<close>

definition wkb_type :: "nat \<Rightarrow> nat \<times> nat \<times> bool" where
  "wkb_type encodedType =
     (let hasZ = odd (encodedType div 2 ^ 31); hasM = odd (encodedType div 2 ^ 30);
          hasSrid = odd (encodedType div 2 ^ 29);
          type = encodedType mod 2 ^ 28; dimensions = 2 + of_bool hasZ + of_bool hasM
      in if 3000 \<le> type then (type - 3000, 4, hasSrid)
         else if 2000 \<le> type then (type - 2000, 3, hasSrid)
         else if 1000 \<le> type then (type - 1000, 3, hasSrid)
         else (type, dimensions, hasSrid))"

text \<open>
  \<open>geometry\<close>.  A nested geometry starts five bytes further at least, so fuel of the
  view's length is enough; \<open>wkb_fuel\<close> is the value of a run that exhausts it.
\<close>

definition wkb_fuel :: filter_error where
  "wkb_fuel = JsError ''out of fuel''"

definition wkb_header :: "bytes \<Rightarrow> nat \<Rightarrow> (bool \<times> nat \<times> nat) wkb" where
  "wkb_header view off =
     rbind (wkb_byte view off) (\<lambda>(byteOrder, off).
     rbind (ensure (byteOrder = 0 \<or> byteOrder = 1) (FilterV2Error ''invalid WKB byte order'')) (\<lambda>_.
     let littleEndian = (byteOrder = 1) in
     rbind (wkb_uint32 view littleEndian off) (\<lambda>(encodedType, off).
     let (type, dimensions, hasSrid) = wkb_type encodedType in
     rbind (if hasSrid then wkb_uint32 view littleEndian off else Inr (0, off)) (\<lambda>(_, off).
     Inr ((littleEndian, type, dimensions), off)))))"

fun wkb_geometry :: "nat \<Rightarrow> bytes \<Rightarrow> nat \<Rightarrow> Bounds option wkb" where
  "wkb_geometry 0 view off = Inl wkb_fuel"
| "wkb_geometry (Suc fuel) view off =
     rbind (wkb_header view off) (\<lambda>((littleEndian, type, dimensions), off).
     if type = 1 then wkb_point view littleEndian dimensions off
     else if type = 2 then wkb_points view littleEndian dimensions off
     else if type = 3 then wkb_counted view littleEndian (wkb_points view littleEndian dimensions) off
     else if 4 \<le> type \<and> type \<le> 7 then wkb_counted view littleEndian (wkb_geometry fuel view) off
     else Inl (FilterV2Error (''unsupported WKB geometry type '' @ nat_to_string type)))"

definition wkb_read :: "bytes \<Rightarrow> filter_error + Bounds option" where
  "wkb_read view = rbind (wkb_geometry (Suc (length view)) view 0) (\<lambda>(bounds, off).
     rbind (ensure (off = length view) (FilterV2Error ''WKB has trailing bytes'')) (\<lambda>_. Inr bounds))"

definition wkbBBox :: "jsval \<Rightarrow> filter_error + Bounds option" where
  "wkbBBox v = (case v of VBytes bs \<Rightarrow> wkb_read bs
     | _ \<Rightarrow> Inl (FilterV2Error ''spatial extent arguments must be WKB binary values''))"

section \<open>Progress, fuel, and the shape of a box\<close>

definition bounds_ok :: "Bounds option \<Rightarrow> bool" where
  "bounds_ok bo = (case bo of None \<Rightarrow> True | Some b \<Rightarrow>
     num_finite (minX b) \<and> num_finite (minY b) \<and> num_finite (maxX b) \<and> num_finite (maxY b) \<and>
     num_value (minX b) \<le> num_value (maxX b) \<and> num_value (minY b) \<le> num_value (maxY b))"

lemma num_lt_finite: "num_finite x \<Longrightarrow> num_finite y \<Longrightarrow> num_lt x y \<longleftrightarrow> num_value x < num_value y"
  by (cases x; cases y) (auto simp: num_finite_def num_lt_def)

lemma num_min_finite:
  assumes "num_finite x" "num_finite y"
  shows "num_finite (num_min x y) \<and> num_value (num_min x y) = min (num_value x) (num_value y)"
  using assms by (auto simp: num_min_def num_lt_finite min_def) (auto simp: num_finite_def)

lemma num_max_finite:
  assumes "num_finite x" "num_finite y"
  shows "num_finite (num_max x y) \<and> num_value (num_max x y) = max (num_value x) (num_value y)"
  using assms by (auto simp: num_max_def num_lt_finite max_def) (auto simp: num_finite_def)

lemma min_max_spread: "(a :: rat) \<le> c \<Longrightarrow> min a b \<le> max c d"
  by (metis max.coboundedI1 min.coboundedI1)

lemma spread_merge:
  assumes "num_finite a" "num_finite b" "num_finite c" "num_finite d" "num_value a \<le> num_value c"
  shows "num_finite (num_min a b)" "num_finite (num_max c d)"
    "num_value (num_min a b) \<le> num_value (num_max c d)"
  using num_min_finite [OF assms(1,2)] num_max_finite [OF assms(3,4)] min_max_spread [OF assms(5)] by auto

lemma wkb_merge_ok:
  assumes "bounds_ok l" "bounds_ok r"
  shows "bounds_ok (wkb_merge l r)"
proof (cases l)
  case None
  then show ?thesis using assms by (simp add: wkb_merge_def)
next
  case l: (Some a)
  show ?thesis
  proof (cases r)
    case None
    then show ?thesis using assms l by (simp add: wkb_merge_def)
  next
    case (Some b)
    have a: "num_finite (minX a)" "num_finite (minY a)" "num_finite (maxX a)" "num_finite (maxY a)"
        "num_value (minX a) \<le> num_value (maxX a)" "num_value (minY a) \<le> num_value (maxY a)"
      using assms(1) l by (simp_all add: bounds_ok_def)
    have b: "num_finite (minX b)" "num_finite (minY b)" "num_finite (maxX b)" "num_finite (maxY b)"
      using assms(2) Some by (simp_all add: bounds_ok_def)
    show ?thesis
      using spread_merge [OF a(1) b(1) a(3) b(3) a(5)] spread_merge [OF a(2) b(2) a(4) b(4) a(6)]
      by (simp add: bounds_ok_def wkb_merge_def l Some)
  qed
qed

text \<open>
  A reader that moves forward inside the view, yields well-shaped boxes, and fails by a
  \<open>FilterV2Error\<close> only.
\<close>

definition wkb_sound :: "nat \<Rightarrow> nat \<Rightarrow> (nat \<Rightarrow> Bounds option wkb) \<Rightarrow> bool" where
  "wkb_sound n start el \<longleftrightarrow> (\<forall>off. start \<le> off \<longrightarrow> off \<le> n \<longrightarrow>
     (case el off of Inl e \<Rightarrow> e \<noteq> wkb_fuel
      | Inr (b, off') \<Rightarrow> off \<le> off' \<and> off' \<le> n \<and> bounds_ok b))"

lemma wkb_soundI:
  assumes "\<And>off e. start \<le> off \<Longrightarrow> off \<le> n \<Longrightarrow> el off = Inl e \<Longrightarrow> e \<noteq> wkb_fuel"
    and "\<And>off b off'. start \<le> off \<Longrightarrow> off \<le> n \<Longrightarrow> el off = Inr (b, off') \<Longrightarrow> off \<le> off' \<and> off' \<le> n \<and> bounds_ok b"
  shows "wkb_sound n start el"
  unfolding wkb_sound_def
proof (intro allI impI)
  fix off assume o: "start \<le> off" "off \<le> n"
  show "case el off of Inl e \<Rightarrow> e \<noteq> wkb_fuel | Inr (b, off') \<Rightarrow> off \<le> off' \<and> off' \<le> n \<and> bounds_ok b"
  proof (cases "el off")
    case (Inl e)
    then show ?thesis using assms(1) [OF o Inl] by simp
  next
    case (Inr r)
    obtain b off' where "r = (b, off')" by (cases r)
    then show ?thesis using assms(2) [OF o, of b off'] Inr by simp
  qed
qed

lemma wkb_sound_Inr: "wkb_sound n start el \<Longrightarrow> start \<le> off \<Longrightarrow> off \<le> n \<Longrightarrow> el off = Inr (b, off') \<Longrightarrow>
    off \<le> off' \<and> off' \<le> n \<and> bounds_ok b"
  by (fastforce simp: wkb_sound_def)

lemma wkb_sound_Inl: "wkb_sound n start el \<Longrightarrow> start \<le> off \<Longrightarrow> off \<le> n \<Longrightarrow> el off = Inl e \<Longrightarrow> e \<noteq> wkb_fuel"
  by (fastforce simp: wkb_sound_def)

lemma wkb_sound_later: "wkb_sound n start el \<Longrightarrow> start \<le> start' \<Longrightarrow> wkb_sound n start' el"
  by (auto simp: wkb_sound_def)

lemmas wkb_reads = wkb_byte_def wkb_uint32_def wkb_float64_def wkb_require_def

lemma wkb_errors [simp]: "FilterV2Error m \<noteq> wkb_fuel" "wkb_fuel \<noteq> FilterV2Error m"
  by (simp_all add: wkb_fuel_def)

lemma wkb_skip_Inl: "wkb_skip view le k off = Inl e \<Longrightarrow> e \<noteq> wkb_fuel"
  by (induction view le k off rule: wkb_skip.induct) (auto simp: wkb_reads result_simps)

lemma wkb_skip_Inr:
  "wkb_skip view le k off = Inr off' \<Longrightarrow> off \<le> length view \<Longrightarrow> off \<le> off' \<and> off' \<le> length view"
  by (induction view le k off rule: wkb_skip.induct) (fastforce simp: wkb_reads result_simps)+

lemmas wkb_skip_cases = wkb_skip_Inl wkb_skip_Inr

lemma wkb_point_sound: "wkb_sound (length view) start (wkb_point view le dims)"
proof (rule wkb_soundI)
  fix off e assume "wkb_point view le dims off = Inl e"
  then show "e \<noteq> wkb_fuel"
    by (auto simp: wkb_point_def wkb_reads result_simps split: if_splits dest: wkb_skip_cases)
next
  fix off b off' assume "wkb_point view le dims off = Inr (b, off')" "off \<le> length view"
  then show "off \<le> off' \<and> off' \<le> length view \<and> bounds_ok b"
    by (auto simp: wkb_point_def wkb_reads result_simps bounds_ok_def split: if_splits dest: wkb_skip_cases)
qed

lemma wkb_times_sound:
  assumes "wkb_sound n start el" "start \<le> off" "off \<le> n" "bounds_ok bounds"
  shows "case wkb_times el k bounds off of Inl e \<Rightarrow> e \<noteq> wkb_fuel
      | Inr (b, off') \<Rightarrow> off \<le> off' \<and> off' \<le> n \<and> bounds_ok b"
  using assms(2-4)
proof (induction k arbitrary: bounds off)
  case 0
  then show ?case by simp
next
  case (Suc k)
  show ?case
  proof (cases "el off")
    case (Inl e)
    with wkb_sound_Inl [OF assms(1) Suc.prems(1,2)] show ?thesis by simp
  next
    case (Inr r)
    obtain b off' where r: "r = (b, off')" by (cases r)
    with wkb_sound_Inr [OF assms(1) Suc.prems(1,2)] Inr
    have "off \<le> off'" "off' \<le> n" "bounds_ok b" by auto
    with Suc.IH [of off' "wkb_merge bounds b"] Suc.prems Inr r show ?thesis
      by (auto simp: wkb_merge_ok split: sum.splits)
  qed
qed

lemma bounds_ok_None [simp]: "bounds_ok None"
  by (simp add: bounds_ok_def)

lemma wkb_counted_sound:
  assumes "wkb_sound (length view) start el"
  shows "wkb_sound (length view) start (wkb_counted view le el)"
proof -
  have fwd: "off \<le> o' \<and> o' \<le> length view" if "wkb_count view le off = Inr (c, o')" "off \<le> length view" for off c o'
    using that by (auto simp: wkb_count_def wkb_reads result_simps)
  have err: "e \<noteq> wkb_fuel" if "wkb_count view le off = Inl e" for off e
    using that by (auto simp: wkb_count_def wkb_reads result_simps)
  show ?thesis unfolding wkb_sound_def
  proof (intro allI impI)
    fix off assume o: "start \<le> off" "off \<le> length view"
    show "case wkb_counted view le el off of
        Inl e \<Rightarrow> e \<noteq> wkb_fuel | Inr (b, off') \<Rightarrow> off \<le> off' \<and> off' \<le> length view \<and> bounds_ok b"
    proof (cases "wkb_count view le off")
      case (Inl e)
      with err show ?thesis by (simp add: wkb_counted_def)
    next
      case (Inr r)
      obtain c o' where r: "r = (c, o')" by (cases r)
      with fwd Inr o have "off \<le> o'" "o' \<le> length view" by auto
      with wkb_times_sound [OF assms, of o' None c] o Inr r show ?thesis by (auto simp: wkb_counted_def split: sum.splits)
    qed
  qed
qed

lemma wkb_points_sound: "wkb_sound (length view) start (wkb_points view le dims)"
  using wkb_counted_sound [OF wkb_point_sound] by (simp add: wkb_points_def [abs_def])

lemma wkb_sound_at:
  "wkb_sound n start el \<Longrightarrow> start \<le> off \<Longrightarrow> off \<le> n \<Longrightarrow>
    (case el off of Inl e \<Rightarrow> e \<noteq> wkb_fuel | Inr (b, off') \<Rightarrow> off \<le> off' \<and> off' \<le> n \<and> bounds_ok b)"
  by (simp add: wkb_sound_def)

lemma wkb_header_sound:
  "wkb_header view off = Inl e \<Longrightarrow> e \<noteq> wkb_fuel"
  "wkb_header view off = Inr (h, off') \<Longrightarrow> off < off' \<and> off' \<le> length view"
  by (auto simp: wkb_header_def wkb_reads Let_def result_simps split: if_splits prod.splits)

lemma wkb_geometry_sound:
  "start \<le> length view \<Longrightarrow> length view - start < fuel \<Longrightarrow> wkb_sound (length view) start (wkb_geometry fuel view)"
proof (induction fuel arbitrary: start)
  case 0
  then show ?case by simp
next
  case (Suc fuel)
  show ?case unfolding wkb_sound_def
  proof (intro allI impI)
    fix off assume off: "start \<le> off" "off \<le> length view"
    let ?ok = "\<lambda>r. case r of Inl e \<Rightarrow> e \<noteq> wkb_fuel
        | Inr (b, off') \<Rightarrow> off \<le> off' \<and> off' \<le> length view \<and> bounds_ok b"
    have step: "?ok (el o')" if "wkb_sound (length view) o' el" "off < o'" "o' \<le> length view" for el o'
      using wkb_sound_at [OF that(1) order_refl that(3)] that(2) by (auto split: sum.splits)
    have inner: "wkb_sound (length view) o' (wkb_geometry fuel view)" if "off < o'" "o' \<le> length view" for o'
      using that off Suc.prems by (intro Suc.IH) auto
    show "?ok (wkb_geometry (Suc fuel) view off)"
    proof (cases "wkb_header view off")
      case (Inl e)
      then show ?thesis by (simp add: wkb_header_sound)
    next
      case (Inr r)
      obtain le t d o' where r: "r = ((le, t, d), o')" by (metis prod.exhaust)
      with Inr wkb_header_sound have o': "off < o'" "o' \<le> length view" by blast+
      show ?thesis
        using step [OF wkb_point_sound o', of le d] step [OF wkb_points_sound o', of le d]
          step [OF wkb_counted_sound [OF wkb_points_sound] o', of le le d]
          step [OF wkb_counted_sound [OF inner [OF o']] o', of le]
        by (simp add: Inr r)
    qed
  qed
qed

lemma wkb_read_sound:
  "wkb_read view = Inl e \<Longrightarrow> e \<noteq> wkb_fuel" "wkb_read view = Inr b \<Longrightarrow> bounds_ok b"
  using wkb_sound_at [OF wkb_geometry_sound [of 0 view "Suc (length view)"], of 0]
  by (auto simp: wkb_read_def result_simps simp del: wkb_geometry.simps)

section \<open>Reading what the format writes\<close>

text \<open>
  The format itself: geometries with their coordinates as bit patterns, each header with its
  own byte order, flags and reference system, and the bytes that represent them.
\<close>

record wkb_flags =
  w_little :: bool
  w_z :: bool
  w_m :: bool
  w_srid :: "nat option"

datatype wkb_geom =
    WPoint wkb_flags "nat list"
  | WLine wkb_flags "nat list list"
  | WPolygon wkb_flags "nat list list list"
  | WMulti wkb_flags nat "wkb_geom list"

definition enc_word :: "bool \<Rightarrow> nat \<Rightarrow> nat \<Rightarrow> bytes" where
  "enc_word le k n = (if le then le_bytes k n else rev (le_bytes k n))"

definition flags_dims :: "wkb_flags \<Rightarrow> nat" where
  "flags_dims f = 2 + of_bool (w_z f) + of_bool (w_m f)"

definition type_word :: "wkb_flags \<Rightarrow> nat \<Rightarrow> nat" where
  "type_word f t = t + of_bool (w_z f) * 2 ^ 31 + of_bool (w_m f) * 2 ^ 30 + of_bool (w_srid f \<noteq> None) * 2 ^ 29"

definition enc_header :: "wkb_flags \<Rightarrow> nat \<Rightarrow> bytes" where
  "enc_header f t = of_bool (w_little f) # enc_word (w_little f) 4 (type_word f t) @
     (case w_srid f of None \<Rightarrow> [] | Some s \<Rightarrow> enc_word (w_little f) 4 s)"

definition enc_point :: "bool \<Rightarrow> nat list \<Rightarrow> bytes" where
  "enc_point le cs = concat (map (enc_word le 8) cs)"

definition enc_counted :: "bool \<Rightarrow> bytes list \<Rightarrow> bytes" where
  "enc_counted le es = enc_word le 4 (length es) @ concat es"

fun wkb_encode :: "wkb_geom \<Rightarrow> bytes" where
  "wkb_encode (WPoint f p) = enc_header f 1 @ enc_point (w_little f) p"
| "wkb_encode (WLine f ps) = enc_header f 2 @ enc_counted (w_little f) (map (enc_point (w_little f)) ps)"
| "wkb_encode (WPolygon f rs) = enc_header f 3 @
     enc_counted (w_little f) (map (\<lambda>r. enc_counted (w_little f) (map (enc_point (w_little f)) r)) rs)"
| "wkb_encode (WMulti f t gs) = enc_header f t @ enc_counted (w_little f) (map wkb_encode gs)"

text \<open>A point is empty (both ordinates \<open>NaN\<close>) or has finite ordinates.\<close>

definition wf_point :: "wkb_flags \<Rightarrow> nat list \<Rightarrow> bool" where
  "wf_point f cs \<longleftrightarrow> length cs = flags_dims f \<and> list_all (\<lambda>c. c < 2 ^ 64) cs \<and>
     ((f64_of_bits (cs ! 0) = NaN \<and> f64_of_bits (cs ! 1) = NaN) \<or>
      (num_finite (f64_of_bits (cs ! 0)) \<and> num_finite (f64_of_bits (cs ! 1))))"

definition wf_flags :: "wkb_flags \<Rightarrow> bool" where
  "wf_flags f \<longleftrightarrow> (case w_srid f of None \<Rightarrow> True | Some s \<Rightarrow> s < 2 ^ 32)"

definition wf_count :: "'a list \<Rightarrow> bool" where
  "wf_count xs \<longleftrightarrow> length xs < 2 ^ 32"

fun wf_geom :: "wkb_geom \<Rightarrow> bool" where
  "wf_geom (WPoint f p) = (wf_flags f \<and> wf_point f p)"
| "wf_geom (WLine f ps) = (wf_flags f \<and> wf_count ps \<and> list_all (wf_point f) ps)"
| "wf_geom (WPolygon f rs) = (wf_flags f \<and> wf_count rs \<and> list_all (\<lambda>r. wf_count r \<and> list_all (wf_point f) r) rs)"
| "wf_geom (WMulti f t gs) = (wf_flags f \<and> 4 \<le> t \<and> t \<le> 7 \<and> wf_count gs \<and> list_all wf_geom gs)"

definition point_ordinates :: "nat list \<Rightarrow> (rat \<times> rat) list" where
  "point_ordinates cs = (if f64_of_bits (cs ! 0) = NaN then []
     else [(num_value (f64_of_bits (cs ! 0)), num_value (f64_of_bits (cs ! 1)))])"

fun geom_points :: "wkb_geom \<Rightarrow> (rat \<times> rat) list" where
  "geom_points (WPoint f p) = point_ordinates p"
| "geom_points (WLine f ps) = concat (map point_ordinates ps)"
| "geom_points (WPolygon f rs) = concat (map (\<lambda>r. concat (map point_ordinates r)) rs)"
| "geom_points (WMulti f t gs) = concat (map geom_points gs)"

text \<open>The box of a list of points: absent when there is none, else its least and greatest ordinates.\<close>

definition box_of :: "Bounds option \<Rightarrow> (rat \<times> rat) list \<Rightarrow> bool" where
  "box_of bo ps \<longleftrightarrow> (case bo of None \<Rightarrow> ps = [] | Some b \<Rightarrow> ps \<noteq> [] \<and> bounds_ok bo \<and>
     num_value (minX b) = Min (fst ` set ps) \<and> num_value (minY b) = Min (snd ` set ps) \<and>
     num_value (maxX b) = Max (fst ` set ps) \<and> num_value (maxY b) = Max (snd ` set ps))"

lemma box_of_None [simp]: "box_of None ps \<longleftrightarrow> ps = []"
  by (simp add: box_of_def)

lemma box_of_merge: "box_of l ps \<Longrightarrow> box_of r qs \<Longrightarrow> box_of (wkb_merge l r) (ps @ qs)"
proof -
  assume l: "box_of l ps" and r: "box_of r qs"
  show ?thesis
  proof (cases l; cases r)
    fix a b assume ab: "l = Some a" "r = Some b"
    with l r have ne: "ps \<noteq> []" "qs \<noteq> []" and ok: "bounds_ok l" "bounds_ok r" by (auto simp: box_of_def)
    have img: "f ` set (ps @ qs) = f ` set ps \<union> f ` set qs" for f :: "rat \<times> rat \<Rightarrow> rat" by auto
    have fin: "num_finite (minX a)" "num_finite (minY a)" "num_finite (maxX a)" "num_finite (maxY a)"
        "num_finite (minX b)" "num_finite (minY b)" "num_finite (maxX b)" "num_finite (maxY b)"
      using ok ab by (simp_all add: bounds_ok_def)
    have m: "Min (f ` set (ps @ qs)) = min (Min (f ` set ps)) (Min (f ` set qs))"
        "Max (f ` set (ps @ qs)) = max (Max (f ` set ps)) (Max (f ` set qs))" for f :: "rat \<times> rat \<Rightarrow> rat"
      unfolding img using ne by (simp_all add: Min_Un Max_Un)
    have "bounds_ok (wkb_merge l r)" using ok by (rule wkb_merge_ok)
    with l r ab ne fin m show ?thesis
      by (simp add: box_of_def wkb_merge_def num_min_finite num_max_finite del: set_append)
  qed (use l r in \<open>auto simp: wkb_merge_def\<close>)
qed

text \<open>A reader accepts an encoding, anywhere in a view, and yields the box of its points.\<close>

definition accepts :: "(bytes \<Rightarrow> nat \<Rightarrow> Bounds option wkb) \<Rightarrow> bytes \<Rightarrow> (rat \<times> rat) list \<Rightarrow> bool" where
  "accepts el enc ps \<longleftrightarrow> (\<forall>pre suf. \<exists>b. el (pre @ enc @ suf) (length pre) = Inr (b, length pre + length enc) \<and> box_of b ps)"

lemma accepts_times:
  assumes "list_all2 (accepts el) es pss" "box_of acc qs"
  shows "\<exists>b. wkb_times (el (pre @ concat es @ suf)) (length es) acc (length pre) =
      Inr (b, length pre + length (concat es)) \<and> box_of b (qs @ concat pss)"
  using assms
proof (induction es pss arbitrary: pre acc qs rule: list_all2_induct)
  case Nil
  then show ?case by simp
next
  case (Cons e es ps pss)
  from Cons.hyps(1) obtain b where
    b: "el (pre @ e @ (concat es @ suf)) (length pre) = Inr (b, length (pre @ e))" "box_of b ps"
    unfolding accepts_def by (metis length_append)
  have "box_of (wkb_merge acc b) (qs @ ps)" using Cons.prems b by (simp add: box_of_merge)
  from Cons.IH [OF this, of "pre @ e"] b show ?case by (simp add: add.assoc)
qed

lemma length_enc_word [simp]: "length (enc_word le k n) = k"
  by (simp add: enc_word_def)

lemma endian_enc_word: "n < 256 ^ k \<Longrightarrow> wkb_endian le (enc_word le k n) = n"
  by (simp add: wkb_endian_def enc_word_def le_nat_le_bytes)

lemma slice_mid: "length e = k \<Longrightarrow> wkb_slice (pre @ e @ suf) (length pre) k = e"
  by (simp add: wkb_slice_def)

lemma read_uint32:
  assumes "n < 2 ^ 32"
  shows "wkb_uint32 (pre @ enc_word le 4 n @ suf) le (length pre) = Inr (n, length pre + 4)"
proof -
  have "n < 256 ^ 4" using assms by simp
  then show ?thesis
    by (simp add: wkb_uint32_def wkb_require_def slice_mid endian_enc_word del: power_numeral)
qed

lemma read_float64:
  assumes "n < 2 ^ 64"
  shows "wkb_float64 (pre @ enc_word le 8 n @ suf) le (length pre) = Inr (f64_of_bits n, length pre + 8)"
proof -
  have "n < 256 ^ 8" using assms by simp
  then show ?thesis
    by (simp add: wkb_float64_def wkb_require_def slice_mid endian_enc_word del: power_numeral)
qed

lemma read_skip:
  "list_all (\<lambda>c. c < 2 ^ 64) cs \<Longrightarrow>
   wkb_skip (pre @ concat (map (enc_word le 8) cs) @ suf) le (length cs) (length pre) = Inr (length pre + 8 * length cs)"
proof (induction cs arbitrary: pre)
  case Nil
  show ?case by simp
next
  case (Cons c cs)
  from Cons.IH [of "pre @ enc_word le 8 c"] Cons.prems show ?case
    using read_float64 [of c pre le "concat (map (enc_word le 8) cs) @ suf"] by simp
qed

lemma length_enc_point: "length (enc_point le cs) = 8 * length cs"
  by (induction cs) (simp_all add: enc_point_def)

lemma accepts_point:
  assumes "wf_point f cs"
  shows "accepts (\<lambda>view. wkb_point view le (flags_dims f)) (enc_point le cs) (point_ordinates cs)"
proof -
  from assms obtain x y cs' where cs: "cs = x # y # cs'" "length cs' = flags_dims f - 2"
    by (cases cs; cases "tl cs") (auto simp: wf_point_def flags_dims_def)
  have bits: "x < 2 ^ 64" "y < 2 ^ 64" "list_all (\<lambda>c. c < 2 ^ 64) cs'" using assms cs by (auto simp: wf_point_def)
  show ?thesis unfolding accepts_def
  proof (intro allI)
    fix pre suf
    let ?t = "concat (map (enc_word le 8) cs') @ suf"
    have view: "pre @ enc_point le cs @ suf = pre @ enc_word le 8 x @ enc_word le 8 y @ ?t"
      by (simp add: enc_point_def cs)
    have s: "wkb_skip (pre @ enc_word le 8 x @ enc_word le 8 y @ ?t) le (flags_dims f - 2) (length pre + 16) =
        Inr (length pre + 8 * length cs)"
      using read_skip [OF bits(3), of "pre @ enc_word le 8 x @ enc_word le 8 y" le suf] cs by simp
    have r: "wkb_float64 (pre @ enc_word le 8 x @ enc_word le 8 y @ ?t) le (length pre) = Inr (f64_of_bits x, length pre + 8)"
        "wkb_float64 (pre @ enc_word le 8 x @ enc_word le 8 y @ ?t) le (length pre + 8) = Inr (f64_of_bits y, length pre + 16)"
      using read_float64 [OF bits(1), of pre le] read_float64 [OF bits(2), of "pre @ enc_word le 8 x" le ?t] by simp_all
    consider "f64_of_bits x = NaN" "f64_of_bits y = NaN" | "num_finite (f64_of_bits x)" "num_finite (f64_of_bits y)"
      using assms cs by (auto simp: wf_point_def)
    then show "\<exists>b. wkb_point (pre @ enc_point le cs @ suf) le (flags_dims f) (length pre) =
        Inr (b, length pre + length (enc_point le cs)) \<and> box_of b (point_ordinates cs)"
      unfolding view
    proof cases
      case 1
      then show "\<exists>b. wkb_point (pre @ enc_word le 8 x @ enc_word le 8 y @ ?t) le (flags_dims f) (length pre) =
        Inr (b, length pre + length (enc_point le cs)) \<and> box_of b (point_ordinates cs)"
        by (simp add: wkb_point_def r s length_enc_point point_ordinates_def cs)
    next
      case 2
      then show "\<exists>b. wkb_point (pre @ enc_word le 8 x @ enc_word le 8 y @ ?t) le (flags_dims f) (length pre) =
        Inr (b, length pre + length (enc_point le cs)) \<and> box_of b (point_ordinates cs)"
        by (auto simp: wkb_point_def r s length_enc_point point_ordinates_def cs box_of_def bounds_ok_def num_finite_def
            split: jsnum.splits)
    qed
  qed
qed

lemma accepts_counted:
  assumes "list_all2 (accepts el) es pss" "length es < 2 ^ 32" "list_all (\<lambda>e. 4 \<le> length e) es"
  shows "accepts (\<lambda>view. wkb_counted view le (el view)) (enc_counted le es) (concat pss)"
  unfolding accepts_def
proof (intro allI)
  fix pre suf :: bytes
  have "4 * length es \<le> length (concat es)"
    using assms(3) by (induction es) auto
  then have le: "length es \<le> (length (concat es) + length suf) div 4" by linarith
  obtain b where "wkb_times (el (pre @ enc_counted le es @ suf)) (length es) None (length pre + 4) =
      Inr (b, length pre + length (enc_counted le es))" "box_of b (concat pss)"
    using accepts_times [OF assms(1), of None "[]" "pre @ enc_word le 4 (length es)" suf]
    by (auto simp: enc_counted_def)
  with le read_uint32 [OF assms(2), of pre le "concat es @ suf"]
  show "\<exists>b. wkb_counted (pre @ enc_counted le es @ suf) le (el (pre @ enc_counted le es @ suf)) (length pre) =
      Inr (b, length pre + length (enc_counted le es)) \<and> box_of b (concat pss)"
    by (simp add: wkb_counted_def wkb_count_def enc_counted_def)
qed


lemma type_word_bound: "t \<le> 7 \<Longrightarrow> type_word f t < 2 ^ 32"
  by (simp add: type_word_def of_bool_def)

lemma wkb_type_words:
  "list_all (\<lambda>t. list_all (\<lambda>z. list_all (\<lambda>m. list_all (\<lambda>s.
     wkb_type (t + of_bool z * 2 ^ 31 + of_bool m * 2 ^ 30 + of_bool s * 2 ^ 29) = (t, 2 + of_bool z + of_bool m, s))
     [True, False]) [True, False]) [True, False]) [0, 1, 2, 3, 4, 5, 6, 7]"
  by (simp add: wkb_type_def)

lemma bool_listed: "b \<in> set [True, False]"
  by simp

lemma wkb_type_word:
  assumes "t \<le> 7"
  shows "wkb_type (type_word f t) = (t, flags_dims f, w_srid f \<noteq> None)"
proof -
  have "t \<in> set [0, 1, 2, 3, 4, 5, 6, 7]" using assms by auto
  then show ?thesis using wkb_type_words bool_listed
    unfolding list_all_iff type_word_def flags_dims_def by blast
qed

lemma read_byte: "wkb_byte (pre @ b # suf) (length pre) = Inr (unat b, length pre + 1)"
  by (simp add: wkb_byte_def wkb_require_def)

lemma read_header:
  assumes "t \<le> 7" "wf_flags f"
  shows "wkb_header (pre @ enc_header f t @ suf) (length pre) =
    Inr ((w_little f, t, flags_dims f), length pre + length (enc_header f t))"
proof -
  let ?le = "w_little f"
  obtain srid where srid: "srid = (case w_srid f of None \<Rightarrow> [] | Some s \<Rightarrow> enc_word ?le 4 s)" by blast
  let ?o = "of_bool ?le :: byte"
  have v: "pre @ enc_header f t @ suf = pre @ ?o # enc_word ?le 4 (type_word f t) @ srid @ suf"
    by (simp add: enc_header_def srid)
  have o: "unat ?o = of_bool ?le" by simp
  have u: "wkb_uint32 (pre @ ?o # enc_word ?le 4 (type_word f t) @ srid @ suf) ?le (length pre + 1) =
      Inr (type_word f t, length pre + 5)"
    using read_uint32 [OF type_word_bound [OF assms(1)], of "pre @ [?o]" ?le f "srid @ suf"] by simp
  have sr: "wkb_uint32 (pre @ ?o # enc_word ?le 4 (type_word f t) @ enc_word ?le 4 s @ suf) ?le (length pre + 5) =
      Inr (s, length pre + 9)" if "s < 2 ^ 32" for s
    using read_uint32 [OF that, of "pre @ ?o # enc_word ?le 4 (type_word f t)" ?le suf] by simp
  show ?thesis
    unfolding v wkb_header_def read_byte o
    by (cases "w_srid f"; cases ?le)
      (use u sr assms in \<open>simp_all add: wkb_type_word enc_header_def srid wf_flags_def\<close>)
qed

lemma accepts_at:
  assumes "accepts el enc ps" "view = pre @ enc @ suf" "off = length pre" "n = off + length enc"
  shows "\<exists>b. el view off = Inr (b, n) \<and> box_of b ps"
  using assms by (simp add: accepts_def)

lemma accepts_header:
  assumes "t \<le> 7" "wf_flags f" "accepts body enc ps"
    and "\<And>view off. wkb_header view off = Inr ((w_little f, t, flags_dims f), off') \<Longrightarrow> True"
    and body: "\<And>view off off'. wkb_header view off = Inr ((w_little f, t, flags_dims f), off') \<Longrightarrow>
        wkb_geometry fuel view off = body view off'"
  shows "accepts (wkb_geometry fuel) (enc_header f t @ enc) ps"
  unfolding accepts_def
proof (intro allI)
  fix pre suf
  have "\<exists>b. body (pre @ enc_header f t @ enc @ suf) (length pre + length (enc_header f t)) =
      Inr (b, length pre + length (enc_header f t @ enc)) \<and> box_of b ps"
    by (rule accepts_at [OF assms(3), of _ "pre @ enc_header f t" suf]) simp_all
  with body [OF read_header [OF assms(1,2)], of pre "enc @ suf"]
  show "\<exists>b. wkb_geometry fuel (pre @ (enc_header f t @ enc) @ suf) (length pre) =
      Inr (b, length pre + length (enc_header f t @ enc)) \<and> box_of b ps" by simp
qed

lemma list_all2_map_map: "(\<And>x. x \<in> set xs \<Longrightarrow> P (f x) (g x)) \<Longrightarrow> list_all2 P (map f xs) (map g xs)"
  by (induction xs) auto

lemma length_enc_counted: "4 \<le> length (enc_counted le es)"
  by (simp add: enc_counted_def)

lemma length_wkb_encode: "5 \<le> length (wkb_encode g)"
  by (cases g) (simp_all add: enc_header_def)

lemma accepts_points:
  assumes "wf_count ps" "list_all (wf_point f) ps"
  shows "accepts (\<lambda>view. wkb_points view le (flags_dims f)) (enc_counted le (map (enc_point le) ps))
    (concat (map point_ordinates ps))"
proof -
  have "list_all2 (accepts (\<lambda>view. wkb_point view le (flags_dims f))) (map (enc_point le) ps) (map point_ordinates ps)"
    using assms(2) by (intro list_all2_map_map accepts_point) (auto simp: list_all_iff)
  moreover have "list_all (\<lambda>e. 4 \<le> length e) (map (enc_point le) ps)"
    using assms(2) by (auto simp: list_all_iff length_enc_point wf_point_def flags_dims_def)
  moreover have "wkb_points v le d = wkb_counted v le (wkb_point v le d)" for v d
    by (rule ext) (simp add: wkb_points_def)
  ultimately show ?thesis using accepts_counted assms(1) unfolding wf_count_def by (simp add: accepts_counted)
qed

lemma accepts_geometry:
  "wf_geom g \<Longrightarrow> length (wkb_encode g) < fuel \<Longrightarrow> accepts (wkb_geometry fuel) (wkb_encode g) (geom_points g)"
proof (induction g arbitrary: fuel)
  case (WPoint f p)
  then obtain fuel' where "fuel = Suc fuel'" by (cases fuel) auto
  with WPoint show ?case unfolding wkb_encode.simps geom_points.simps
    by (intro accepts_header [OF _ _ accepts_point]) auto
next
  case (WLine f ps)
  then obtain fuel' where "fuel = Suc fuel'" by (cases fuel) auto
  with WLine show ?case unfolding wkb_encode.simps geom_points.simps
    by (intro accepts_header [OF _ _ accepts_points]) auto
next
  case (WPolygon f rs)
  let ?le = "w_little f"
  from WPolygon.prems obtain fuel' where fuel: "fuel = Suc fuel'" by (cases fuel) auto
  have "accepts (\<lambda>view. wkb_counted view ?le (wkb_points view ?le (flags_dims f)))
      (enc_counted ?le (map (\<lambda>r. enc_counted ?le (map (enc_point ?le) r)) rs))
      (concat (map (\<lambda>r. concat (map point_ordinates r)) rs))"
    using WPolygon.prems
    by (intro accepts_counted list_all2_map_map accepts_points) (auto simp: list_all_iff length_enc_counted wf_count_def)
  then show ?case unfolding wkb_encode.simps geom_points.simps
    using WPolygon.prems by (intro accepts_header) (auto simp: fuel)
next
  case (WMulti f t gs)
  let ?le = "w_little f"
  from WMulti.prems obtain fuel' where fuel: "fuel = Suc fuel'" by (cases fuel) auto
  have "accepts (wkb_geometry fuel') (wkb_encode g) (geom_points g)" if g: "g \<in> set gs" for g
  proof (rule WMulti.IH [OF g])
    show "wf_geom g" using g WMulti.prems by (simp add: list_all_iff)
    have "length (wkb_encode g) \<le> sum_list (map length (map wkb_encode gs))"
      using member_sum_list [OF g, of "\<lambda>g. length (wkb_encode g)"] by (simp add: o_def)
    then show "length (wkb_encode g) < fuel'"
      using WMulti.prems(2) by (simp add: fuel enc_counted_def length_concat)
  qed
  then have "accepts (\<lambda>view. wkb_counted view ?le (wkb_geometry fuel' view))
      (enc_counted ?le (map wkb_encode gs)) (concat (map geom_points gs))"
    using WMulti.prems length_wkb_encode
    by (intro accepts_counted list_all2_map_map) (auto simp: list_all_iff wf_count_def intro: order_trans [of 4 5])
  then show ?case unfolding wkb_encode.simps geom_points.simps
    using WMulti.prems by (intro accepts_header) (auto simp: fuel)
qed

lemma wkb_read_encode: "wf_geom g \<Longrightarrow> \<exists>b. wkb_read (wkb_encode g) = Inr b \<and> box_of b (geom_points g)"
  using accepts_at [OF accepts_geometry [of g "Suc (length (wkb_encode g))"], of "wkb_encode g" "[]" "[]" 0]
  by (auto simp: wkb_read_def simp del: wkb_geometry.simps)

end
