(* ===== verification/FilterEval.thy ===== *)
theory FilterEval
  imports Wkb
begin

text \<open>
  The evaluator of \<open>src/filter-pushdown/evaluate.ts\<close>: comparison and three-valued logic,
  casts and arithmetic, the evaluation of an expression on a row, the columns and discrete
  values it names, and \<open>PushdownFilters\<close>.
\<close>

section \<open>Comparison and three-valued logic\<close>

definition orderedCompare :: "host \<Rightarrow> jsval \<Rightarrow> jsval \<Rightarrow> int" where
  "orderedCompare h left right =
     (let rest = (if deepEqual left right then 0 else if js_less h left right then - 1 else 1) in
      case (left, right) of
        (VNum x, VNum y) \<Rightarrow>
          if x = NaN \<or> y = NaN then (if (x = NaN) = (y = NaN) then 0 else if x = NaN then 1 else - 1) else rest
      | _ \<Rightarrow> rest)"

definition compare :: "host \<Rightarrow> jsval \<Rightarrow> jsval \<Rightarrow> ComparisonOp \<Rightarrow> jsval" where
  "compare h left right op =
     (if op = DISTINCT_FROM then
        VBool (if left = VNull \<or> right = VNull then \<not> strict_equal left right else \<not> deepEqual left right)
      else if op = NOT_DISTINCT_FROM then
        VBool (if left = VNull \<or> right = VNull then strict_equal left right else deepEqual left right)
      else if left = VNull \<or> right = VNull then VNull
      else let order = orderedCompare h left right in
        VBool (case op of EQ \<Rightarrow> order = 0 | NE \<Rightarrow> order \<noteq> 0 | LT \<Rightarrow> order < 0 | LE \<Rightarrow> order \<le> 0
          | GT \<Rightarrow> order > 0 | GE \<Rightarrow> order \<ge> 0 | _ \<Rightarrow> False))"

definition andKleene :: "jsval list \<Rightarrow> jsval" where
  "andKleene vs = (if list_ex (\<lambda>v. v = VBool False) vs then VBool False
     else if list_ex (\<lambda>v. v = VNull) vs then VNull else VBool True)"

definition orKleene :: "jsval list \<Rightarrow> jsval" where
  "orKleene vs = (if list_ex (\<lambda>v. v = VBool True) vs then VBool True
     else if list_ex (\<lambda>v. v = VNull) vs then VNull else VBool False)"

text \<open>\<open>!value\<close>.\<close>

definition truthy :: "jsval \<Rightarrow> bool" where
  "truthy v = (case v of VUndef \<Rightarrow> False | VNull \<Rightarrow> False | VBool b \<Rightarrow> b
     | VNum x \<Rightarrow> x \<noteq> NaN \<and> \<not> num_zero x | VBig i \<Rightarrow> i \<noteq> 0 | VStr s \<Rightarrow> s \<noteq> [] | _ \<Rightarrow> True)"

section \<open>Casts and arithmetic\<close>

definition big_shift :: "int \<Rightarrow> int" where
  "big_shift w = (if 0 \<le> w then 2 ^ nat w else 0)"

definition integerBounds :: "arrow_type \<Rightarrow> (int \<times> int) option" where
  "integerBounds type = (case type of
     TInt width sg \<Rightarrow> Some (if sg then (- big_shift (int width - 1), big_shift (int width - 1) - 1)
                            else (0, big_shift (int width) - 1))
   | _ \<Rightarrow> None)"

definition cast_error :: "host \<Rightarrow> jsval \<Rightarrow> string \<Rightarrow> filter_error" where
  "cast_error h v target = FilterV2Error (''cannot cast '' @ js_to_string h v @ '' to '' @ target)"

text \<open>\<open>BigInt(...)\<close> of the value; \<open>None\<close> where it throws.\<close>

definition to_bigint :: "host \<Rightarrow> jsval \<Rightarrow> int option" where
  "to_bigint h v = (case v of
     VBig i \<Rightarrow> Some i
   | VNum x \<Rightarrow> (if is_integer (num_trunc x) then Some (num_floor (num_trunc x)) else None)
   | _ \<Rightarrow> string_to_bigint h (js_to_string h v))"

definition bit_width :: "arrow_type \<Rightarrow> nat" where
  "bit_width t = (case t of TInt w _ \<Rightarrow> w | _ \<Rightarrow> 0)"

definition castValue :: "host \<Rightarrow> jsval \<Rightarrow> arrow_type \<Rightarrow> filter_error + jsval" where
  "castValue h value type =
     (if value = VNull then Inr VNull
      else if isUtf8 type then Inr (VStr (js_to_string h value))
      else if isBool type then
        (case value of VBool b \<Rightarrow> Inr value
         | _ \<Rightarrow> if strict_equal value (VNum (Fin 0)) \<or> value = VBig 0 \<or> value = VStr ''false'' then Inr (VBool False)
               else if strict_equal value (VNum (Fin 1)) \<or> value = VBig 1 \<or> value = VStr ''true'' then Inr (VBool True)
               else Inl (cast_error h value ''BOOLEAN''))
      else if isFloat type then
        (let result = js_to_number h value in
         if result = NaN \<and> to_lower (js_to_string h value) \<noteq> ''nan''
         then Inl (cast_error h value ''floating point'') else Inr (VNum result))
      else (case integerBounds type of
          Some (lo, hi) \<Rightarrow>
            (case to_bigint h value of
               None \<Rightarrow> Inl (cast_error h value ''integer'')
             | Some result \<Rightarrow>
                 if result < lo \<or> hi < result then Inl (FilterV2Error ''integer cast overflow'')
                 else Inr (if bit_width type = 64 then VBig result else VNum (num_of_int result)))
        | None \<Rightarrow> Inl (FilterV2Error (''no vgi.duckdb.standard.v1 cast evaluator for Arrow type '' @
                     int_to_string (typeId type)))))"

text \<open>\<open>BigInt\<close> division truncates towards zero; the remainder keeps the dividend's sign.\<close>

definition big_div :: "int \<Rightarrow> int \<Rightarrow> int" where
  "big_div a b = sgn a * sgn b * (\<bar>a\<bar> div \<bar>b\<bar>)"

definition big_mod :: "int \<Rightarrow> int \<Rightarrow> int" where
  "big_mod a b = a - b * big_div a b"

definition is_numeric :: "jsval \<Rightarrow> bool" where
  "is_numeric v = (case v of VNum _ \<Rightarrow> True | VBig _ \<Rightarrow> True | _ \<Rightarrow> False)"

definition numericBinary ::
  "host \<Rightarrow> ArithmeticOp \<Rightarrow> jsval \<Rightarrow> jsval \<Rightarrow> EvaluationContext \<Rightarrow> filter_error + jsval" where
  "numericBinary h op left right context =
     (if left = VNull \<or> right = VNull then Inr VNull
      else if \<not> is_numeric left \<or> \<not> is_numeric right then Inl (FilterV2Error ''arithmetic operands must be numeric'')
      else (case (left, right) of
          (VBig i, VBig j) \<Rightarrow>
            if (op = OpDivide \<or> op = OpModulo) \<and> j = 0 then Inl (FilterV2Error ''division by zero'')
            else Inr (case op of OpAdd \<Rightarrow> VBig (i + j) | OpSubtract \<Rightarrow> VBig (i - j) | OpMultiply \<Rightarrow> VBig (i * j)
              | OpDivide \<Rightarrow> (if integerDivision context = Some True then VBig (big_div i j)
                            else VNum (num_div (num_of_int i) (num_of_int j)))
              | OpModulo \<Rightarrow> VBig (big_mod i j))
        | _ \<Rightarrow>
            let a = js_to_number h left; b = js_to_number h right in
            if (op = OpDivide \<or> op = OpModulo) \<and> num_zero b \<and> ieeeFloatingPointOps context = Some False
            then Inl (FilterV2Error ''division by zero'')
            else Inr (VNum (case op of OpAdd \<Rightarrow> num_add a b | OpSubtract \<Rightarrow> num_add a (num_neg b)
              | OpMultiply \<Rightarrow> num_mul a b | OpDivide \<Rightarrow> num_div a b | OpModulo \<Rightarrow> num_mod a b))))"

section \<open>Calls\<close>

definition arg :: "jsval list \<Rightarrow> nat \<Rightarrow> jsval" where
  "arg args i = (if i < length args then args ! i else VUndef)"

definition boxes_intersect :: "Bounds option \<Rightarrow> Bounds option \<Rightarrow> bool" where
  "boxes_intersect left right = (case (left, right) of
     (Some l, Some r) \<Rightarrow> \<not> (num_lt (maxX r) (minX l) \<or> num_lt (maxX l) (minX r) \<or>
                            num_lt (maxY l) (minY r) \<or> num_lt (maxY r) (minY l))
   | _ \<Rightarrow> False)"

definition evaluateCall :: "host \<Rightarrow> call_function \<Rightarrow> jsval list \<Rightarrow> filter_error + jsval" where
  "evaluateCall h fn args =
     (if list_ex (\<lambda>v. v = VNull) args then Inr VNull
      else (case fn of
          StandardFn f \<Rightarrow>
            let left = arg args 0; right = arg args 1; ls = js_to_string h left; rs = js_to_string h right in
            Inr (VBool (case f of
                SfStartsWith \<Rightarrow> starts_with ls rs
              | SfEndsWith \<Rightarrow> ends_with ls rs
              | SfContains \<Rightarrow> str_includes ls rs
              | SfListContains \<Rightarrow> (case left of
                    VArr vs \<Rightarrow> list_ex (\<lambda>v. v \<noteq> VNull \<and> deepEqual v right) vs | _ \<Rightarrow> False)))
        | ExtensionFn identity \<Rightarrow>
            if filterFunctionIdentityKey identity = ''duckdb.spatial/intersects_extent@1''
            then rbind (wkbBBox (arg args 0)) (\<lambda>left. rbind (wkbBBox (arg args 1)) (\<lambda>right.
                   Inr (VBool (boxes_intersect left right))))
            else Inl (FilterV2Error ''no evaluator for extension filter function'')))"

section \<open>Expressions\<close>

definition resolveColumn :: "vgi_batch \<Rightarrow> string \<Rightarrow> filter_error + jsval list option" where
  "resolveColumn batch columnName =
     (case List.find (\<lambda>i. f_name (s_fields (b_schema batch) ! i) = columnName) [0..<length (s_fields (b_schema batch))] of
        None \<Rightarrow> Inl (FilterV2Error (''filter column '' @ columnName @ '' is unavailable in emitted batch''))
      | Some index \<Rightarrow> Inr (getChildAt batch index))"

definition nullish :: "jsval \<Rightarrow> jsval" where
  "nullish v = (if v = VUndef then VNull else v)"

text \<open>
  Property access on a struct value, and on what is not one: own properties, of strings their
  code units and length too.
\<close>

definition js_property :: "jsval \<Rightarrow> string \<Rightarrow> filter_error + jsval" where
  "js_property v k = (case v of
     VUndef \<Rightarrow> Inl (JsError ''TypeError'')
   | VNull \<Rightarrow> Inl (JsError ''TypeError'')
   | VStr s \<Rightarrow> Inr (if k = ''length'' then VNum (num_of_int (int (length s)))
       else (case map_of (index_props (map (\<lambda>c. VStr [c]) s)) k of Some w \<Rightarrow> w | None \<Rightarrow> VUndef))
   | _ \<Rightarrow> Inr (case map_of (own_props v) k of Some w \<Rightarrow> w | None \<Rightarrow> VUndef))"

definition num_negate :: "host \<Rightarrow> jsval \<Rightarrow> jsval" where
  "num_negate h v = (case v of VNull \<Rightarrow> VNull | VBig i \<Rightarrow> VBig (- i) | _ \<Rightarrow> VNum (num_neg (js_to_number h v)))"

definition in_result :: "jsval \<Rightarrow> jsval list \<Rightarrow> bool \<Rightarrow> jsval" where
  "in_result input values negated =
     (if input = VNull then VNull
      else if list_ex (\<lambda>v. v \<noteq> VNull \<and> deepEqual input v) values then VBool (\<not> negated)
      else if list_ex (\<lambda>v. v = VNull) values then VNull
      else VBool negated)"

fun evaluateExpression ::
  "host \<Rightarrow> vgi_batch \<Rightarrow> nat \<Rightarrow> EvaluationContext \<Rightarrow> FilterExpression \<Rightarrow> filter_error + jsval" where
  "evaluateExpression h batch row context (EColumn _ columnName _) =
     rbind (resolveColumn batch columnName) (\<lambda>resolved. Inr (case resolved of
       None \<Rightarrow> VNull | Some column \<Rightarrow> readCanonicalValue column row))"
| "evaluateExpression h batch row context (EField e fieldIndex fieldName _) =
     rbind (evaluateExpression h batch row context e) (\<lambda>parent.
       if parent = VNull then Inr VNull
       else (case parent of
           VArr vs \<Rightarrow> Inr (nullish (arg vs (nat fieldIndex)))
         | _ \<Rightarrow> rbind (js_property parent fieldName) (\<lambda>v. Inr (nullish v))))"
| "evaluateExpression h batch row context (ELiteral _ _ value) = Inr value"
| "evaluateExpression h batch row context (ECompare op left right) =
     rbind (evaluateExpression h batch row context left) (\<lambda>l.
     rbind (evaluateExpression h batch row context right) (\<lambda>r. Inr (compare h l r op)))"
| "evaluateExpression h batch row context (EAnd children) =
     rbind (mapR (\<lambda>c. evaluateExpression h batch row context c) children) (\<lambda>vs. Inr (andKleene vs))"
| "evaluateExpression h batch row context (EOr children) =
     rbind (mapR (\<lambda>c. evaluateExpression h batch row context c) children) (\<lambda>vs. Inr (orKleene vs))"
| "evaluateExpression h batch row context (ENot e) =
     rbind (evaluateExpression h batch row context e) (\<lambda>v.
       Inr (if v = VNull then VNull else VBool (\<not> truthy v)))"
| "evaluateExpression h batch row context (EIsNull e negated) =
     rbind (evaluateExpression h batch row context e) (\<lambda>v. Inr (VBool ((v = VNull) \<noteq> negated)))"
| "evaluateExpression h batch row context (EIn e fset negated) =
     rbind (evaluateExpression h batch row context e) (\<lambda>input. Inr (in_result input (set_values fset) negated))"
| "evaluateExpression h batch row context (ECast e _ field) =
     rbind (evaluateExpression h batch row context e) (\<lambda>v. castValue h v (f_type field))"
| "evaluateExpression h batch row context (EArith op left right) =
     rbind (evaluateExpression h batch row context left) (\<lambda>l.
     rbind (evaluateExpression h batch row context right) (\<lambda>r. numericBinary h op l r context))"
| "evaluateExpression h batch row context (ENegate e) =
     rbind (evaluateExpression h batch row context e) (\<lambda>v. Inr (num_negate h v))"
| "evaluateExpression h batch row context (ECall fn args _) =
     rbind (mapR (\<lambda>a. evaluateExpression h batch row context a) args) (\<lambda>vs. evaluateCall h fn vs)"
| "evaluateExpression h batch row context (ERuntime _ _ _ _ _ _ _) =
     Inl (FilterV2Error ''runtime-filter artifact evaluator is unavailable'')"

text \<open>\<open>expressionColumns\<close> fills a \<open>Map\<close> from column index to name.\<close>

fun expressionColumns :: "FilterExpression \<Rightarrow> (int, string) jsmap \<Rightarrow> (int, string) jsmap" where
  "expressionColumns (EColumn i n _) output = jm_set i n output"
| "expressionColumns (EField e _ _ _) output = expressionColumns e output"
| "expressionColumns (ENot e) output = expressionColumns e output"
| "expressionColumns (EIsNull e _) output = expressionColumns e output"
| "expressionColumns (ECast e _ _) output = expressionColumns e output"
| "expressionColumns (ENegate e) output = expressionColumns e output"
| "expressionColumns (ECompare _ l r) output = expressionColumns r (expressionColumns l output)"
| "expressionColumns (EArith _ l r) output = expressionColumns r (expressionColumns l output)"
| "expressionColumns (EAnd cs) output = fold (\<lambda>c. expressionColumns c) cs output"
| "expressionColumns (EOr cs) output = fold (\<lambda>c. expressionColumns c) cs output"
| "expressionColumns (EIn e _ _) output = expressionColumns e output"
| "expressionColumns (ECall _ args _) output = fold (\<lambda>c. expressionColumns c) args output"
| "expressionColumns (ERuntime _ input _ _ _ _ _) output = expressionColumns input output"
| "expressionColumns (ELiteral _ _ _) output = output"

definition bool_column :: "FilterExpression \<Rightarrow> string option" where
  "bool_column e = (case e of EColumn _ n (Some t) \<Rightarrow> (if isBool t then Some n else None) | _ \<Rightarrow> None)"

definition booleanColumnLeaf :: "FilterExpression \<Rightarrow> (string \<times> bool) option" where
  "booleanColumnLeaf e = (case e of
     ENot inner \<Rightarrow> map_option (\<lambda>n. (n, False)) (bool_column inner)
   | _ \<Rightarrow> map_option (\<lambda>n. (n, True)) (bool_column e))"

definition is_column :: "string \<Rightarrow> FilterExpression \<Rightarrow> bool" where
  "is_column n e = (case e of EColumn _ n' _ \<Rightarrow> n' = n | _ \<Rightarrow> False)"

definition add_distinct :: "jsval list \<Rightarrow> jsval \<Rightarrow> jsval list" where
  "add_distinct result v = (if list_ex (\<lambda>known. deepEqual known v) result then result else result @ [v])"

fun first_some :: "('a \<Rightarrow> 'b option) \<Rightarrow> 'a list \<Rightarrow> 'b option" where
  "first_some f [] = None"
| "first_some f (x # xs) = (case f x of Some y \<Rightarrow> Some y | None \<Rightarrow> first_some f xs)"

fun all_some :: "('a \<Rightarrow> 'b option) \<Rightarrow> 'a list \<Rightarrow> 'b list option" where
  "all_some f [] = Some []"
| "all_some f (x # xs) = (case f x of None \<Rightarrow> None | Some y \<Rightarrow>
     (case all_some f xs of None \<Rightarrow> None | Some ys \<Rightarrow> Some (y # ys)))"

lemma first_some_ext: "(\<And>x. x \<in> set ys \<Longrightarrow> f x = g x) \<Longrightarrow> first_some f ys = first_some g ys"
  by (induction ys) (auto split: option.splits)

lemma first_some_cong [fundef_cong]:
  "xs = ys \<Longrightarrow> (\<And>x. x \<in> set ys \<Longrightarrow> f x = g x) \<Longrightarrow> first_some f xs = first_some g ys"
  using first_some_ext by blast

lemma all_some_ext: "(\<And>x. x \<in> set ys \<Longrightarrow> f x = g x) \<Longrightarrow> all_some f ys = all_some g ys"
  by (induction ys) (auto split: option.splits)

lemma all_some_cong [fundef_cong]:
  "xs = ys \<Longrightarrow> (\<And>x. x \<in> set ys \<Longrightarrow> f x = g x) \<Longrightarrow> all_some f xs = all_some g ys"
  using all_some_ext by blast

lemma first_some_Some: "first_some f xs = Some y \<Longrightarrow> \<exists>x\<in>set xs. f x = Some y"
  by (induction xs) (auto split: option.splits)

lemma all_some_Some: "all_some f xs = Some ys \<Longrightarrow> list_all2 (\<lambda>x y. f x = Some y) xs ys"
  by (induction xs arbitrary: ys) (auto split: option.splits)

fun discreteValues :: "string \<Rightarrow> FilterExpression \<Rightarrow> jsval list option" where
  "discreteValues columnName (ECompare op left right) =
     (if op = EQ then
        (case (left, right) of
           (_, ELiteral _ _ v) \<Rightarrow> if is_column columnName left then Some [v] else None
         | (ELiteral _ _ v, _) \<Rightarrow> if is_column columnName right then Some [v] else None
         | _ \<Rightarrow> None)
      else None)"
| "discreteValues columnName (EIn e fset negated) =
     (if is_column columnName e \<and> \<not> negated then Some (set_values fset) else None)"
| "discreteValues columnName (EAnd children) = first_some (\<lambda>c. discreteValues columnName c) children"
| "discreteValues columnName (EOr children) =
     (case all_some (\<lambda>c. discreteValues columnName c) children of
        None \<Rightarrow> None | Some branches \<Rightarrow> Some (foldl add_distinct [] (concat branches)))"
| "discreteValues columnName e =
     (case booleanColumnLeaf e of
        Some (n, value) \<Rightarrow> if n = columnName then Some [VBool value] else None | None \<Rightarrow> None)"

section \<open>The filters of a scan\<close>

text \<open>\<open>revisions\<close> is a \<open>Map\<close>; the set \<open>requiredIds\<close> lists its members in insertion order.\<close>

record PushdownFilters =
  predicates :: "FilterPredicate list"
  evaluationContext :: EvaluationContext
  options :: DeserializeFilterOptions
  revisions :: "(string, int) jsmap"
  requiredIds :: "string list"

definition filters :: "PushdownFilters \<Rightarrow> FilterExpression list" where
  "filters f = map fp_expression (predicates f)"

definition withPredicateOrder :: "PushdownFilters \<Rightarrow> string list \<Rightarrow> filter_error + PushdownFilters" where
  "withPredicateOrder f order =
     (if map fp_id (predicates f) = order then Inr f
      else let byId = jm_of (map (\<lambda>p. (fp_id p, p)) (predicates f)) in
        if length order \<noteq> length byId \<or> \<not> distinct order \<or> \<not> list_all (jm_has byId) order
        then Inl (FilterV2Error ''recorded predicate order does not match the replayed filter state'')
        else Inr (f\<lparr>predicates := map (\<lambda>k. the (jm_get byId k)) order\<rparr>))"

definition row_values ::
  "host \<Rightarrow> vgi_batch \<Rightarrow> EvaluationContext \<Rightarrow> FilterExpression \<Rightarrow> filter_error + jsval list" where
  "row_values h batch context e = mapR (\<lambda>row. evaluateExpression h batch row context e) [0..<b_rows batch]"

definition unsupported_runtime :: "FilterExpression \<Rightarrow> bool" where
  "unsupported_runtime e = (case e of ERuntime _ _ _ _ _ _ supported \<Rightarrow> \<not> supported | _ \<Rightarrow> False)"

fun evaluate_predicates ::
  "host \<Rightarrow> vgi_batch \<Rightarrow> EvaluationContext \<Rightarrow> FilterPredicate list \<Rightarrow> bool list \<Rightarrow> filter_error + bool list" where
  "evaluate_predicates h batch context [] keep = Inr keep"
| "evaluate_predicates h batch context (p # ps) keep =
     (if unsupported_runtime (fp_expression p) then evaluate_predicates h batch context ps keep
      else (case row_values h batch context (fp_expression p) of
          Inl err \<Rightarrow> if fp_mode p = Advisory then evaluate_predicates h batch context ps keep else Inl err
        | Inr values \<Rightarrow> evaluate_predicates h batch context ps
            (map2 (\<lambda>m v. m \<and> v = VBool True) keep values)))"

definition evaluate :: "host \<Rightarrow> PushdownFilters \<Rightarrow> vgi_batch \<Rightarrow> filter_error + bool list" where
  "evaluate h f batch =
     evaluate_predicates h batch (evaluationContext f) (predicates f) (replicate (b_rows batch) True)"

text \<open>
  \<open>filterBatch\<close> of \<open>src/arrow/impl-flechette/filter.ts\<close>: the kept rows of each field's column,
  which it finds by name.  Rebuilding a column from canonical values keeps them.
\<close>

definition getChild :: "vgi_batch \<Rightarrow> string \<Rightarrow> jsval list option" where
  "getChild batch n = (case List.find (\<lambda>i. f_name (s_fields (b_schema batch) ! i) = n) [0..<length (s_fields (b_schema batch))] of
     None \<Rightarrow> None | Some i \<Rightarrow> getChildAt batch i)"

definition emptyBatch :: "vgi_schema \<Rightarrow> vgi_batch" where
  "emptyBatch s = \<lparr>b_schema = s, b_rows = 0, b_columns = map (\<lambda>_. []) (s_fields s)\<rparr>"

definition filterBatch :: "vgi_batch \<Rightarrow> bool list \<Rightarrow> vgi_batch" where
  "filterBatch batch keep =
     (let indices = filter (\<lambda>i. i < length keep \<and> keep ! i) [0..<b_rows batch] in
      if length indices = b_rows batch then batch
      else if indices = [] then emptyBatch (b_schema batch)
      else batch\<lparr>b_rows := length indices,
                 b_columns := map (\<lambda>f. case getChild batch (f_name f) of
                     Some col \<Rightarrow> map (readCanonicalValue col) indices
                   | None \<Rightarrow> map (\<lambda>_. VNull) indices) (s_fields (b_schema batch))\<rparr>)"

definition apply_filters :: "host \<Rightarrow> PushdownFilters \<Rightarrow> vgi_batch \<Rightarrow> filter_error + vgi_batch" where
  "apply_filters h f batch =
     (if b_rows batch = 0 \<or> predicates f = [] then Inr batch
      else rbind (evaluate h f batch) (\<lambda>keep. Inr (filterBatch batch keep)))"

text \<open>The names are a \<open>Set\<close>, sorted by code unit.\<close>

definition str_le :: "string \<Rightarrow> string \<Rightarrow> bool" where
  "str_le a b \<longleftrightarrow> \<not> str_less b a"

fun insert_sorted :: "string \<Rightarrow> string list \<Rightarrow> string list" where
  "insert_sorted x [] = [x]"
| "insert_sorted x (y # ys) = (if str_le x y then x # y # ys else y # insert_sorted x ys)"

definition filteredColumns :: "PushdownFilters \<Rightarrow> string list" where
  "filteredColumns f =
     foldr insert_sorted (remdups (concat (map (\<lambda>p. map snd (expressionColumns (fp_expression p) [])) (predicates f)))) []"

definition hasFilterForColumn :: "PushdownFilters \<Rightarrow> string \<Rightarrow> bool" where
  "hasFilterForColumn f n \<longleftrightarrow> n \<in> set (filteredColumns f)"

definition getColumnValues :: "PushdownFilters \<Rightarrow> string \<Rightarrow> jsval list option" where
  "getColumnValues f n = first_some (\<lambda>p. discreteValues n (fp_expression p)) (predicates f)"

section \<open>Rendering\<close>

definition double_quotes :: "string \<Rightarrow> string" where
  "double_quotes s = concat (map (\<lambda>c. if c = CHR 0x27 then [CHR 0x27, CHR 0x27] else [c]) s)"

definition hex_byte :: "byte \<Rightarrow> string" where
  "hex_byte b = [hex_digit (unat b div 16), hex_digit (unat b mod 16)]"

fun quote :: "host \<Rightarrow> jsval \<Rightarrow> string" where
  "quote h VNull = ''NULL''"
| "quote h (VStr s) = [CHR 0x27] @ double_quotes s @ [CHR 0x27]"
| "quote h (VBytes bs) = ''X'' @ [CHR 0x27] @ concat (map hex_byte bs) @ [CHR 0x27]"
| "quote h (VArr vs) = ''['' @ join_with '', '' (map (\<lambda>v. quote h v) vs) @ '']''"
| "quote h v = js_to_string h v"

definition op_sql :: "ComparisonOp \<Rightarrow> string" where
  "op_sql op = (case op of EQ \<Rightarrow> ''='' | NE \<Rightarrow> ''!='' | LT \<Rightarrow> ''<'' | LE \<Rightarrow> ''<='' | GT \<Rightarrow> ''>'' | GE \<Rightarrow> ''>=''
     | DISTINCT_FROM \<Rightarrow> ''IS DISTINCT FROM'' | NOT_DISTINCT_FROM \<Rightarrow> ''IS NOT DISTINCT FROM'')"

definition arith_sql :: "ArithmeticOp \<Rightarrow> string" where
  "arith_sql op = (case op of OpAdd \<Rightarrow> ''+'' | OpSubtract \<Rightarrow> ''-'' | OpMultiply \<Rightarrow> ''*'' | OpDivide \<Rightarrow> ''/'' | OpModulo \<Rightarrow> ''%'')"

definition standard_name :: "StandardFilterFunction \<Rightarrow> string" where
  "standard_name f = (case f of SfStartsWith \<Rightarrow> ''starts_with'' | SfEndsWith \<Rightarrow> ''ends_with''
     | SfContains \<Rightarrow> ''contains'' | SfListContains \<Rightarrow> ''list_contains'')"

text \<open>\<open>predicateToSql\<close> given the rendering of the expression itself.\<close>

definition sql_predicate :: "host \<Rightarrow> FilterExpression \<Rightarrow> string \<Rightarrow> string" where
  "sql_predicate h e sql = (case booleanColumnLeaf e of
     Some (n, v) \<Rightarrow> n @ '' = '' @ quote h (VBool v) | None \<Rightarrow> sql)"

fun expressionToSql :: "host \<Rightarrow> FilterExpression \<Rightarrow> string" where
  "expressionToSql h (EColumn _ n _) = n"
| "expressionToSql h (EField e _ n _) = expressionToSql h e @ ''.'' @ n"
| "expressionToSql h (ELiteral _ _ v) = quote h v"
| "expressionToSql h (ECompare op l r) = expressionToSql h l @ '' '' @ op_sql op @ '' '' @ expressionToSql h r"
| "expressionToSql h (EAnd cs) = ''('' @ join_with '' AND '' (map (\<lambda>c. sql_predicate h c (expressionToSql h c)) cs) @ '')''"
| "expressionToSql h (EOr cs) = ''('' @ join_with '' OR '' (map (\<lambda>c. sql_predicate h c (expressionToSql h c)) cs) @ '')''"
| "expressionToSql h (ENot e) = ''(NOT '' @ expressionToSql h e @ '')''"
| "expressionToSql h (EIsNull e negated) = expressionToSql h e @ '' IS '' @ (if negated then ''NOT '' else []) @ ''NULL''"
| "expressionToSql h (EIn e fset negated) = expressionToSql h e @ '' '' @ (if negated then ''NOT '' else []) @
     ''IN ('' @ join_with '', '' (map (quote h) (set_values fset)) @ '')''"
| "expressionToSql h (ECast e ref _) = ''CAST('' @ expressionToSql h e @ '' AS type_'' @ int_to_string ref @ '')''"
| "expressionToSql h (EArith op l r) =
     ''('' @ expressionToSql h l @ '' '' @ arith_sql op @ '' '' @ expressionToSql h r @ '')''"
| "expressionToSql h (ENegate e) = ''(-'' @ expressionToSql h e @ '')''"
| "expressionToSql h (ECall fn args _) =
     (case fn of StandardFn f \<Rightarrow> standard_name f | ExtensionFn i \<Rightarrow> filterFunctionIdentityKey i) @
     ''('' @ join_with '', '' (map (\<lambda>a. expressionToSql h a) args) @ '')''"
| "expressionToSql h (ERuntime i input _ _ _ _ _) =
     filterFunctionIdentityKey i @ ''('' @ expressionToSql h input @ '')''"

definition predicateToSql :: "host \<Rightarrow> FilterExpression \<Rightarrow> string" where
  "predicateToSql h e = sql_predicate h e (expressionToSql h e)"

definition toSql :: "host \<Rightarrow> PushdownFilters \<Rightarrow> string" where
  "toSql h f = join_with '' AND '' (map (\<lambda>p. predicateToSql h (fp_expression p)) (predicates f))"

end
