(* ===== verification/StrictJson.thy ===== *)
theory StrictJson
  imports FilterTypes
begin

text \<open>
  The strict JSON reader of \<open>src/filter-pushdown/deserialize.ts\<close> (\<open>StrictJsonParser\<close>): objects
  with a repeated name are refused.  The reader's state is the text not yet read; error
  messages leave out the offset.  A document that holds a character above \<open>U+00FF\<close> is outside the
  strings of the model, and reading one is the error \<open>not_latin1\<close>.
\<close>

section \<open>Documents\<close>

text \<open>
  An object has its own entries and, where a member named \<open>__proto__\<close> was assigned, the object
  or \<open>null\<close> that became its prototype: \<open>result[key] = value\<close> does not create a property of
  that name, and ignores a primitive.
\<close>

datatype jdoc =
    JNull
  | JBool bool
  | JNum jsnum
  | JStr string
  | JArr "jdoc list"
  | JObj "(string \<times> jdoc) list" "jdoc option"

definition not_latin1 :: filter_error where
  "not_latin1 = JsError ''character above U+00FF''"

definition json_fuel :: filter_error where
  "json_fuel = JsError ''out of fuel''"

definition json_error :: "string \<Rightarrow> filter_error" where
  "json_error msg = FilterV2Error (''invalid filter JSON: '' @ msg)"

definition assign :: "string \<Rightarrow> jdoc \<Rightarrow> (string \<times> jdoc) list \<times> jdoc option \<Rightarrow> (string \<times> jdoc) list \<times> jdoc option" where
  "assign k v obj = (case obj of (es, proto) \<Rightarrow>
     if k = ''__proto__''
     then (case v of JObj _ _ \<Rightarrow> (es, Some v) | JArr _ \<Rightarrow> (es, Some v) | JNull \<Rightarrow> (es, Some v) | _ \<Rightarrow> (es, proto))
     else (jm_set k v es, proto))"

text \<open>\<open>object[k]\<close> and \<open>k in object\<close>, for names no built-in prototype has.\<close>

fun jget :: "jdoc \<Rightarrow> string \<Rightarrow> jdoc option" where
  "jget (JObj es proto) k = (case jm_get es k of Some v \<Rightarrow> Some v
     | None \<Rightarrow> (case proto of Some p \<Rightarrow> jget p k | None \<Rightarrow> None))"
| "jget _ k = None"

fun jkeys :: "jdoc \<Rightarrow> string list" where
  "jkeys (JObj es _) = map fst es"
| "jkeys _ = []"

section \<open>Lexing\<close>

text \<open>\<open>\s\<close> below \<open>U+0100\<close>.\<close>

definition is_space :: "char \<Rightarrow> bool" where
  "is_space c = (let n = of_char c :: nat in (9 \<le> n \<and> n \<le> 13) \<or> n = 32 \<or> n = 160)"

definition skip_space :: "string \<Rightarrow> string" where
  "skip_space s = dropWhile is_space s"

definition is_digit :: "char \<Rightarrow> bool" where
  "is_digit c = (let n = of_char c :: nat in 48 \<le> n \<and> n \<le> 57)"

text \<open>The scan of a string literal: the text up to the closing quote, and what follows it.\<close>

fun scan_string :: "bool \<Rightarrow> string \<Rightarrow> string \<Rightarrow> filter_error + (string \<times> string)" where
  "scan_string escaped raw [] = Inl (json_error ''unterminated string'')"
| "scan_string escaped raw (ch # s) =
     (if \<not> escaped \<and> ch = CHR 0x22 then Inr (rev raw, s)
      else if \<not> escaped \<and> (of_char ch :: nat) < 32 then Inl (json_error ''control character in string'')
      else scan_string (\<not> escaped \<and> ch = CHR 0x5C) (ch # raw) s)"

definition hex_value :: "char \<Rightarrow> nat option" where
  "hex_value c = (let n = of_char c :: nat in
     if 48 \<le> n \<and> n \<le> 57 then Some (n - 48)
     else if 65 \<le> n \<and> n \<le> 70 then Some (n - 55)
     else if 97 \<le> n \<and> n \<le> 102 then Some (n - 87) else None)"

definition hex4 :: "char \<Rightarrow> char \<Rightarrow> char \<Rightarrow> char \<Rightarrow> nat option" where
  "hex4 a b c d = (if hex_value a = None \<or> hex_value b = None \<or> hex_value c = None \<or> hex_value d = None then None
     else Some (4096 * the (hex_value a) + 256 * the (hex_value b) + 16 * the (hex_value c) + the (hex_value d)))"

definition simple_escape :: "char \<Rightarrow> char option" where
  "simple_escape c =
     (if c = CHR 0x22 \<or> c = CHR 0x5C \<or> c = CHR ''/'' then Some c
      else if c = CHR ''b'' then Some (CHR 0x08) else if c = CHR ''f'' then Some (CHR 0x0C)
      else if c = CHR ''n'' then Some (CHR 0x0A) else if c = CHR ''r'' then Some (CHR 0x0D)
      else if c = CHR ''t'' then Some (CHR 0x09) else None)"

text \<open>\<open>JSON.parse\<close> of the literal.\<close>

fun unescape :: "string \<Rightarrow> filter_error + string" where
  "unescape [] = Inr []"
| "unescape (c # s) =
     (if c \<noteq> CHR 0x5C then
        (if (of_char c :: nat) < 32 then Inl (json_error ''invalid string escape'')
         else rbind (unescape s) (\<lambda>t. Inr (c # t)))
      else (case s of
          [] \<Rightarrow> Inl (json_error ''invalid string escape'')
        | e # s' \<Rightarrow>
            if e = CHR ''u'' then (case s' of
                a # b # d # f # s'' \<Rightarrow>
                  (case hex4 a b d f of
                     Some n \<Rightarrow> if n < 256 then rbind (unescape s'') (\<lambda>t. Inr (char_of n # t))
                               else rbind (unescape s'') (\<lambda>_. Inl not_latin1)
                   | None \<Rightarrow> Inl (json_error ''invalid string escape''))
              | _ \<Rightarrow> Inl (json_error ''invalid string escape''))
            else (case simple_escape e of
                Some c' \<Rightarrow> rbind (unescape s') (\<lambda>t. Inr (c' # t))
              | None \<Rightarrow> Inl (json_error ''invalid string escape''))))"

definition json_string :: "string \<Rightarrow> filter_error + (string \<times> string)" where
  "json_string s = rbind (scan_string False [] s) (\<lambda>(raw, rest). rbind (unescape raw) (\<lambda>t. Inr (t, rest)))"

text \<open>The number pattern: a sign, an integer without leading zeros, a fraction, an exponent.\<close>

definition opt_part :: "(string \<Rightarrow> (string \<times> string) option) \<Rightarrow> string \<Rightarrow> string \<times> string" where
  "opt_part p s = (case p s of Some r \<Rightarrow> r | None \<Rightarrow> ([], s))"

definition digits1 :: "string \<Rightarrow> (string \<times> string) option" where
  "digits1 s = (let d = takeWhile is_digit s in if d = [] then None else Some (d, dropWhile is_digit s))"

definition int_part :: "string \<Rightarrow> (string \<times> string) option" where
  "int_part s = (case s of [] \<Rightarrow> None
     | c # cs \<Rightarrow> if c = CHR ''0'' then Some ([c], cs) else if is_digit c then digits1 s else None)"

definition frac_part :: "string \<Rightarrow> (string \<times> string) option" where
  "frac_part s = (case s of c # cs \<Rightarrow>
       if c = CHR ''.'' then map_option (\<lambda>(d, r). (c # d, r)) (digits1 cs) else None | [] \<Rightarrow> None)"

definition exp_part :: "string \<Rightarrow> (string \<times> string) option" where
  "exp_part s = (case s of c # cs \<Rightarrow>
       if c = CHR ''e'' \<or> c = CHR ''E'' then (case cs of
           d # ds \<Rightarrow> if d = CHR ''+'' \<or> d = CHR ''-'' then map_option (\<lambda>(x, r). (c # d # x, r)) (digits1 ds)
                    else map_option (\<lambda>(x, r). (c # x, r)) (digits1 cs)
         | [] \<Rightarrow> None) else None | [] \<Rightarrow> None)"

definition match_number :: "string \<Rightarrow> (string \<times> string) option" where
  "match_number s =
     (let (sign, s1) = (case s of c # cs \<Rightarrow> if c = CHR ''-'' then ([c], cs) else ([], s) | [] \<Rightarrow> ([], s)) in
      case int_part s1 of None \<Rightarrow> None
      | Some (i, s2) \<Rightarrow> (let (f, s3) = opt_part frac_part s2; (e, s4) = opt_part exp_part s3
                        in Some (sign @ i @ f @ e, s4)))"

definition keyword :: "string \<Rightarrow> (jdoc \<times> string) option" where
  "keyword s = (if starts_with s ''true'' then Some (JBool True, drop 4 s)
     else if starts_with s ''false'' then Some (JBool False, drop 5 s)
     else if starts_with s ''null'' then Some (JNull, drop 4 s) else None)"

section \<open>Parsing\<close>

text \<open>
  \<open>value\<close>, \<open>object\<close> and \<open>array\<close>.  Every recursive call reads on past at least one character, so
  fuel beyond the length of the text is enough.
\<close>

fun jvalue :: "host \<Rightarrow> nat \<Rightarrow> string \<Rightarrow> filter_error + (jdoc \<times> string)"
  and jmembers :: "host \<Rightarrow> nat \<Rightarrow> string list \<Rightarrow> (string \<times> jdoc) list \<times> jdoc option \<Rightarrow> string \<Rightarrow>
                   filter_error + (jdoc \<times> string)"
  and jelements :: "host \<Rightarrow> nat \<Rightarrow> jdoc list \<Rightarrow> string \<Rightarrow> filter_error + (jdoc \<times> string)" where
  "jvalue h 0 s = Inl json_fuel"
| "jvalue h (Suc n) s0 =
     (let s = skip_space s0 in
      if s \<noteq> [] \<and> hd s = CHR ''{'' then
        (let s1 = skip_space (tl s) in
         if s1 \<noteq> [] \<and> hd s1 = CHR ''}'' then Inr (JObj [] None, tl s1) else jmembers h n [] ([], None) s1)
      else if s \<noteq> [] \<and> hd s = CHR ''['' then
        (let s1 = skip_space (tl s) in
         if s1 \<noteq> [] \<and> hd s1 = CHR '']'' then Inr (JArr [], tl s1) else jelements h n [] s1)
      else if s \<noteq> [] \<and> hd s = CHR 0x22 then rbind (json_string (tl s)) (\<lambda>(t, rest). Inr (JStr t, rest))
      else (case keyword s of
          Some r \<Rightarrow> Inr r
        | None \<Rightarrow> (case match_number s of
              Some (lexeme, rest) \<Rightarrow>
                (let x = string_to_num h lexeme in
                 if x = NaN \<or> x = Inf True \<or> x = Inf False then Inl (json_error ''non-finite number'')
                 else Inr (JNum x, rest))
            | None \<Rightarrow> Inl (json_error ''expected a JSON value''))))"
| "jmembers h 0 names obj s = Inl json_fuel"
| "jmembers h (Suc n) names obj s0 =
     (let s = skip_space s0 in
      if s = [] \<or> hd s \<noteq> CHR 0x22 then Inl (json_error ''expected object key'')
      else rbind (json_string (tl s)) (\<lambda>(key, s1).
        if key \<in> set names then Inl (json_error ''duplicate object key'')
        else let s2 = skip_space s1 in
          if s2 = [] \<or> hd s2 \<noteq> CHR '':'' then Inl (json_error ''expected colon'')
          else rbind (jvalue h n (tl s2)) (\<lambda>(v, s3).
            let obj' = assign key v obj; s4 = skip_space s3 in
            if s4 \<noteq> [] \<and> hd s4 = CHR ''}'' then Inr (JObj (fst obj') (snd obj'), tl s4)
            else if s4 = [] \<or> hd s4 \<noteq> CHR '','' then Inl (json_error ''expected comma or brace'')
            else jmembers h n (key # names) obj' (tl s4))))"
| "jelements h 0 acc s = Inl json_fuel"
| "jelements h (Suc n) acc s0 =
     rbind (jvalue h n s0) (\<lambda>(v, s1).
       let s2 = skip_space s1 in
       if s2 \<noteq> [] \<and> hd s2 = CHR '']'' then Inr (JArr (rev (v # acc)), tl s2)
       else if s2 = [] \<or> hd s2 \<noteq> CHR '','' then Inl (json_error ''expected comma or bracket'')
       else jelements h n (v # acc) (tl s2))"

definition json_parse :: "host \<Rightarrow> string \<Rightarrow> filter_error + jdoc" where
  "json_parse h text =
     rbind (jvalue h (2 * length text + 2) text) (\<lambda>(v, rest).
       if skip_space rest = [] then Inr v else Inl (json_error ''trailing JSON data''))"

section \<open>Progress and fuel\<close>

lemma skip_space_length: "length (skip_space s) \<le> length s"
  by (simp add: skip_space_def length_dropWhile_le)

lemma scan_string_length: "scan_string e raw s = Inr (t, rest) \<Longrightarrow> length rest < length s"
  by (induction e raw s rule: scan_string.induct) (auto split: if_splits)

lemma scan_string_fuel: "scan_string e raw s = Inl err \<Longrightarrow> err \<noteq> json_fuel"
  by (induction e raw s rule: scan_string.induct) (auto simp: json_error_def json_fuel_def split: if_splits)

lemma unescape_not_fuel: "unescape s \<noteq> Inl json_fuel"
proof (induction s rule: measure_induct_rule [where f = length])
  case (less s)
  have e: "json_error m \<noteq> json_fuel" "not_latin1 \<noteq> json_fuel" for m
    by (simp_all add: json_error_def json_fuel_def not_latin1_def)
  show ?case
  proof (cases s)
    case Nil
    then show ?thesis by simp
  next
    case (Cons c t)
    with less have ih: "length u \<le> length t \<Longrightarrow> unescape u \<noteq> Inl json_fuel" for u by simp
    show ?thesis unfolding Cons unescape.simps
      by (auto simp: result_simps ih e simp del: unescape.simps split: if_splits list.splits option.splits)
  qed
qed

lemma unescape_fuel: "unescape s = Inl err \<Longrightarrow> err \<noteq> json_fuel"
  using unescape_not_fuel by blast

lemma json_string_length: "json_string s = Inr (t, rest) \<Longrightarrow> length rest < length s"
  by (auto simp: json_string_def result_simps dest: scan_string_length)

lemma json_string_fuel: "json_string s = Inl err \<Longrightarrow> err \<noteq> json_fuel"
  by (auto simp: json_string_def result_simps dest: scan_string_fuel unescape_fuel)

lemma keyword_length: "keyword s = Some (v, rest) \<Longrightarrow> length rest < length s"
  by (cases s) (auto simp: keyword_def split: if_splits)

lemma digits1_length: "digits1 s = Some (d, rest) \<Longrightarrow> length rest < length s"
  by (cases s) (auto simp: digits1_def Let_def length_dropWhile_le less_Suc_eq_le split: if_splits)

lemma int_part_length: "int_part s = Some (d, rest) \<Longrightarrow> length rest < length s"
  by (auto simp: int_part_def split: list.splits if_splits dest: digits1_length)

lemma frac_part_length: "frac_part s = Some (d, rest) \<Longrightarrow> length rest < length s"
  by (auto simp: frac_part_def split: list.splits if_splits dest!: digits1_length)

lemma exp_part_length: "exp_part s = Some (d, rest) \<Longrightarrow> length rest < length s"
  by (auto simp: exp_part_def split: list.splits if_splits dest!: digits1_length)

lemma opt_part_length:
  "opt_part p s = (d, rest) \<Longrightarrow> (\<And>d r. p s = Some (d, r) \<Longrightarrow> length r < length s) \<Longrightarrow> length rest \<le> length s"
  by (auto simp: opt_part_def split: option.splits)

lemma match_number_length: "match_number s = Some (x, rest) \<Longrightarrow> length rest < length s"
proof -
  assume m: "match_number s = Some (x, rest)"
  obtain sign s1 where s1: "(case s of c # cs \<Rightarrow> if c = CHR ''-'' then ([c], cs) else ([], s) | [] \<Rightarrow> ([], s)) = (sign, s1)"
    by (cases "case s of c # cs \<Rightarrow> if c = CHR ''-'' then ([c], cs) else ([], s) | [] \<Rightarrow> ([], s)")
  then have l1: "length s1 \<le> length s" by (auto split: list.splits if_splits)
  from m s1 obtain i s2 where i: "int_part s1 = Some (i, s2)" by (auto simp: match_number_def split: option.splits)
  obtain f s3 where f: "opt_part frac_part s2 = (f, s3)" by (cases "opt_part frac_part s2")
  obtain e s4 where e: "opt_part exp_part s3 = (e, s4)" by (cases "opt_part exp_part s3")
  from m s1 i f e have "rest = s4" by (simp add: match_number_def)
  moreover have "length s3 \<le> length s2" by (rule opt_part_length [OF f]) (rule frac_part_length)
  moreover have "length s4 \<le> length s3" by (rule opt_part_length [OF e]) (rule exp_part_length)
  ultimately show ?thesis using int_part_length [OF i] l1 by simp
qed

lemma jparse_length:
  "(\<forall>s v rest. jvalue h n s = Inr (v, rest) \<longrightarrow> length rest < length s) \<and>
   (\<forall>names obj s v rest. jmembers h n names obj s = Inr (v, rest) \<longrightarrow> length rest < length s) \<and>
   (\<forall>acc s v rest. jelements h n acc s = Inr (v, rest) \<longrightarrow> length rest < length s)"
proof (induction n)
  case 0
  show ?case by simp
next
  case (Suc n)
  then have V: "\<And>s v rest. jvalue h n s = Inr (v, rest) \<Longrightarrow> length rest < length s"
    and M: "\<And>names obj s v rest. jmembers h n names obj s = Inr (v, rest) \<Longrightarrow> length rest < length s"
    and E: "\<And>acc s v rest. jelements h n acc s = Inr (v, rest) \<Longrightarrow> length rest < length s" by blast+
  have tl: "length (tl t) < length u" if "t \<noteq> []" "length t \<le> length u" for t u :: string
    using that by (cases t) auto
  have sk: "length (skip_space t) \<le> length t" for t by (rule skip_space_length)
  have 1: "length rest < length s" if j: "jvalue h (Suc n) s = Inr (v, rest)" for s v rest
  proof -
    let ?s = "skip_space s" let ?t = "skip_space (tl ?s)"
    have t: "length ?t \<le> length (tl ?s)" "length ?s \<le> length s" "length (tl ?t) \<le> length ?t"
      by (rule sk, rule sk) simp
    consider "rest = tl ?t" "?s \<noteq> []" | names obj where "jmembers h n names obj ?t = Inr (v, rest)" "?s \<noteq> []"
      | acc where "jelements h n acc ?t = Inr (v, rest)" "?s \<noteq> []"
      | x where "json_string (tl ?s) = Inr (x, rest)" "?s \<noteq> []"
      | "keyword ?s = Some (v, rest)" | x where "match_number ?s = Some (x, rest)"
      using j by (auto simp: Let_def result_simps split: if_splits option.splits)
    then show ?thesis
    proof cases
      case 1
      then have "0 < length ?s" "length rest \<le> length ?t" by simp_all
      moreover have "length (tl ?s) < length ?s" using 1 by (cases ?s) auto
      ultimately show ?thesis using t by linarith
    next
      case 2
      with M t tl [of ?s ?s] show ?thesis by fastforce
    next
      case 3
      with E t tl [of ?s ?s] show ?thesis by fastforce
    next
      case 4
      with json_string_length t tl [of ?s ?s] show ?thesis by fastforce
    next
      case 5
      with keyword_length t show ?thesis by fastforce
    next
      case 6
      with match_number_length t show ?thesis by fastforce
    qed
  qed
  have 2: "length rest < length s" if "jmembers h (Suc n) names obj s = Inr (v, rest)" for names obj s v rest
  proof -
    from that obtain key s1 w s3 where ks: "json_string (tl (skip_space s)) = Inr (key, s1)"
        "jvalue h n (tl (skip_space s1)) = Inr (w, s3)"
        "rest = tl (skip_space s3) \<or> (\<exists>ns. jmembers h n ns (assign key w obj) (tl (skip_space s3)) = Inr (v, rest))"
      by (simp add: Let_def result_simps split: if_splits) blast+
    have "length s1 < length (tl (skip_space s))" "length s3 < length (tl (skip_space s1))"
      using json_string_length [OF ks(1)] V [OF ks(2)] by auto
    moreover have "length rest \<le> length (tl (skip_space s3))" using ks(3) M by fastforce
    ultimately show ?thesis using sk [of s] sk [of s1] sk [of s3] by simp
  qed
  have 3: "length rest < length s" if "jelements h (Suc n) acc s = Inr (v, rest)" for acc s v rest
  proof -
    from that obtain w s1 where ks: "jvalue h n s = Inr (w, s1)"
        "rest = tl (skip_space s1) \<or> (\<exists>ac. jelements h n ac (tl (skip_space s1)) = Inr (v, rest))"
      by (auto simp: Let_def result_simps split: if_splits)
    have "length rest \<le> length (tl (skip_space s1))" using ks(2) E by fastforce
    with V [OF ks(1)] sk [of s1] show ?thesis by simp
  qed
  from 1 2 3 show ?case by blast
qed

lemma jparse_fuel:
  "(\<forall>s e. 2 * length s < n \<longrightarrow> jvalue h n s = Inl e \<longrightarrow> e \<noteq> json_fuel) \<and>
   (\<forall>names obj s e. 2 * length s < n \<longrightarrow> jmembers h n names obj s = Inl e \<longrightarrow> e \<noteq> json_fuel) \<and>
   (\<forall>acc s e. 2 * length s + 1 < n \<longrightarrow> jelements h n acc s = Inl e \<longrightarrow> e \<noteq> json_fuel)"
proof (induction n)
  case 0
  show ?case by simp
next
  case (Suc n)
  then have V: "\<And>s e. 2 * length s < n \<Longrightarrow> jvalue h n s = Inl e \<Longrightarrow> e \<noteq> json_fuel"
    and M: "\<And>names obj s e. 2 * length s < n \<Longrightarrow> jmembers h n names obj s = Inl e \<Longrightarrow> e \<noteq> json_fuel"
    and E: "\<And>acc s e. 2 * length s + 1 < n \<Longrightarrow> jelements h n acc s = Inl e \<Longrightarrow> e \<noteq> json_fuel" by blast+
  have sk: "length (skip_space t) \<le> length t" for t by (rule skip_space_length)
  have er: "json_error m \<noteq> json_fuel" for m by (simp add: json_error_def json_fuel_def)
  have 1: "e \<noteq> json_fuel" if j: "jvalue h (Suc n) s = Inl e" and l: "2 * length s < Suc n" for s e
  proof -
    let ?s = "skip_space s" let ?t = "skip_space (tl ?s)"
    consider m where "e = json_error m" | names obj where "jmembers h n names obj ?t = Inl e" "?s \<noteq> []"
      | acc where "jelements h n acc ?t = Inl e" "?s \<noteq> []" | "json_string (tl ?s) = Inl e"
      using j by (auto simp: Let_def result_simps split: if_splits option.splits)
    moreover have "2 * length ?t + 1 < n" if "?s \<noteq> []"
      using that sk [of s] sk [of "tl ?s"] l by (cases ?s) auto
    ultimately show ?thesis
    proof cases
      case 1
      with er show ?thesis by simp
    next
      case (2 names obj)
      with \<open>?s \<noteq> [] \<Longrightarrow> 2 * length ?t + 1 < n\<close> have "2 * length ?t < n" by simp
      from M [OF this 2(1)] show ?thesis .
    next
      case (3 acc)
      from E [OF \<open>?s \<noteq> [] \<Longrightarrow> 2 * length ?t + 1 < n\<close> [OF 3(2)] 3(1)] show ?thesis .
    next
      case 4
      from json_string_fuel [OF 4] show ?thesis .
    qed
  qed
  have 2: "e \<noteq> json_fuel" if j: "jmembers h (Suc n) names obj s = Inl e" and l: "2 * length s < Suc n" for names obj s e
  proof -
    consider m where "e = json_error m" | "json_string (tl (skip_space s)) = Inl e"
      | key s1 where "json_string (tl (skip_space s)) = Inr (key, s1)" "jvalue h n (tl (skip_space s1)) = Inl e"
      | key s1 w s3 ns where "json_string (tl (skip_space s)) = Inr (key, s1)"
        "jvalue h n (tl (skip_space s1)) = Inr (w, s3)"
        "jmembers h n ns (assign key w obj) (tl (skip_space s3)) = Inl e"
      using j by (simp add: Let_def result_simps split: if_splits) blast+
    then show ?thesis
    proof cases
      case 3
      then have "2 * length (tl (skip_space s1)) < n"
        using json_string_length [of "tl (skip_space s)" key s1] sk [of s] sk [of s1] l by simp
      with V 3 show ?thesis by blast
    next
      case 4
      then have "length s3 < length (tl (skip_space s1))" using jparse_length by blast
      with 4 have "2 * length (tl (skip_space s3)) < n"
        using json_string_length [of "tl (skip_space s)" key s1] sk [of s] sk [of s1] sk [of s3] l by simp
      with M 4 show ?thesis by blast
    qed (use er json_string_fuel in auto)
  qed
  have 3: "e \<noteq> json_fuel" if j: "jelements h (Suc n) acc s = Inl e" and l: "2 * length s + 1 < Suc n" for acc s e
  proof -
    consider m where "e = json_error m" | "jvalue h n s = Inl e"
      | w s1 ac where "jvalue h n s = Inr (w, s1)" "jelements h n ac (tl (skip_space s1)) = Inl e"
      using j by (auto simp: Let_def result_simps split: if_splits)
    then show ?thesis
    proof cases
      case 3
      then have "length s1 < length s" using jparse_length by blast
      with 3 have "2 * length (tl (skip_space s1)) + 1 < n" using sk [of s1] l by simp
      with E 3 show ?thesis by blast
    qed (use er V l in auto)
  qed
  from 1 2 3 show ?case by blast
qed

text \<open>A document without repeated names, at any depth.\<close>

fun jdoc_ok :: "jdoc \<Rightarrow> bool" where
  "jdoc_ok (JArr vs) = list_all jdoc_ok vs"
| "jdoc_ok (JObj es proto) = (distinct (map fst es) \<and> list_all (\<lambda>e. jdoc_ok (snd e)) es \<and>
     (case proto of None \<Rightarrow> True | Some p \<Rightarrow> jdoc_ok p))"
| "jdoc_ok _ = True"

definition members_ok :: "(string \<times> jdoc) list \<times> jdoc option \<Rightarrow> bool" where
  "members_ok obj \<longleftrightarrow> jdoc_ok (JObj (fst obj) (snd obj))"

lemma assign_ok: "members_ok obj \<Longrightarrow> jdoc_ok v \<Longrightarrow> members_ok (assign k v obj)"
proof -
  assume o: "members_ok obj" and v: "jdoc_ok v"
  obtain es proto where obj: "obj = (es, proto)" by (cases obj)
  have "jm_ok es" using o obj by (simp add: members_ok_def jm_ok_def)
  then have d: "distinct (map fst (jm_set k v es))" using jm_ok_set by (auto simp: jm_ok_def)
  have "list_all (\<lambda>e. jdoc_ok (snd e)) (jm_set k v es)"
    using o v obj jm_set_mem by (fastforce simp: members_ok_def list_all_iff)
  with d o v obj show ?thesis by (cases v) (auto simp: assign_def members_ok_def)
qed

lemma jparse_ok:
  "(\<forall>s v rest. jvalue h n s = Inr (v, rest) \<longrightarrow> jdoc_ok v) \<and>
   (\<forall>names obj s v rest. members_ok obj \<longrightarrow> jmembers h n names obj s = Inr (v, rest) \<longrightarrow> jdoc_ok v) \<and>
   (\<forall>acc s v rest. list_all jdoc_ok acc \<longrightarrow> jelements h n acc s = Inr (v, rest) \<longrightarrow> jdoc_ok v)"
proof (induction n)
  case 0
  show ?case by simp
next
  case (Suc n)
  then have V: "\<And>s v rest. jvalue h n s = Inr (v, rest) \<Longrightarrow> jdoc_ok v"
    and M: "\<And>names obj s v rest. members_ok obj \<Longrightarrow> jmembers h n names obj s = Inr (v, rest) \<Longrightarrow> jdoc_ok v"
    and E: "\<And>acc s v rest. list_all jdoc_ok acc \<Longrightarrow> jelements h n acc s = Inr (v, rest) \<Longrightarrow> jdoc_ok v" by blast+
  have empty: "members_ok ([], None)" by (simp add: members_ok_def)
  have 1: "jdoc_ok v" if "jvalue h (Suc n) s = Inr (v, rest)" for s v rest
    using that M [OF empty] E [of "[]"]
    by (auto simp: Let_def result_simps keyword_def split: if_splits option.splits)
  have 2: "jdoc_ok v" if o: "members_ok obj" and j: "jmembers h (Suc n) names obj s = Inr (v, rest)" for names obj s v rest
  proof -
    from j obtain key s1 w s3 where ks: "jvalue h n (tl (skip_space s1)) = Inr (w, s3)"
        "v = JObj (fst (assign key w obj)) (snd (assign key w obj)) \<or>
         (\<exists>ns. jmembers h n ns (assign key w obj) (tl (skip_space s3)) = Inr (v, rest))"
      by (simp add: Let_def result_simps split: if_splits) blast+
    have "members_ok (assign key w obj)" using assign_ok o V ks(1) by blast
    with ks(2) M show ?thesis by (auto simp: members_ok_def)
  qed
  have 3: "jdoc_ok v" if o: "list_all jdoc_ok acc" and j: "jelements h (Suc n) acc s = Inr (v, rest)" for acc s v rest
  proof -
    from j obtain w s1 where ks: "jvalue h n s = Inr (w, s1)"
        "v = JArr (rev (w # acc)) \<or> jelements h n (w # acc) (tl (skip_space s1)) = Inr (v, rest)"
      by (auto simp: Let_def result_simps split: if_splits)
    have w: "list_all jdoc_ok (w # acc)" using o V [OF ks(1)] by simp
    from ks(2) show ?thesis
    proof
      assume "v = JArr (rev (w # acc))"
      with w show ?thesis by (simp add: list_all_iff)
    next
      assume "jelements h n (w # acc) (tl (skip_space s1)) = Inr (v, rest)"
      then show ?thesis using E w by blast
    qed
  qed
  from 1 2 3 show ?case by blast
qed


text \<open>
  What the prototype of an object hides: a member \<open>__proto__\<close> leaves no entry, so the names of
  the object it carries are read as the outer object's own and are not among its keys.
\<close>

lemma proto_members_hidden:
  "json_parse h (CHR ''{'' # json_quote ''__proto__'' @ '':{'' @ json_quote ''node'' @ '':null,'' @ json_quote ''x'' @ '':true}}'') =
     Inr (JObj [] (Some (JObj [(''node'', JNull), (''x'', JBool True)] None)))"
  by code_simp

end
