(* ===== verification/FilterParse.thy ===== *)
theory FilterParse
  imports FilterEval StrictJson
begin

text \<open>
  The filter document parser of \<open>src/filter-pushdown/deserialize.ts\<close>: the checks on a batch, the
  evaluation context, expressions and predicates, snapshots and deltas.  \<open>this.nodes\<close> is passed
  along; error messages leave out the interpolated names.
\<close>

section \<open>Limits and names\<close>

definition FILTER_ENCODING :: string where "FILTER_ENCODING = ''vgi.filters.v2''"
definition FILTER_VERSION :: string where "FILTER_VERSION = ''2''"
definition DUCKDB_STANDARD_V1 :: string where "DUCKDB_STANDARD_V1 = ''vgi.duckdb.standard.v1''"
definition NO_EVALUATION_CONTEXT :: string where "NO_EVALUATION_CONTEXT = ''vgi.none.v1''"
definition DUCKDB_SESSION_CONTEXT :: string where "DUCKDB_SESSION_CONTEXT = ''vgi.duckdb.session.v1''"

definition MAX_JSON_BYTES :: nat where "MAX_JSON_BYTES = 1048576"
definition MAX_DEPTH :: nat where "MAX_DEPTH = 64"
definition MAX_NODES :: nat where "MAX_NODES = 10000"
definition MAX_PREDICATES :: nat where "MAX_PREDICATES = 1024"
definition MAX_PREDICATE_IDS :: nat where "MAX_PREDICATE_IDS = 4096"
definition MAX_ARGUMENTS :: nat where "MAX_ARGUMENTS = 256"
definition MAX_ID_BYTES :: nat where "MAX_ID_BYTES = 128"
definition MAX_FINGERPRINT_BYTES :: nat where "MAX_FINGERPRINT_BYTES = 256"

definition is_lower :: "char \<Rightarrow> bool" where
  "is_lower c = (let n = of_char c :: nat in 97 \<le> n \<and> n \<le> 122)"

definition is_word :: "char \<Rightarrow> bool" where
  "is_word c \<longleftrightarrow> is_lower c \<or> is_digit c \<or> c = CHR ''_''"

definition canonical_digits :: "string \<Rightarrow> bool" where
  "canonical_digits s \<longleftrightarrow> s = ''0'' \<or> (s \<noteq> [] \<and> hd s \<noteq> CHR ''0'' \<and> list_all is_digit s)"

definition PAYLOAD_NAME :: "string \<Rightarrow> bool" where
  "PAYLOAD_NAME s \<longleftrightarrow> (starts_with s ''value_'' \<and> canonical_digits (drop 6 s)) \<or>
     (starts_with s ''type_'' \<and> canonical_digits (drop 5 s)) \<or>
     (starts_with s ''artifact_'' \<and> canonical_digits (drop 9 s))"

fun split_dots :: "string \<Rightarrow> string list" where
  "split_dots [] = [[]]"
| "split_dots (c # s) = (if c = CHR ''.'' then [] # split_dots s
     else (case split_dots s of w # ws \<Rightarrow> (c # w) # ws | [] \<Rightarrow> [[c]]))"

definition IDENTITY_NAME :: "string \<Rightarrow> bool" where
  "IDENTITY_NAME s \<longleftrightarrow> s \<noteq> [] \<and> is_lower (hd s) \<and> list_all is_word (tl s)"

definition IDENTITY_NAMESPACE :: "string \<Rightarrow> bool" where
  "IDENTITY_NAMESPACE s \<longleftrightarrow> (case split_dots s of
     w # ws \<Rightarrow> w \<noteq> [] \<and> is_lower (hd w) \<and> list_all (\<lambda>c. is_lower c \<or> is_digit c) (tl w) \<and> list_all IDENTITY_NAME ws
   | [] \<Rightarrow> False)"

definition KNOWN_RUNTIME_ALGORITHMS :: "string list" where
  "KNOWN_RUNTIME_ALGORITHMS = [''duckdb.runtime_filter/bloom@1'', ''duckdb.runtime_filter/prefix_range@1'']"

definition KNOWN_ARROW_EXTENSIONS :: "string list" where
  "KNOWN_ARROW_EXTENSIONS = [''arrow.bool8'', ''arrow.json'', ''arrow.uuid'',
     ''geoarrow.linestring'', ''geoarrow.multilinestring'', ''geoarrow.multipoint'',
     ''geoarrow.multipolygon'', ''geoarrow.point'', ''geoarrow.polygon'', ''geoarrow.wkb'']"

section \<open>Expectations\<close>

type_synonym 'a fresult = "filter_error + 'a"

definition fail_filter :: "string \<Rightarrow> 'a fresult" where
  "fail_filter msg = Inl (FilterV2Error msg)"

definition expectObject :: "jdoc option \<Rightarrow> string \<Rightarrow> jdoc fresult" where
  "expectObject value where = (case value of
     Some (JObj es p) \<Rightarrow> Inr (JObj es p) | _ \<Rightarrow> fail_filter (where @ '' must be a JSON object''))"

definition expectArray :: "jdoc option \<Rightarrow> string \<Rightarrow> jdoc list fresult" where
  "expectArray value where = (case value of
     Some (JArr vs) \<Rightarrow> Inr vs | _ \<Rightarrow> fail_filter (where @ '' must be a JSON array''))"

definition expectString :: "jdoc option \<Rightarrow> string \<Rightarrow> string fresult" where
  "expectString value where = (case value of
     Some (JStr s) \<Rightarrow> if s = [] then fail_filter (where @ '' must be a nonempty string'') else Inr s
   | _ \<Rightarrow> fail_filter (where @ '' must be a nonempty string''))"

definition expectBoolean :: "jdoc option \<Rightarrow> string \<Rightarrow> bool fresult" where
  "expectBoolean value where = (case value of
     Some (JBool b) \<Rightarrow> Inr b | _ \<Rightarrow> fail_filter (where @ '' must be a Boolean''))"

definition expectUint :: "jdoc option \<Rightarrow> string \<Rightarrow> bool \<Rightarrow> int fresult" where
  "expectUint value where positive = (case value of
     Some (JNum x) \<Rightarrow> if is_safe_integer x \<and> (if positive then 1 else 0) \<le> num_floor x then Inr (num_floor x)
       else fail_filter (where @ '' must be a safely representable unsigned integer'')
   | _ \<Rightarrow> fail_filter (where @ '' must be a safely representable unsigned integer''))"

definition expectKeys :: "jdoc \<Rightarrow> string list \<Rightarrow> string list \<Rightarrow> string \<Rightarrow> unit fresult" where
  "expectKeys object required optional where =
     (if list_ex (\<lambda>k. jget object k = None) required then fail_filter (where @ '' is missing a property'')
      else if list_ex (\<lambda>k. k \<notin> set required \<and> k \<notin> set optional) (jkeys object)
           then fail_filter (where @ '' has unknown properties'')
      else Inr ())"

definition field_extension_names :: "arrow_field \<Rightarrow> string list" where
  "field_extension_names f =
     (case map_of (f_metadata f) ''ARROW:extension:name'' of Some n \<Rightarrow> [n] | None \<Rightarrow> []) @ f_ext f"

fun validateArrowExtensions :: "arrow_field \<Rightarrow> unit fresult"
  and validate_type :: "arrow_type \<Rightarrow> unit fresult"
  and validate_fields :: "arrow_field list \<Rightarrow> unit fresult" where
  "validateArrowExtensions (Field n t nl md ext) =
     rbind (ensure (list_all (\<lambda>x. x \<in> set KNOWN_ARROW_EXTENSIONS) (field_extension_names (Field n t nl md ext)))
        (FilterV2Error ''unknown Arrow extension type'')) (\<lambda>_. validate_type t)"
| "validate_type (TList f) = validateArrowExtensions f"
| "validate_type (TStruct fs) = validate_fields fs"
| "validate_type (TUnion _ fs) = validate_fields fs"
| "validate_type (TFixedSizeList _ f) = validateArrowExtensions f"
| "validate_type (TMap f) = validateArrowExtensions f"
| "validate_type _ = Inr ()"
| "validate_fields [] = Inr ()"
| "validate_fields (f # fs) = rbind (validateArrowExtensions f) (\<lambda>_. validate_fields fs)"

section \<open>Context\<close>

definition metadataValue :: "vgi_schema \<Rightarrow> string \<Rightarrow> string fresult" where
  "metadataValue schema key = (case metadata_get schema key of
     None \<Rightarrow> fail_filter (''missing schema metadata '' @ key) | Some v \<Rightarrow> Inr v)"

definition context_keys :: "string list" where
  "context_keys = [''vgi_time_zone'', ''vgi_calendar'', ''vgi_default_collation'',
     ''vgi_ieee_floating_point_ops'', ''vgi_integer_division'', ''vgi_context_provider_fingerprint'']"

definition metadata_bool :: "vgi_schema \<Rightarrow> string \<Rightarrow> bool fresult" where
  "metadata_bool schema key = rbind (metadataValue schema key) (\<lambda>value.
     if value \<noteq> ''true'' \<and> value \<noteq> ''false'' then fail_filter (key @ '' must be true or false'') else Inr (value = ''true''))"

definition parseContext :: "vgi_schema \<Rightarrow> EvaluationContext fresult" where
  "parseContext schema =
     rbind (metadataValue schema ''vgi_filter_encoding'') (\<lambda>encoding.
     if encoding \<noteq> FILTER_ENCODING then fail_filter ''unsupported filter encoding''
     else rbind (metadataValue schema ''vgi_filter_version'') (\<lambda>version.
     if version \<noteq> FILTER_VERSION then fail_filter ''unsupported filter version''
     else rbind (metadataValue schema ''vgi_evaluation_context'') (\<lambda>prof.
     if prof = NO_EVALUATION_CONTEXT then
       (if list_ex (\<lambda>k. metadata_get schema k \<noteq> None) context_keys
        then fail_filter ''vgi.none.v1 forbids DuckDB session context metadata''
        else Inr \<lparr>profile = prof, timeZone = None, calendar = None, defaultCollation = None,
          ieeeFloatingPointOps = None, integerDivision = None, providerFingerprint = None\<rparr>)
     else if prof \<noteq> DUCKDB_SESSION_CONTEXT then fail_filter ''unknown evaluation context''
     else rbind (mapR (metadataValue schema) (take 5 context_keys)) (\<lambda>_.
       let fingerprint = metadata_get schema ''vgi_context_provider_fingerprint'' in
       if (case fingerprint of None \<Rightarrow> False | Some f \<Rightarrow> f = [] \<or> MAX_FINGERPRINT_BYTES < utf8_length f)
       then fail_filter ''invalid context provider fingerprint''
       else rbind (metadataValue schema ''vgi_time_zone'') (\<lambda>tz.
         rbind (metadataValue schema ''vgi_calendar'') (\<lambda>cal.
         rbind (metadataValue schema ''vgi_default_collation'') (\<lambda>coll.
         rbind (metadata_bool schema ''vgi_ieee_floating_point_ops'') (\<lambda>ieee.
         rbind (metadata_bool schema ''vgi_integer_division'') (\<lambda>idiv.
         Inr \<lparr>profile = prof, timeZone = Some tz, calendar = Some cal, defaultCollation = Some coll,
           ieeeFloatingPointOps = Some ieee, integerDivision = Some idiv, providerFingerprint = fingerprint\<rparr>)))))))))"

section \<open>The parser of one batch\<close>

record FilterParser =
  p_batch :: vgi_batch
  p_options :: DeserializeFilterOptions
  p_context :: EvaluationContext
  p_document :: jdoc

definition valueAt :: "vgi_batch \<Rightarrow> nat \<Rightarrow> jsval fresult" where
  "valueAt batch i = (case (getChildAt batch i, field_at (b_schema batch) i) of
     (Some column, Some field) \<Rightarrow> Inr (readCanonicalValue column 0)
   | _ \<Rightarrow> fail_filter ''missing payload column'')"

definition validateContextCapability :: "EvaluationContext \<Rightarrow> DeserializeFilterOptions \<Rightarrow> unit fresult" where
  "validateContextCapability context opts =
     (if profile context = NO_EVALUATION_CONTEXT then Inr ()
      else let matching = filter (\<lambda>(p, _). p = profile context) (evaluationContexts opts) in
        if matching = [] then fail_filter ''evaluation context was not advertised''
        else if providerFingerprint context \<noteq> None \<and> \<not> list_ex (\<lambda>(_, f). f = providerFingerprint context) matching
        then fail_filter ''evaluation context fingerprint was not advertised''
        else Inr ())"

fun check_payloads :: "vgi_batch \<Rightarrow> (nat \<times> string) list \<Rightarrow> unit fresult" where
  "check_payloads batch [] = Inr ()"
| "check_payloads batch ((i, name) # rest) =
     (if \<not> PAYLOAD_NAME name then fail_filter ''noncanonical payload name''
      else if starts_with name ''type_'' then rbind (valueAt batch i) (\<lambda>v.
        if v \<noteq> VNull then fail_filter (name @ '' must contain NULL'') else check_payloads batch rest)
      else check_payloads batch rest)"

definition new_FilterParser :: "host \<Rightarrow> vgi_batch \<Rightarrow> DeserializeFilterOptions \<Rightarrow> FilterParser fresult" where
  "new_FilterParser h batch opts =
     (if b_rows batch \<noteq> 1 then fail_filter ''filter batch must contain exactly one row''
      else case field_at (b_schema batch) 0 of
        None \<Rightarrow> fail_filter ''first field must be filter_spec: utf8 not null''
      | Some first \<Rightarrow>
        if f_name first \<noteq> ''filter_spec'' \<or> f_nullable first \<or> \<not> isUtf8 (f_type first)
        then fail_filter ''first field must be filter_spec: utf8 not null''
        else let names = map f_name (s_fields (b_schema batch)) in
        if \<not> distinct names then fail_filter ''filter payload names must be unique''
        else rbind (check_payloads batch (tl (zip [0..<length names] names))) (\<lambda>_.
          rbind (parseContext (b_schema batch)) (\<lambda>context.
          rbind (validateContextCapability context opts) (\<lambda>_.
          rbind (valueAt batch 0) (\<lambda>raw.
          case raw of
            VStr text \<Rightarrow>
              if MAX_JSON_BYTES < utf8_length text then fail_filter ''filter_spec must be UTF-8 JSON no larger than 1 MiB''
              else rbind (json_parse h text) (\<lambda>d. rbind (expectObject (Some d) ''filter document'') (\<lambda>doc.
                Inr \<lparr>p_batch = batch, p_options = opts, p_context = context, p_document = doc\<rparr>))
          | _ \<Rightarrow> fail_filter ''filter_spec must be UTF-8 JSON no larger than 1 MiB'')))))"

definition parser_header :: "FilterParser \<Rightarrow> string \<Rightarrow> string \<Rightarrow> jdoc list fresult" where
  "parser_header P kind member =
     (let doc = p_document P in
      rbind (expectKeys doc [''encoding'', ''semantics'', ''kind'', member] [] ''filter document'') (\<lambda>_.
      if jget doc ''encoding'' \<noteq> Some (JStr FILTER_ENCODING) then fail_filter ''document encoding must be vgi.filters.v2''
      else if jget doc ''semantics'' \<noteq> Some (JStr DUCKDB_STANDARD_V1) then fail_filter ''unsupported filter semantics''
      else if jget doc ''kind'' \<noteq> Some (JStr kind) then fail_filter (''expected a '' @ kind @ '' document'')
      else expectArray (jget doc member) member))"

definition payload :: "FilterParser \<Rightarrow> string \<Rightarrow> jdoc option \<Rightarrow> (int \<times> arrow_field \<times> jsval) fresult" where
  "payload P prefix rawRef =
     rbind (expectUint rawRef (prefix @ ''_ref'') False) (\<lambda>ref.
       let name = prefix @ ''_'' @ int_to_string ref; fs = s_fields (b_schema (p_batch P));
           indexes = filter (\<lambda>i. f_name (fs ! i) = name) [0..<length fs] in
       case indexes of
         [i] \<Rightarrow> rbind (valueAt (p_batch P) i) (\<lambda>v. Inr (ref, fs ! i, v))
       | _ \<Rightarrow> fail_filter (''missing or duplicate payload '' @ name))"

definition identity :: "jdoc option \<Rightarrow> string \<Rightarrow> FunctionIdentity fresult" where
  "identity raw where =
     rbind (expectObject raw where) (\<lambda>object.
     rbind (expectKeys object [''namespace'', ''name'', ''version''] [] where) (\<lambda>_.
     rbind (expectString (jget object ''namespace'') (where @ ''.namespace'')) (\<lambda>ns.
     rbind (expectString (jget object ''name'') (where @ ''.name'')) (\<lambda>nm.
     rbind (expectUint (jget object ''version'') (where @ ''.version'') True) (\<lambda>ver.
     if \<not> IDENTITY_NAMESPACE ns \<or> \<not> IDENTITY_NAME nm then fail_filter (where @ '' has a noncanonical identity'')
     else Inr \<lparr>fi_namespace = ns, fi_name = nm, fi_version = ver\<rparr>)))))"

definition predicateId :: "jdoc option \<Rightarrow> string \<Rightarrow> string fresult" where
  "predicateId value where = rbind (expectString value (where @ ''.id'')) (\<lambda>i.
     if MAX_ID_BYTES < utf8_length i then fail_filter (where @ ''.id is too long'') else Inr i)"

section \<open>Types of expressions\<close>

definition expressionType :: "FilterExpression \<Rightarrow> arrow_type option" where
  "expressionType e = (case e of EColumn _ _ t \<Rightarrow> t | EField _ _ _ t \<Rightarrow> Some t | ELiteral _ f _ \<Rightarrow> Some (f_type f)
     | ECast _ _ f \<Rightarrow> Some (f_type f) | _ \<Rightarrow> None)"

definition isBooleanExpression :: "FilterExpression \<Rightarrow> bool" where
  "isBooleanExpression e = (case e of
     ECompare _ _ _ \<Rightarrow> True | EAnd _ \<Rightarrow> True | EOr _ \<Rightarrow> True | ENot _ \<Rightarrow> True | EIsNull _ _ \<Rightarrow> True
   | EIn _ _ _ \<Rightarrow> True | ERuntime _ _ _ _ _ _ _ \<Rightarrow> True | ECall _ _ _ \<Rightarrow> True
   | _ \<Rightarrow> (case expressionType e of Some t \<Rightarrow> isBool t | None \<Rightarrow> False))"

definition contextual :: "arrow_type option \<Rightarrow> bool" where
  "contextual t = (case t of None \<Rightarrow> False | Some t \<Rightarrow> isUtf8 t \<or> isDate t \<or> isTime t \<or> isTimestamp t)"

fun requiresSessionContext :: "FilterExpression \<Rightarrow> bool" where
  "requiresSessionContext (EArith op l r) = (op = OpDivide \<or> op = OpModulo \<or>
     requiresSessionContext l \<or> requiresSessionContext r)"
| "requiresSessionContext (ECast e _ f) = ((contextual (expressionType e) \<and> contextual (Some (f_type f))) \<or>
     requiresSessionContext e)"
| "requiresSessionContext (EField e _ _ _) = requiresSessionContext e"
| "requiresSessionContext (ENot e) = requiresSessionContext e"
| "requiresSessionContext (EIsNull e _) = requiresSessionContext e"
| "requiresSessionContext (ENegate e) = requiresSessionContext e"
| "requiresSessionContext (ECompare _ l r) = (requiresSessionContext l \<or> requiresSessionContext r)"
| "requiresSessionContext (EAnd cs) = list_ex requiresSessionContext cs"
| "requiresSessionContext (EOr cs) = list_ex requiresSessionContext cs"
| "requiresSessionContext (EIn e _ _) = requiresSessionContext e"
| "requiresSessionContext (ECall _ args _) = list_ex requiresSessionContext args"
| "requiresSessionContext (ERuntime _ input _ _ _ _ _) = requiresSessionContext input"
| "requiresSessionContext (EColumn _ _ _) = False"
| "requiresSessionContext (ELiteral _ _ _) = False"

definition list_element :: "arrow_type \<Rightarrow> arrow_type option" where
  "list_element t = (if isList t then (case type_children t of Some (f # _) \<Rightarrow> Some (f_type f) | _ \<Rightarrow> None) else None)"

definition standard_call_binds :: "StandardFilterFunction \<Rightarrow> FilterExpression list \<Rightarrow> bool" where
  "standard_call_binds fn args =
     (let types = map expressionType args in
      if fn = SfListContains then
        (case types of
           Some lt # Some nt # _ \<Rightarrow> (case list_element lt of Some et \<Rightarrow> typeSignature et = typeSignature nt | None \<Rightarrow> False)
         | _ \<Rightarrow> False)
      else list_all (\<lambda>t. case t of Some t \<Rightarrow> isUtf8 t | None \<Rightarrow> False) types)"

definition validateStandardCall :: "StandardFilterFunction \<Rightarrow> FilterExpression list \<Rightarrow> unit fresult" where
  "validateStandardCall fn args = ensure (standard_call_binds fn args)
     (FilterV2Error (standard_name fn @ '' arguments do not bind under vgi.duckdb.standard.v1''))"

section \<open>Expressions\<close>

type_synonym expr_result = "(FilterExpression \<times> nat) fresult"
type_synonym child_parser = "jdoc option \<Rightarrow> nat \<Rightarrow> expr_result"

fun mapS :: "('a \<Rightarrow> nat \<Rightarrow> ('b \<times> nat) fresult) \<Rightarrow> 'a list \<Rightarrow> nat \<Rightarrow> ('b list \<times> nat) fresult" where
  "mapS f [] n = Inr ([], n)"
| "mapS f (x # xs) n = rbind (f x n) (\<lambda>(y, n). rbind (mapS f xs n) (\<lambda>(ys, n). Inr (y # ys, n)))"

definition parse_column_ref :: "FilterParser \<Rightarrow> jdoc \<Rightarrow> nat \<Rightarrow> expr_result" where
  "parse_column_ref P obj n =
     rbind (expectKeys obj [''node'', ''column_index'', ''column_name''] [] ''column_ref'') (\<lambda>_.
     rbind (expectUint (jget obj ''column_index'') ''column_ref.column_index'' False) (\<lambda>i.
     rbind (expectString (jget obj ''column_name'') ''column_ref.column_name'') (\<lambda>name.
     case field_at (outputSchema (p_options P)) (nat i) of
       None \<Rightarrow> fail_filter ''column_ref does not match index''
     | Some f \<Rightarrow> if f_name f \<noteq> name then fail_filter ''column_ref does not match index''
         else rbind (validateArrowExtensions f) (\<lambda>_. Inr (EColumn i name (Some (f_type f)), n)))))"

definition parse_field_ref :: "FilterParser \<Rightarrow> child_parser \<Rightarrow> jdoc \<Rightarrow> nat \<Rightarrow> expr_result" where
  "parse_field_ref P child obj n =
     rbind (expectKeys obj [''node'', ''expression'', ''field_index'', ''field_name''] [] ''field_ref'') (\<lambda>_.
     rbind (child (jget obj ''expression'') n) (\<lambda>(e, n).
     case expressionType e of
       None \<Rightarrow> fail_filter ''field_ref input must be STRUCT''
     | Some t \<Rightarrow> if \<not> isStruct t then fail_filter ''field_ref input must be STRUCT''
         else rbind (expectUint (jget obj ''field_index'') ''field_ref.field_index'' False) (\<lambda>i.
              rbind (expectString (jget obj ''field_name'') ''field_ref.field_name'') (\<lambda>name.
              case type_children t of
                None \<Rightarrow> fail_filter ''field_ref name/index mismatch''
              | Some fs \<Rightarrow> if nat i < length fs \<and> f_name (fs ! nat i) = name
                  then Inr (EField e i name (f_type (fs ! nat i)), n)
                  else fail_filter ''field_ref name/index mismatch''))))"

definition parse_literal :: "FilterParser \<Rightarrow> jdoc \<Rightarrow> nat \<Rightarrow> expr_result" where
  "parse_literal P obj n =
     rbind (expectKeys obj [''node'', ''value_ref''] [] ''literal'') (\<lambda>_.
     rbind (payload P ''value'' (jget obj ''value_ref'')) (\<lambda>(ref, f, v).
     rbind (validateArrowExtensions f) (\<lambda>_. Inr (ELiteral ref f v, n))))"

definition comparison_op :: "string \<Rightarrow> ComparisonOp option" where
  "comparison_op s = map_of [(''eq'', EQ), (''ne'', NE), (''lt'', LT), (''le'', LE), (''gt'', GT), (''ge'', GE),
     (''distinct_from'', DISTINCT_FROM), (''not_distinct_from'', NOT_DISTINCT_FROM)] s"

definition parse_comparison :: "child_parser \<Rightarrow> jdoc \<Rightarrow> nat \<Rightarrow> expr_result" where
  "parse_comparison child obj n =
     rbind (expectKeys obj [''node'', ''op'', ''left'', ''right''] [] ''comparison'') (\<lambda>_.
     rbind (expectString (jget obj ''op'') ''comparison.op'') (\<lambda>s.
     case comparison_op s of None \<Rightarrow> fail_filter ''unknown comparison operator''
     | Some op \<Rightarrow> rbind (child (jget obj ''left'') n) (\<lambda>(l, n). rbind (child (jget obj ''right'') n) (\<lambda>(r, n).
         Inr (ECompare op l r, n)))))"

definition parse_junction ::
  "(FilterExpression list \<Rightarrow> FilterExpression) \<Rightarrow> string \<Rightarrow> child_parser \<Rightarrow> jdoc \<Rightarrow> nat \<Rightarrow> expr_result" where
  "parse_junction mk node child obj n =
     rbind (expectKeys obj [''node'', ''children''] [] node) (\<lambda>_.
     rbind (expectArray (jget obj ''children'') (node @ ''.children'')) (\<lambda>vs.
     rbind (mapS (\<lambda>v. child (Some v)) vs n) (\<lambda>(cs, n).
     if length cs < 2 \<or> \<not> list_all isBooleanExpression cs
     then fail_filter (node @ '' requires at least two Boolean children'') else Inr (mk cs, n))))"

definition parse_not :: "child_parser \<Rightarrow> jdoc \<Rightarrow> nat \<Rightarrow> expr_result" where
  "parse_not child obj n =
     rbind (expectKeys obj [''node'', ''expression''] [] ''not'') (\<lambda>_.
     rbind (child (jget obj ''expression'') n) (\<lambda>(e, n).
     if \<not> isBooleanExpression e then fail_filter ''not input must be Boolean'' else Inr (ENot e, n)))"

definition parse_is_null :: "child_parser \<Rightarrow> jdoc \<Rightarrow> nat \<Rightarrow> expr_result" where
  "parse_is_null child obj n =
     rbind (expectKeys obj [''node'', ''expression'', ''negated''] [] ''is_null'') (\<lambda>_.
     rbind (child (jget obj ''expression'') n) (\<lambda>(e, n).
     rbind (expectBoolean (jget obj ''negated'') ''is_null.negated'') (\<lambda>b. Inr (EIsNull e b, n))))"

definition parse_set :: "FilterParser \<Rightarrow> jdoc option \<Rightarrow> FilterSet fresult" where
  "parse_set P raw =
     rbind (expectObject raw ''in.set'') (\<lambda>obj.
     if jget obj ''kind'' = Some (JStr ''literal'') then
       rbind (expectKeys obj [''kind'', ''value_ref''] [] ''in.set'') (\<lambda>_.
       rbind (payload P ''value'' (jget obj ''value_ref'')) (\<lambda>(ref, f, v).
       rbind (validateArrowExtensions f) (\<lambda>_.
       case v of VArr vs \<Rightarrow> if isList (f_type f) then Inr (SetLiteral ref f vs)
                         else fail_filter ''literal IN payload must be a non-NULL list''
       | _ \<Rightarrow> fail_filter ''literal IN payload must be a non-NULL list'')))
     else if jget obj ''kind'' = Some (JStr ''external'') then
       rbind (expectKeys obj [''kind'', ''batch_index'', ''column_index'', ''column_name''] [] ''in.set'') (\<lambda>_.
       rbind (expectUint (jget obj ''batch_index'') ''in.set.batch_index'' False) (\<lambda>bi.
       rbind (expectUint (jget obj ''column_index'') ''in.set.column_index'' False) (\<lambda>ci.
       rbind (expectString (jget obj ''column_name'') ''in.set.column_name'') (\<lambda>name.
       let batches = joinKeyBatches (p_options P) in
       if length batches \<le> nat bi then fail_filter ''external IN reference is unavailable or mismatched''
       else let batch = batches ! nat bi in
       case (field_at (b_schema batch) (nat ci), getChildAt batch (nat ci)) of
         (Some f, Some column) \<Rightarrow>
           if f_name f \<noteq> name then fail_filter ''external IN reference is unavailable or mismatched''
           else rbind (validateArrowExtensions f) (\<lambda>_.
             Inr (SetExternal bi ci name (map (readCanonicalValue column) [0..<b_rows batch]) batch))
       | _ \<Rightarrow> fail_filter ''external IN reference is unavailable or mismatched''))))
     else fail_filter ''unknown IN set kind'')"

definition parse_in :: "FilterParser \<Rightarrow> child_parser \<Rightarrow> jdoc \<Rightarrow> nat \<Rightarrow> expr_result" where
  "parse_in P child obj n =
     rbind (expectKeys obj [''node'', ''expression'', ''set'', ''negated''] [] ''in'') (\<lambda>_.
     rbind (parse_set P (jget obj ''set'')) (\<lambda>fset.
     rbind (child (jget obj ''expression'') n) (\<lambda>(e, n).
     rbind (expectBoolean (jget obj ''negated'') ''in.negated'') (\<lambda>b. Inr (EIn e fset b, n)))))"

definition parse_cast :: "FilterParser \<Rightarrow> child_parser \<Rightarrow> jdoc \<Rightarrow> nat \<Rightarrow> expr_result" where
  "parse_cast P child obj n =
     rbind (expectKeys obj [''node'', ''expression'', ''type_ref''] [] ''cast'') (\<lambda>_.
     rbind (payload P ''type'' (jget obj ''type_ref'')) (\<lambda>(ref, f, v).
     rbind (validateArrowExtensions f) (\<lambda>_.
     if v \<noteq> VNull then fail_filter ''cast type payload must be NULL''
     else rbind (child (jget obj ''expression'') n) (\<lambda>(e, n). Inr (ECast e ref f, n)))))"

definition arithmetic_op :: "string \<Rightarrow> ArithmeticOp option" where
  "arithmetic_op s = map_of [(''add'', OpAdd), (''subtract'', OpSubtract), (''multiply'', OpMultiply),
     (''divide'', OpDivide), (''modulo'', OpModulo)] s"

definition parse_arithmetic :: "child_parser \<Rightarrow> jdoc \<Rightarrow> nat \<Rightarrow> expr_result" where
  "parse_arithmetic child obj n =
     rbind (expectKeys obj [''node'', ''op'', ''left'', ''right''] [] ''arithmetic'') (\<lambda>_.
     rbind (expectString (jget obj ''op'') ''arithmetic.op'') (\<lambda>s.
     case arithmetic_op s of None \<Rightarrow> fail_filter ''unknown arithmetic operator''
     | Some op \<Rightarrow> rbind (child (jget obj ''left'') n) (\<lambda>(l, n). rbind (child (jget obj ''right'') n) (\<lambda>(r, n).
         Inr (EArith op l r, n)))))"

definition parse_negate :: "child_parser \<Rightarrow> jdoc \<Rightarrow> nat \<Rightarrow> expr_result" where
  "parse_negate child obj n =
     rbind (expectKeys obj [''node'', ''expression''] [] ''negate'') (\<lambda>_.
     rbind (child (jget obj ''expression'') n) (\<lambda>(e, n). Inr (ENegate e, n)))"

definition standard_function :: "string \<Rightarrow> StandardFilterFunction option" where
  "standard_function s = map_of [(''starts_with'', SfStartsWith), (''ends_with'', SfEndsWith),
     (''contains'', SfContains), (''list_contains'', SfListContains)] s"

definition parse_function :: "FilterParser \<Rightarrow> jdoc option \<Rightarrow> call_function fresult" where
  "parse_function P raw = (case raw of
     Some (JStr s) \<Rightarrow> (case standard_function s of
         None \<Rightarrow> fail_filter ''unknown standard filter function'' | Some f \<Rightarrow> Inr (StandardFn f))
   | _ \<Rightarrow> rbind (identity raw ''call.function'') (\<lambda>fn.
       if \<not> supportsExtensionFilterFunction fn then fail_filter ''unknown extension function''
       else if \<not> list_ex (\<lambda>v. filterFunctionIdentityKey v = filterFunctionIdentityKey fn) (extensionFunctions (p_options P))
       then fail_filter ''extension function was not advertised''
       else Inr (ExtensionFn fn)))"

definition parse_call :: "FilterParser \<Rightarrow> child_parser \<Rightarrow> jdoc \<Rightarrow> nat \<Rightarrow> expr_result" where
  "parse_call P child obj n =
     rbind (expectKeys obj [''node'', ''function'', ''arguments''] [''options''] ''call'') (\<lambda>_.
     rbind (parse_function P (jget obj ''function'')) (\<lambda>fn.
     rbind (expectArray (jget obj ''arguments'') ''call.arguments'') (\<lambda>args.
     if MAX_ARGUMENTS < length args then fail_filter ''call argument limit exceeded''
     else if length args \<noteq> 2 then fail_filter ''registered v2 filter functions require exactly two arguments''
     else rbind (mapS (\<lambda>v. child (Some v)) args n) (\<lambda>(parsed, n).
     rbind (case fn of StandardFn f \<Rightarrow> validateStandardCall f parsed | ExtensionFn _ \<Rightarrow> Inr ()) (\<lambda>_.
     rbind (case jget obj ''options'' of None \<Rightarrow> Inr None
            | Some v \<Rightarrow> rbind (expectObject (Some v) ''call.options'') (\<lambda>ob. Inr (Some ob))) (\<lambda>opts.
     case opts of
       None \<Rightarrow> Inr (ECall fn parsed None, n)
     | Some ob \<Rightarrow>
         if (case fn of StandardFn _ \<Rightarrow> True | ExtensionFn _ \<Rightarrow> False) then fail_filter ''standard functions forbid options''
         else if jkeys ob \<noteq> [] then fail_filter ''extension function options are unsupported''
         else Inr (ECall fn parsed (Some (VObj [])), n)))))))"

definition parse_runtime_filter :: "FilterParser \<Rightarrow> child_parser \<Rightarrow> jdoc \<Rightarrow> bool \<Rightarrow> nat \<Rightarrow> expr_result" where
  "parse_runtime_filter P child obj isroot n =
     rbind (expectKeys obj [''node'', ''algorithm'', ''input'', ''artifact_ref'', ''null_handling''] [] ''runtime_filter'') (\<lambda>_.
     if \<not> isroot then fail_filter ''runtime_filter is allowed only at a predicate root''
     else rbind (identity (jget obj ''algorithm'') ''runtime_filter.algorithm'') (\<lambda>algorithm.
     let key = filterFunctionIdentityKey algorithm in
     if key \<notin> set KNOWN_RUNTIME_ALGORITHMS then fail_filter ''unknown runtime filter''
     else rbind (payload P ''artifact'' (jget obj ''artifact_ref'')) (\<lambda>(ref, f, v).
     rbind (validateArrowExtensions f) (\<lambda>_.
     rbind (expectString (jget obj ''null_handling'') ''runtime_filter.null_handling'') (\<lambda>nh.
     if nh \<noteq> ''pass'' \<and> nh \<noteq> ''reject'' then fail_filter ''invalid runtime null handling''
     else let supported = list_ex (\<lambda>a. filterFunctionIdentityKey a = key) (runtimeAlgorithms (p_options P)) in
     if supported then fail_filter ''runtime algorithm was advertised without an evaluator''
     else rbind (child (jget obj ''input'') n) (\<lambda>(inp, n).
       Inr (ERuntime algorithm inp ref f v (nh = ''pass'') supported, n)))))))"

definition parse_node :: "FilterParser \<Rightarrow> child_parser \<Rightarrow> jdoc \<Rightarrow> bool \<Rightarrow> nat \<Rightarrow> expr_result" where
  "parse_node P child obj isroot n =
     (case jget obj ''node'' of
        Some (JStr node) \<Rightarrow>
          if node = ''column_ref'' then parse_column_ref P obj n
          else if node = ''field_ref'' then parse_field_ref P child obj n
          else if node = ''literal'' then parse_literal P obj n
          else if node = ''comparison'' then parse_comparison child obj n
          else if node = ''and'' then parse_junction EAnd node child obj n
          else if node = ''or'' then parse_junction EOr node child obj n
          else if node = ''not'' then parse_not child obj n
          else if node = ''is_null'' then parse_is_null child obj n
          else if node = ''in'' then parse_in P child obj n
          else if node = ''cast'' then parse_cast P child obj n
          else if node = ''arithmetic'' then parse_arithmetic child obj n
          else if node = ''negate'' then parse_negate child obj n
          else if node = ''call'' then parse_call P child obj n
          else if node = ''runtime_filter'' then parse_runtime_filter P child obj isroot n
          else fail_filter ''unknown expression node''
      | _ \<Rightarrow> fail_filter ''unknown expression node'')"

text \<open>
  \<open>expression\<close>, with the levels still allowed in place of the depth: \<open>depth = MAX_DEPTH + 1 - levels\<close>, so
  no level left is \<open>depth > MAX_DEPTH\<close>.
\<close>

fun parse_expression :: "FilterParser \<Rightarrow> nat \<Rightarrow> jdoc \<Rightarrow> bool \<Rightarrow> nat \<Rightarrow> expr_result" where
  "parse_expression P 0 obj isroot n = fail_filter ''expression depth limit exceeded''"
| "parse_expression P (Suc levels) obj isroot n =
     (if MAX_NODES < n + 1 then fail_filter ''expression node limit exceeded''
      else parse_node P
        (\<lambda>v n. rbind (expectObject v ''child expression'') (\<lambda>ob. parse_expression P levels ob False n)) obj isroot (n + 1))"

section \<open>Predicates, snapshots and deltas\<close>

definition predicate_mode :: "string \<Rightarrow> PredicateMode option" where
  "predicate_mode s = map_of [(''required'', Required), (''advisory'', Advisory)] s"

definition predicate_source :: "string \<Rightarrow> PredicateSource option" where
  "predicate_source s = map_of [(''query'', SrcQuery), (''join'', SrcJoin), (''top_n'', SrcTopN),
     (''split_refinement'', SrcSplitRefinement), (''other'', SrcOther)] s"

definition is_runtime :: "FilterExpression \<Rightarrow> bool" where
  "is_runtime e = (case e of ERuntime _ _ _ _ _ _ _ \<Rightarrow> True | _ \<Rightarrow> False)"

definition parse_mode_source :: "jdoc \<Rightarrow> string \<Rightarrow> (PredicateMode \<times> PredicateSource) fresult" where
  "parse_mode_source obj where =
     rbind (expectString (jget obj ''mode'') (where @ ''.mode'')) (\<lambda>m.
     rbind (expectString (jget obj ''source'') (where @ ''.source'')) (\<lambda>s.
     case (predicate_mode m, predicate_source s) of
       (Some pm, Some ps) \<Rightarrow> Inr (pm, ps) | _ \<Rightarrow> fail_filter (where @ '' has unknown mode or source'')))"

definition parse_predicate :: "FilterParser \<Rightarrow> jdoc \<Rightarrow> string \<Rightarrow> bool \<Rightarrow> nat \<Rightarrow> (FilterPredicate \<times> nat) fresult" where
  "parse_predicate P obj where update n =
     rbind (expectKeys obj ((if update then [''operation''] else []) @ [''id'', ''revision'', ''mode'', ''source'', ''expression'']) [] where) (\<lambda>_.
     rbind (parse_mode_source obj where) (\<lambda>(mode, source).
     rbind (expectObject (jget obj ''expression'') (where @ ''.expression'')) (\<lambda>eo.
     rbind (parse_expression P MAX_DEPTH eo True n) (\<lambda>(e, n).
     if profile (p_context P) = NO_EVALUATION_CONTEXT \<and> requiresSessionContext e
     then fail_filter ''context-dependent expression requires vgi.duckdb.session.v1''
     else if is_runtime e \<and> mode \<noteq> Advisory then fail_filter ''runtime_filter predicates must be advisory''
     else if \<not> is_runtime e \<and> \<not> isBooleanExpression e then fail_filter ''predicate root must resolve to BOOLEAN''
     else rbind (predicateId (jget obj ''id'') where) (\<lambda>pid.
          rbind (expectUint (jget obj ''revision'') (where @ ''.revision'') False) (\<lambda>rvn.
          Inr (\<lparr>fp_id = pid, fp_revision = rvn, fp_mode = mode, fp_source = source, fp_expression = e\<rparr>, n)))))))"

fun check_snapshot :: "FilterPredicate list \<Rightarrow> string list \<Rightarrow> unit fresult" where
  "check_snapshot [] ids = Inr ()"
| "check_snapshot (p # ps) ids =
     (if fp_revision p \<noteq> 0 then fail_filter ''snapshot revisions must be zero''
      else if fp_id p \<in> set ids then fail_filter ''duplicate predicate id''
      else check_snapshot ps (fp_id p # ids))"

definition parse_snapshot :: "FilterParser \<Rightarrow> PushdownFilters fresult" where
  "parse_snapshot P =
     rbind (parser_header P ''snapshot'' ''predicates'') (\<lambda>entries.
     if MAX_PREDICATES < length entries then fail_filter ''snapshot predicate limit exceeded''
     else rbind (mapS (\<lambda>v n. rbind (expectObject (Some v) ''predicates'') (\<lambda>ob. parse_predicate P ob ''predicates'' False n)) entries 0)
       (\<lambda>(preds, _). rbind (check_snapshot preds []) (\<lambda>_.
         Inr \<lparr>predicates = preds, evaluationContext = p_context P, options = p_options P,
              revisions = jm_of (map (\<lambda>p. (fp_id p, 0)) preds),
              requiredIds = map fp_id (filter (\<lambda>p. fp_mode p = Required) preds)\<rparr>)))"

text \<open>An accepted, not stale update: the predicate to install, or the removal of an id.\<close>

type_synonym filter_update = "string \<times> int \<times> FilterPredicate option"

definition check_upsert :: "jdoc \<Rightarrow> string \<Rightarrow> unit fresult" where
  "check_upsert obj where =
     rbind (parse_mode_source obj where) (\<lambda>(mode, source).
     rbind (expectObject (jget obj ''expression'') (where @ ''.expression'')) (\<lambda>_.
     if mode \<noteq> Advisory then fail_filter ''delta upserts must be advisory'' else Inr ()))"

definition update_header :: "PushdownFilters \<Rightarrow> string list \<Rightarrow> jdoc \<Rightarrow> (bool \<times> jdoc \<times> string \<times> int) fresult" where
  "update_header prior seen entry =
     rbind (expectObject (Some entry) ''updates'') (\<lambda>obj.
     rbind (expectString (jget obj ''operation'') ''updates.operation'') (\<lambda>operation.
     rbind (expectKeys obj (if operation = ''upsert'' then [''operation'', ''id'', ''revision'', ''mode'', ''source'', ''expression'']
                            else [''operation'', ''id'', ''revision'']) [] ''updates'') (\<lambda>_.
     if operation \<noteq> ''upsert'' \<and> operation \<noteq> ''remove'' then fail_filter ''updates has invalid operation''
     else rbind (predicateId (jget obj ''id'') ''updates'') (\<lambda>uid.
     rbind (expectUint (jget obj ''revision'') ''updates.revision'' False) (\<lambda>rvn.
     if uid \<in> set seen then fail_filter ''duplicate delta predicate id''
     else if uid \<in> set (requiredIds prior) then fail_filter ''delta targets required predicate''
     else rbind (if operation = ''upsert'' then check_upsert obj ''updates'' else Inr ()) (\<lambda>_.
       Inr (operation = ''upsert'', obj, uid, rvn)))))))"

definition is_stale :: "PushdownFilters \<Rightarrow> string \<Rightarrow> int \<Rightarrow> bool" where
  "is_stale prior uid rvn \<longleftrightarrow> rvn \<le> (case jm_get (revisions prior) uid of Some r \<Rightarrow> r | None \<Rightarrow> - 1)"

fun parse_updates :: "FilterParser \<Rightarrow> PushdownFilters \<Rightarrow> jdoc list \<Rightarrow> string list \<Rightarrow> nat \<Rightarrow> filter_update list fresult" where
  "parse_updates P prior [] seen n = Inr []"
| "parse_updates P prior (entry # entries) seen n =
     rbind (update_header prior seen entry) (\<lambda>(upsert, obj, uid, rvn).
     if is_stale prior uid rvn then parse_updates P prior entries (uid # seen) n
     else if upsert then rbind (parse_predicate P obj ''updates'' True n) (\<lambda>(p, n).
       rbind (parse_updates P prior entries (uid # seen) n) (\<lambda>us. Inr ((uid, rvn, Some p) # us)))
     else rbind (parse_updates P prior entries (uid # seen) n) (\<lambda>us. Inr ((uid, rvn, None) # us)))"

definition apply_update :: "(string, FilterPredicate) jsmap \<times> (string, int) jsmap \<Rightarrow> filter_update \<Rightarrow>
    (string, FilterPredicate) jsmap \<times> (string, int) jsmap" where
  "apply_update s u = (case (s, u) of ((live, revs), (uid, rvn, p)) \<Rightarrow>
     ((case p of Some q \<Rightarrow> jm_set uid q live | None \<Rightarrow> jm_del uid live), jm_set uid rvn revs))"

text \<open>The contexts are compared as the JSON they print to, which is one text per context.\<close>

definition parse_delta :: "FilterParser \<Rightarrow> PushdownFilters \<Rightarrow> PushdownFilters fresult" where
  "parse_delta P prior =
     (if p_context P \<noteq> evaluationContext prior then fail_filter ''evaluation context changed within one scan''
      else rbind (parser_header P ''delta'' ''updates'') (\<lambda>entries.
        rbind (parse_updates P prior entries [] 0) (\<lambda>parsed.
        if MAX_PREDICATE_IDS < card (set (map fst (revisions prior)) \<union> set (map fst parsed))
        then fail_filter ''delta predicate-id limit exceeded''
        else let (live, revs) = foldl apply_update
               (jm_of (map (\<lambda>p. (fp_id p, p)) (predicates prior)), revisions prior) parsed in
          Inr \<lparr>predicates = map snd live, evaluationContext = p_context P, options = options prior,
               revisions = revs, requiredIds = requiredIds prior\<rparr>)))"

definition deserializeFilters :: "host \<Rightarrow> vgi_batch \<Rightarrow> DeserializeFilterOptions \<Rightarrow> PushdownFilters fresult" where
  "deserializeFilters h batch opts = rbind (new_FilterParser h batch opts) parse_snapshot"

definition applyFilterDelta :: "host \<Rightarrow> PushdownFilters \<Rightarrow> vgi_batch \<Rightarrow> PushdownFilters fresult" where
  "applyFilterDelta h prior batch =
     rbind (new_FilterParser h batch (options prior)) (\<lambda>P. parse_delta P prior)"

text \<open>\<open>buildJoinKeysLookup\<close>: the values of the last column of each name.\<close>

definition buildJoinKeysLookup :: "vgi_batch list \<Rightarrow> string \<Rightarrow> jsval list option" where
  "buildJoinKeysLookup batches name = jm_get (fold (\<lambda>batch m.
     fold (\<lambda>i m. case getChildAt batch i of None \<Rightarrow> m
       | Some column \<Rightarrow> jm_set (f_name (s_fields (b_schema batch) ! i)) (map (readCanonicalValue column) [0..<b_rows batch]) m)
       [0..<length (s_fields (b_schema batch))] m) batches []) name"

end
