(* ===== verification/FilterLaws.thy ===== *)
theory FilterLaws
  imports FilterEval
begin

text \<open>
  What the evaluator of \<open>src/filter-pushdown/evaluate.ts\<close> guarantees: the discrete values of a
  column cover every row a filter keeps, the keep-mask is the conjunction of the predicates
  that apply, the boolean-column projection is exact, and the laws of the operators.
\<close>

section \<open>Discrete values\<close>

lemma compare_EQ_True: "compare h l r EQ = VBool True \<Longrightarrow> deepEqual l r"
proof -
  assume c: "compare h l r EQ = VBool True"
  then have o: "orderedCompare h l r = 0"
    by (auto simp: compare_def Let_def split: if_splits)
  show ?thesis
  proof (cases "\<exists>x y. l = VNum x \<and> r = VNum y")
    case True
    then obtain x y where xy: "l = VNum x" "r = VNum y" by blast
    with o show ?thesis
      by (auto simp: orderedCompare_def deepEqual.simps [of "VNum _" "VNum _"] num_same_def split: if_splits)
  next
    case False
    then have "orderedCompare h l r = (if deepEqual l r then 0 else if js_less h l r then - 1 else 1)"
      by (auto simp: orderedCompare_def Let_def split: jsval.splits)
    with o show ?thesis by (auto split: if_splits)
  qed
qed

text \<open>The values of an expression are well formed: distinct names in every object.\<close>

fun wf_expr :: "FilterExpression \<Rightarrow> bool" where
  "wf_expr (ELiteral _ _ v) = wf_val v"
| "wf_expr (ECompare _ l r) = (wf_expr l \<and> wf_expr r)"
| "wf_expr (EAnd cs) = list_all wf_expr cs"
| "wf_expr (EOr cs) = list_all wf_expr cs"
| "wf_expr (EIn e s _) = list_all wf_val (set_values s)"
| "wf_expr _ = True"

text \<open>A BOOLEAN column holds Booleans and NULLs.\<close>

definition bool_cell :: "jsval \<Rightarrow> bool" where
  "bool_cell v \<longleftrightarrow> v = VNull \<or> (\<exists>b. v = VBool b)"

definition bool_columns_ok :: "(string \<Rightarrow> filter_error + jsval) \<Rightarrow> FilterExpression \<Rightarrow> bool" where
  "bool_columns_ok cell e = (case bool_column e of Some n \<Rightarrow> (case cell n of Inr v \<Rightarrow> bool_cell v | Inl _ \<Rightarrow> True) | None \<Rightarrow> True)"

fun typed_expr :: "(string \<Rightarrow> filter_error + jsval) \<Rightarrow> FilterExpression \<Rightarrow> bool" where
  "typed_expr cell (EAnd cs) = list_all (typed_expr cell) cs"
| "typed_expr cell (EOr cs) = list_all (typed_expr cell) cs"
| "typed_expr cell (ENot e) = bool_columns_ok cell e"
| "typed_expr cell e = bool_columns_ok cell e"

definition cell_at :: "vgi_batch \<Rightarrow> nat \<Rightarrow> string \<Rightarrow> filter_error + jsval" where
  "cell_at batch row n = rbind (resolveColumn batch n) (\<lambda>resolved. Inr (case resolved of
     None \<Rightarrow> VNull | Some column \<Rightarrow> readCanonicalValue column row))"

lemma evaluate_column: "evaluateExpression h batch row context (EColumn i n t) = cell_at batch row n"
  by (simp add: cell_at_def)

lemma is_column_evaluate:
  "is_column n e \<Longrightarrow> evaluateExpression h batch row context e = cell_at batch row n"
  by (auto simp: is_column_def cell_at_def split: FilterExpression.splits)

lemma in_result_True: "in_result v vs False = VBool True \<Longrightarrow> \<exists>w\<in>set vs. deepEqual v w"
  by (auto simp: in_result_def list_ex_iff split: if_splits)

lemma orKleene_True: "orKleene vs = VBool True \<longleftrightarrow> VBool True \<in> set vs"
  by (auto simp: orKleene_def list_ex_iff split: if_splits)

lemma andKleene_True: "andKleene vs = VBool True \<longleftrightarrow> VBool False \<notin> set vs \<and> VNull \<notin> set vs"
  by (auto simp: andKleene_def list_ex_iff)

lemma andKleene_True_bool:
  "andKleene vs = VBool True \<Longrightarrow> v \<in> set vs \<Longrightarrow> bool_cell v \<Longrightarrow> v = VBool True"
  by (auto simp: andKleene_True bool_cell_def) (metis (full_types))

lemma fold_add_distinct_keeps: "v \<in> set acc \<Longrightarrow> v \<in> set (foldl add_distinct acc vs)"
  by (induction vs arbitrary: acc) (auto simp: add_distinct_def)

lemma fold_add_distinct_covers:
  assumes "v \<in> set vs" "wf_val v"
  shows "\<exists>w\<in>set (foldl add_distinct acc vs). deepEqual w v"
  using assms(1)
proof (induction vs arbitrary: acc)
  case Nil
  then show ?case by simp
next
  case (Cons u vs)
  show ?case
  proof (cases "v = u")
    case True
    show ?thesis
    proof (cases "list_ex (\<lambda>known. deepEqual known v) acc")
      case True
      then obtain w where "w \<in> set acc" "deepEqual w v" by (auto simp: list_ex_iff)
      then show ?thesis using fold_add_distinct_keeps [of w acc "u # vs"] by blast
    next
      case False
      with \<open>v = u\<close> have "v \<in> set (add_distinct acc u)" by (simp add: add_distinct_def)
      then show ?thesis using fold_add_distinct_keeps [of v "add_distinct acc u" vs] deepEqual_refl [OF assms(2)]
        by auto
    qed
  next
    case False
    with Cons show ?thesis by simp
  qed
qed

lemma fold_add_distinct_subset: "set (foldl add_distinct acc vs) \<subseteq> set acc \<union> set vs"
proof (induction vs arbitrary: acc)
  case Nil
  show ?case by simp
next
  case (Cons v vs)
  have "set (add_distinct acc v) \<subseteq> insert v (set acc)" by (auto simp: add_distinct_def)
  with Cons.IH [of "add_distinct acc v"] show ?case by auto
qed

lemma all_some_mem: "all_some f xs = Some ys \<Longrightarrow> y \<in> set ys \<Longrightarrow> \<exists>x\<in>set xs. f x = Some y"
  by (induction xs arbitrary: ys) (auto split: option.splits)

lemma all_some_mem_of: "all_some f xs = Some ys \<Longrightarrow> x \<in> set xs \<Longrightarrow> \<exists>y\<in>set ys. f x = Some y"
  by (induction xs arbitrary: ys) (auto split: option.splits)

lemma discreteValues_wf: "wf_expr e \<Longrightarrow> discreteValues n e = Some vs \<Longrightarrow> v \<in> set vs \<Longrightarrow> wf_val v"
proof (induction n e arbitrary: vs v rule: discreteValues.induct)
  case (1 n op l r)
  then show ?case by (auto split: if_splits FilterExpression.splits)
next
  case (2 n e s neg)
  then show ?case by (auto simp: list_all_iff split: if_splits)
next
  case (3 n cs)
  then obtain c where "c \<in> set cs" "discreteValues n c = Some vs"
    by (auto dest: first_some_Some)
  with 3 show ?case by (auto simp: list_all_iff)
next
  case (4 n cs)
  then obtain bs where bs: "all_some (\<lambda>c. discreteValues n c) cs = Some bs" "vs = foldl add_distinct [] (concat bs)"
    by (auto split: option.splits)
  with 4(4) fold_add_distinct_subset [of "[]" "concat bs"] obtain b where b: "b \<in> set bs" "v \<in> set b" by auto
  with all_some_mem [OF bs(1)] obtain c where "c \<in> set cs" "discreteValues n c = Some b" by blast
  with 4 b show ?case by (auto simp: list_all_iff)
qed (auto simp: booleanColumnLeaf_def split: option.splits if_splits)


lemma discreteValues_default:
  "discreteValues n e = Some vs \<Longrightarrow> (\<forall>op l r. e \<noteq> ECompare op l r) \<Longrightarrow> (\<forall>x s b. e \<noteq> EIn x s b) \<Longrightarrow>
   (\<forall>cs. e \<noteq> EAnd cs) \<Longrightarrow> (\<forall>cs. e \<noteq> EOr cs) \<Longrightarrow>
   \<exists>b. booleanColumnLeaf e = Some (n, b) \<and> vs = [VBool b]"
  by (cases e) (auto split: option.splits if_splits)

lemma booleanColumnLeaf_cases:
  assumes "booleanColumnLeaf e = Some (n, b)"
  obtains (col) i t where "e = EColumn i n (Some t)" "isBool t" "b"
    | (neg) i t where "e = ENot (EColumn i n (Some t))" "isBool t" "\<not> b"
  using assms
  by (auto simp: booleanColumnLeaf_def bool_column_def split: FilterExpression.splits option.splits if_splits)

lemma discrete_child_bool:
  assumes "discreteValues n c = Some vs" "typed_expr (cell_at batch row) c"
    and "evaluateExpression h batch row context c = Inr v"
  shows "bool_cell v"
proof (cases c)
  case (EColumn i m t)
  with assms(1) obtain b where "booleanColumnLeaf c = Some (n, b)"
    using discreteValues_default [of n c] by auto
  with EColumn obtain t' where "t = Some t'" "isBool t'" "m = n"
    by (auto elim: booleanColumnLeaf_cases)
  with assms(2,3) EColumn show ?thesis
    by (simp add: evaluate_column bool_columns_ok_def bool_column_def del: evaluateExpression.simps(1))
qed (use assms in \<open>auto simp: bool_cell_def result_simps compare_def Let_def andKleene_def orKleene_def in_result_def
    booleanColumnLeaf_def bool_column_def split: option.splits if_splits FilterExpression.splits\<close>)

lemma booleanColumnLeaf_sound:
  assumes "booleanColumnLeaf e = Some (n, b)" "typed_expr (cell_at batch row) e"
    and "evaluateExpression h batch row context e = Inr (VBool True)" "cell_at batch row n = Inr cell"
  shows "cell = VBool b"
  using assms(1)
proof (cases rule: booleanColumnLeaf_cases)
  case (col i t)
  with assms show ?thesis by (simp add: evaluate_column del: evaluateExpression.simps(1))
next
  case (neg i t)
  with assms(2,4) have "bool_cell cell" by (simp add: bool_columns_ok_def bool_column_def)
  moreover have "cell \<noteq> VNull" "\<not> truthy cell"
    using neg assms(3,4) by (auto simp: evaluate_column simp del: evaluateExpression.simps(1) split: if_splits)
  ultimately show ?thesis using neg by (auto simp: bool_cell_def truthy_def)
qed

lemma discrete_default_sound:
  assumes "evaluateExpression h batch row context e = Inr (VBool True)" "discreteValues n e = Some vs"
    and "typed_expr (cell_at batch row) e" "cell_at batch row n = Inr cell"
    and "\<forall>op l r. e \<noteq> ECompare op l r" "\<forall>x s b. e \<noteq> EIn x s b" "\<forall>cs. e \<noteq> EAnd cs" "\<forall>cs. e \<noteq> EOr cs"
  shows "\<exists>v\<in>set vs. deepEqual cell v"
proof -
  obtain b where b: "booleanColumnLeaf e = Some (n, b)" "vs = [VBool b]"
    using discreteValues_default [OF assms(2,5-8)] by blast
  from booleanColumnLeaf_sound [OF b(1) assms(3,1,4)] b(2) show ?thesis by (simp add: deepEqual_refl)
qed

lemma discreteValues_sound:
  assumes "evaluateExpression h batch row context e = Inr (VBool True)"
    and "discreteValues n e = Some vs" "cell_at batch row n = Inr cell" "wf_val cell"
    and "wf_expr e" "typed_expr (cell_at batch row) e"
  shows "\<exists>v\<in>set vs. deepEqual cell v"
  using assms(1,2,5,6)
proof (induction e arbitrary: vs)
  case (ECompare op l r)
  obtain x y where xy: "evaluateExpression h batch row context l = Inr x" "evaluateExpression h batch row context r = Inr y"
      "compare h x y op = VBool True"
    using ECompare.prems(1) by (auto simp: result_simps)
  from ECompare.prems(2) have op: "op = EQ" by (auto split: if_splits)
  from compare_EQ_True xy(3) op have eq: "deepEqual x y" by simp
  have col: "z = cell" if "is_column n e" "evaluateExpression h batch row context e = Inr z" for e z
    using that assms(3) is_column_evaluate [of n e] by simp
  from ECompare.prems(2) op consider (right) a f v where "r = ELiteral a f v" "is_column n l" "vs = [v]"
    | (left) a f v where "l = ELiteral a f v" "is_column n r" "vs = [v]"
    by (auto split: FilterExpression.splits if_splits)
  then show ?case
  proof cases
    case right
    with xy col [of l x] eq show ?thesis by auto
  next
    case left
    with xy col [of r y] eq have "deepEqual v cell" by auto
    with left ECompare.prems(3) assms(4) show ?thesis by (auto intro: deepEqual_sym)
  qed
next
  case (EIn e s neg)
  then have c: "is_column n e" "\<not> neg" "vs = set_values s" by (auto split: if_splits)
  with EIn.prems(1) assms(3) is_column_evaluate [OF c(1)] have "in_result cell vs False = VBool True"
    by (auto simp: result_simps)
  then show ?case by (rule in_result_True)
next
  case (EAnd cs)
  from EAnd.prems(2) obtain c where c: "c \<in> set cs" "discreteValues n c = Some vs" by (auto dest: first_some_Some)
  from EAnd.prems(1) obtain us where us: "mapR (evaluateExpression h batch row context) cs = Inr us" "andKleene us = VBool True"
    by (auto simp: result_simps)
  from mapR_mem_of [OF us(1) c(1)]
  obtain u where u: "u \<in> set us" "evaluateExpression h batch row context c = Inr u" by blast
  have t: "wf_expr c" "typed_expr (cell_at batch row) c" using c EAnd.prems by (auto simp: list_all_iff)
  have "u = VBool True"
    using andKleene_True_bool [OF us(2) u(1) discrete_child_bool [OF c(2) t(2) u(2)]] .
  with u have "evaluateExpression h batch row context c = Inr (VBool True)" by simp
  from EAnd.IH [OF c(1) this c(2) t] show ?case .
next
  case (EOr cs)
  from EOr.prems(2) obtain bs where bs: "all_some (discreteValues n) cs = Some bs" "vs = foldl add_distinct [] (concat bs)"
    by (auto split: option.splits)
  from EOr.prems(1) obtain us where us: "mapR (evaluateExpression h batch row context) cs = Inr us" "VBool True \<in> set us"
    by (auto simp: result_simps orKleene_True)
  then obtain c where c: "c \<in> set cs" "evaluateExpression h batch row context c = Inr (VBool True)"
    by (auto dest: mapR_mem)
  from all_some_mem_of [OF bs(1) c(1)] obtain b where b: "b \<in> set bs" "discreteValues n c = Some b" by blast
  have t: "wf_expr c" "typed_expr (cell_at batch row) c" using c EOr.prems by (auto simp: list_all_iff)
  from EOr.IH [OF c b(2) t] obtain v where v: "v \<in> set b" "deepEqual cell v" by blast
  have wf: "wf_val v" using discreteValues_wf [OF t(1) b(2) v(1)] .
  from v b fold_add_distinct_covers [OF _ wf, of "concat bs" "[]"] bs obtain w where w: "w \<in> set vs" "deepEqual w v" by auto
  have "wf_val w" using discreteValues_wf [OF EOr.prems(3,2) w(1)] .
  with v w wf assms(4) have "deepEqual cell w" by (auto intro: deepEqual_sym deepEqual_trans [of cell v w])
  with w show ?case by blast
qed (erule discrete_default_sound, assumption, assumption, rule assms(3), (simp; fail)+)+


section \<open>The keep-mask\<close>

text \<open>A predicate that does not take part: an unsupported runtime filter, or an advisory one that fails.\<close>

definition skipped :: "host \<Rightarrow> vgi_batch \<Rightarrow> EvaluationContext \<Rightarrow> FilterPredicate \<Rightarrow> bool" where
  "skipped h batch context p \<longleftrightarrow> unsupported_runtime (fp_expression p) \<or>
     (fp_mode p = Advisory \<and> (\<exists>e. row_values h batch context (fp_expression p) = Inl e))"

lemma row_values_nth:
  assumes "row_values h batch context e = Inr vs" "row < b_rows batch"
  shows "evaluateExpression h batch row context e = Inr (vs ! row)" "length vs = b_rows batch"
  using assms by (auto simp: row_values_def mapR_eq_Inr list_all2_conv_all_nth)

lemma row_values_length: "row_values h batch context e = Inr vs \<Longrightarrow> length vs = b_rows batch"
  by (auto simp: row_values_def dest: mapR_length)

lemma evaluate_predicates_length:
  "evaluate_predicates h batch context ps keep = Inr m \<Longrightarrow> length keep = b_rows batch \<Longrightarrow> length m = b_rows batch"
  by (induction ps arbitrary: keep) (auto split: if_splits sum.splits dest: row_values_length)

lemma evaluate_predicates_nth:
  assumes "evaluate_predicates h batch context ps keep = Inr m" "length keep = b_rows batch" "row < b_rows batch"
  shows "m ! row \<longleftrightarrow> keep ! row \<and> (\<forall>p\<in>set ps. skipped h batch context p \<or>
     evaluateExpression h batch row context (fp_expression p) = Inr (VBool True))"
  using assms(1,2)
proof (induction ps arbitrary: keep)
  case Nil
  then show ?case by simp
next
  case (Cons p ps)
  show ?case
  proof (cases "unsupported_runtime (fp_expression p)")
    case True
    with Cons show ?thesis by (simp add: skipped_def)
  next
    case sup: False
    show ?thesis
    proof (cases "row_values h batch context (fp_expression p)")
      case (Inl e)
      with Cons sup show ?thesis by (auto simp: skipped_def split: if_splits)
    next
      case (Inr vs)
      note v = row_values_nth [OF Inr assms(3)] and l = row_values_length [OF Inr]
      let ?k = "map2 (\<lambda>m v. m \<and> v = VBool True) keep vs"
      have "m ! row \<longleftrightarrow> ?k ! row \<and> (\<forall>p\<in>set ps. skipped h batch context p \<or>
          evaluateExpression h batch row context (fp_expression p) = Inr (VBool True))"
        using Cons.IH [of ?k] Cons.prems sup Inr l by simp
      moreover have "?k ! row \<longleftrightarrow> keep ! row \<and> vs ! row = VBool True"
        using Cons.prems(2) l assms(3) by simp
      ultimately show ?thesis using v sup Inr by (auto simp: skipped_def)
    qed
  qed
qed

lemma evaluate_nth:
  assumes "evaluate h f batch = Inr m" "row < b_rows batch"
  shows "m ! row \<longleftrightarrow> (\<forall>p\<in>set (predicates f). skipped h batch (evaluationContext f) p \<or>
     evaluateExpression h batch row (evaluationContext f) (fp_expression p) = Inr (VBool True))"
  using evaluate_predicates_nth [OF assms(1) [unfolded evaluate_def]] assms(2) by simp

lemma evaluate_length: "evaluate h f batch = Inr m \<Longrightarrow> length m = b_rows batch"
  by (auto simp: evaluate_def dest: evaluate_predicates_length)

text \<open>It fails exactly when a required predicate does.\<close>

lemma evaluate_predicates_fails:
  "(\<exists>e. evaluate_predicates h batch context ps keep = Inl e) \<longleftrightarrow>
   (\<exists>p\<in>set ps. \<not> unsupported_runtime (fp_expression p) \<and> fp_mode p = Required \<and>
      (\<exists>e. row_values h batch context (fp_expression p) = Inl e))"
proof (induction ps arbitrary: keep)
  case Nil
  show ?case by simp
next
  case (Cons p ps)
  then show ?case by (cases "fp_mode p"; cases "row_values h batch context (fp_expression p)") auto
qed

lemma evaluate_same_set:
  assumes "set (predicates f) = set (predicates g)" "evaluationContext f = evaluationContext g"
  shows "evaluate h f batch = Inr m \<longleftrightarrow> evaluate h g batch = Inr m"
proof -
  have one: "evaluate h y batch = Inr m"
    if "evaluate h x batch = Inr m" and s: "set (predicates x) = set (predicates y)" "evaluationContext x = evaluationContext y" for x y
  proof (cases "evaluate h y batch")
    case (Inl e)
    with that evaluate_predicates_fails [of h batch "evaluationContext x" "predicates x"]
      evaluate_predicates_fails [of h batch "evaluationContext y" "predicates y"]
    show ?thesis unfolding evaluate_def by (metis Inl_Inr_False)
  next
    case (Inr m')
    have "m = m'"
      using evaluate_nth [OF that(1)] evaluate_nth [OF Inr] evaluate_length [OF that(1)] evaluate_length [OF Inr] s
      by (auto intro: nth_equalityI)
    with Inr show ?thesis by simp
  qed
  from one [of f g] one [of g f] assms show ?thesis by auto
qed

section \<open>Order and range of the operators\<close>

lemma str_less_irrefl: "\<not> str_less s s"
  by (induction s) auto

lemma str_less_linear: "s \<noteq> t \<Longrightarrow> str_less s t \<noteq> str_less t s"
  by (induction s t rule: str_less.induct) (auto simp: neq_Nil_conv)

lemma str_less_trans: "str_less r s \<Longrightarrow> str_less s t \<Longrightarrow> str_less r t"
proof (induction r t arbitrary: s rule: str_less.induct)
  case (1 r)
  then show ?case by (cases s) auto
next
  case (2 c cs)
  then show ?case by simp
next
  case (3 c cs d ds)
  then obtain e es where "s = e # es" by (cases s) auto
  with 3 show ?case by (auto split: if_splits)
qed

text \<open>Values of one kind embed in a linear order, \<open>NaN\<close> greatest.\<close>

definition num_key :: "jsnum \<Rightarrow> nat \<times> rat" where
  "num_key x = (case x of NaN \<Rightarrow> (3, 0) | Inf s \<Rightarrow> (if s then 0 else 2, 0) | _ \<Rightarrow> (1, num_value x))"

definition key_less :: "nat \<times> rat \<Rightarrow> nat \<times> rat \<Rightarrow> bool" where
  "key_less a b \<longleftrightarrow> fst a < fst b \<or> (fst a = fst b \<and> snd a < snd b)"

fun same_kind :: "jsval \<Rightarrow> jsval \<Rightarrow> bool" where
  "same_kind (VNum _) (VNum _) = True"
| "same_kind (VBig _) (VBig _) = True"
| "same_kind (VStr _) (VStr _) = True"
| "same_kind (VBool _) (VBool _) = True"
| "same_kind _ _ = False"

lemma orderedCompare_num:
  "orderedCompare h (VNum x) (VNum y) =
     (if num_key x = num_key y then 0 else if key_less (num_key x) (num_key y) then - 1 else 1)"
  by (cases x; cases y)
    (auto simp: orderedCompare_def deepEqual.simps [of "VNum _" "VNum _"] num_same_def num_eq_def
      js_less_def to_primitive_def num_lt_def num_key_def key_less_def)

lemma orderedCompare_big:
  "orderedCompare h (VBig i) (VBig j) = (if i = j then 0 else if i < j then - 1 else 1)"
  by (simp add: orderedCompare_def deepEqual_atom js_less_def to_primitive_def)

lemma orderedCompare_str:
  "orderedCompare h (VStr s) (VStr t) = (if s = t then 0 else if str_less s t then - 1 else 1)"
  by (simp add: orderedCompare_def deepEqual_atom js_less_def to_primitive_def)

lemma orderedCompare_bool:
  "orderedCompare h (VBool a) (VBool b) = (if a = b then 0 else if b then - 1 else 1)"
  by (cases a; cases b) (simp_all add: orderedCompare_def deepEqual_atom js_less_def to_primitive_def num_lt_def)

lemmas orderedCompare_kinds = orderedCompare_num orderedCompare_big orderedCompare_str orderedCompare_bool

lemma orderedCompare_antisym: "same_kind a b \<Longrightarrow> orderedCompare h b a = - orderedCompare h a b"
proof (cases "(a, b)" rule: same_kind.cases)
  case (1 x y)
  then show ?thesis by (auto simp: orderedCompare_kinds key_less_def prod_eq_iff)
next
  case (2 x y)
  then show ?thesis by (simp add: orderedCompare_kinds)
next
  case (3 x y)
  then show ?thesis using str_less_linear [of x y] by (auto simp: orderedCompare_kinds)
next
  case (4 x y)
  then show ?thesis by (simp add: orderedCompare_kinds)
qed auto

lemma orderedCompare_trans:
  assumes "same_kind a b" "same_kind b c" "orderedCompare h a b \<le> 0" "orderedCompare h b c \<le> 0"
  shows "orderedCompare h a c \<le> 0"
proof (cases "(a, b)" rule: same_kind.cases)
  case (1 x y)
  with assms(2) obtain z where "c = VNum z" by (cases c) auto
  with 1 assms show ?thesis by (auto simp: orderedCompare_kinds key_less_def prod_eq_iff split: if_splits)
next
  case (2 x y)
  with assms(2) obtain z where "c = VBig z" by (cases c) auto
  with 2 assms show ?thesis by (auto simp: orderedCompare_kinds split: if_splits)
next
  case (3 x y)
  with assms(2) obtain z where "c = VStr z" by (cases c) auto
  with 3 assms show ?thesis by (auto simp: orderedCompare_kinds split: if_splits dest: str_less_trans)
next
  case (4 x y)
  with assms(2) obtain z where "c = VBool z" by (cases c) auto
  with 4 assms show ?thesis by (auto simp: orderedCompare_kinds split: if_splits)
qed (use assms in auto)

lemma compare_order:
  assumes "same_kind a b"
  shows "compare h a b LT = VBool (orderedCompare h a b < 0)" "compare h a b EQ = VBool (orderedCompare h a b = 0)"
    "compare h a b GT = VBool (orderedCompare h a b > 0)" "compare h a b LE = VBool (orderedCompare h a b \<le> 0)"
    "compare h a b GE = VBool (orderedCompare h a b \<ge> 0)" "compare h a b NE = VBool (orderedCompare h a b \<noteq> 0)"
  using assms by (cases "(a, b)" rule: same_kind.cases; simp add: compare_def Let_def)+

text \<open>
  comparison orders the values of one kind.  On numbers (with \<open>NaN\<close> equal to itself and
  above every other, and the two zeros equal), big integers, strings or Booleans, exactly one of
  \<open><\<close>, \<open>=\<close> and \<open>>\<close> is true, \<open>\<le>\<close> is \<open><\<close> or \<open>=\<close>, swapping the operands swaps \<open><\<close> and \<open>>\<close>, and
  \<open>\<le>\<close> is transitive.
\<close>

theorem comparison_total_order:
  assumes "same_kind a b" "same_kind b c"
  shows "(compare h a b LT = VBool True \<or> compare h a b EQ = VBool True \<or> compare h a b GT = VBool True) \<and>
     \<not> (compare h a b LT = VBool True \<and> compare h a b EQ = VBool True) \<and>
     \<not> (compare h a b GT = VBool True \<and> compare h a b EQ = VBool True) \<and>
     compare h a b GT = compare h b a LT \<and> compare h a b EQ = compare h b a EQ \<and>
     (compare h a b LE = VBool True \<longleftrightarrow> compare h a b LT = VBool True \<or> compare h a b EQ = VBool True) \<and>
     (compare h a b LE = VBool True \<and> compare h b c LE = VBool True \<longrightarrow> compare h a c LE = VBool True)"
proof -
  have ba: "same_kind b a" and ac: "same_kind a c"
    using assms by (cases "(a, b)" rule: same_kind.cases; cases c; simp)+
  show ?thesis
    unfolding compare_order [OF assms(1)] compare_order [OF assms(2)] compare_order [OF ba] compare_order [OF ac]
      orderedCompare_antisym [OF assms(1)]
    using orderedCompare_trans [OF assms] by auto
qed

definition plain_host :: host where
  "plain_host = \<lparr>num_to_string = \<lambda>_. ''0'', string_to_num = \<lambda>_. NaN, string_to_bigint = \<lambda>_. None\<rparr>"

lemma comparison_total_order_witness:
  "same_kind (VNum (Fin 1)) (VNum NaN) \<and> compare plain_host (VNum (Fin 1)) (VNum NaN) GT = compare plain_host (VNum NaN) (VNum (Fin 1)) LT"
  using comparison_total_order [of "VNum (Fin 1)" "VNum NaN" "VNum NaN" plain_host] by simp

text \<open>
  A cast to an integer type yields \<open>null\<close> for \<open>null\<close> and otherwise an integer in the range of
  the type's width and signedness, as a \<open>bigint\<close> at 64 bits and as the number of the same value
  at up to 53 bits; everything else is an error.
\<close>

theorem castValue_integer_range:
  assumes "castValue h v (TInt w sg) = Inr r" "0 < w" "w \<le> 53 \<or> w = 64"
  shows "(v = VNull \<and> r = VNull) \<or> (\<exists>i. (if sg then - (2 ^ (w - 1)) \<le> i \<and> i < 2 ^ (w - 1) else 0 \<le> i \<and> i < 2 ^ w) \<and>
     r = (if w = 64 then VBig i else VNum (Fin (of_int i))))"
proof (cases "v = VNull")
  case True
  with assms(1) show ?thesis by (simp add: castValue_def)
next
  case False
  with assms(1) obtain i where i: "to_bigint h v = Some i"
      "r = (if w = 64 then VBig i else VNum (num_of_int i))"
      "(if sg then - big_shift (int w - 1) \<le> i \<and> i \<le> big_shift (int w - 1) - 1 else 0 \<le> i \<and> i \<le> big_shift (int w) - 1)"
    by (auto simp: castValue_def type_predicates integerBounds_def bit_width_def split: option.splits if_splits)
  have w: "nat (int w - 1) = w - 1" "\<not> int w - 1 < 0" using assms(2) by auto
  then have r: "if sg then - (2 ^ (w - 1)) \<le> i \<and> i < 2 ^ (w - 1) else 0 \<le> i \<and> i < 2 ^ w"
    using i(3) by (auto simp: big_shift_def split: if_splits)
  have "num_of_int i = Fin (of_int i)" if "w \<noteq> 64"
  proof -
    from that assms(3) have w53: "w \<le> 53" by simp
    then have "(2 :: int) ^ w \<le> 2 ^ 53" "(2 :: int) ^ (w - 1) \<le> 2 ^ 53" by (intro power_increasing; simp)+
    with r have "\<bar>i\<bar> \<le> 2 ^ 53" by (auto split: if_splits)
    then show ?thesis by (simp add: num_of_int_def)
  qed
  with i(2) r show ?thesis by auto
qed

lemma castValue_integer_range_witness:
  "castValue plain_host (VBig 7) (TInt 8 True) = Inr (VNum (Fin 7)) \<and> (- (2 ^ 7) \<le> (7 :: int) \<and> (7 :: int) < 2 ^ 7)"
proof -
  have c: "castValue plain_host (VBig 7) (TInt 8 True) = Inr (VNum (Fin 7))"
    by (simp add: castValue_def type_predicates integerBounds_def bit_width_def to_bigint_def big_shift_def num_of_int_def)
  from castValue_integer_range [OF c] show ?thesis using c by simp
qed

lemma big_div_mod:
  assumes "j \<noteq> 0"
  shows "\<bar>big_mod i j\<bar> < \<bar>j\<bar>" "big_mod i j = 0 \<or> sgn (big_mod i j) = sgn i"
proof -
  have m: "big_mod i j = sgn i * (\<bar>i\<bar> mod \<bar>j\<bar>)"
  proof -
    have "big_mod i j = i - (j * sgn j) * sgn i * (\<bar>i\<bar> div \<bar>j\<bar>)"
      by (simp add: big_mod_def big_div_def algebra_simps)
    also have "\<dots> = sgn i * \<bar>i\<bar> - (j * sgn j) * sgn i * (\<bar>i\<bar> div \<bar>j\<bar>)"
      by (simp add: sgn_mult_abs)
    also have "\<dots> = sgn i * (\<bar>i\<bar> - \<bar>j\<bar> * (\<bar>i\<bar> div \<bar>j\<bar>))"
      by (simp add: algebra_simps abs_sgn [of j, symmetric])
    finally show ?thesis by (simp add: minus_mult_div_eq_mod)
  qed
  have b: "0 \<le> \<bar>i\<bar> mod \<bar>j\<bar>" "\<bar>i\<bar> mod \<bar>j\<bar> < \<bar>j\<bar>" using assms by auto
  show "\<bar>big_mod i j\<bar> < \<bar>j\<bar>" using m b by (cases "i = 0") (auto simp: abs_mult)
  show "big_mod i j = 0 \<or> sgn (big_mod i j) = sgn i"
    using m b by (cases "\<bar>i\<bar> mod \<bar>j\<bar> = 0") (auto simp: sgn_mult)
qed

text \<open>
  Integer arithmetic under \<open>integer_division\<close>.  For a nonzero divisor, division and modulo of
  big integers return the quotient truncated towards zero and its remainder: the product plus the
  remainder is the dividend, the remainder is smaller than the divisor, and it has the dividend's
  sign.  A zero divisor is the error "division by zero"; without \<open>integer_division\<close> the quotient is
  the double division of the two numbers.
\<close>

theorem integer_division_law:
  "if j = 0 then numericBinary h OpDivide (VBig i) (VBig j) c = Inl (FilterV2Error ''division by zero'') \<and>
       numericBinary h OpModulo (VBig i) (VBig j) c = Inl (FilterV2Error ''division by zero'')
   else if integerDivision c = Some True then
     (\<exists>q r. numericBinary h OpDivide (VBig i) (VBig j) c = Inr (VBig q) \<and>
       numericBinary h OpModulo (VBig i) (VBig j) c = Inr (VBig r) \<and>
       i = j * q + r \<and> \<bar>r\<bar> < \<bar>j\<bar> \<and> (r = 0 \<or> sgn r = sgn i))
   else numericBinary h OpDivide (VBig i) (VBig j) c = Inr (VNum (num_div (num_of_int i) (num_of_int j)))"
  using big_div_mod [of j i] by (auto simp: numericBinary_def is_numeric_def big_mod_def)

section \<open>Logic\<close>

lemma bool_cell_simps [simp]: "bool_cell VNull" "bool_cell (VBool b)"
  by (simp_all add: bool_cell_def)

lemma andKleene_not_or:
  "list_all bool_cell vs \<Longrightarrow>
   (if andKleene vs = VNull then VNull else VBool (\<not> truthy (andKleene vs))) =
   orKleene (map (\<lambda>v. if v = VNull then VNull else VBool (\<not> truthy v)) vs)"
proof -
  assume b: "list_all bool_cell vs"
  define n where "n v = (if v = VNull then VNull else VBool (\<not> truthy v))" for v
  have t: "n v = VBool True \<longleftrightarrow> v = VBool False" "n v = VNull \<longleftrightarrow> v = VNull" if "v \<in> set vs" for v
    using b that by (auto simp: n_def list_all_iff bool_cell_def truthy_def)
  have e: "list_ex (\<lambda>v. v = VBool True) (map n vs) = list_ex (\<lambda>v. v = VBool False) vs"
      "list_ex (\<lambda>v. v = VNull) (map n vs) = list_ex (\<lambda>v. v = VNull) vs"
    unfolding list_ex_iff using t by (metis (no_types, lifting) image_iff list.set_map)+
  have "orKleene (map n vs) = n (andKleene vs)"
    unfolding orKleene_def e by (auto simp: n_def andKleene_def truthy_def)
  moreover have "n = (\<lambda>v. if v = VNull then VNull else VBool (\<not> truthy v))" by (rule ext) (rule n_def)
  ultimately show ?thesis by simp
qed

lemma mapR_bind_all:
  "mapR (\<lambda>x. rbind (f x) (\<lambda>v. Inr (g v))) xs = rbind (mapR f xs) (\<lambda>vs. Inr (map g vs))"
  by (induction xs) (auto simp: rbind_def split: sum.splits)

lemma mapR_map: "mapR f (map g xs) = mapR (\<lambda>x. f (g x)) xs"
  by (induction xs) (auto split: sum.splits)

text \<open>
  De Morgan for three-valued AND, OR and NOT.  Over children that yield Booleans or NULL,
  \<open>NOT (c1 AND ... AND cn)\<close> evaluates to what \<open>(NOT c1) OR ... OR (NOT cn)\<close> does on every row,
  NULLs and errors included.
\<close>

theorem de_morgan_filters:
  assumes "\<And>c v. c \<in> set cs \<Longrightarrow> evaluateExpression h batch row context c = Inr v \<Longrightarrow> bool_cell v"
  shows "evaluateExpression h batch row context (ENot (EAnd cs)) =
    evaluateExpression h batch row context (EOr (map ENot cs))"
proof (cases "mapR (evaluateExpression h batch row context) cs")
  case (Inl e)
  then show ?thesis by (simp add: mapR_map mapR_bind_all)
next
  case (Inr vs)
  then have "list_all bool_cell vs" using assms by (auto simp: list_all_iff dest: mapR_mem)
  from andKleene_not_or [OF this] Inr show ?thesis by (simp add: mapR_map mapR_bind_all)
qed

definition sample_field :: "string \<Rightarrow> arrow_type \<Rightarrow> arrow_field" where
  "sample_field n t = Field n t True [] []"

definition sample_batch :: vgi_batch where
  "sample_batch = \<lparr>b_schema = \<lparr>s_fields = [sample_field ''n'' (TInt 64 True), sample_field ''flag'' TBool], s_metadata = []\<rparr>,
     b_rows = 3, b_columns = [[VBig 5, VBig 7, VNull], [VBool True, VBool False, VNull]]\<rparr>"

definition sample_context :: EvaluationContext where
  "sample_context = \<lparr>profile = ''vgi.none.v1'', timeZone = None, calendar = None, defaultCollation = None,
     ieeeFloatingPointOps = None, integerDivision = None, providerFingerprint = None\<rparr>"

definition sample_options :: DeserializeFilterOptions where
  "sample_options = \<lparr>extensionFunctions = [], runtimeAlgorithms = [], evaluationContexts = [],
     outputSchema = b_schema sample_batch, joinKeyBatches = []\<rparr>"

definition sample_predicate :: "string \<Rightarrow> PredicateMode \<Rightarrow> FilterExpression \<Rightarrow> FilterPredicate" where
  "sample_predicate i m e = \<lparr>fp_id = i, fp_revision = 0, fp_mode = m, fp_source = SrcQuery, fp_expression = e\<rparr>"

definition sample_flag :: FilterExpression where
  "sample_flag = EColumn 1 ''flag'' (Some TBool)"

definition sample_equal :: "int \<Rightarrow> FilterExpression" where
  "sample_equal i = ECompare EQ (EColumn 0 ''n'' (Some (TInt 64 True))) (ELiteral 0 (sample_field ''value_0'' (TInt 64 True)) (VBig i))"

definition sample_filters :: PushdownFilters where
  "sample_filters = \<lparr>predicates = [sample_predicate ''a'' Required (EOr [sample_equal 5, sample_equal 9]),
       sample_predicate ''b'' Required sample_flag],
     evaluationContext = sample_context, options = sample_options,
     revisions = [(''a'', 0), (''b'', 0)], requiredIds = [''a'', ''b'']\<rparr>"

lemmas sample_defs = sample_batch_def sample_field_def sample_context_def sample_options_def sample_predicate_def
  sample_flag_def sample_equal_def sample_filters_def

lemma sample_column: "evaluateExpression h sample_batch row context sample_flag =
    Inr (readCanonicalValue [VBool True, VBool False, VNull] row)"
  by (simp add: sample_defs resolveColumn_def getChildAt_def upt_rec)

lemma de_morgan_filters_witness:
  "evaluateExpression plain_host sample_batch 2 sample_context (ENot (EAnd [sample_flag, sample_flag])) =
   evaluateExpression plain_host sample_batch 2 sample_context (EOr [ENot sample_flag, ENot sample_flag])"
  using de_morgan_filters [of "[sample_flag, sample_flag]" plain_host sample_batch 2 sample_context]
  by (simp add: sample_column readCanonicalValue_def)

text \<open>
  The boolean-column projection is exact.  Where an expression is a bare BOOLEAN column or the
  negation of one, it evaluates on every row to what the comparison of the column with \<open>true\<close> or
  with \<open>false\<close> does, NULL included.
\<close>

theorem boolean_projection_exact:
  assumes "booleanColumnLeaf e = Some (n, b)" "typed_expr (cell_at batch row) e"
  shows "evaluateExpression h batch row context e =
    evaluateExpression h batch row context (ECompare EQ (EColumn i n t) (ELiteral r f (VBool b)))"
proof -
  have c: "(case cell_at batch row n of Inr v \<Rightarrow> bool_cell v | Inl _ \<Rightarrow> True)"
    using assms(1)
  proof (cases rule: booleanColumnLeaf_cases)
    case col
    with assms(2) show ?thesis by (simp add: bool_columns_ok_def bool_column_def)
  next
    case neg
    with assms(2) show ?thesis by (simp add: bool_columns_ok_def bool_column_def)
  qed
  from assms(1) have e: "evaluateExpression h batch row context e = (if b then cell_at batch row n
      else rbind (cell_at batch row n) (\<lambda>v. Inr (if v = VNull then VNull else VBool (\<not> truthy v))))"
    by (cases rule: booleanColumnLeaf_cases) (simp_all add: evaluate_column del: evaluateExpression.simps(1))
  show ?thesis
  proof (cases "cell_at batch row n")
    case (Inl x)
    then show ?thesis by (simp add: e evaluate_column del: evaluateExpression.simps(1))
  next
    case (Inr v)
    with c have "v = VNull \<or> (\<exists>x. v = VBool x)" by (simp add: bool_cell_def)
    then show ?thesis
      by (auto simp: e Inr evaluate_column compare_def orderedCompare_bool truthy_def
          simp del: evaluateExpression.simps(1) split: if_splits)
  qed
qed

lemma boolean_projection_exact_witness:
  "evaluateExpression plain_host sample_batch 1 sample_context (ENot sample_flag) =
   evaluateExpression plain_host sample_batch 1 sample_context
     (ECompare EQ sample_flag (ELiteral 0 (sample_field ''value_0'' TBool) (VBool False)))"
proof -
  have "booleanColumnLeaf (ENot sample_flag) = Some (''flag'', False)" by code_simp
  moreover have "cell_at sample_batch 1 ''flag'' = Inr (VBool False)" by code_simp
  then have "typed_expr (cell_at sample_batch 1) (ENot sample_flag)"
    by (simp add: bool_columns_ok_def bool_column_def sample_flag_def type_predicates)
  ultimately show ?thesis
    using boolean_projection_exact [where e = "ENot sample_flag" and n = "''flag''" and b = False and t = "Some TBool" and i = 1]
    unfolding sample_flag_def by blast
qed

section \<open>Filters of a scan\<close>

text \<open>
  C32: which rows pass.  If \<open>evaluate\<close> returns a mask it has an entry per row, and a row is kept
  exactly when every predicate that takes part is TRUE on it, where a predicate is left out only
  if it is an unsupported runtime filter or an advisory predicate that fails to evaluate.  If
  it throws, a required predicate that takes part fails.
\<close>

theorem evaluate_keeps_exactly:
  "case evaluate h f batch of
     Inr m \<Rightarrow> length m = b_rows batch \<and> (\<forall>row < b_rows batch. m ! row = (\<forall>p\<in>set (predicates f).
        skipped h batch (evaluationContext f) p \<or>
        evaluateExpression h batch row (evaluationContext f) (fp_expression p) = Inr (VBool True)))
   | Inl _ \<Rightarrow> (\<exists>p\<in>set (predicates f). fp_mode p = Required \<and> \<not> unsupported_runtime (fp_expression p) \<and>
        (\<exists>e. row_values h batch (evaluationContext f) (fp_expression p) = Inl e))"
proof (cases "evaluate h f batch")
  case (Inl e)
  then have "\<exists>e. evaluate_predicates h batch (evaluationContext f) (predicates f) (replicate (b_rows batch) True) = Inl e"
    by (simp add: evaluate_def)
  then show ?thesis unfolding evaluate_predicates_fails using Inl by auto
next
  case (Inr m)
  then show ?thesis using evaluate_nth [OF Inr] evaluate_length [OF Inr] by simp
qed

lemma sample_cells:
  "cell_at sample_batch row ''n'' = Inr (readCanonicalValue [VBig 5, VBig 7, VNull] row)"
  "cell_at sample_batch row ''flag'' = Inr (readCanonicalValue [VBool True, VBool False, VNull] row)"
  by (simp_all add: sample_defs cell_at_def resolveColumn_def getChildAt_def upt_rec)

lemma sample_evaluate: "evaluate plain_host sample_filters sample_batch = Inr [True, False, False]"
  by code_simp

lemma evaluate_keeps_exactly_witness:
  "length [True, False, False] = b_rows sample_batch \<and>
   [True, False, False] ! 0 = (\<forall>p\<in>set (predicates sample_filters). skipped plain_host sample_batch sample_context p \<or>
        evaluateExpression plain_host sample_batch 0 sample_context (fp_expression p) = Inr (VBool True))"
proof -
  have c: "evaluationContext sample_filters = sample_context" and r: "b_rows sample_batch = 3"
    by (simp_all add: sample_filters_def sample_batch_def)
  from evaluate_keeps_exactly [where h = plain_host and f = sample_filters and batch = sample_batch]
  show ?thesis unfolding sample_evaluate sum.case c r by (metis zero_less_numeral)
qed


lemma getColumnValues_first:
  "getColumnValues f n = Some vs \<Longrightarrow> \<exists>p\<in>set (predicates f). discreteValues n (fp_expression p) = Some vs"
  unfolding getColumnValues_def by (rule first_some_Some)



lemma withPredicateOrder_set:
  assumes "withPredicateOrder f order = Inr g" "distinct (map fp_id (predicates f))"
  shows "map fp_id (predicates g) = order" "set (predicates g) = set (predicates f)"
    "evaluationContext g = evaluationContext f"
proof -
  let ?es = "map (\<lambda>p. (fp_id p, p)) (predicates f)"
  have keys: "map fst ?es = map fp_id (predicates f)" by simp
  have of: "jm_of ?es = ?es" using assms(2) by (intro jm_of_distinct) (simp add: o_def)
  have "map fp_id (predicates g) = order \<and> set (predicates g) = set (predicates f) \<and> evaluationContext g = evaluationContext f"
  proof (cases "map fp_id (predicates f) = order")
    case True
    with assms(1) show ?thesis by (simp add: withPredicateOrder_def)
  next
    case False
    with assms(1) have g: "g = f\<lparr>predicates := map (\<lambda>k. the (jm_get ?es k)) order\<rparr>"
      and o: "length order = length (predicates f)" "distinct order" "list_all (jm_has ?es) order"
      by (auto simp: withPredicateOrder_def of Let_def split: if_splits)
    have sub: "set order \<subseteq> set (map fp_id (predicates f))"
      using o(3) by (auto simp: list_all_iff jm_has_def)
    have "card (set order) = card (set (map fp_id (predicates f)))"
      using o(1,2) assms(2) by (metis distinct_card length_map)
    with sub have ids: "set order = set (map fp_id (predicates f))"
      by (intro card_subset_eq) auto
    have get: "the (jm_get ?es (fp_id p)) = p" if "p \<in> set (predicates f)" for p
      using that assms(2) by (subst jm_get_mem [THEN iffD2]) (auto simp: jm_ok_def o_def)
    have "map (\<lambda>k. fp_id (the (jm_get ?es k))) order = order"
      using ids get by (intro map_idI) auto
    moreover have "(\<lambda>k. the (jm_get ?es k)) ` set order = set (predicates f)"
      unfolding ids using get by (auto simp: image_iff)
    ultimately show ?thesis by (simp add: g o_def)
  qed
  then show "map fp_id (predicates g) = order" "set (predicates g) = set (predicates f)"
    "evaluationContext g = evaluationContext f" by auto
qed

text \<open>
  restoring an order only reorders.  When \<open>withPredicateOrder\<close> accepts an order, the predicates
  of the result have exactly those ids in that order, they are the same predicates, and every
  batch gets the same mask.
\<close>

theorem withPredicateOrder_same_rows:
  assumes "withPredicateOrder f order = Inr g" "distinct (map fp_id (predicates f))"
  shows "map fp_id (predicates g) = order \<and> set (predicates g) = set (predicates f) \<and>
    (evaluate h g batch = Inr m \<longleftrightarrow> evaluate h f batch = Inr m)"
  using withPredicateOrder_set [OF assms] evaluate_same_set [of g f] by blast

lemma withPredicateOrder_same_rows_witness:
  "evaluate plain_host (sample_filters\<lparr>predicates := rev (predicates sample_filters)\<rparr>) sample_batch = Inr [True, False, False]"
proof -
  have o: "withPredicateOrder sample_filters [''b'', ''a''] = Inr (sample_filters\<lparr>predicates := rev (predicates sample_filters)\<rparr>)"
    by (simp add: withPredicateOrder_def sample_filters_def sample_predicate_def jm_of_def jm_get_def jm_has_def)
  have d: "distinct (map fp_id (predicates sample_filters))" by (simp add: sample_filters_def sample_predicate_def)
  from withPredicateOrder_same_rows [OF o d, of plain_host sample_batch "[True, False, False]"] sample_evaluate
  show ?thesis by blast
qed

section \<open>Spatial extents\<close>

lemma box_disjoint_iff:
  assumes "box_of (Some l) ps" "box_of (Some r) qs"
  shows "boxes_intersect (Some l) (Some r) \<longleftrightarrow>
    Min (fst ` set ps) \<le> Max (fst ` set qs) \<and> Min (fst ` set qs) \<le> Max (fst ` set ps) \<and>
    Min (snd ` set ps) \<le> Max (snd ` set qs) \<and> Min (snd ` set qs) \<le> Max (snd ` set ps)"
proof -
  have fin: "num_finite (minX l)" "num_finite (minY l)" "num_finite (maxX l)" "num_finite (maxY l)"
      "num_finite (minX r)" "num_finite (minY r)" "num_finite (maxX r)" "num_finite (maxY r)"
    using assms by (simp_all add: box_of_def bounds_ok_def)
  have v: "Min (fst ` set ps) = num_value (minX l)" "Max (fst ` set ps) = num_value (maxX l)"
      "Min (snd ` set ps) = num_value (minY l)" "Max (snd ` set ps) = num_value (maxY l)"
      "Min (fst ` set qs) = num_value (minX r)" "Max (fst ` set qs) = num_value (maxX r)"
      "Min (snd ` set qs) = num_value (minY r)" "Max (snd ` set qs) = num_value (maxY r)"
    using assms by (simp_all add: box_of_def)
  show ?thesis unfolding v by (auto simp: boxes_intersect_def num_lt_finite fin)
qed


definition sample_point :: wkb_geom where
  "sample_point = WPoint \<lparr>w_little = True, w_z = False, w_m = False, w_srid = None\<rparr> [0, 0]"


text \<open>
  C37: the WKB reader is safe on any bytes.  It always returns or throws a \<open>FilterV2Error\<close>, never
  running out of the fuel of its recursion, and a box it returns has finite ordinates with the
  minima not above the maxima.
\<close>

theorem wkb_reader_safe:
  "case wkb_read view of
     Inl e \<Rightarrow> e \<noteq> wkb_fuel
   | Inr None \<Rightarrow> True
   | Inr (Some b) \<Rightarrow> num_finite (minX b) \<and> num_finite (minY b) \<and> num_finite (maxX b) \<and> num_finite (maxY b) \<and>
       num_value (minX b) \<le> num_value (maxX b) \<and> num_value (minY b) \<le> num_value (maxY b)"
  using wkb_read_sound [of view] by (auto simp: bounds_ok_def split: sum.splits option.splits)

section \<open>Rendering\<close>

text \<open>Reading a quoted SQL string back: a doubled quote is one, a single one ends the literal.\<close>

fun sql_unquote :: "string \<Rightarrow> (string \<times> string) option" where
  "sql_unquote [] = None"
| "sql_unquote (c # cs) =
     (if c = CHR 0x27 then (case cs of
          d # ds \<Rightarrow> if d = CHR 0x27 then map_option (\<lambda>(s, r). (c # s, r)) (sql_unquote ds) else Some ([], cs)
        | [] \<Rightarrow> Some ([], []))
      else map_option (\<lambda>(s, r). (c # s, r)) (sql_unquote cs))"

lemma sql_unquote_double:
  "(rest = [] \<or> hd rest \<noteq> CHR 0x27) \<Longrightarrow> sql_unquote (double_quotes s @ CHR 0x27 # rest) = Some (s, rest)"
proof (induction s)
  case Nil
  then show ?case by (cases rest) (auto simp: double_quotes_def)
next
  case (Cons c s)
  then show ?case by (simp add: double_quotes_def)
qed

text \<open>
  String literals are rendered without a way out.  In whatever text follows that does not
  itself begin with a quote, a SQL reader that takes a doubled quote for a quote reads back from
  the rendering of a string literal exactly that string, and is left with the text that follows.
\<close>

theorem quote_string_roundtrip:
  assumes "rest = [] \<or> hd rest \<noteq> CHR 0x27"
  shows "\<exists>t. quote h (VStr s) = CHR 0x27 # t \<and> sql_unquote (t @ rest) = Some (s, rest)"
  using sql_unquote_double [OF assms, of s] by simp

lemma quote_string_roundtrip_witness:
  "\<exists>t. quote plain_host (VStr [CHR 0x27, CHR ''a'']) = CHR 0x27 # t \<and> sql_unquote (t @ '' OR 1'') = Some ([CHR 0x27, CHR ''a''], '' OR 1'')"
  by (rule quote_string_roundtrip) simp

end
