(* ===== verification/ParseLaws.thy ===== *)
theory ParseLaws
  imports FilterParse FilterLaws
begin

text \<open>
  What the filter parser of \<open>src/filter-pushdown/deserialize.ts\<close> accepts and how deltas change the
  filters of a scan: accepted expressions are well formed and bounded, the invariant of the
  filter state, and the laws of revisions.
\<close>

section \<open>The grammar of accepted expressions\<close>

fun expr_nodes :: "FilterExpression \<Rightarrow> nat" where
  "expr_nodes (EColumn _ _ _) = 1"
| "expr_nodes (ELiteral _ _ _) = 1"
| "expr_nodes (EField e _ _ _) = Suc (expr_nodes e)"
| "expr_nodes (ECompare _ l r) = Suc (expr_nodes l + expr_nodes r)"
| "expr_nodes (EAnd cs) = Suc (sum_list (map expr_nodes cs))"
| "expr_nodes (EOr cs) = Suc (sum_list (map expr_nodes cs))"
| "expr_nodes (ENot e) = Suc (expr_nodes e)"
| "expr_nodes (EIsNull e _) = Suc (expr_nodes e)"
| "expr_nodes (EIn e _ _) = Suc (expr_nodes e)"
| "expr_nodes (ECast e _ _) = Suc (expr_nodes e)"
| "expr_nodes (EArith _ l r) = Suc (expr_nodes l + expr_nodes r)"
| "expr_nodes (ENegate e) = Suc (expr_nodes e)"
| "expr_nodes (ECall _ args _) = Suc (sum_list (map expr_nodes args))"
| "expr_nodes (ERuntime _ e _ _ _ _ _) = Suc (expr_nodes e)"

text \<open>A bound on the nesting depth: every expression sits within \<open>k\<close> levels.\<close>

fun depth_le :: "nat \<Rightarrow> FilterExpression \<Rightarrow> bool" where
  "depth_le 0 e = False"
| "depth_le (Suc k) e = (case e of
     EColumn _ _ _ \<Rightarrow> True | ELiteral _ _ _ \<Rightarrow> True
   | EField x _ _ _ \<Rightarrow> depth_le k x | ENot x \<Rightarrow> depth_le k x | EIsNull x _ \<Rightarrow> depth_le k x
   | EIn x _ _ \<Rightarrow> depth_le k x | ECast x _ _ \<Rightarrow> depth_le k x | ENegate x \<Rightarrow> depth_le k x
   | ERuntime _ x _ _ _ _ _ \<Rightarrow> depth_le k x
   | ECompare _ l r \<Rightarrow> depth_le k l \<and> depth_le k r
   | EArith _ l r \<Rightarrow> depth_le k l \<and> depth_le k r
   | EAnd cs \<Rightarrow> list_all (depth_le k) cs | EOr cs \<Rightarrow> list_all (depth_le k) cs
   | ECall _ cs _ \<Rightarrow> list_all (depth_le k) cs)"

text \<open>
  The typing rules: columns and fields are those of the schema, junctions and negation apply
  to Booleans, standard calls bind, extension functions are supported and advertised, and a
  runtime filter is a known one that no evaluator claims, at a root.
\<close>

fun well_formed :: "DeserializeFilterOptions \<Rightarrow> bool \<Rightarrow> FilterExpression \<Rightarrow> bool" where
  "well_formed opts r (EColumn i n t) = (\<exists>f. field_at (outputSchema opts) (nat i) = Some f \<and> f_name f = n \<and> t = Some (f_type f))"
| "well_formed opts r (ELiteral _ _ _) = True"
| "well_formed opts r (EField e i n t) = (well_formed opts False e \<and>
     (\<exists>pt fs. expressionType e = Some pt \<and> isStruct pt \<and> type_children pt = Some fs \<and> nat i < length fs \<and>
        f_name (fs ! nat i) = n \<and> f_type (fs ! nat i) = t))"
| "well_formed opts r (ECompare _ a b) = (well_formed opts False a \<and> well_formed opts False b)"
| "well_formed opts r (EAnd cs) = (2 \<le> length cs \<and> list_all isBooleanExpression cs \<and> list_all (well_formed opts False) cs)"
| "well_formed opts r (EOr cs) = (2 \<le> length cs \<and> list_all isBooleanExpression cs \<and> list_all (well_formed opts False) cs)"
| "well_formed opts r (ENot e) = (isBooleanExpression e \<and> well_formed opts False e)"
| "well_formed opts r (EIsNull e _) = well_formed opts False e"
| "well_formed opts r (EIn e s _) = (well_formed opts False e \<and>
     (case s of SetLiteral _ f _ \<Rightarrow> isList (f_type f) | SetExternal bi _ _ _ b \<Rightarrow>
        nat bi < length (joinKeyBatches opts) \<and> b = joinKeyBatches opts ! nat bi))"
| "well_formed opts r (ECast e _ _) = well_formed opts False e"
| "well_formed opts r (EArith _ a b) = (well_formed opts False a \<and> well_formed opts False b)"
| "well_formed opts r (ENegate e) = well_formed opts False e"
| "well_formed opts r (ECall fn args _) = (length args = 2 \<and> list_all (well_formed opts False) args \<and>
     (case fn of StandardFn f \<Rightarrow> standard_call_binds f args
      | ExtensionFn i \<Rightarrow> supportsExtensionFilterFunction i \<and>
          list_ex (\<lambda>v. filterFunctionIdentityKey v = filterFunctionIdentityKey i) (extensionFunctions opts)))"
| "well_formed opts r (ERuntime a e _ _ _ _ supported) = (r \<and> \<not> supported \<and> well_formed opts False e \<and>
     filterFunctionIdentityKey a \<in> set KNOWN_RUNTIME_ALGORITHMS \<and>
     \<not> list_ex (\<lambda>v. filterFunctionIdentityKey v = filterFunctionIdentityKey a) (runtimeAlgorithms opts))"

definition parsed_ok :: "DeserializeFilterOptions \<Rightarrow> bool \<Rightarrow> nat \<Rightarrow> nat \<Rightarrow> FilterExpression \<Rightarrow> nat \<Rightarrow> bool" where
  "parsed_ok opts r k n e m \<longleftrightarrow> well_formed opts r e \<and> depth_le k e \<and> m = n + expr_nodes e \<and> (n \<le> MAX_NODES \<longrightarrow> m \<le> MAX_NODES)"

definition child_ok :: "DeserializeFilterOptions \<Rightarrow> nat \<Rightarrow> child_parser \<Rightarrow> bool" where
  "child_ok opts k child \<longleftrightarrow> (\<forall>v n e m. child v n = Inr (e, m) \<longrightarrow> parsed_ok opts False k n e m)"

lemma child_okD: "child_ok opts k child \<Longrightarrow> child v n = Inr (e, m) \<Longrightarrow> parsed_ok opts False k n e m"
  by (simp add: child_ok_def)

lemma fail_filter_Inr [simp, result_simps]: "fail_filter msg \<noteq> Inr x" "Inr x \<noteq> fail_filter msg"
  by (simp_all add: fail_filter_def)

lemma mapS_ok:
  assumes "child_ok opts k child" "mapS (\<lambda>v. child (Some v)) vs n = Inr (es, m)"
  shows "length es = length vs \<and> list_all (well_formed opts False) es \<and> list_all (depth_le k) es \<and>
    m = n + sum_list (map expr_nodes es) \<and> (n \<le> MAX_NODES \<longrightarrow> m \<le> MAX_NODES)"
  using assms(2)
proof (induction vs arbitrary: n es)
  case Nil
  then show ?case by auto
next
  case (Cons v vs)
  then obtain e n' es' where e: "child (Some v) n = Inr (e, n')" "mapS (\<lambda>v. child (Some v)) vs n' = Inr (es', m)" "es = e # es'"
    by (auto simp: result_simps)
  from Cons.IH [OF e(2)] child_okD [OF assms(1) e(1)] e(3) show ?case
    by (auto simp: parsed_ok_def)
qed

lemma ensure_fail [result_simps]: "(if b then fail_filter msg else r) = Inr x \<longleftrightarrow> \<not> b \<and> r = Inr x"
  by simp

lemma option_fail [result_simps]:
  "(case x of None \<Rightarrow> fail_filter msg | Some y \<Rightarrow> f y) = Inr r \<longleftrightarrow> (\<exists>y. x = Some y \<and> f y = Inr r)"
  by (cases x) auto

lemma array_fail [result_simps]:
  "(case v of VArr vs \<Rightarrow> f vs | _ \<Rightarrow> fail_filter msg) = Inr r \<longleftrightarrow> (\<exists>vs. v = VArr vs \<and> f vs = Inr r)"
  by (cases v) auto

lemma expr_result_cases:
  assumes "child_ok opts k child" "parse_node P child obj r n = Inr (e, m)" "opts = p_options P" "n \<le> MAX_NODES"
  shows "well_formed opts r e \<and> depth_le (Suc k) e \<and> Suc m = n + expr_nodes e \<and> m \<le> MAX_NODES"
proof -
  note child = child_okD [OF assms(1), unfolded parsed_ok_def]
  note list = mapS_ok [OF assms(1)]
  let ?R = "well_formed opts r e \<and> depth_le (Suc k) e \<and> Suc m = n + expr_nodes e \<and> m \<le> MAX_NODES"
  have column: ?R if "parse_column_ref P obj n = Inr (e, m)"
    using that assms(3,4) by (auto simp: parse_column_ref_def result_simps split: option.splits if_splits)
  have field: ?R if f: "parse_field_ref P child obj n = Inr (e, m)"
  proof -
    from f obtain x n' t fs i where x: "child (jget obj ''expression'') n = Inr (x, n')" "expressionType x = Some t"
        "isStruct t" "type_children t = Some fs" "nat i < length fs" "m = n'"
        "e = EField x i (f_name (fs ! nat i)) (f_type (fs ! nat i))"
      by (auto simp: parse_field_ref_def result_simps split: option.splits if_splits)
    from child [OF x(1)] x assms(4) show ?thesis by auto
  qed
  have literal: ?R if "parse_literal P obj n = Inr (e, m)"
    using that assms(4) by (auto simp: parse_literal_def result_simps)
  have comparison: ?R if "parse_comparison child obj n = Inr (e, m)"
    using that assms(4) by (auto simp: parse_comparison_def result_simps split: option.splits dest!: child)
  have junction: ?R if j: "parse_junction mk nd child obj n = Inr (e, m)" and mk: "mk = EAnd \<or> mk = EOr" for mk nd
  proof -
    from j obtain vs cs where c: "mapS (\<lambda>v. child (Some v)) vs n = Inr (cs, m)" "2 \<le> length cs"
        "list_all isBooleanExpression cs" "e = mk cs"
      by (auto simp: parse_junction_def result_simps)
    from list [OF c(1)] c mk assms(4) show ?thesis by auto
  qed
  have neg: ?R if "parse_not child obj n = Inr (e, m)"
    using that assms(4) by (auto simp: parse_not_def result_simps dest!: child)
  have isnull: ?R if "parse_is_null child obj n = Inr (e, m)"
    using that assms(4) by (auto simp: parse_is_null_def result_simps dest!: child)
  have inn: ?R if i: "parse_in P child obj n = Inr (e, m)"
  proof -
    from i obtain fs x b where x: "parse_set P (jget obj ''set'') = Inr fs" "child (jget obj ''expression'') n = Inr (x, m)"
        "e = EIn x fs b"
      by (auto simp: parse_in_def result_simps)
    have "case fs of SetLiteral _ f _ \<Rightarrow> isList (f_type f) | SetExternal bi _ _ _ b \<Rightarrow>
        nat bi < length (joinKeyBatches opts) \<and> b = joinKeyBatches opts ! nat bi"
      using x(1) assms(3) by (auto simp: parse_set_def result_simps Let_def split: if_splits)
    with child [OF x(2)] x assms(4) show ?thesis by auto
  qed
  have cast: ?R if "parse_cast P child obj n = Inr (e, m)"
    using that assms(4) by (auto simp: parse_cast_def result_simps dest!: child)
  have arith: ?R if "parse_arithmetic child obj n = Inr (e, m)"
    using that assms(4) by (auto simp: parse_arithmetic_def result_simps split: option.splits dest!: child)
  have negate: ?R if "parse_negate child obj n = Inr (e, m)"
    using that assms(4) by (auto simp: parse_negate_def result_simps dest!: child)
  have call: ?R if c: "parse_call P child obj n = Inr (e, m)"
  proof -
    from c obtain fn args es opt where a: "parse_function P (jget obj ''function'') = Inr fn" "length args = 2"
        "mapS (\<lambda>v. child (Some v)) args n = Inr (es, m)"
        "(case fn of StandardFn f \<Rightarrow> validateStandardCall f es | ExtensionFn _ \<Rightarrow> Inr ()) = Inr ()" "e = ECall fn es opt"
      by (auto simp: parse_call_def result_simps split: if_splits option.splits)
    have "case fn of StandardFn f \<Rightarrow> standard_call_binds f es
      | ExtensionFn i \<Rightarrow> supportsExtensionFilterFunction i \<and>
          list_ex (\<lambda>v. filterFunctionIdentityKey v = filterFunctionIdentityKey i) (extensionFunctions opts)"
      using a(1,4) assms(3)
      by (auto simp: parse_function_def validateStandardCall_def result_simps split: call_function.splits jdoc.splits option.splits if_splits)
    with list [OF a(3)] a assms(4) show ?thesis by auto
  qed
  have runtime: ?R if q: "parse_runtime_filter P child obj r n = Inr (e, m)"
  proof -
    from q obtain a x ref f v np where x: "child (jget obj ''input'') n = Inr (x, m)" "r"
        "filterFunctionIdentityKey a \<in> set KNOWN_RUNTIME_ALGORITHMS"
        "\<not> list_ex (\<lambda>v. filterFunctionIdentityKey v = filterFunctionIdentityKey a) (runtimeAlgorithms (p_options P))"
        "e = ERuntime a x ref f v np False"
      by (auto simp: parse_runtime_filter_def result_simps Let_def)
    from child [OF x(1)] x assms(3,4) show ?thesis by auto
  qed
  from assms(2) obtain nd where nd: "jget obj ''node'' = Some (JStr nd)"
    by (auto simp: parse_node_def split: option.splits jdoc.splits)
  from assms(2) consider "parse_column_ref P obj n = Inr (e, m)" | "parse_field_ref P child obj n = Inr (e, m)"
    | "parse_literal P obj n = Inr (e, m)" | "parse_comparison child obj n = Inr (e, m)"
    | "parse_junction EAnd nd child obj n = Inr (e, m)" | "parse_junction EOr nd child obj n = Inr (e, m)"
    | "parse_not child obj n = Inr (e, m)" | "parse_is_null child obj n = Inr (e, m)" | "parse_in P child obj n = Inr (e, m)"
    | "parse_cast P child obj n = Inr (e, m)" | "parse_arithmetic child obj n = Inr (e, m)"
    | "parse_negate child obj n = Inr (e, m)" | "parse_call P child obj n = Inr (e, m)"
    | "parse_runtime_filter P child obj r n = Inr (e, m)"
    unfolding parse_node_def nd option.case jdoc.case by (metis fail_filter_Inr(1))
  then show ?thesis
    by cases (use column field literal comparison junction [of EAnd] junction [of EOr] neg isnull inn cast arith negate call runtime in
      \<open>blast\<close>)+
qed

lemma parse_expression_ok:
  "parse_expression P k obj r n = Inr (e, m) \<Longrightarrow> parsed_ok (p_options P) r k n e m"
proof (induction k arbitrary: obj r n e m)
  case 0
  then show ?case by simp
next
  case (Suc k)
  let ?child = "\<lambda>v n. rbind (expectObject v ''child expression'') (\<lambda>ob. parse_expression P k ob False n)"
  have c: "child_ok (p_options P) k ?child"
    using Suc.IH by (auto simp: child_ok_def result_simps)
  from Suc.prems have n: "n + 1 \<le> MAX_NODES" and p: "parse_node P ?child obj r (n + 1) = Inr (e, m)"
    by (auto split: if_splits)
  from expr_result_cases [OF c p refl n] show ?case by (auto simp: parsed_ok_def)
qed

end
