(* ===== verification/DeltaLaws.thy ===== *)
theory DeltaLaws
  imports ParseLaws "HOL-Library.Code_Target_Nat"
begin

text \<open>
  How deltas change the filters of a scan: the invariant of the filter state, what a snapshot and
  a delta of \<open>src/filter-pushdown/deserialize.ts\<close> establish, and the laws of revisions.
\<close>

section \<open>Context independence\<close>

lemma numericBinary_context:
  "op \<noteq> OpDivide \<Longrightarrow> op \<noteq> OpModulo \<Longrightarrow> numericBinary h op l r c1 = numericBinary h op l r c2"
  by (cases op) (auto simp: numericBinary_def Let_def split: jsval.splits)

lemma evaluate_context_free:
  "\<not> requiresSessionContext e \<Longrightarrow> evaluateExpression h batch row c1 e = evaluateExpression h batch row c2 e"
proof (induction e)
  case (EArith op l r)
  then have "evaluateExpression h batch row c1 l = evaluateExpression h batch row c2 l"
      "evaluateExpression h batch row c1 r = evaluateExpression h batch row c2 r" "op \<noteq> OpDivide" "op \<noteq> OpModulo" by auto
  with numericBinary_context [of op h _ _ c1 c2] show ?case by simp
next
  case (EAnd cs)
  then have "mapR (evaluateExpression h batch row c1) cs = mapR (evaluateExpression h batch row c2) cs"
    by (intro mapR_ext) (auto simp: list_ex_iff)
  then show ?case by simp
next
  case (EOr cs)
  then have "mapR (evaluateExpression h batch row c1) cs = mapR (evaluateExpression h batch row c2) cs"
    by (intro mapR_ext) (auto simp: list_ex_iff)
  then show ?case by simp
next
  case (ECall fn cs opt)
  then have "mapR (evaluateExpression h batch row c1) cs = mapR (evaluateExpression h batch row c2) cs"
    by (intro mapR_ext) (auto simp: list_ex_iff)
  then show ?case by simp
qed simp_all

section \<open>Predicates and the state of a scan\<close>

lemma parse_predicate_facts:
  assumes "parse_predicate P obj where upd n = Inr (p, m)"
  shows "well_formed (p_options P) True (fp_expression p)" "depth_le MAX_DEPTH (fp_expression p)"
    "m = n + expr_nodes (fp_expression p)" "n \<le> MAX_NODES \<longrightarrow> m \<le> MAX_NODES"
    "profile (p_context P) = NO_EVALUATION_CONTEXT \<longrightarrow> \<not> requiresSessionContext (fp_expression p)"
    "is_runtime (fp_expression p) \<longrightarrow> fp_mode p = Advisory"
    "is_runtime (fp_expression p) \<or> isBooleanExpression (fp_expression p)"
    "predicateId (jget obj ''id'') where = Inr (fp_id p)"
    "expectUint (jget obj ''revision'') (where @ ''.revision'') False = Inr (fp_revision p)"
    "\<exists>s. parse_mode_source obj where = Inr (fp_mode p, s)"
  using assms by (auto simp: parse_predicate_def result_simps dest!: parse_expression_ok [unfolded parsed_ok_def])

text \<open>What a predicate satisfies once a parser has accepted it.\<close>

definition accepted :: "DeserializeFilterOptions \<Rightarrow> EvaluationContext \<Rightarrow> FilterPredicate \<Rightarrow> bool" where
  "accepted opts ctx p \<longleftrightarrow> (let e = fp_expression p in
     well_formed opts True e \<and> depth_le MAX_DEPTH e \<and> expr_nodes e \<le> MAX_NODES \<and>
     (is_runtime e \<or> isBooleanExpression e) \<and> (is_runtime e \<longrightarrow> fp_mode p = Advisory) \<and>
     (profile ctx = NO_EVALUATION_CONTEXT \<longrightarrow> \<not> requiresSessionContext e))"

lemma parse_predicate_accepted:
  assumes "parse_predicate P obj where upd n = Inr (p, m)" "n \<le> MAX_NODES"
  shows "accepted (p_options P) (p_context P) p"
  using parse_predicate_facts [OF assms(1)] assms(2) by (simp add: accepted_def Let_def)

lemma expectUint_nonneg: "expectUint v w b = Inr r \<Longrightarrow> 0 \<le> r"
  by (auto simp: expectUint_def split: option.splits jdoc.splits if_splits)

text \<open>
  The invariant of a scan's filters: ids are unique, every predicate's revision is the one on
  record, revisions are not negative, and the required ids are those of the required predicates.
\<close>

definition filters_ok :: "PushdownFilters \<Rightarrow> bool" where
  "filters_ok f \<longleftrightarrow> distinct (map fp_id (predicates f)) \<and> jm_ok (revisions f) \<and>
     (\<forall>p\<in>set (predicates f). jm_get (revisions f) (fp_id p) = Some (fp_revision p)) \<and>
     (\<forall>i r. jm_get (revisions f) i = Some r \<longrightarrow> 0 \<le> r) \<and>
     (\<forall>i\<in>set (requiredIds f). \<exists>p\<in>set (predicates f). fp_id p = i \<and> fp_mode p = Required) \<and>
     (\<forall>p\<in>set (predicates f). fp_mode p = Required \<longrightarrow> fp_id p \<in> set (requiredIds f))"

lemma check_snapshot_ok:
  "check_snapshot ps ids = Inr () \<Longrightarrow>
   (\<forall>p\<in>set ps. fp_revision p = 0) \<and> distinct (map fp_id ps) \<and> set (map fp_id ps) \<inter> set ids = {}"
  by (induction ps ids rule: check_snapshot.induct) (auto simp: fail_filter_def split: if_splits)

lemma snapshot_filters_ok:
  assumes "parse_snapshot P = Inr f"
  shows "filters_ok f"
proof -
  from assms obtain preds where f: "f = \<lparr>predicates = preds, evaluationContext = p_context P, options = p_options P,
      revisions = jm_of (map (\<lambda>p. (fp_id p, 0)) preds), requiredIds = map fp_id (filter (\<lambda>p. fp_mode p = Required) preds)\<rparr>"
    and c: "check_snapshot preds [] = Inr ()"
    by (auto simp: parse_snapshot_def result_simps)
  from check_snapshot_ok [OF c] have d: "distinct (map fp_id preds)" and z: "\<forall>p\<in>set preds. fp_revision p = 0" by auto
  have of: "jm_of (map (\<lambda>p. (fp_id p, 0)) preds) = map (\<lambda>p. (fp_id p, 0 :: int)) preds"
    using d by (intro jm_of_distinct) (simp add: o_def)
  have get: "jm_get (map (\<lambda>p. (fp_id p, 0 :: int)) preds) i = Some r \<longleftrightarrow> r = 0 \<and> i \<in> fp_id ` set preds" for i r
    using d by (subst jm_get_mem) (auto simp: jm_ok_def o_def)
  show ?thesis unfolding filters_ok_def f using d z by (auto simp: of get jm_ok_def o_def)
qed

text \<open>What the updates of a delta satisfy.\<close>

definition update_ok :: "FilterParser \<Rightarrow> PushdownFilters \<Rightarrow> filter_update \<Rightarrow> bool" where
  "update_ok P prior u \<longleftrightarrow> (case u of (uid, r, p) \<Rightarrow> \<not> is_stale prior uid r \<and> uid \<notin> set (requiredIds prior) \<and> 0 \<le> r \<and>
     (case p of None \<Rightarrow> True | Some q \<Rightarrow> fp_id q = uid \<and> fp_revision q = r \<and> fp_mode q = Advisory \<and>
        accepted (p_options P) (p_context P) q))"

lemma update_header_facts:
  assumes "update_header prior seen entry = Inr (ups, obj, uid, r)"
  shows "uid \<notin> set seen" "uid \<notin> set (requiredIds prior)" "predicateId (jget obj ''id'') ''updates'' = Inr uid"
    "expectUint (jget obj ''revision'') ''updates.revision'' False = Inr r"
    "ups \<Longrightarrow> \<exists>s. parse_mode_source obj ''updates'' = Inr (Advisory, s)"
  using assms by (auto simp: update_header_def check_upsert_def result_simps split: if_splits)

lemma parse_updates_ok:
  assumes "parse_updates P prior entries seen n = Inr us" "n \<le> MAX_NODES"
  shows "list_all (update_ok P prior) us \<and> distinct (map fst us) \<and> set (map fst us) \<inter> set seen = {}"
  using assms
proof (induction entries arbitrary: seen n us)
  case Nil
  then show ?case by simp
next
  case (Cons entry entries)
  then obtain ups obj uid r where h: "update_header prior seen entry = Inr (ups, obj, uid, r)"
    by (auto simp: result_simps)
  note hf = update_header_facts [OF h]
  have r: "0 \<le> r" using hf(4) by (rule expectUint_nonneg)
  show ?case
  proof (cases "is_stale prior uid r")
    case True
    with Cons.prems h have "parse_updates P prior entries (uid # seen) n = Inr us" by simp
    from Cons.IH [OF this Cons.prems(2)] show ?thesis by auto
  next
    case fresh: False
    show ?thesis
    proof (cases ups)
      case True
      with Cons.prems(1) h fresh obtain p n' us' where p: "parse_predicate P obj ''updates'' True n = Inr (p, n')"
          "parse_updates P prior entries (uid # seen) n' = Inr us'" "us = (uid, r, Some p) # us'"
        by (auto simp: result_simps)
      note pf = parse_predicate_facts [OF p(1)]
      have "fp_id p = uid" "fp_revision p = r" using pf(8,9) hf(3,4) by (auto simp: append_def)
      moreover have "fp_mode p = Advisory" using pf(10) hf(5) True by auto
      ultimately have "update_ok P prior (uid, r, Some p)"
        using fresh hf(2) r parse_predicate_accepted [OF p(1) Cons.prems(2)] by (simp add: update_ok_def)
      moreover have "n' \<le> MAX_NODES" using pf(4) Cons.prems(2) by simp
      ultimately show ?thesis using Cons.IH [OF p(2)] p(3) hf(1) by auto
    next
      case False
      with Cons.prems(1) h fresh obtain us' where p: "parse_updates P prior entries (uid # seen) n = Inr us'" "us = (uid, r, None) # us'"
        by (auto simp: result_simps)
      with Cons.IH [OF p(1) Cons.prems(2)] hf fresh r show ?thesis by (auto simp: update_ok_def)
    qed
  qed
qed

text \<open>The fold of the updates, on each of the two maps.\<close>

lemma foldl_apply_update:
  "foldl apply_update (live, revs) us =
     (fold (\<lambda>(k, w). case w of None \<Rightarrow> jm_del k | Some v \<Rightarrow> jm_set k v) (map (\<lambda>(i, r, p). (i, p)) us) live,
      fold (\<lambda>(k, v). jm_set k v) (map (\<lambda>(i, r, p). (i, r)) us) revs)"
  by (induction us arbitrary: live revs) (auto simp: apply_update_def split: option.splits)

lemma live_keys:
  assumes "\<forall>(k, p)\<in>set m. f p = k" "\<And>k v. (k, Some v) \<in> set us \<Longrightarrow> f v = k"
  shows "\<forall>(k, p)\<in>set (fold (\<lambda>(k, w). case w of None \<Rightarrow> jm_del k | Some v \<Rightarrow> jm_set k v) us m). f p = k"
  using assms
proof (induction us arbitrary: m)
  case Nil
  then show ?case by simp
next
  case (Cons u us)
  obtain k w where u: "u = (k, w)" by (cases u)
  let ?m = "case w of None \<Rightarrow> jm_del k m | Some v \<Rightarrow> jm_set k v m"
  have "\<forall>(k, p)\<in>set ?m. f p = k"
    using Cons.prems u by (cases w) (auto simp: jm_del_def dest!: jm_set_mem)
  from Cons.IH [OF this] Cons.prems(2) u show ?case by (cases w) auto
qed

definition live_map :: "PushdownFilters \<Rightarrow> (string, FilterPredicate) jsmap" where
  "live_map f = map (\<lambda>p. (fp_id p, p)) (predicates f)"

lemma live_map_keys: "map fst (live_map f) = map fp_id (predicates f)"
  by (simp add: live_map_def o_def)

lemma live_map_of:
  assumes "\<forall>(k, p)\<in>set m. fp_id p = k" "predicates f = map snd m"
  shows "live_map f = m"
proof -
  have "live_map f = map (\<lambda>kp. (fp_id (snd kp), snd kp)) m" using assms(2) by (simp add: live_map_def o_def)
  also have "\<dots> = map (\<lambda>kp. kp) m" using assms(1) by (intro map_cong) auto
  finally show ?thesis by simp
qed

definition update_live :: "filter_update list \<Rightarrow> string \<Rightarrow> FilterPredicate option option" where
  "update_live us i = map_of (map (\<lambda>(i, r, p). (i, p)) us) i"

definition update_revision :: "filter_update list \<Rightarrow> string \<Rightarrow> int option" where
  "update_revision us i = map_of (map (\<lambda>(i, r, p). (i, r)) us) i"

lemma update_keys [simp]:
  "map fst (map (\<lambda>(i, r, p). (i, p)) us) = map fst us" "map fst (map (\<lambda>(i, r, p). (i, r)) us) = map fst us"
  by (induction us) auto

lemma update_keys_comp [simp]: "fst \<circ> (\<lambda>(i, r, p). (i, p)) = fst" "fst \<circ> (\<lambda>(i, r, p). (i, r)) = fst"
  by (auto simp: fun_eq_iff)

lemma update_None: "update_live us i = None \<longleftrightarrow> i \<notin> fst ` set us" "update_revision us i = None \<longleftrightarrow> i \<notin> fst ` set us"
  by (force simp: update_live_def update_revision_def map_of_eq_None_iff image_iff)+

lemma update_Some:
  assumes "distinct (map fst us)"
  shows "update_live us i = Some p \<longleftrightarrow> (\<exists>r. (i, r, p) \<in> set us)" "update_revision us i = Some r \<longleftrightarrow> (\<exists>p. (i, r, p) \<in> set us)"
proof -
  have d: "distinct (map fst (map (\<lambda>(i, r, p). (i, p)) us))" "distinct (map fst (map (\<lambda>(i, r, p). (i, r)) us))"
    using assms by simp_all
  show "update_live us i = Some p \<longleftrightarrow> (\<exists>r. (i, r, p) \<in> set us)"
    unfolding update_live_def map_of_eq_Some_iff [OF d(1)] by (force simp: image_iff)
  show "update_revision us i = Some r \<longleftrightarrow> (\<exists>p. (i, r, p) \<in> set us)"
    unfolding update_revision_def map_of_eq_Some_iff [OF d(2)] by (force simp: image_iff)
qed

text \<open>The state after a delta, as lookups in the state before it and in the updates.\<close>

definition delta_step :: "FilterParser \<Rightarrow> PushdownFilters \<Rightarrow> filter_update list \<Rightarrow> PushdownFilters \<Rightarrow> bool" where
  "delta_step P prior us g \<longleftrightarrow> list_all (update_ok P prior) us \<and> distinct (map fst us) \<and>
     options g = options prior \<and> requiredIds g = requiredIds prior \<and>
     evaluationContext g = evaluationContext prior \<and>
     distinct (map fp_id (predicates g)) \<and> jm_ok (revisions g) \<and>
     (\<forall>i. jm_get (live_map g) i = (case update_live us i of Some w \<Rightarrow> w | None \<Rightarrow> jm_get (live_map prior) i)) \<and>
     (\<forall>i. jm_get (revisions g) i = (case update_revision us i of Some r \<Rightarrow> Some r | None \<Rightarrow> jm_get (revisions prior) i))"

lemma parse_delta_step:
  assumes "parse_delta P prior = Inr g" "filters_ok prior"
  obtains us entries where "delta_step P prior us g" "p_context P = evaluationContext prior"
    "parser_header P ''delta'' ''updates'' = Inr entries" "parse_updates P prior entries [] 0 = Inr us"
    "card (set (map fst (revisions prior)) \<union> set (map fst us)) \<le> MAX_PREDICATE_IDS"
    "predicates g = map snd (fold (\<lambda>(k, w). case w of None \<Rightarrow> jm_del k | Some v \<Rightarrow> jm_set k v) (map (\<lambda>(i, r, p). (i, p)) us) (live_map prior))"
    "revisions g = fold (\<lambda>(k, v). jm_set k v) (map (\<lambda>(i, r, p). (i, r)) us) (revisions prior)"
proof -
  have of: "jm_of (map (\<lambda>p. (fp_id p, p)) (predicates prior)) = live_map prior"
    using assms(2) unfolding live_map_def by (intro jm_of_distinct) (simp add: filters_ok_def o_def)
  from assms(1) obtain entries us where d: "p_context P = evaluationContext prior"
      "parser_header P ''delta'' ''updates'' = Inr entries" "parse_updates P prior entries [] 0 = Inr us"
      "card (set (map fst (revisions prior)) \<union> set (map fst us)) \<le> MAX_PREDICATE_IDS"
      "g = (case foldl apply_update (live_map prior, revisions prior) us of (live, revs) \<Rightarrow>
         \<lparr>predicates = map snd live, evaluationContext = p_context P, options = options prior,
           revisions = revs, requiredIds = requiredIds prior\<rparr>)"
    by (auto simp: parse_delta_def result_simps of [symmetric] not_less case_prod_beta split: if_splits)
  from parse_updates_ok [OF d(3)] have us: "list_all (update_ok P prior) us" "distinct (map fst us)" by auto
  let ?L = "map (\<lambda>(i, r, p). (i, p)) us" and ?R = "map (\<lambda>(i, r, p). (i, r)) us"
  define live where "live = fold (\<lambda>(k, w). case w of None \<Rightarrow> jm_del k | Some v \<Rightarrow> jm_set k v) ?L (live_map prior)"
  define revs where "revs = fold (\<lambda>(k, v). jm_set k v) ?R (revisions prior)"
  have g: "g = \<lparr>predicates = map snd live, evaluationContext = p_context P, options = options prior,
      revisions = revs, requiredIds = requiredIds prior\<rparr>"
    using d(5) by (simp add: foldl_apply_update live_def revs_def)
  have "jm_ok (live_map prior)" using assms(2) by (simp add: jm_ok_def live_map_keys filters_ok_def)
  then have lok: "jm_ok live" unfolding live_def by (rule jm.ok_updates)
  have rok: "jm_ok revs" unfolding revs_def using assms(2) by (intro jm.ok_fold_put) (simp add: filters_ok_def)
  have "\<forall>(k, p)\<in>set live. fp_id p = k" unfolding live_def
    by (rule live_keys) (use us(1) in \<open>auto simp: live_map_def list_all_iff update_ok_def split: option.splits\<close>)
  then have lm: "live_map g = live" by (intro live_map_of) (simp_all add: g)
  have "distinct (map fst ?L)" "distinct (map fst ?R)" using us(2) by simp_all
  then have rl: "map_of (rev ?L) = map_of ?L" "map_of (rev ?R) = map_of ?R" by (simp_all only: map_of_rev_distinct)
  have "jm_get (live_map g) i = (case update_live us i of Some w \<Rightarrow> w | None \<Rightarrow> jm_get (live_map prior) i)" for i
    unfolding lm live_def jm.get_updates rl update_live_def ..
  moreover have "jm_get (revisions g) i = (case update_revision us i of Some r \<Rightarrow> Some r | None \<Rightarrow> jm_get (revisions prior) i)" for i
    using jm.get_fold_put [of ?R "revisions prior" i] unfolding rl by (simp add: g revs_def update_revision_def)
  moreover have "distinct (map fp_id (predicates g))" using lok by (simp add: jm_ok_def lm [symmetric] live_map_keys)
  ultimately have "delta_step P prior us g"
    using us rok d(1) by (simp add: delta_step_def g)
  from that [OF this d(1-4)] show thesis by (simp add: g live_def revs_def)
qed

lemma live_map_get:
  assumes "distinct (map fp_id (predicates f))"
  shows "jm_get (live_map f) i = Some p \<longleftrightarrow> p \<in> set (predicates f) \<and> fp_id p = i"
  using assms by (subst jm_get_mem) (auto simp: jm_ok_def live_map_keys, auto simp: live_map_def)

lemma filters_ok_get:
  assumes "filters_ok f"
  shows "jm_get (live_map f) i = Some p \<Longrightarrow> fp_id p = i \<and> jm_get (revisions f) i = Some (fp_revision p)"
  using assms live_map_get [of f i p] by (auto simp: filters_ok_def)

lemma delta_filters_ok:
  assumes "delta_step P prior us g" "filters_ok prior"
  shows "filters_ok g"
proof -
  note d = assms(1) [unfolded delta_step_def]
  have us: "list_all (update_ok P prior) us" and dist: "distinct (map fst us)"
    and live: "\<And>i. jm_get (live_map g) i = (case update_live us i of Some w \<Rightarrow> w | None \<Rightarrow> jm_get (live_map prior) i)"
    and rv: "\<And>i. jm_get (revisions g) i = (case update_revision us i of Some r \<Rightarrow> Some r | None \<Rightarrow> jm_get (revisions prior) i)"
    and dg: "distinct (map fp_id (predicates g))" using d by auto
  have dp: "distinct (map fp_id (predicates prior))" using assms(2) by (simp add: filters_ok_def)
  have same: "update_live us i = None \<longleftrightarrow> update_revision us i = None" for i by (simp add: update_None)
  have uok: "update_ok P prior (i, r, p)" if "(i, r, p) \<in> set us" for i r p using us that by (auto simp: list_all_iff)
  have mem: "p \<in> set (predicates g) \<longleftrightarrow> (case update_live us (fp_id p) of Some w \<Rightarrow> w = Some p | None \<Rightarrow> p \<in> set (predicates prior))" for p
    using live_map_get [OF dg, of "fp_id p" p] live_map_get [OF dp, of "fp_id p" p] live [of "fp_id p"]
    by (auto split: option.splits)
  have "jm_get (revisions g) (fp_id p) = Some (fp_revision p)" if "p \<in> set (predicates g)" for p
  proof (cases "update_live us (fp_id p)")
    case None
    with that mem [of p] same [of "fp_id p"] rv [of "fp_id p"] assms(2) show ?thesis by (auto simp: filters_ok_def)
  next
    case (Some w)
    with that mem [of p] have "update_live us (fp_id p) = Some (Some p)" by simp
    then obtain r where m: "(fp_id p, r, Some p) \<in> set us" using update_Some(1) [OF dist] by blast
    with uok [OF m] have "fp_revision p = r" by (simp add: update_ok_def)
    with m update_Some(2) [OF dist, of "fp_id p" r] rv [of "fp_id p"] show ?thesis by auto
  qed
  moreover have "0 \<le> r" if "jm_get (revisions g) i = Some r" for i r
  proof (cases "update_revision us i")
    case None
    with that rv [of i] assms(2) show ?thesis by (auto simp: filters_ok_def)
  next
    case (Some r')
    with that rv [of i] have "update_revision us i = Some r" by simp
    then obtain p where "(i, r, p) \<in> set us" using update_Some(2) [OF dist] by blast
    from uok [OF this] show ?thesis by (simp add: update_ok_def)
  qed
  moreover have "\<exists>p\<in>set (predicates g). fp_id p = i \<and> fp_mode p = Required" if "i \<in> set (requiredIds g)" for i
  proof -
    have i: "i \<in> set (requiredIds prior)" using that d by simp
    then obtain p where p: "p \<in> set (predicates prior)" "fp_id p = i" "fp_mode p = Required"
      using assms(2) by (auto simp: filters_ok_def)
    have "i \<notin> fst ` set us" using uok i by (force simp: update_ok_def)
    then have "update_live us (fp_id p) = None" using p by (simp add: update_None)
    with mem [of p] p show ?thesis by auto
  qed
  moreover have "fp_id p \<in> set (requiredIds g)" if "p \<in> set (predicates g)" "fp_mode p = Required" for p
  proof (cases "update_live us (fp_id p)")
    case None
    with that mem [of p] assms(2) d show ?thesis by (auto simp: filters_ok_def)
  next
    case (Some w)
    with that mem [of p] obtain r where m: "(fp_id p, r, Some p) \<in> set us" using update_Some(1) [OF dist] by auto
    from uok [OF m] that(2) show ?thesis by (simp add: update_ok_def)
  qed
  ultimately show ?thesis using d unfolding filters_ok_def by blast
qed

section \<open>Reachable filter states\<close>

inductive reachable_filters :: "host \<Rightarrow> DeserializeFilterOptions \<Rightarrow> PushdownFilters \<Rightarrow> bool" for h opts where
  snapshot: "deserializeFilters h batch opts = Inr f \<Longrightarrow> reachable_filters h opts f"
| delta: "reachable_filters h opts f \<Longrightarrow> applyFilterDelta h f batch = Inr g \<Longrightarrow> reachable_filters h opts g"

definition expressions_ok :: "PushdownFilters \<Rightarrow> bool" where
  "expressions_ok f \<longleftrightarrow> list_all (accepted (options f) (evaluationContext f)) (predicates f)"

lemma string_fail [result_simps]:
  "(case v of VStr t \<Rightarrow> f t | _ \<Rightarrow> fail_filter msg) = Inr r \<longleftrightarrow> (\<exists>t. v = VStr t \<and> f t = Inr r)"
  by (cases v) auto

lemma new_FilterParser_facts:
  assumes "new_FilterParser h batch opts = Inr P"
  shows "p_options P = opts" "p_batch P = batch" "parseContext (b_schema batch) = Inr (p_context P)"
  using assms by (auto simp: new_FilterParser_def result_simps Let_def split: if_splits)

text \<open>The predicates of a snapshot, one by one.\<close>

lemma snapshot_predicates:
  assumes "mapS (\<lambda>v n. rbind (expectObject (Some v) w) (\<lambda>ob. parse_predicate P ob w False n)) vs n = Inr (ps, m)"
    "n \<le> MAX_NODES"
  shows "length ps = length vs \<and> list_all (accepted (p_options P) (p_context P)) ps \<and>
    m = n + sum_list (map (\<lambda>p. expr_nodes (fp_expression p)) ps) \<and> m \<le> MAX_NODES"
  using assms
proof (induction vs arbitrary: n ps)
  case Nil
  then show ?case by auto
next
  case (Cons v vs)
  then obtain ob p n' ps' where p: "parse_predicate P ob w False n = Inr (p, n')" "ps = p # ps'"
      "mapS (\<lambda>v n. rbind (expectObject (Some v) w) (\<lambda>ob. parse_predicate P ob w False n)) vs n' = Inr (ps', m)"
    by (auto simp: result_simps)
  have "n' \<le> MAX_NODES" using parse_predicate_facts [OF p(1)] Cons.prems(2) by simp
  from Cons.IH [OF p(3) this] parse_predicate_facts [OF p(1)] parse_predicate_accepted [OF p(1) Cons.prems(2)] p(2)
  show ?case by auto
qed

lemma snapshot_facts:
  assumes "deserializeFilters h batch opts = Inr f"
  shows "filters_ok f" "expressions_ok f" "options f = opts" "length (predicates f) \<le> MAX_PREDICATES"
    "sum_list (map (\<lambda>p. expr_nodes (fp_expression p)) (predicates f)) \<le> MAX_NODES"
proof -
  from assms obtain P where P: "new_FilterParser h batch opts = Inr P" "parse_snapshot P = Inr f"
    by (auto simp: deserializeFilters_def result_simps)
  show "filters_ok f" by (rule snapshot_filters_ok [OF P(2)])
  from P(2) obtain entries m where e: "length entries \<le> MAX_PREDICATES" "options f = p_options P" "evaluationContext f = p_context P"
      "mapS (\<lambda>v n. rbind (expectObject (Some v) ''predicates'') (\<lambda>ob. parse_predicate P ob ''predicates'' False n)) entries 0 =
       Inr (predicates f, m)"
    by (auto simp: parse_snapshot_def result_simps not_less)
  from snapshot_predicates [OF e(4)] e new_FilterParser_facts [OF P(1)]
  show "expressions_ok f" "options f = opts" "length (predicates f) \<le> MAX_PREDICATES"
    "sum_list (map (\<lambda>p. expr_nodes (fp_expression p)) (predicates f)) \<le> MAX_NODES"
    by (auto simp: expressions_ok_def)
qed

lemma delta_facts:
  assumes "applyFilterDelta h f batch = Inr g" "filters_ok f"
  obtains P us where "new_FilterParser h batch (options f) = Inr P" "parse_delta P f = Inr g" "delta_step P f us g" "p_options P = options f"
proof -
  from assms(1) obtain P where P: "new_FilterParser h batch (options f) = Inr P" "parse_delta P f = Inr g"
    by (auto simp: applyFilterDelta_def result_simps)
  from parse_delta_step [OF P(2) assms(2)] obtain us where "delta_step P f us g" by blast
  with that P new_FilterParser_facts [OF P(1)] show thesis by blast
qed

lemma delta_predicate_origin:
  assumes "delta_step P f us g" "filters_ok f" "p \<in> set (predicates g)"
  shows "p \<in> set (predicates f) \<or> (fp_id p, fp_revision p, Some p) \<in> set us"
proof -
  note d = assms(1) [unfolded delta_step_def]
  have dist: "distinct (map fst us)" using d by simp
  have "jm_get (live_map g) (fp_id p) = Some p" using live_map_get [of g "fp_id p" p] d assms(3) by simp
  then have "(case update_live us (fp_id p) of Some w \<Rightarrow> w | None \<Rightarrow> jm_get (live_map f) (fp_id p)) = Some p"
    using d by metis
  then show ?thesis
  proof (cases "update_live us (fp_id p)")
    case None
    with \<open>(case update_live us (fp_id p) of Some w \<Rightarrow> w | None \<Rightarrow> jm_get (live_map f) (fp_id p)) = Some p\<close>
    show ?thesis using live_map_get [of f "fp_id p" p] assms(2) by (simp add: filters_ok_def)
  next
    case (Some w)
    with \<open>(case update_live us (fp_id p) of Some w \<Rightarrow> w | None \<Rightarrow> jm_get (live_map f) (fp_id p)) = Some p\<close>
    obtain r where m: "(fp_id p, r, Some p) \<in> set us" using update_Some(1) [OF dist] by auto
    moreover have "update_ok P f (fp_id p, r, Some p)" using d m by (auto simp: list_all_iff)
    ultimately show ?thesis by (simp add: update_ok_def)
  qed
qed

section \<open>The laws of revisions\<close>

lemma delta_revision_cases:
  assumes "delta_step P f us g"
  shows "(jm_get (revisions g) i = jm_get (revisions f) i \<and> jm_get (live_map g) i = jm_get (live_map f) i) \<or>
    (i \<notin> set (requiredIds f) \<and> (\<exists>r. jm_get (revisions g) i = Some r \<and> 0 \<le> r \<and>
       (case jm_get (revisions f) i of Some r' \<Rightarrow> r' < r | None \<Rightarrow> True)))"
proof (cases "update_revision us i")
  case None
  then have "update_live us i = None" by (simp add: update_None)
  with None assms show ?thesis by (simp add: delta_step_def)
next
  case (Some r)
  with assms have "jm_get (revisions g) i = Some r" by (simp add: delta_step_def)
  from Some assms obtain p where "(i, r, p) \<in> set us" using update_Some(2) [of us i r] by (auto simp: delta_step_def)
  with assms have "update_ok P f (i, r, p)" by (auto simp: delta_step_def list_all_iff)
  with \<open>jm_get (revisions g) i = Some r\<close> show ?thesis
    by (auto simp: update_ok_def is_stale_def not_le split: option.splits)
qed

text \<open>A delta is stale in every state at least as new as the one it led to.\<close>

lemma update_header_required:
  assumes "requiredIds g = requiredIds f"
  shows "update_header g seen entry = update_header f seen entry"
  unfolding update_header_def assms ..

lemma parse_updates_stale:
  assumes "parse_updates P f entries seen n = Inr us" "requiredIds g = requiredIds f"
    "\<And>i r. is_stale f i r \<Longrightarrow> is_stale g i r" "\<And>i r p. (i, r, p) \<in> set us \<Longrightarrow> is_stale g i r"
  shows "parse_updates P g entries seen m = Inr []"
  using assms(1,4)
proof (induction entries arbitrary: seen n us)
  case Nil
  then show ?case by simp
next
  case (Cons entry entries)
  then obtain ups obj uid r where h: "update_header f seen entry = Inr (ups, obj, uid, r)" by (auto simp: result_simps)
  note hg = h [folded update_header_required [OF assms(2)]]
  show ?case
  proof (cases "is_stale f uid r")
    case True
    with Cons h hg assms(3) show ?thesis by simp
  next
    case False
    with Cons.prems(1) h obtain p n' us' where us: "us = (uid, r, p) # us'" "parse_updates P f entries (uid # seen) n' = Inr us'"
      by (cases ups) (auto simp: result_simps)
    have "parse_updates P g entries (uid # seen) m = Inr []" by (rule Cons.IH [OF us(2)]) (use Cons.prems(2) us in auto)
    moreover have "is_stale g uid r" by (rule Cons.prems(2) [of _ _ p]) (simp add: us(1))
    ultimately show ?thesis using hg by simp
  qed
qed

lemma delta_stale_mono:
  assumes "delta_step P f us g" "is_stale f i r"
  shows "is_stale g i r"
  using delta_revision_cases [OF assms(1), of i] assms(2) by (auto simp: is_stale_def split: option.splits)

lemma delta_update_stale:
  assumes "delta_step P f us g" "(i, r, p) \<in> set us"
  shows "is_stale g i r"
  using assms update_Some(2) [of us i r] by (auto simp: delta_step_def is_stale_def)

lemma jm_get_key: "jm_get m k = Some v \<Longrightarrow> k \<in> fst ` set m"
  by (auto simp: jm_get_def dest: map_of_SomeD intro: rev_image_eqI)

lemma replay_parse_delta:
  assumes "parse_delta P f = Inr g" "filters_ok f"
  shows "parse_delta P g = Inr g"
proof -
  obtain us entries where d: "delta_step P f us g" "p_context P = evaluationContext f"
      "parser_header P ''delta'' ''updates'' = Inr entries" "parse_updates P f entries [] 0 = Inr us"
      "card (set (map fst (revisions f)) \<union> set (map fst us)) \<le> MAX_PREDICATE_IDS"
    by (rule parse_delta_step [OF assms], rule that) assumption+
  note g = delta_filters_ok [OF d(1) assms(2)]
  have u: "parse_updates P g entries [] 0 = Inr []"
    using d(1) delta_stale_mono [OF d(1)] delta_update_stale [OF d(1)]
    by (intro parse_updates_stale [OF d(4)]) (auto simp: delta_step_def)
  have "set (map fst (revisions g)) \<subseteq> set (map fst (revisions f)) \<union> set (map fst us)"
  proof
    fix i assume "i \<in> set (map fst (revisions g))"
    then have "jm_get (revisions g) i \<noteq> None" using jm_get_keys [of "revisions g" i] by blast
    moreover have "jm_get (revisions g) i = (case update_revision us i of Some r \<Rightarrow> Some r | None \<Rightarrow> jm_get (revisions f) i)"
      using d(1) by (simp add: delta_step_def)
    ultimately have "update_revision us i \<noteq> None \<or> jm_get (revisions f) i \<noteq> None" by (auto split: option.splits)
    then show "i \<in> set (map fst (revisions f)) \<union> set (map fst us)" by (auto simp: update_None dest: jm_get_key)
  qed
  then have c: "card (set (map fst (revisions g))) \<le> MAX_PREDICATE_IDS"
    using card_mono [of "set (map fst (revisions f)) \<union> set (map fst us)" "set (map fst (revisions g))"] d(5) by simp
  have l: "jm_of (map (\<lambda>p. (fp_id p, p)) (predicates g)) = map (\<lambda>p. (fp_id p, p)) (predicates g)"
    using g by (intro jm_of_distinct) (simp add: filters_ok_def o_def)
  have ctx: "p_context P = evaluationContext g" using d(1,2) by (simp add: delta_step_def)
  show ?thesis
    using c by (simp add: parse_delta_def ctx d(3) u l o_def)
qed

lemma delta_expressions_ok:
  assumes "delta_step P f us g" "filters_ok f" "expressions_ok f" "p_options P = options f" "p_context P = evaluationContext f"
  shows "expressions_ok g"
proof -
  have "accepted (options f) (evaluationContext f) p" if "p \<in> set (predicates g)" for p
    using delta_predicate_origin [OF assms(1,2) that]
  proof
    assume "p \<in> set (predicates f)"
    then show ?thesis using assms(3) by (simp add: expressions_ok_def list_all_iff)
  next
    assume "(fp_id p, fp_revision p, Some p) \<in> set us"
    then have "update_ok P f (fp_id p, fp_revision p, Some p)" using assms(1) by (auto simp: delta_step_def list_all_iff)
    then show ?thesis using assms(4,5) by (simp add: update_ok_def)
  qed
  then show ?thesis using assms(1) by (simp add: expressions_ok_def list_all_iff delta_step_def)
qed

lemma reachable_ok:
  assumes "reachable_filters h opts f"
  shows "filters_ok f \<and> expressions_ok f \<and> options f = opts"
  using assms
proof induction
  case (snapshot batch f)
  then show ?case using snapshot_facts [of h batch opts f] by simp
next
  case (delta f batch g)
  then have ok: "filters_ok f" by simp
  from delta_facts [OF delta.hyps(2) ok] obtain P us where P: "parse_delta P f = Inr g" "delta_step P f us g" "p_options P = options f"
    by metis
  have "p_context P = evaluationContext f" using P(1) by (auto simp: parse_delta_def result_simps)
  with P delta_filters_ok [OF P(2) ok] delta_expressions_ok [OF P(2) ok] delta.IH show ?case
    by (simp add: delta_step_def)
qed

section \<open>A scan: one snapshot and two deltas\<close>

text \<open>Tildes stand for double quotes in the sample documents.\<close>

definition quoted :: "string \<Rightarrow> string" where
  "quoted s = map (\<lambda>c. if c = CHR ''~'' then CHR 0x22 else c) s"

definition decimal_host :: host where
  "decimal_host = \<lparr>num_to_string = \<lambda>_. ''0'', string_to_num = \<lambda>s. Fin (of_nat (decimal_value s)), string_to_bigint = \<lambda>_. None\<rparr>"

definition filter_batch :: "string \<Rightarrow> vgi_batch" where
  "filter_batch text = \<lparr>b_schema = \<lparr>s_fields = [Field ''filter_spec'' TUtf8 False [] [], sample_field ''value_0'' (TInt 64 True)],
       s_metadata = [(''vgi_filter_encoding'', ''vgi.filters.v2''), (''vgi_filter_version'', ''2''),
         (''vgi_evaluation_context'', ''vgi.none.v1'')]\<rparr>,
     b_rows = 1, b_columns = [[VStr (quoted text)], [VBig 5]]\<rparr>"

definition sample_snapshot :: vgi_batch where
  "sample_snapshot = filter_batch (''{~encoding~:~vgi.filters.v2~,~semantics~:~vgi.duckdb.standard.v1~,~kind~:~snapshot~,~predicates~:['' @
     ''{~id~:~a~,~revision~:0,~mode~:~required~,~source~:~query~,~expression~:{~node~:~comparison~,~op~:~eq~,~left~:'' @
     ''{~node~:~column_ref~,~column_index~:0,~column_name~:~n~},~right~:{~node~:~literal~,~value_ref~:0}}},'' @
     ''{~id~:~b~,~revision~:0,~mode~:~advisory~,~source~:~top_n~,~expression~:'' @
     ''{~node~:~column_ref~,~column_index~:1,~column_name~:~flag~}}]}'')"

definition sample_delta :: vgi_batch where
  "sample_delta = filter_batch (''{~encoding~:~vgi.filters.v2~,~semantics~:~vgi.duckdb.standard.v1~,~kind~:~delta~,~updates~:['' @
     ''{~operation~:~remove~,~id~:~b~,~revision~:2},'' @
     ''{~operation~:~upsert~,~id~:~c~,~revision~:1,~mode~:~advisory~,~source~:~top_n~,~expression~:'' @
     ''{~node~:~column_ref~,~column_index~:1,~column_name~:~flag~}}]}'')"

definition initial_filters :: PushdownFilters where
  "initial_filters = \<lparr>predicates = [\<lparr>fp_id = ''a'', fp_revision = 0, fp_mode = Required, fp_source = SrcQuery, fp_expression = sample_equal 5\<rparr>,
       \<lparr>fp_id = ''b'', fp_revision = 0, fp_mode = Advisory, fp_source = SrcTopN, fp_expression = sample_flag\<rparr>],
     evaluationContext = sample_context, options = sample_options, revisions = [(''a'', 0), (''b'', 0)], requiredIds = [''a'']\<rparr>"

definition updated_filters :: PushdownFilters where
  "updated_filters = \<lparr>predicates = [\<lparr>fp_id = ''a'', fp_revision = 0, fp_mode = Required, fp_source = SrcQuery, fp_expression = sample_equal 5\<rparr>,
       \<lparr>fp_id = ''c'', fp_revision = 1, fp_mode = Advisory, fp_source = SrcTopN, fp_expression = sample_flag\<rparr>],
     evaluationContext = sample_context, options = sample_options, revisions = [(''a'', 0), (''b'', 2), (''c'', 1)], requiredIds = [''a'']\<rparr>"

lemma sample_snapshot_parsed: "deserializeFilters decimal_host sample_snapshot sample_options = Inr initial_filters"
  by code_simp

lemma sample_delta_applied: "applyFilterDelta decimal_host initial_filters sample_delta = Inr updated_filters"
  by code_simp

lemma sample_reachable: "reachable_filters decimal_host sample_options initial_filters"
  by (rule reachable_filters.snapshot [OF sample_snapshot_parsed])

lemma sample_filters_ok: "filters_ok initial_filters"
  using reachable_ok [OF sample_reachable] by simp

section \<open>The laws of a scan\<close>

text \<open>
  C3: every filter state a scan reaches, from a snapshot by any run of accepted deltas, keeps the
  invariant: predicate ids are unique, each predicate carries the revision on record, the required
  ids are those of the required predicates; and each predicate is well typed for the scan's
  options, at most 64 levels deep, of at most 10,000 nodes, with a Boolean or advisory runtime root,
  and free of session-dependent operations under \<open>vgi.none.v1\<close>.
\<close>

theorem reachable_filters_invariant:
  assumes "reachable_filters h opts f"
  shows "filters_ok f \<and> list_all (accepted opts (evaluationContext f)) (predicates f) \<and> options f = opts"
  using reachable_ok [OF assms] by (auto simp: expressions_ok_def)

lemma reachable_filters_invariant_witness: "filters_ok updated_filters"
  using reachable_filters_invariant [OF reachable_filters.delta [OF sample_reachable sample_delta_applied]] by simp

text \<open>
  C35: an accepted snapshot is bounded: at most 1,024 predicates, at most 10,000 expression nodes over
  all of them, none deeper than 64 levels, all at revision zero with distinct ids.
\<close>

theorem snapshot_bounds:
  assumes "deserializeFilters h batch opts = Inr f"
  shows "length (predicates f) \<le> 1024 \<and> sum_list (map (\<lambda>p. expr_nodes (fp_expression p)) (predicates f)) \<le> 10000 \<and>
    list_all (\<lambda>p. depth_le 64 (fp_expression p)) (predicates f) \<and> distinct (map fp_id (predicates f))"
  using snapshot_facts [OF assms]
  by (auto simp: MAX_PREDICATES_def MAX_NODES_def MAX_DEPTH_def expressions_ok_def list_all_iff accepted_def Let_def filters_ok_def)

lemma snapshot_bounds_witness: "length (predicates initial_filters) \<le> 1024"
  using snapshot_bounds [OF sample_snapshot_parsed] by simp

text \<open>
  C5: revisions only move forward and required predicates cannot be touched.  Across an accepted delta
  every id on record, tombstones included, keeps its revision together with its live predicate or
  gets a strictly greater revision, the latter never for a required id, and the required
  predicates stay.
\<close>

theorem delta_monotone:
  assumes "applyFilterDelta h f batch = Inr g" "filters_ok f"
  shows "((jm_get (revisions g) i = jm_get (revisions f) i \<and> jm_get (live_map g) i = jm_get (live_map f) i) \<or>
      (i \<notin> set (requiredIds f) \<and> (case (jm_get (revisions f) i, jm_get (revisions g) i) of
         (Some r, Some r') \<Rightarrow> r < r' | (None, Some r') \<Rightarrow> 0 \<le> r' | _ \<Rightarrow> False))) \<and>
    requiredIds g = requiredIds f \<and>
    {p \<in> set (predicates f). fp_mode p = Required} = {p \<in> set (predicates g). fp_mode p = Required}"
proof -
  from delta_facts [OF assms] obtain P us where d: "delta_step P f us g" by blast
  have g: "filters_ok g" by (rule delta_filters_ok [OF d assms(2)])
  have req: "requiredIds g = requiredIds f" using d by (simp add: delta_step_def)
  have same: "jm_get (live_map g) i = jm_get (live_map f) i" if "i \<in> set (requiredIds f)" for i
    using delta_revision_cases [OF d, of i] that by blast
  have "p \<in> set (predicates f) \<longleftrightarrow> p \<in> set (predicates g)" if "fp_id p \<in> set (requiredIds f)" for p
    using same [OF that] live_map_get [of f "fp_id p" p] live_map_get [of g "fp_id p" p] assms(2) g
    by (auto simp: filters_ok_def)
  then have "{p \<in> set (predicates f). fp_mode p = Required} = {p \<in> set (predicates g). fp_mode p = Required}"
    using assms(2) g req by (auto simp: filters_ok_def)
  with delta_revision_cases [OF d, of i] req show ?thesis by (auto split: option.splits)
qed

lemma delta_monotone_witness:
  "requiredIds updated_filters = requiredIds initial_filters \<and> jm_get (revisions updated_filters) ''b'' = Some 2"
  using delta_monotone [OF sample_delta_applied sample_filters_ok, of "''b''"]
  by (simp add: updated_filters_def jm_get_def)

text \<open>
  C34: a delta is idempotent.  Applying the document again to the state it led to is accepted and
  changes nothing, predicate order included.
\<close>

theorem delta_idempotent:
  assumes "applyFilterDelta h f batch = Inr g" "filters_ok f"
  shows "applyFilterDelta h g batch = Inr g"
proof -
  from delta_facts [OF assms] obtain P us where P: "new_FilterParser h batch (options f) = Inr P" "parse_delta P f = Inr g"
      "delta_step P f us g" by blast
  have "options g = options f" using P(3) by (simp add: delta_step_def)
  with P(1) replay_parse_delta [OF P(2) assms(2)] show ?thesis by (simp add: applyFilterDelta_def)
qed

lemma delta_idempotent_witness: "applyFilterDelta decimal_host updated_filters sample_delta = Inr updated_filters"
  by (rule delta_idempotent [OF sample_delta_applied sample_filters_ok])

text \<open>
  a scan whose filters came without a session context needs none: every predicate it reaches
  evaluates, on every row of every batch, to the same result or error under any two contexts.
\<close>

theorem no_context_needed:
  assumes "reachable_filters h opts f" "profile (evaluationContext f) = NO_EVALUATION_CONTEXT" "p \<in> set (predicates f)"
  shows "evaluateExpression h batch row c1 (fp_expression p) = evaluateExpression h batch row c2 (fp_expression p)"
  using reachable_ok [OF assms(1)] assms(2,3)
  by (intro evaluate_context_free) (auto simp: expressions_ok_def list_all_iff accepted_def Let_def)

definition other_context :: EvaluationContext where
  "other_context = sample_context \<lparr>profile := DUCKDB_SESSION_CONTEXT, integerDivision := Some True\<rparr>"

lemma no_context_needed_witness:
  "evaluateExpression decimal_host sample_batch 1 sample_context sample_flag = evaluateExpression decimal_host sample_batch 1 other_context sample_flag"
  using no_context_needed [OF sample_reachable, of "predicates initial_filters ! 1" sample_batch 1 sample_context other_context]
  by (simp add: initial_filters_def sample_context_def NO_EVALUATION_CONTEXT_def)

end
