(* ===== verification/Base64Codec.thy ===== *)
theory Base64Codec
  imports Prelude
begin

text \<open>
  Base64 as \<open>btoa\<close>, \<open>atob\<close> and \<open>Buffer\<close> implement it, the check of
  \<open>src/filter-pushdown/history.ts\<close> on encoded filters, and the row provenance of
  \<open>src/util/parent-rows.ts\<close>.
\<close>

section \<open>The alphabet\<close>

definition b64_char :: "nat \<Rightarrow> char" where
  "b64_char n = char_of (if n < 26 then 65 + n else if n < 52 then 71 + n else if n < 62 then n - 4
     else if n = 62 then 43 else 47)"

definition b64_value :: "char \<Rightarrow> nat option" where
  "b64_value c = (let n = of_char c :: nat in
     if 65 \<le> n \<and> n \<le> 90 then Some (n - 65)
     else if 97 \<le> n \<and> n \<le> 122 then Some (n - 71)
     else if 48 \<le> n \<and> n \<le> 57 then Some (n + 4)
     else if n = 43 \<or> n = 45 then Some 62
     else if n = 47 \<or> n = 95 then Some 63
     else None)"

lemma b64_value_char [simp]: "n < 64 \<Longrightarrow> b64_value (b64_char n) = Some n"
  by (auto simp: b64_value_def b64_char_def Let_def)

lemma b64_char_not_pad: "n < 64 \<Longrightarrow> b64_char n \<noteq> CHR ''=''"
proof -
  have "b64_value (CHR ''='') = None" by code_simp
  then show "n < 64 \<Longrightarrow> b64_char n \<noteq> CHR ''=''" by (metis b64_value_char option.distinct(1))
qed

section \<open>Encoding\<close>

fun b64_encode :: "bytes \<Rightarrow> string" where
  "b64_encode [] = []"
| "b64_encode [a] = [b64_char (unat a div 4), b64_char (unat a mod 4 * 16), CHR ''='', CHR ''='']"
| "b64_encode [a, b] =
     [b64_char (unat a div 4), b64_char (unat a mod 4 * 16 + unat b div 16), b64_char (unat b mod 16 * 4), CHR ''='']"
| "b64_encode (a # b # c # bs) =
     [b64_char (unat a div 4), b64_char (unat a mod 4 * 16 + unat b div 16), b64_char (unat b mod 16 * 4 + unat c div 64),
      b64_char (unat c mod 64)] @ b64_encode bs"

section \<open>Decoding\<close>

text \<open>
  The lenient reading of \<open>Buffer.from(s, "base64")\<close>: up to the first padding character,
  characters outside both alphabets are skipped, and bits short of a byte are dropped.
\<close>

definition b64_symbols :: "string \<Rightarrow> nat list" where
  "b64_symbols s = List.map_filter b64_value (takeWhile (\<lambda>c. c \<noteq> CHR ''='') s)"

fun b64_groups :: "nat list \<Rightarrow> bytes" where
  "b64_groups (a # b # c # d # ns) =
     [word_of_nat (a * 4 + b div 16), word_of_nat (b mod 16 * 16 + c div 4), word_of_nat (c mod 4 * 64 + d)] @ b64_groups ns"
| "b64_groups [a, b, c] = [word_of_nat (a * 4 + b div 16), word_of_nat (b mod 16 * 16 + c div 4)]"
| "b64_groups [a, b] = [word_of_nat (a * 4 + b div 16)]"
| "b64_groups _ = []"

definition b64_decode :: "string \<Rightarrow> bytes" where
  "b64_decode s = b64_groups (b64_symbols s)"

text \<open>The characters of the standard alphabet, and whole groups of four with at most two padding characters.\<close>

definition b64_standard :: "char \<Rightarrow> bool" where
  "b64_standard c \<longleftrightarrow> b64_value c \<noteq> None \<and> c \<noteq> CHR ''-'' \<and> c \<noteq> CHR ''_''"

fun b64_strict :: "string \<Rightarrow> bool" where
  "b64_strict [] = True"
| "b64_strict (a # b # c # d # s) = (b64_standard a \<and> b64_standard b \<and>
     ((b64_standard c \<and> b64_standard d \<and> b64_strict s) \<or>
      (s = [] \<and> d = CHR ''='' \<and> (b64_standard c \<or> c = CHR ''=''))))"
| "b64_strict _ = False"

section \<open>Round trip\<close>

lemma b64_symbols_Nil [simp]: "b64_symbols [] = []"
  by (simp add: b64_symbols_def)

lemma b64_symbols_pad [simp]: "b64_symbols (CHR ''='' # s) = []"
  by (simp add: b64_symbols_def)

lemma b64_symbols_Cons [simp]: "n < 64 \<Longrightarrow> b64_symbols (b64_char n # s) = n # b64_symbols s"
  by (simp add: b64_symbols_def List.map_filter_simps b64_char_not_pad)

lemma b64_pieces [simp]:
  fixes a b c :: byte
  shows "unat a div 4 < 64" "unat a mod 4 * 16 < 64" "unat a mod 4 * 16 + unat b div 16 < 64" "unat b mod 16 * 4 < 64"
    "unat b mod 16 * 4 + unat c div 64 < 64" "unat c mod 64 < 64"
proof -
  have "unat a mod 4 < 4" "unat b mod 16 < 16" by simp_all
  moreover have "unat b div 16 < 16" "unat c div 64 < 4" "unat a div 4 < 64"
    using byte_bound [of a] byte_bound [of b] byte_bound [of c] by (simp_all add: less_mult_imp_div_less)
  ultimately show "unat a div 4 < 64" "unat a mod 4 * 16 < 64" "unat a mod 4 * 16 + unat b div 16 < 64" "unat b mod 16 * 4 < 64"
    "unat b mod 16 * 4 + unat c div 64 < 64" "unat c mod 64 < 64" by simp_all
qed

lemma b64_bytes [simp]:
  fixes a b c :: byte
  shows "word_of_nat (unat a div 4 * 4 + (unat a mod 4 * 16 + unat b div 16) div 16) = a"
    "word_of_nat (unat a div 4 * 4 + unat a mod 4 * 16 div 16) = a"
    "word_of_nat ((unat a mod 4 * 16 + unat b div 16) mod 16 * 16 + (unat b mod 16 * 4 + unat c div 64) div 4) = b"
    "word_of_nat ((unat a mod 4 * 16 + unat b div 16) mod 16 * 16 + unat b mod 16 * 4 div 4) = b"
    "word_of_nat ((unat b mod 16 * 4 + unat c div 64) mod 4 * 64 + unat c mod 64) = c"
proof -
  have b: "unat b div 16 < 16" and c: "unat c div 64 < 4"
    using byte_bound [of b] byte_bound [of c] by (simp_all add: less_mult_imp_div_less)
  have ab: "(unat a mod 4 * 16 + unat b div 16) div 16 = unat a mod 4" "(unat a mod 4 * 16 + unat b div 16) mod 16 = unat b div 16"
    using b by simp_all
  have bc: "(unat b mod 16 * 4 + unat c div 64) div 4 = unat b mod 16" "(unat b mod 16 * 4 + unat c div 64) mod 4 = unat c div 64"
    using c by simp_all
  show "word_of_nat (unat a div 4 * 4 + (unat a mod 4 * 16 + unat b div 16) div 16) = a"
    "word_of_nat (unat a div 4 * 4 + unat a mod 4 * 16 div 16) = a"
    "word_of_nat ((unat a mod 4 * 16 + unat b div 16) mod 16 * 16 + (unat b mod 16 * 4 + unat c div 64) div 4) = b"
    "word_of_nat ((unat a mod 4 * 16 + unat b div 16) mod 16 * 16 + unat b mod 16 * 4 div 4) = b"
    "word_of_nat ((unat b mod 16 * 4 + unat c div 64) mod 4 * 64 + unat c mod 64) = c"
    unfolding ab bc by (simp_all add: div_mult_mod_eq del: of_nat_add of_nat_mult)
qed

lemma b64_decode_encode [codec_simps]: "b64_decode (b64_encode bs) = bs"
  by (induction bs rule: b64_encode.induct)
    (simp_all only: b64_decode_def b64_encode.simps append.simps b64_symbols_Cons b64_pieces b64_symbols_pad b64_symbols_Nil
       b64_groups.simps b64_bytes)

section \<open>Row provenance\<close>

definition PARENT_ROW_METADATA_KEY :: string where
  "PARENT_ROW_METADATA_KEY = ''vgi_rpc.parent_row#b64''"

definition i32_le :: "int \<Rightarrow> bytes" where
  "i32_le i = le_bytes 4 (nat (i mod 2 ^ 32))"

definition i32_of_le :: "bytes \<Rightarrow> int" where
  "i32_of_le bs = (let n = int (le_nat bs) in if n < 2 ^ 31 then n else n - 2 ^ 32)"

definition encodeParentRows :: "int list \<Rightarrow> string" where
  "encodeParentRows parentRows = b64_encode (concat (map i32_le parentRows))"

fun int32s :: "bytes \<Rightarrow> int list" where
  "int32s (a # b # c # d # bs) = i32_of_le [a, b, c, d] # int32s bs"
| "int32s _ = []"

definition decodeParentRows :: "string \<Rightarrow> int list" where
  "decodeParentRows encoded = int32s (b64_decode encoded)"

definition is_int32 :: "int \<Rightarrow> bool" where
  "is_int32 i \<longleftrightarrow> - (2 ^ 31) \<le> i \<and> i < 2 ^ 31"

lemma i32_roundtrip:
  assumes "is_int32 i"
  shows "i32_of_le (i32_le i) = i"
proof -
  have "i mod 2 ^ 32 = (if 0 \<le> i then i else i + 2 ^ 32)"
  proof (cases "0 \<le> i")
    case True
    with assms show ?thesis by (simp add: is_int32_def)
  next
    case False
    have "(i + 2 ^ 32) mod 2 ^ 32 = i + 2 ^ 32" using assms False by (intro mod_pos_pos_trivial) (auto simp: is_int32_def)
    with False show ?thesis by simp
  qed
  with assms show ?thesis by (auto simp: i32_of_le_def i32_le_def is_int32_def codec_simps Let_def)
qed

lemma int32s_append: "int32s (i32_le i @ bs) = i32_of_le (i32_le i) # int32s bs"
proof -
  have "length (i32_le i) = 4" by (simp add: i32_le_def)
  then obtain a b c d where "i32_le i = [a, b, c, d]" by (auto simp: numeral_eq_Suc length_Suc_conv)
  then show ?thesis by simp
qed

lemma int32s_concat: "list_all is_int32 rows \<Longrightarrow> int32s (concat (map i32_le rows)) = rows"
  by (induction rows) (simp_all add: int32s_append i32_roundtrip)

lemma decode_encode_ParentRows [codec_simps]: "list_all is_int32 rows \<Longrightarrow> decodeParentRows (encodeParentRows rows) = rows"
  by (simp add: decodeParentRows_def encodeParentRows_def codec_simps int32s_concat)

end
