(* ===== verification/FilterHistory.thy ===== *)
theory FilterHistory
  imports DeltaLaws Base64Codec
begin

text \<open>
  The dynamic filters of an HTTP stream, \<open>src/filter-pushdown/history.ts\<close>: decoding a delta from
  its metadata, recording it in the compacted history that rides the state token, the codec of that
  history and its replay.  Reading Arrow IPC bytes is a parameter, \<open>ipc\<close>.
\<close>

section \<open>Receiving a delta\<close>

definition MAX_ENCODED_DELTA_BYTES :: nat where "MAX_ENCODED_DELTA_BYTES = 25165824"
definition MAX_DELTA_IPC_BYTES :: nat where "MAX_DELTA_IPC_BYTES = 17825792"

record FilterDeltaHistory =
  h_deltas :: "bytes list"
  h_order :: "string list"

definition EMPTY_FILTER_HISTORY :: FilterDeltaHistory where
  "EMPTY_FILTER_HISTORY = \<lparr>h_deltas = [], h_order = []\<rparr>"

definition js_fail :: "string \<Rightarrow> 'a fresult" where
  "js_fail msg = Inl (JsError msg)"

definition decodeDynamicFilterMetadata :: "string \<Rightarrow> bytes fresult" where
  "decodeDynamicFilterMetadata encoded =
     (if MAX_ENCODED_DELTA_BYTES < utf8_length encoded
      then js_fail ''base64 dynamic filter metadata exceeds the encoded-size limit''
      else if length encoded mod 4 \<noteq> 0 \<or> \<not> b64_strict encoded
      then js_fail ''dynamic filter metadata is not valid base64''
      else let bytes = b64_decode encoded in
        if MAX_DELTA_IPC_BYTES < length bytes
        then js_fail ''dynamic filter IPC payload exceeds the encoded-size limit''
        else Inr bytes)"

type_synonym ipc_reader = "bytes \<Rightarrow> vgi_batch fresult"

definition decodeFilterDelta :: "ipc_reader \<Rightarrow> bytes \<Rightarrow> vgi_batch fresult" where
  "decodeFilterDelta ipc bytes =
     (if MAX_DELTA_IPC_BYTES < length bytes
      then js_fail ''dynamic filter IPC payload exceeds the encoded-size limit''
      else if bytes = [] then js_fail ''dynamic filter metadata must contain one RecordBatch''
      else rbind (ipc bytes) (\<lambda>batch.
        if b_rows batch = 0 \<and> s_fields (b_schema batch) = []
        then js_fail ''dynamic filter metadata must contain one RecordBatch''
        else Inr batch))"

section \<open>The revisions a delta carries\<close>

definition revisionKey :: "string \<Rightarrow> string \<Rightarrow> string" where
  "revisionKey i r = i @ CHR 0x00 # r"

text \<open>
  \<open>JSON.parse\<close> of a document the strict reader has accepted: the same members, except that
  \<open>__proto__\<close> is a property like any other, so that only an object's own entries are read from it.
  A safe integer prints as its decimal digits.
\<close>

definition own_member :: "jdoc \<Rightarrow> string \<Rightarrow> jdoc option" where
  "own_member d k = (case d of JObj es _ \<Rightarrow> jm_get es k | _ \<Rightarrow> None)"

definition template_text :: "host \<Rightarrow> jdoc option \<Rightarrow> string" where
  "template_text h v = (case v of
     None \<Rightarrow> ''undefined'' | Some JNull \<Rightarrow> ''null'' | Some (JBool b) \<Rightarrow> (if b then ''true'' else ''false'')
   | Some (JNum x) \<Rightarrow> (if is_safe_integer x then int_to_string (num_floor x) else num_to_string h x)
   | Some (JStr s) \<Rightarrow> s | Some _ \<Rightarrow> ''[object Object]'')"

definition update_key :: "host \<Rightarrow> jdoc \<Rightarrow> string fresult" where
  "update_key h u = (if u = JNull then js_fail ''TypeError''
     else Inr (revisionKey (template_text h (own_member u ''id'')) (template_text h (own_member u ''revision''))))"

definition document_updates :: "jdoc \<Rightarrow> jdoc list fresult" where
  "document_updates document = (if document = JNull then js_fail ''TypeError''
     else case own_member document ''updates'' of
       None \<Rightarrow> Inr [] | Some JNull \<Rightarrow> Inr [] | Some (JArr us) \<Rightarrow> Inr us | Some _ \<Rightarrow> js_fail ''TypeError'')"

definition deltaRevisionKeys :: "host \<Rightarrow> vgi_batch \<Rightarrow> string list fresult" where
  "deltaRevisionKeys h batch = (case (getChildAt batch 0, field_at (b_schema batch) 0) of
     (Some column, Some field) \<Rightarrow>
       rbind (json_parse h (js_to_string h (readCanonicalValue column 0))) (\<lambda>document.
       rbind (document_updates document) (mapR (update_key h)))
   | _ \<Rightarrow> fail_filter ''delta document has no filter_spec column'')"

section \<open>Recording\<close>

definition delete_key :: "string list \<times> bool \<Rightarrow> string \<Rightarrow> string list \<times> bool" where
  "delete_key s k = (case s of (wanted, carries) \<Rightarrow>
     if k \<in> set wanted then (removeAll k wanted, True) else (wanted, carries))"

definition consider_delta :: "host \<Rightarrow> bytes \<Rightarrow> vgi_batch \<Rightarrow> string list \<times> bytes list \<Rightarrow> (string list \<times> bytes list) fresult" where
  "consider_delta h bytes batch s = (case s of (wanted, deltas) \<Rightarrow>
     rbind (deltaRevisionKeys h batch) (\<lambda>keys.
     case foldl delete_key (wanted, False) keys of (wanted, carries) \<Rightarrow>
       Inr (wanted, if carries then deltas @ [bytes] else deltas)))"

fun consider_all :: "host \<Rightarrow> ipc_reader \<Rightarrow> bytes list \<Rightarrow> string list \<times> bytes list \<Rightarrow> (string list \<times> bytes list) fresult" where
  "consider_all h ipc [] s = Inr s"
| "consider_all h ipc (d # ds) s =
     rbind (decodeFilterDelta ipc d) (\<lambda>batch. rbind (consider_delta h d batch s) (consider_all h ipc ds))"

definition wanted_keys :: "PushdownFilters \<Rightarrow> string list" where
  "wanted_keys f = map (\<lambda>(i, r). revisionKey i (int_to_string r)) (revisions f)"

definition recordFilterDelta ::
  "host \<Rightarrow> ipc_reader \<Rightarrow> PushdownFilters \<Rightarrow> FilterDeltaHistory \<Rightarrow> bytes \<Rightarrow> (PushdownFilters \<times> FilterDeltaHistory) fresult" where
  "recordFilterDelta h ipc current history deltaBytes =
     rbind (decodeFilterDelta ipc deltaBytes) (\<lambda>incoming.
     rbind (applyFilterDelta h current incoming) (\<lambda>f.
     rbind (consider_all h ipc (h_deltas history) (wanted_keys f, [])) (\<lambda>s.
     rbind (consider_delta h deltaBytes incoming s) (\<lambda>(_, deltas).
       Inr (f, \<lparr>h_deltas = deltas, h_order = map fp_id (predicates f)\<rparr>)))))"

section \<open>The codec\<close>

definition HISTORY_FORMAT_VERSION :: byte where "HISTORY_FORMAT_VERSION = 1"

definition put_chunks :: "bytes list \<Rightarrow> bytes" where
  "put_chunks chunks = le_bytes 4 (length chunks) @ concat (map (\<lambda>c. le_bytes 4 (length c) @ c) chunks)"

definition encodeFilterHistory :: "FilterDeltaHistory option \<Rightarrow> bytes option" where
  "encodeFilterHistory history = (case history of None \<Rightarrow> None
     | Some hist \<Rightarrow> if h_deltas hist = [] then None
         else Some ([HISTORY_FORMAT_VERSION] @ put_chunks (h_deltas hist) @ put_chunks (map utf8 (h_order hist))))"

definition truncated_history :: "'a fresult" where
  "truncated_history = js_fail ''dynamic filter history in the state token is truncated''"

text \<open>\<open>take\<close>: the state is the bytes from the offset on.\<close>

fun take_chunks :: "nat \<Rightarrow> bytes \<Rightarrow> (bytes list \<times> bytes) fresult" where
  "take_chunks 0 view = Inr ([], view)"
| "take_chunks (Suc n) view =
     (if length view < 4 then truncated_history
      else let len = le_nat (take 4 view); rest = drop 4 view in
        if length rest < len then truncated_history
        else rbind (take_chunks n (drop len rest)) (\<lambda>(chunks, rest'). Inr (take len rest # chunks, rest')))"

definition take_counted :: "bytes \<Rightarrow> (bytes list \<times> bytes) fresult" where
  "take_counted view =
     (if length view < 4 then truncated_history else take_chunks (le_nat (take 4 view)) (drop 4 view))"

definition decode_id :: "bytes \<Rightarrow> string fresult" where
  "decode_id bs = (case utf8_decode bs of Some s \<Rightarrow> Inr s | None \<Rightarrow> js_fail ''TypeError'')"

definition decodeFilterHistory :: "bytes option \<Rightarrow> FilterDeltaHistory fresult" where
  "decodeFilterHistory bytes = (case bytes of
     None \<Rightarrow> Inr EMPTY_FILTER_HISTORY
   | Some [] \<Rightarrow> Inr EMPTY_FILTER_HISTORY
   | Some (v # view) \<Rightarrow>
       if v \<noteq> HISTORY_FORMAT_VERSION then js_fail ''dynamic filter history in the state token has an unknown format''
       else rbind (take_counted view) (\<lambda>(deltas, rest).
            rbind (take_counted rest) (\<lambda>(ids, rest).
            rbind (mapR decode_id ids) (\<lambda>order.
            if rest \<noteq> [] then js_fail ''dynamic filter history in the state token has trailing bytes''
            else Inr \<lparr>h_deltas = deltas, h_order = order\<rparr>))))"

section \<open>Replay\<close>

fun replay_deltas :: "host \<Rightarrow> ipc_reader \<Rightarrow> bytes list \<Rightarrow> PushdownFilters \<Rightarrow> PushdownFilters fresult" where
  "replay_deltas h ipc [] f = Inr f"
| "replay_deltas h ipc (d # ds) f =
     rbind (decodeFilterDelta ipc d) (\<lambda>batch. rbind (applyFilterDelta h f batch) (replay_deltas h ipc ds))"

definition replayFilterHistory ::
  "host \<Rightarrow> ipc_reader \<Rightarrow> PushdownFilters option \<Rightarrow> FilterDeltaHistory option \<Rightarrow> PushdownFilters option fresult" where
  "replayFilterHistory h ipc f history = (case history of
     None \<Rightarrow> Inr f
   | Some hist \<Rightarrow> if h_deltas hist = [] then Inr f
       else (case f of None \<Rightarrow> js_fail ''dynamic filter history carried without an initial snapshot''
         | Some f \<Rightarrow> rbind (replay_deltas h ipc (h_deltas hist) f) (\<lambda>replayed.
             rbind (withPredicateOrder replayed (h_order hist)) (\<lambda>g. Inr (Some g)))))"

section \<open>Round trip of the codec\<close>

definition chunks_ok :: "bytes list \<Rightarrow> bool" where
  "chunks_ok cs \<longleftrightarrow> length cs < 2 ^ 32 \<and> list_all (\<lambda>c. length c < 2 ^ 32) cs"

lemma take_chunks_put:
  "list_all (\<lambda>c. length c < 2 ^ 32) cs \<Longrightarrow>
   take_chunks (length cs) (concat (map (\<lambda>c. le_bytes 4 (length c) @ c) cs) @ rest) = Inr (cs, rest)"
  by (induction cs) (simp_all add: codec_simps Let_def)

lemma take_counted_put: "chunks_ok cs \<Longrightarrow> take_counted (put_chunks cs @ rest) = Inr (cs, rest)"
  by (simp add: take_counted_def put_chunks_def chunks_ok_def codec_simps take_chunks_put)

lemma decode_ids: "mapR decode_id (map utf8 ids) = Inr ids"
  by (induction ids) (simp_all add: decode_id_def codec_simps)

lemma decode_encode_history:
  assumes "encodeFilterHistory (Some hist) = Some bs" "chunks_ok (h_deltas hist)" "chunks_ok (map utf8 (h_order hist))"
  shows "decodeFilterHistory (Some bs) = Inr hist"
proof -
  from assms(1) have bs: "bs = HISTORY_FORMAT_VERSION # put_chunks (h_deltas hist) @ put_chunks (map utf8 (h_order hist)) @ []"
    by (auto simp: encodeFilterHistory_def split: if_splits)
  show ?thesis
    unfolding bs decodeFilterHistory_def option.case list.case take_counted_put [OF assms(2)] rbind_Inr case_prod_conv
      take_counted_put [OF assms(3)] decode_ids by simp
qed

section \<open>The history is bounded\<close>

lemma foldl_delete_key:
  "foldl delete_key (wanted, c) keys = (filter (\<lambda>k. k \<notin> set keys) wanted, c \<or> (\<exists>k\<in>set keys. k \<in> set wanted))"
proof (induction keys arbitrary: wanted c)
  case Nil
  then show ?case by simp
next
  case (Cons k keys)
  have "filter (\<lambda>j. j \<notin> set keys) (removeAll k wanted) = filter (\<lambda>j. j \<notin> set (k # keys)) wanted"
    by (auto simp: removeAll_filter_not_eq intro: filter_cong)
  moreover have "filter (\<lambda>j. j \<notin> set keys) wanted = filter (\<lambda>j. j \<notin> set (k # keys)) wanted" if "k \<notin> set wanted"
    using that by (auto intro: filter_cong)
  moreover have "delete_key (wanted, c) k = (if k \<in> set wanted then (removeAll k wanted, True) else (wanted, c))"
    by (simp add: delete_key_def)
  ultimately show ?case by (auto simp: Cons.IH)
qed

definition room :: "string list \<times> bytes list \<Rightarrow> nat" where
  "room s = length (fst s) + length (snd s)"

lemma consider_delta_room: "consider_delta h d batch s = Inr s' \<Longrightarrow> room s' \<le> room s"
proof -
  assume a: "consider_delta h d batch s = Inr s'"
  obtain wanted deltas where s: "s = (wanted, deltas)" by (cases s)
  from a s obtain keys where s': "s' = (filter (\<lambda>k. k \<notin> set keys) wanted,
      if \<exists>k\<in>set keys. k \<in> set wanted then deltas @ [d] else deltas)"
    by (auto simp: consider_delta_def result_simps foldl_delete_key)
  show "room s' \<le> room s"
  proof (cases "\<exists>k\<in>set keys. k \<in> set wanted")
    case True
    then have "length (filter (\<lambda>k. k \<notin> set keys) wanted) < length wanted" by (auto intro: length_filter_less)
    with True show ?thesis by (simp add: s s' room_def)
  next
    case False
    then show ?thesis by (auto simp: s s' room_def)
  qed
qed

lemma consider_all_room: "consider_all h ipc ds s = Inr s' \<Longrightarrow> room s' \<le> room s"
proof (induction ds arbitrary: s)
  case Nil
  then show ?case by simp
next
  case (Cons d ds)
  then obtain batch t where "consider_delta h d batch s = Inr t" "consider_all h ipc ds t = Inr s'"
    by (auto simp: result_simps)
  with Cons.IH [of t] consider_delta_room [of h d batch s t] show ?case by simp
qed

lemma record_bounded:
  assumes "recordFilterDelta h ipc f hist d = Inr (g, hist')" "filters_ok f"
  shows "length (h_deltas hist') \<le> length (revisions g) \<and> length (revisions g) \<le> MAX_PREDICATE_IDS"
proof -
  obtain batch s where r: "applyFilterDelta h f batch = Inr g" "consider_all h ipc (h_deltas hist) (wanted_keys g, []) = Inr s"
      "\<exists>w. consider_delta h d batch s = Inr (w, h_deltas hist')"
    using assms(1) by (auto simp: recordFilterDelta_def result_simps)
  from r(3) obtain w where w: "consider_delta h d batch s = Inr (w, h_deltas hist')" by blast
  from consider_all_room [OF r(2)] consider_delta_room [OF w] have "length (h_deltas hist') \<le> length (revisions g)"
    by (simp add: room_def wanted_keys_def)
  moreover obtain P where P: "parse_delta P f = Inr g" using r(1) by (auto simp: applyFilterDelta_def result_simps)
  obtain us :: "filter_update list" where "card (set (map fst (revisions g)) \<union> set (map fst us)) \<le> MAX_PREDICATE_IDS"
    using replay_parse_delta [OF P assms(2)] by (auto simp: parse_delta_def result_simps not_less simp del: set_map)
  then have "card (set (map fst (revisions g))) \<le> MAX_PREDICATE_IDS"
    using card_mono [of "set (map fst (revisions g)) \<union> set (map fst us)" "set (map fst (revisions g))"] by auto
  moreover have "distinct (map fst (revisions g))"
    using delta_facts [OF r(1) assms(2)] delta_filters_ok [OF _ assms(2)] by (metis filters_ok_def jm_ok_def)
  ultimately show ?thesis using distinct_card [of "map fst (revisions g)"] by simp
qed

end
