(* ===== verification/HistoryLaws.thy ===== *)
theory HistoryLaws
  imports FilterHistory
begin

text \<open>
  What the compacted history of \<open>src/filter-pushdown/history.ts\<close> promises: replaying it over the
  initial snapshot rebuilds the live filters of the stream.
\<close>

section \<open>Counting nodes from a smaller start\<close>

text \<open>
  A computation over the node counter that only adds to it succeeds alike from a smaller start.
\<close>

named_theorems shifts \<open>computations over the node counter\<close>

definition shift :: "(nat \<Rightarrow> ('a \<times> nat) fresult) \<Rightarrow> bool" where
  "shift f \<longleftrightarrow> (\<forall>n e m n'. f n = Inr (e, m) \<and> n' \<le> n \<longrightarrow> n \<le> m \<and> f n' = Inr (e, n' + (m - n)))"

lemma shiftD: "shift f \<Longrightarrow> f n = Inr (e, m) \<Longrightarrow> n' \<le> n \<Longrightarrow> n \<le> m \<and> f n' = Inr (e, n' + (m - n))"
  unfolding shift_def by blast

lemma shift_return [shifts]: "shift (\<lambda>n. Inr (e, n))"
  by (simp add: shift_def)

lemma shift_fail [shifts]: "shift (\<lambda>n. fail_filter msg)"
  by (simp add: shift_def fail_filter_def)

lemma shift_if [shifts]: "shift f \<Longrightarrow> shift g \<Longrightarrow> shift (\<lambda>n. if b then f n else g n)"
  by (cases b) simp_all

lemma shift_pure [shifts]: "(\<And>x. shift (\<lambda>n. f x n)) \<Longrightarrow> shift (\<lambda>n. rbind c (\<lambda>x. f x n))"
proof (cases c)
  case (Inl err)
  then show ?thesis by (simp add: shift_def)
qed simp

lemma shift_bind [shifts]:
  assumes "shift (\<lambda>n. f n)" "\<And>x. shift (\<lambda>n. g x n)"
  shows "shift (\<lambda>n. rbind (f n) (\<lambda>(x, n). g x n))"
  unfolding shift_def
proof (intro allI impI)
  fix n e m n'
  assume a: "rbind (f n) (\<lambda>(x, n). g x n) = Inr (e, m) \<and> n' \<le> n"
  then obtain x k where f: "f n = Inr (x, k)" and g: "g x k = Inr (e, m)" by (auto simp: result_simps)
  from shiftD [OF assms(1) f] a have k: "n \<le> k" "f n' = Inr (x, n' + (k - n))" by auto
  from shiftD [OF assms(2) g, of "n' + (k - n)"] a k have m: "k \<le> m" "g x (n' + (k - n)) = Inr (e, n' + (k - n) + (m - k))" by auto
  with k show "n \<le> m \<and> rbind (f n') (\<lambda>(x, n). g x n) = Inr (e, n' + (m - n))" by simp
qed

lemma shift_option [shifts]: "shift f \<Longrightarrow> (\<And>x. shift (\<lambda>n. g x n)) \<Longrightarrow> shift (\<lambda>n. case v of None \<Rightarrow> f n | Some x \<Rightarrow> g x n)"
  by (cases v) simp_all

lemma shift_pair [shifts]: "(\<And>x y. shift (\<lambda>n. g x y n)) \<Longrightarrow> shift (\<lambda>n. case v of (x, y) \<Rightarrow> g x y n)"
  by (cases v) simp_all

lemma mapS_Cons: "mapS f (x # xs) = (\<lambda>n. rbind (f x n) (\<lambda>(y, n). rbind (mapS f xs n) (\<lambda>(ys, n). Inr (y # ys, n))))"
  by (rule ext) simp

lemma shift_mapS [shifts]:
  assumes "\<And>x. shift (\<lambda>n. f x n)"
  shows "shift (\<lambda>n. mapS f xs n)"
proof (induction xs)
  case Nil
  show ?case by (simp add: shift_def)
next
  case (Cons x xs)
  have "shift (\<lambda>n. rbind (f x n) (\<lambda>(y, n). rbind (mapS f xs n) (\<lambda>(ys, n). Inr (y # ys, n))))"
    by (intro shift_bind shift_return assms Cons.IH)
  then show ?case by (simp only: mapS_Cons)
qed

text \<open>A value out of a sum of cases, for the values and documents the parser matches on.\<close>

lemma shift_string [shifts]:
  "(\<And>s. shift (\<lambda>n. f s n)) \<Longrightarrow> shift (\<lambda>n. case v of JStr s \<Rightarrow> f s n | _ \<Rightarrow> fail_filter msg)"
  by (cases v) (auto intro: shifts)

lemma parse_nodes_shift:
  assumes "\<And>v. shift (\<lambda>n. child v n)"
  shows "shift (\<lambda>n. parse_node P child obj r n)"
proof -
  note child = assms
  have "shift (\<lambda>n. parse_column_ref P obj n)" unfolding parse_column_ref_def by (intro shifts)
  moreover have "shift (\<lambda>n. parse_field_ref P child obj n)" unfolding parse_field_ref_def by (intro shifts child)
  moreover have "shift (\<lambda>n. parse_literal P obj n)" unfolding parse_literal_def by (intro shifts child)
  moreover have "shift (\<lambda>n. parse_comparison child obj n)" unfolding parse_comparison_def by (intro shifts child)
  moreover have "\<And>mk nd. shift (\<lambda>n. parse_junction mk nd child obj n)" unfolding parse_junction_def by (intro shifts child)
  moreover have "shift (\<lambda>n. parse_not child obj n)" unfolding parse_not_def by (intro shifts child)
  moreover have "shift (\<lambda>n. parse_is_null child obj n)" unfolding parse_is_null_def by (intro shifts child)
  moreover have "shift (\<lambda>n. parse_in P child obj n)" unfolding parse_in_def by (intro shifts child)
  moreover have "shift (\<lambda>n. parse_cast P child obj n)" unfolding parse_cast_def by (intro shifts child)
  moreover have "shift (\<lambda>n. parse_arithmetic child obj n)" unfolding parse_arithmetic_def by (intro shifts child)
  moreover have "shift (\<lambda>n. parse_negate child obj n)" unfolding parse_negate_def by (intro shifts child)
  moreover have "shift (\<lambda>n. parse_call P child obj n)" unfolding parse_call_def by (intro shifts child)
  moreover have "shift (\<lambda>n. parse_runtime_filter P child obj r n)" unfolding parse_runtime_filter_def Let_def by (intro shifts child)
  ultimately show ?thesis unfolding parse_node_def by (intro shifts)
qed

lemma parse_expression_shift: "shift (\<lambda>n. parse_expression P k obj r n)"
proof (induction k arbitrary: obj r)
  case 0
  show ?case by (simp add: shift_fail)
next
  case (Suc k)
  let ?child = "\<lambda>v n. rbind (expectObject v ''child expression'') (\<lambda>ob. parse_expression P k ob False n)"
  have node: "shift (\<lambda>n. parse_node P ?child obj r n)"
    by (rule parse_nodes_shift) (intro shifts Suc.IH)
  show ?case unfolding shift_def
  proof (intro allI impI)
    fix n e m n'
    assume a: "parse_expression P (Suc k) obj r n = Inr (e, m) \<and> n' \<le> n"
    then have n: "n + 1 \<le> MAX_NODES" "parse_node P ?child obj r (n + 1) = Inr (e, m)" "n' + 1 \<le> n + 1" by (auto split: if_splits)
    from shiftD [OF node n(2,3)] n a show "n \<le> m \<and> parse_expression P (Suc k) obj r n' = Inr (e, n' + (m - n))" by auto
  qed
qed

lemma parse_predicate_shift: "shift (\<lambda>n. parse_predicate P obj w u n)"
  unfolding parse_predicate_def by (intro shifts parse_expression_shift)

section \<open>Deltas every update of which parses\<close>

text \<open>
  The updates of a delta, all of them parsed, as a state without revisions on record would; a
  document that uses \<open>__proto__\<close> at the levels the bookkeeping reads has none.
\<close>

definition plain_object :: "jdoc \<Rightarrow> bool" where
  "plain_object d = (case d of JObj _ None \<Rightarrow> True | _ \<Rightarrow> False)"

definition full_updates :: "host \<Rightarrow> ipc_reader \<Rightarrow> PushdownFilters \<Rightarrow> bytes \<Rightarrow> filter_update list fresult" where
  "full_updates h ipc f d =
     rbind (decodeFilterDelta ipc d) (\<lambda>batch.
     rbind (new_FilterParser h batch (options f)) (\<lambda>P.
     if p_context P \<noteq> evaluationContext f then fail_filter ''other context''
     else rbind (parser_header P ''delta'' ''updates'') (\<lambda>entries.
     if \<not> plain_object (p_document P) \<or> \<not> list_all plain_object entries then fail_filter ''__proto__''
     else parse_updates P (f\<lparr>revisions := []\<rparr>) entries [] 0)))"

definition same_scan :: "PushdownFilters \<Rightarrow> PushdownFilters \<Rightarrow> bool" where
  "same_scan f g \<longleftrightarrow> options f = options g \<and> evaluationContext f = evaluationContext g \<and> requiredIds f = requiredIds g"

lemma full_updates_same: "same_scan f g \<Longrightarrow> full_updates h ipc f d = full_updates h ipc g d"
proof -
  assume s: "same_scan f g"
  have u: "update_header (f\<lparr>revisions := []\<rparr>) seen e = update_header (g\<lparr>revisions := []\<rparr>) seen e" for seen e
    using s by (intro update_header_required) (simp add: same_scan_def)
  have "parse_updates P (f\<lparr>revisions := []\<rparr>) es seen n = parse_updates P (g\<lparr>revisions := []\<rparr>) es seen n" for P es seen n
    by (induction es arbitrary: seen n) (simp_all add: u is_stale_def cong: if_cong)
  with s show ?thesis by (simp add: full_updates_def same_scan_def cong: if_cong)
qed

lemma parse_updates_fresh:
  assumes "parse_updates P (f\<lparr>revisions := []\<rparr>) entries seen n = Inr us" "requiredIds g = requiredIds f" "n' \<le> n"
  shows "parse_updates P g entries seen n' = Inr (filter (\<lambda>(i, r, p). \<not> is_stale g i r) us)"
  using assms(1,3)
proof (induction entries arbitrary: seen n n' us)
  case Nil
  then show ?case by auto
next
  case (Cons entry entries)
  then obtain ups obj uid r where h0: "update_header (f\<lparr>revisions := []\<rparr>) seen entry = Inr (ups, obj, uid, r)"
    by (auto simp: result_simps)
  have hg: "update_header g seen entry = Inr (ups, obj, uid, r)"
    using h0 update_header_required [of g "f\<lparr>revisions := []\<rparr>" seen entry] assms(2) by simp
  have r: "0 \<le> r" using update_header_facts(4) [OF h0] by (rule expectUint_nonneg)
  then have fresh: "\<not> is_stale (f\<lparr>revisions := []\<rparr>) uid r" by (simp add: is_stale_def)
  show ?case
  proof (cases ups)
    case True
    with Cons.prems(1) h0 fresh obtain p m us' where p: "parse_predicate P obj ''updates'' True n = Inr (p, m)"
        "parse_updates P (f\<lparr>revisions := []\<rparr>) entries (uid # seen) m = Inr us'" "us = (uid, r, Some p) # us'"
      by (auto simp: result_simps)
    from shiftD [OF parse_predicate_shift p(1) Cons.prems(2)]
    have n: "n \<le> m" "parse_predicate P obj ''updates'' True n' = Inr (p, n' + (m - n))" by auto
    have "parse_updates P g entries (uid # seen) n' = Inr (filter (\<lambda>(i, r, p). \<not> is_stale g i r) us')"
         "parse_updates P g entries (uid # seen) (n' + (m - n)) = Inr (filter (\<lambda>(i, r, p). \<not> is_stale g i r) us')"
      using Cons.IH [OF p(2), of n'] Cons.IH [OF p(2), of "n' + (m - n)"] Cons.prems(2) n(1) by auto
    with True p(3) n hg show ?thesis by simp
  next
    case False
    with Cons.prems(1) h0 fresh obtain us' where p: "parse_updates P (f\<lparr>revisions := []\<rparr>) entries (uid # seen) n = Inr us'"
        "us = (uid, r, None) # us'"
      by (auto simp: result_simps)
    from Cons.IH [OF p(1) Cons.prems(2)] False p(2) hg show ?thesis by simp
  qed
qed

text \<open>The keys the bookkeeping reads are those of the updates.\<close>

definition keys_of :: "filter_update list \<Rightarrow> string list" where
  "keys_of us = map (\<lambda>(i, r, p). revisionKey i (int_to_string r)) us"

lemma own_member_plain: "plain_object d \<Longrightarrow> own_member d k = jget d k"
  by (auto simp: plain_object_def own_member_def split: jdoc.splits option.splits)

lemma expectObject_Inr: "expectObject v w = Inr d \<longleftrightarrow> v = Some d \<and> (\<exists>es p. d = JObj es p)"
  by (cases d) (auto simp: expectObject_def split: option.splits jdoc.splits)

lemma expectArray_Inr: "expectArray v w = Inr vs \<longleftrightarrow> v = Some (JArr vs)"
  by (auto simp: expectArray_def split: option.splits jdoc.splits)

lemma expectString_Inr: "expectString v w = Inr s \<longleftrightarrow> v = Some (JStr s) \<and> s \<noteq> []"
  by (auto simp: expectString_def split: option.splits jdoc.splits)

lemma expectUint_text: "expectUint v w b = Inr r \<Longrightarrow> template_text h v = int_to_string r"
  by (auto simp: expectUint_def template_text_def split: option.splits jdoc.splits if_splits)

lemma update_header_object:
  "update_header f seen entry = Inr (ups, obj, uid, r) \<Longrightarrow> obj = entry \<and> (\<exists>es p. entry = JObj es p)"
  by (auto simp: update_header_def result_simps expectObject_Inr split: if_splits)

lemma update_key_entry:
  assumes "update_header f seen entry = Inr (ups, obj, uid, r)" "plain_object entry"
  shows "update_key h entry = Inr (revisionKey uid (int_to_string r))"
proof -
  note u = update_header_facts [OF assms(1)] and o = update_header_object [OF assms(1)]
  have "template_text h (own_member entry ''id'') = uid"
    using u(3) o by (auto simp: own_member_plain [OF assms(2)] predicateId_def result_simps expectString_Inr template_text_def)
  moreover have "template_text h (own_member entry ''revision'') = int_to_string r"
    using expectUint_text [OF u(4)] o by (simp add: own_member_plain [OF assms(2)])
  ultimately show ?thesis using o by (auto simp: update_key_def)
qed

lemma update_keys_entries:
  assumes "parse_updates P (f\<lparr>revisions := []\<rparr>) entries seen n = Inr us" "list_all plain_object entries"
  shows "mapR (update_key h) entries = Inr (keys_of us)"
  using assms
proof (induction entries arbitrary: seen n us)
  case Nil
  then show ?case by (simp add: keys_of_def)
next
  case (Cons entry entries)
  then obtain ups obj uid r where h0: "update_header (f\<lparr>revisions := []\<rparr>) seen entry = Inr (ups, obj, uid, r)"
    by (auto simp: result_simps)
  have "0 \<le> r" using update_header_facts(4) [OF h0] by (rule expectUint_nonneg)
  then have fresh: "\<not> is_stale (f\<lparr>revisions := []\<rparr>) uid r" by (simp add: is_stale_def)
  from Cons.prems(1) h0 fresh obtain p n' us' where us: "us = (uid, r, p) # us'"
      "parse_updates P (f\<lparr>revisions := []\<rparr>) entries (uid # seen) n' = Inr us'"
    by (cases ups) (auto simp: result_simps)
  from update_key_entry [OF h0] Cons.IH [OF us(2)] Cons.prems(2) us(1) show ?case by (simp add: keys_of_def)
qed

lemma full_updates_keys:
  assumes "full_updates h ipc f d = Inr us" "decodeFilterDelta ipc d = Inr batch"
  shows "deltaRevisionKeys h batch = Inr (keys_of us)"
proof -
  from assms obtain P entries where P: "new_FilterParser h batch (options f) = Inr P"
      "parser_header P ''delta'' ''updates'' = Inr entries" "plain_object (p_document P)" "list_all plain_object entries"
      "parse_updates P (f\<lparr>revisions := []\<rparr>) entries [] 0 = Inr us"
    by (auto simp: full_updates_def result_simps)
  from P(1) obtain doc where doc: "valueAt batch 0 = Inr (VStr doc)" "json_parse h doc = Inr (p_document P)"
    by (auto simp: new_FilterParser_def result_simps Let_def expectObject_Inr split: if_splits)
  from doc(1) obtain column field where c: "getChildAt batch 0 = Some column" "field_at (b_schema batch) 0 = Some field"
      "readCanonicalValue column 0 = VStr doc"
    by (auto simp: valueAt_def split: option.splits)
  have "jget (p_document P) ''updates'' = Some (JArr entries)"
    using P(2) by (auto simp: parser_header_def result_simps expectArray_Inr Let_def split: if_splits)
  then have "document_updates (p_document P) = Inr entries"
    using P(3) by (auto simp: document_updates_def own_member_plain plain_object_def)
  with c doc(2) update_keys_entries [OF P(5,4)] show ?thesis by (simp add: deltaRevisionKeys_def)
qed

section \<open>Last writer wins\<close>

text \<open>
  What a scan knows of an id: its revision on record with the predicate it installed, or \<open>None\<close>
  for a removal.
\<close>

type_synonym id_state = "(int \<times> FilterPredicate option) option"

definition id_state :: "PushdownFilters \<Rightarrow> string \<Rightarrow> id_state" where
  "id_state f i = map_option (\<lambda>r. (r, jm_get (live_map f) i)) (jm_get (revisions f) i)"

definition id_rev :: "id_state \<Rightarrow> int" where
  "id_rev c = (case c of None \<Rightarrow> - 1 | Some (r, _) \<Rightarrow> r)"

definition lww :: "id_state \<Rightarrow> id_state \<Rightarrow> id_state" where
  "lww c u = (if id_rev c < id_rev u then u else c)"

definition id_update :: "filter_update list \<Rightarrow> string \<Rightarrow> id_state" where
  "id_update us i = map_of us i"

lemma id_rev_simps [simp]: "id_rev None = - 1" "id_rev (Some (r, p)) = r"
  by (simp_all add: id_rev_def)

lemma lww_newer [simp]: "id_rev c < id_rev u \<Longrightarrow> lww c u = u"
  by (simp add: lww_def)

lemma lww_older [simp]: "id_rev u \<le> id_rev c \<Longrightarrow> lww c u = c"
  by (simp add: lww_def)

lemma foldl_lww_ge: "id_rev c \<le> id_rev (foldl lww c us)"
proof (induction us arbitrary: c)
  case (Cons u us)
  have "id_rev c \<le> id_rev (lww c u)" by (simp add: lww_def)
  with Cons [of "lww c u"] show ?case by simp
qed simp

lemma foldl_lww_bound: "u \<in> set us \<Longrightarrow> id_rev u \<le> id_rev (foldl lww c us)"
proof (induction us arbitrary: c)
  case (Cons v us)
  then show ?case
  proof (cases "u = v")
    case True
    have "id_rev v \<le> id_rev (lww c v)" by (simp add: lww_def)
    with True foldl_lww_ge [of "lww c v" us] show ?thesis by simp
  next
    case False
    with Cons show ?thesis by simp
  qed
qed simp

lemma foldl_lww_keep: "(\<And>u. u \<in> set us \<Longrightarrow> id_rev u \<le> id_rev c) \<Longrightarrow> foldl lww c us = c"
  by (induction us) simp_all

lemma foldl_lww_rises:
  "id_rev c < id_rev (foldl lww c us) \<Longrightarrow> \<exists>u\<in>set us. id_rev u = id_rev (foldl lww c us)"
proof (induction us arbitrary: c)
  case (Cons u us)
  show ?case
  proof (cases "id_rev (lww c u) < id_rev (foldl lww (lww c u) us)")
    case True
    with Cons.IH show ?thesis by auto
  next
    case False
    then have "id_rev (foldl lww (lww c u) us) = id_rev (lww c u)" using foldl_lww_ge [of "lww c u" us] by simp
    with Cons.prems show ?thesis by (cases "id_rev c < id_rev u") (auto simp: not_less)
  qed
qed simp

text \<open>
  The compaction, on deltas given with their keys: a delta is kept when it carries a key no
  earlier one has.
\<close>

fun compacted :: "('d \<Rightarrow> string list) \<Rightarrow> 'd list \<Rightarrow> string list \<Rightarrow> 'd list" where
  "compacted ks [] wanted = []"
| "compacted ks (d # ds) wanted =
     (let rest = compacted ks ds (filter (\<lambda>k. k \<notin> set (ks d)) wanted) in
      if \<exists>k\<in>set (ks d). k \<in> set wanted then d # rest else rest)"

lemma compact_subset: "set (compacted ks ds wanted) \<subseteq> set ds"
  by (induction ds arbitrary: wanted) (auto simp: Let_def)

text \<open>
  For one id whose highest revision in the sequence has the key \<open>key\<close>, carried exactly by the
  updates at that revision, the compacted sequence has the effect of the whole one.
\<close>

lemma compact_lww_top:
  assumes "\<And>d. d \<in> set ds \<Longrightarrow> id_rev (u d) \<le> best" "\<And>d. d \<in> set ds \<Longrightarrow> key \<in> set (ks d) \<longleftrightarrow> id_rev (u d) = best"
    "key \<in> set wanted" "id_rev c < best" "id_rev c' < best" "\<exists>d\<in>set ds. id_rev (u d) = best"
  shows "foldl lww c (map u (compacted ks ds wanted)) = foldl lww c' (map u ds)"
  using assms
proof (induction ds arbitrary: wanted c c')
  case Nil
  then show ?case by simp
next
  case (Cons d ds)
  show ?case
  proof (cases "id_rev (u d) = best")
    case True
    then have k: "key \<in> set (ks d)" using Cons.prems(2) by simp
    have "foldl lww (u d) (map u xs) = u d" if "set xs \<subseteq> set ds" for xs
      using that Cons.prems(1) True by (intro foldl_lww_keep) auto
    from this [of ds] this [OF compact_subset] show ?thesis
      using True k Cons.prems(3-5) by (auto simp: Let_def)
  next
    case False
    then have k: "key \<notin> set (ks d)" using Cons.prems(2) by simp
    have low: "id_rev (u d) < best" using False Cons.prems(1) [of d] by simp
    have e: "\<exists>d\<in>set ds. id_rev (u d) = best" using Cons.prems(6) False by auto
    have step: "foldl lww b (map u (compacted ks ds (filter (\<lambda>k. k \<notin> set (ks d)) wanted))) = foldl lww b' (map u ds)"
      if "id_rev b < best" "id_rev b' < best" for b b'
      using Cons.prems(1,2,3) k that e by (intro Cons.IH) auto
    have m: "id_rev (lww c (u d)) < best" "id_rev (lww c' (u d)) < best" using low Cons.prems(4,5) by (simp_all add: lww_def)
    show ?thesis using step [OF m] step [OF Cons.prems(4) m(2)] by (simp only: compacted.simps Let_def list.map foldl.simps split: if_split) simp
  qed
qed

lemma compact_lww:
  assumes "\<And>d. id_rev c < id_rev (foldl lww c (map u ds)) \<Longrightarrow> d \<in> set ds \<Longrightarrow>
      key \<in> set (ks d) \<longleftrightarrow> id_rev (u d) = id_rev (foldl lww c (map u ds))"
    "id_rev c < id_rev (foldl lww c (map u ds)) \<Longrightarrow> key \<in> set wanted"
  shows "foldl lww c (map u (compacted ks ds wanted)) = foldl lww c (map u ds)"
proof (cases "id_rev c < id_rev (foldl lww c (map u ds))")
  case True
  have b: "id_rev (u d) \<le> id_rev (foldl lww c (map u ds))" if "d \<in> set ds" for d
    using that by (intro foldl_lww_bound) simp
  have "\<exists>d\<in>set ds. id_rev (u d) = id_rev (foldl lww c (map u ds))"
    using foldl_lww_rises [OF True] by (auto simp only: set_map)
  from compact_lww_top [OF b assms(1) [OF True] assms(2) [OF True] True True this] show ?thesis by simp
next
  case False
  then have "id_rev (foldl lww c (map u ds)) = id_rev c" using foldl_lww_ge [of c "map u ds"] by simp
  then have b: "id_rev (u d) \<le> id_rev c" if "d \<in> set ds" for d
    using foldl_lww_bound [of "u d" "map u ds" c] that by simp
  have "foldl lww c (map u xs) = c" if "set xs \<subseteq> set ds" for xs
    using that b by (intro foldl_lww_keep) auto
  from this [of ds] this [OF compact_subset] show ?thesis by simp
qed

section \<open>Applying a delta, id by id\<close>

lemma delta_rev_nonneg: "filters_ok f \<Longrightarrow> jm_get (revisions f) i = Some r \<Longrightarrow> 0 \<le> r"
  by (simp add: filters_ok_def)

lemma id_state_rev_ge: "filters_ok f \<Longrightarrow> - 1 \<le> id_rev (id_state f i)"
  using delta_rev_nonneg [of f i] by (cases "jm_get (revisions f) i") (auto simp: id_state_def)

lemma id_state_Some: "id_state f i = Some (r, p) \<Longrightarrow> jm_get (revisions f) i = Some r"
  by (auto simp: id_state_def)

lemma is_stale_iff: "is_stale f i r \<longleftrightarrow> r \<le> id_rev (id_state f i)"
  by (simp add: is_stale_def id_state_def split: option.splits)

lemma live_recorded:
  assumes "filters_ok f" "jm_get (revisions f) i = None"
  shows "jm_get (live_map f) i = None"
  using filters_ok_get [OF assms(1), of i] assms(2) by (cases "jm_get (live_map f) i") auto

lemma full_updates_facts:
  assumes "full_updates h ipc f d = Inr us"
  obtains batch P entries where "decodeFilterDelta ipc d = Inr batch" "new_FilterParser h batch (options f) = Inr P"
    "p_context P = evaluationContext f" "parser_header P ''delta'' ''updates'' = Inr entries"
    "parse_updates P (f\<lparr>revisions := []\<rparr>) entries [] 0 = Inr us"
  using assms by (auto simp: full_updates_def result_simps)

lemma full_updates_ok:
  assumes "full_updates h ipc f d = Inr us"
  shows "distinct (map fst us)" "\<And>i r p. (i, r, p) \<in> set us \<Longrightarrow> 0 \<le> r"
proof -
  obtain P entries where p: "parse_updates P (f\<lparr>revisions := []\<rparr>) entries [] 0 = Inr us"
    by (rule full_updates_facts [OF assms], rule that) assumption
  from parse_updates_ok [OF p] show "distinct (map fst us)" "\<And>i r p. (i, r, p) \<in> set us \<Longrightarrow> 0 \<le> r"
    by (auto simp: list_all_iff update_ok_def)
qed

lemma delta_id_state:
  assumes "delta_step P f (filter (\<lambda>(i, r, p). \<not> is_stale f i r) us) g" "distinct (map fst us)"
    "\<And>i r p. (i, r, p) \<in> set us \<Longrightarrow> 0 \<le> r" "filters_ok f"
  shows "id_state g i = lww (id_state f i) (id_update us i)"
proof -
  let ?us = "filter (\<lambda>(i, r, p). \<not> is_stale f i r) us"
  note d = assms(1) [unfolded delta_step_def]
  show ?thesis
  proof (cases "id_update us i")
    case None
    then have "i \<notin> fst ` set us" by (simp add: id_update_def map_of_eq_None_iff)
    then have "update_revision ?us i = None" "update_live ?us i = None" by (auto simp: update_None)
    with d have "id_state g i = id_state f i" by (simp add: id_state_def)
    with None id_state_rev_ge [OF assms(4), of i] show ?thesis by simp
  next
    case (Some w)
    then obtain r p where w: "(i, r, p) \<in> set us" "id_update us i = Some (r, p)"
      by (cases w) (auto simp: id_update_def dest: map_of_SomeD)
    show ?thesis
    proof (cases "is_stale f i r")
      case True
      have "i \<notin> fst ` set ?us"
        using w(1) True assms(2) by (force simp: distinct_map inj_on_def)
      then have "update_revision ?us i = None" "update_live ?us i = None" by (simp_all add: update_None del: set_filter)
      with d w True show ?thesis by (simp add: id_state_def is_stale_iff [unfolded id_state_def])
    next
      case False
      then have "(i, r, p) \<in> set ?us" using w by simp
      then have "update_revision ?us i = Some r" "update_live ?us i = Some p"
        using d update_Some [of ?us i] by blast+
      with d w False show ?thesis by (simp add: id_state_def is_stale_iff [unfolded id_state_def] not_le)
    qed
  qed
qed

text \<open>A delta all of whose updates parse applies to any state of its scan, short of the id limit.\<close>

definition delta_ids :: "filter_update list \<Rightarrow> string set" where
  "delta_ids us = fst ` set us"

lemma apply_full_delta:
  assumes "full_updates h ipc f d = Inr us" "same_scan f g" "filters_ok g"
    "finite S" "card S \<le> MAX_PREDICATE_IDS" "fst ` set (revisions g) \<union> delta_ids us \<subseteq> S"
  obtains batch g' where "decodeFilterDelta ipc d = Inr batch" "applyFilterDelta h g batch = Inr g'" "filters_ok g'"
    "same_scan f g'" "\<And>i. id_state g' i = lww (id_state g i) (id_update us i)" "fst ` set (revisions g') \<subseteq> S"
proof -
  obtain batch P entries where u: "decodeFilterDelta ipc d = Inr batch" "new_FilterParser h batch (options f) = Inr P"
    "p_context P = evaluationContext f" "parser_header P ''delta'' ''updates'' = Inr entries"
    "parse_updates P (f\<lparr>revisions := []\<rparr>) entries [] 0 = Inr us"
    by (rule full_updates_facts [OF assms(1)], rule that) assumption+
  note us = full_updates_ok [OF assms(1)]
  let ?us = "filter (\<lambda>(i, r, p). \<not> is_stale g i r) us"
  have pu: "parse_updates P g entries [] 0 = Inr ?us"
    using assms(2) by (intro parse_updates_fresh [OF u(5)]) (simp_all add: same_scan_def)
  have "card (set (map fst (revisions g)) \<union> set (map fst ?us)) \<le> card S"
    using assms(4,6) by (intro card_mono) (auto simp: delta_ids_def image_iff)
  then have card: "\<not> MAX_PREDICATE_IDS < card (set (map fst (revisions g)) \<union> set (map fst ?us))" using assms(5) by simp
  obtain g' where g': "parse_delta P g = Inr g'"
  proof -
    have "\<exists>g'. parse_delta P g = Inr g'"
      using assms(2) u(3,4) pu card by (simp add: parse_delta_def same_scan_def case_prod_beta del: set_map)
    then show thesis using that by blast
  qed
  obtain us' entries' where d: "delta_step P g us' g'" "parser_header P ''delta'' ''updates'' = Inr entries'"
      "parse_updates P g entries' [] 0 = Inr us'"
    by (rule parse_delta_step [OF g' assms(3)], rule that) assumption+
  have "us' = ?us" using d(2,3) u(4) pu by simp
  with d(1) have step: "delta_step P g ?us g'" by simp
  have "fst ` set (revisions g') \<subseteq> S"
  proof
    fix i assume "i \<in> fst ` set (revisions g')"
    then have "jm_get (revisions g') i \<noteq> None" using jm_get_keys [of "revisions g'" i] by simp
    moreover have "jm_get (revisions g') i = (case update_revision ?us i of Some r \<Rightarrow> Some r | None \<Rightarrow> jm_get (revisions g) i)"
      using step by (simp add: delta_step_def)
    ultimately have "update_revision ?us i \<noteq> None \<or> jm_get (revisions g) i \<noteq> None" by (auto split: option.splits)
    then have "i \<in> fst ` set us \<or> i \<in> fst ` set (revisions g)"
      using jm_get_keys [of "revisions g" i] by (force simp: update_None)
    then show "i \<in> S" using assms(6) by (auto simp: delta_ids_def)
  qed
  moreover have "applyFilterDelta h g batch = Inr g'" using u(2) g' assms(2) by (simp add: applyFilterDelta_def same_scan_def)
  moreover have "same_scan f g'" using step assms(2) by (simp add: same_scan_def delta_step_def)
  ultimately show thesis
    by (intro that [OF u(1) _ delta_filters_ok [OF step assms(3)] _ delta_id_state [OF step us assms(3)]])
qed

lemma replay_full:
  assumes "\<And>d. d \<in> set ds \<Longrightarrow> full_updates h ipc f d = Inr (us d) \<and> delta_ids (us d) \<subseteq> S" "same_scan f g" "filters_ok g"
    "finite S" "card S \<le> MAX_PREDICATE_IDS" "fst ` set (revisions g) \<subseteq> S"
  shows "\<exists>g'. replay_deltas h ipc ds g = Inr g' \<and> same_scan f g' \<and> filters_ok g' \<and>
    (\<forall>i. id_state g' i = foldl lww (id_state g i) (map (\<lambda>d. id_update (us d) i) ds))"
  using assms(1,2,3,6)
proof (induction ds arbitrary: g)
  case Nil
  then show ?case by simp
next
  case (Cons d ds)
  have u: "full_updates h ipc f d = Inr (us d)" "fst ` set (revisions g) \<union> delta_ids (us d) \<subseteq> S"
    using Cons.prems(1) [of d] Cons.prems(4) by auto
  from apply_full_delta [OF u(1) Cons.prems(2,3) assms(4,5) u(2)] obtain batch g'
    where g': "decodeFilterDelta ipc d = Inr batch" "applyFilterDelta h g batch = Inr g'" "filters_ok g'"
      "same_scan f g'" "\<And>i. id_state g' i = lww (id_state g i) (id_update (us d) i)" "fst ` set (revisions g') \<subseteq> S"
    by metis
  have "\<exists>g''. replay_deltas h ipc ds g' = Inr g'' \<and> same_scan f g'' \<and> filters_ok g'' \<and>
      (\<forall>i. id_state g'' i = foldl lww (id_state g' i) (map (\<lambda>d. id_update (us d) i) ds))"
    using Cons.prems(1) g' by (intro Cons.IH) auto
  with g' show ?case by simp
qed

section \<open>What the bookkeeping keeps\<close>

lemma nat_to_string_no_zero: "CHR 0x00 \<notin> set (nat_to_string n)"
proof (induction n rule: nat_to_string.induct)
  case (1 n)
  have digit: "CHR 0x00 \<noteq> (char_of (48 + k) :: char)" if "k < 10" for k :: nat
  proof
    assume "CHR 0x00 = (char_of (48 + k) :: char)"
    then have "(of_char (CHR 0x00) :: nat) = of_char (char_of (48 + k) :: char)" by simp
    with that show False by simp
  qed
  show ?case
  proof (cases "n < 10")
    case True
    then show ?thesis using digit [of n] by (simp add: nat_to_string.simps [of n])
  next
    case False
    then show ?thesis using 1 digit [of "n mod 10"] by (simp add: nat_to_string.simps [of n])
  qed
qed

lemma revisionKey_inj:
  assumes "0 \<le> r" "0 \<le> r'"
  shows "revisionKey i (int_to_string r) = revisionKey j (int_to_string r') \<longleftrightarrow> i = j \<and> r = r'"
proof
  let ?d = "nat_to_string (nat r)" and ?d' = "nat_to_string (nat r')"
  assume "revisionKey i (int_to_string r) = revisionKey j (int_to_string r')"
  then have "i @ CHR 0x00 # ?d = j @ CHR 0x00 # ?d'" using assms by (simp add: revisionKey_def int_to_string_def)
  then have "rev ?d @ CHR 0x00 # rev i = rev ?d' @ CHR 0x00 # rev j"
    by (metis append.assoc append_Cons append_Nil rev.simps(2) rev_append)
  then have "rev ?d = rev ?d' \<and> rev i = rev j"
    using nat_to_string_no_zero by (metis split_at_separator set_rev)
  with assms show "i = j \<and> r = r'" by (simp add: eq_nat_nat_iff)
qed simp

lemma keys_of_mem:
  assumes "distinct (map fst us)" "\<And>i r p. (i, r, p) \<in> set us \<Longrightarrow> 0 \<le> r" "0 \<le> r"
  shows "revisionKey i (int_to_string r) \<in> set (keys_of us) \<longleftrightarrow> id_rev (id_update us i) = r"
proof -
  have "revisionKey i (int_to_string r) \<in> set (keys_of us) \<longleftrightarrow> (\<exists>p. (i, r, p) \<in> set us)"
    using assms(2,3) by (force simp: keys_of_def revisionKey_inj)
  also have "\<dots> \<longleftrightarrow> (\<exists>p. id_update us i = Some (r, p))"
    by (simp only: id_update_def map_of_eq_Some_iff [OF assms(1)])
  also have "\<dots> \<longleftrightarrow> id_rev (id_update us i) = r"
    using assms(3) by (cases "id_update us i") auto
  finally show ?thesis .
qed

lemma consider_delta_keys:
  "deltaRevisionKeys h batch = Inr keys \<Longrightarrow>
   consider_delta h d batch (w, acc) = Inr (filter (\<lambda>k. k \<notin> set keys) w, if \<exists>k\<in>set keys. k \<in> set w then acc @ [d] else acc)"
  by (simp add: consider_delta_def foldl_delete_key)

lemma consider_all_compacted:
  assumes "\<And>d. d \<in> set ds \<Longrightarrow> \<exists>batch. decodeFilterDelta ipc d = Inr batch \<and> deltaRevisionKeys h batch = Inr (ks d)"
  shows "consider_all h ipc ds (w, acc) = Inr (filter (\<lambda>k. \<forall>d\<in>set ds. k \<notin> set (ks d)) w, acc @ compacted ks ds w)"
  using assms
proof (induction ds arbitrary: w acc)
  case Nil
  then show ?case by simp
next
  case (Cons d ds)
  from Cons.prems [of d] obtain batch where b: "decodeFilterDelta ipc d = Inr batch" "deltaRevisionKeys h batch = Inr (ks d)" by auto
  have ih: "consider_all h ipc ds (w, acc) = Inr (filter (\<lambda>k. \<forall>d\<in>set ds. k \<notin> set (ks d)) w, acc @ compacted ks ds w)" for w acc
    using Cons by simp
  show ?case by (simp add: b(1) consider_delta_keys [OF b(2)] ih Let_def)
qed

lemma compacted_snoc:
  "compacted ks (ds @ [d]) w = compacted ks ds w @
     (if \<exists>k\<in>set (ks d). k \<in> set (filter (\<lambda>k. \<forall>d\<in>set ds. k \<notin> set (ks d)) w) then [d] else [])"
proof (induction ds arbitrary: w)
  case Nil
  then show ?case by (simp add: Let_def)
next
  case (Cons e ds)
  have "filter (\<lambda>k. \<forall>d\<in>set ds. k \<notin> set (ks d)) (filter (\<lambda>k. k \<notin> set (ks e)) w) =
      filter (\<lambda>k. \<forall>d\<in>set (e # ds). k \<notin> set (ks d)) w"
    by (auto intro: filter_cong)
  with Cons.IH [of "filter (\<lambda>k. k \<notin> set (ks e)) w"] show ?case by (simp add: Let_def)
qed

text \<open>Recording computes the compaction of the history with the new delta at its end.\<close>

lemma record_compacted:
  assumes "\<And>e. e \<in> set (h_deltas hist @ [d]) \<Longrightarrow> full_updates h ipc f0 e = Inr (us e)"
    "decodeFilterDelta ipc d = Inr batch" "applyFilterDelta h f batch = Inr g"
  shows "recordFilterDelta h ipc f hist d = Inr (g, \<lparr>h_deltas = compacted (\<lambda>e. keys_of (us e)) (h_deltas hist @ [d]) (wanted_keys g),
    h_order = map fp_id (predicates g)\<rparr>)"
proof -
  let ?ks = "\<lambda>e. keys_of (us e)"
  have keys: "\<exists>b. decodeFilterDelta ipc e = Inr b \<and> deltaRevisionKeys h b = Inr (?ks e)" if "e \<in> set (h_deltas hist @ [d])" for e
  proof -
    from full_updates_facts [OF assms(1) [OF that]] obtain b where b: "decodeFilterDelta ipc e = Inr b" by metis
    with full_updates_keys [OF assms(1) [OF that] b] show ?thesis by blast
  qed
  have k: "deltaRevisionKeys h batch = Inr (?ks d)" using keys [of d] assms(2) by auto
  have "consider_all h ipc (h_deltas hist) (wanted_keys g, []) =
      Inr (filter (\<lambda>k. \<forall>d\<in>set (h_deltas hist). k \<notin> set (?ks d)) (wanted_keys g), [] @ compacted ?ks (h_deltas hist) (wanted_keys g))"
    using keys by (intro consider_all_compacted) simp
  with assms(2,3) consider_delta_keys [OF k] show ?thesis
    unfolding recordFilterDelta_def compacted_snoc by simp
qed

section \<open>Streams that differ only in how revisions are listed\<close>

definition similar :: "PushdownFilters \<Rightarrow> PushdownFilters \<Rightarrow> bool" where
  "similar f g \<longleftrightarrow> same_scan f g \<and> predicates f = predicates g \<and> (\<forall>i. jm_get (revisions f) i = jm_get (revisions g) i)"

lemma similar_apply:
  assumes "similar f g" "filters_ok f" "filters_ok g" "applyFilterDelta h f batch = Inr f'"
  obtains g' where "applyFilterDelta h g batch = Inr g'" "similar f' g'"
proof -
  from assms(4) obtain P where P: "new_FilterParser h batch (options f) = Inr P" "parse_delta P f = Inr f'"
    by (auto simp: applyFilterDelta_def result_simps)
  obtain us entries where d: "p_context P = evaluationContext f" "parser_header P ''delta'' ''updates'' = Inr entries"
      "parse_updates P f entries [] 0 = Inr us" "card (set (map fst (revisions f)) \<union> set (map fst us)) \<le> MAX_PREDICATE_IDS"
      "predicates f' = map snd (fold (\<lambda>(k, w). case w of None \<Rightarrow> jm_del k | Some v \<Rightarrow> jm_set k v) (map (\<lambda>(i, r, p). (i, p)) us) (live_map f))"
      "delta_step P f us f'"
    by (rule parse_delta_step [OF P(2) assms(2)], rule that) assumption+
  have st: "is_stale g i r = is_stale f i r" for i r using assms(1) by (simp add: is_stale_def similar_def)
  have uh: "update_header g seen e = update_header f seen e" for seen e
    using assms(1) by (intro update_header_required) (simp add: similar_def same_scan_def)
  have pu: "parse_updates P g es seen n = parse_updates P f es seen n" for es seen n
    by (induction es arbitrary: seen n) (simp_all add: st uh cong: if_cong)
  have keys: "set (map fst (revisions g)) = set (map fst (revisions f))"
    using assms(1) by (intro set_eqI) (simp add: jm_get_keys [symmetric] similar_def del: set_map not_None_eq)
  have "\<exists>g'. parse_delta P g = Inr g'"
    using assms(1) d(1-4) keys by (simp add: parse_delta_def pu similar_def same_scan_def case_prod_beta not_less del: set_map)
  then obtain g' where g': "parse_delta P g = Inr g'" ..
  obtain us' entries' where e: "parser_header P ''delta'' ''updates'' = Inr entries'" "parse_updates P g entries' [] 0 = Inr us'"
      "predicates g' = map snd (fold (\<lambda>(k, w). case w of None \<Rightarrow> jm_del k | Some v \<Rightarrow> jm_set k v) (map (\<lambda>(i, r, p). (i, p)) us') (live_map g))"
      "delta_step P g us' g'"
    by (rule parse_delta_step [OF g' assms(3)], rule that) assumption+
  have us: "us' = us" using d(2,3) e(1,2) by (simp add: pu)
  have "live_map g = live_map f" using assms(1) by (simp add: live_map_def similar_def)
  with d(5) e(3) us have "predicates f' = predicates g'" by simp
  moreover have "jm_get (revisions f') i = jm_get (revisions g') i" for i
    using d(6) e(4) us assms(1) by (cases "update_revision us i") (simp_all add: delta_step_def similar_def)
  moreover have "same_scan f' g'" using d(6) e(4) assms(1) by (simp add: delta_step_def similar_def same_scan_def)
  moreover have "applyFilterDelta h g batch = Inr g'" using P(1) g' assms(1) by (simp add: applyFilterDelta_def similar_def same_scan_def)
  ultimately show thesis using that by (simp add: similar_def)
qed

lemma similar_id_state: "similar f g \<Longrightarrow> id_state f i = id_state g i"
  by (simp add: similar_def id_state_def live_map_def)

lemma similar_of_id_state:
  assumes "\<And>i. id_state f i = id_state g i" "filters_ok f" "filters_ok g"
  shows "\<And>i. jm_get (revisions f) i = jm_get (revisions g) i" "set (predicates f) = set (predicates g)"
proof -
  show r: "jm_get (revisions f) i = jm_get (revisions g) i" for i
    using assms(1) [of i] by (cases "jm_get (revisions f) i"; cases "jm_get (revisions g) i") (simp_all add: id_state_def)
  have l: "jm_get (live_map f) i = jm_get (live_map g) i" for i
  proof (cases "jm_get (revisions f) i")
    case None
    with r live_recorded [OF assms(2)] live_recorded [OF assms(3)] show ?thesis by simp
  next
    case (Some x)
    moreover have "jm_get (revisions g) i = Some x" using Some r [of i] by simp
    ultimately show ?thesis using assms(1) [of i] by (simp add: id_state_def)
  qed
  have "p \<in> set (predicates f) \<longleftrightarrow> p \<in> set (predicates g)" for p
    using live_map_get [of f "fp_id p" p] live_map_get [of g "fp_id p" p] l [of "fp_id p"] assms(2,3)
    by (simp add: filters_ok_def)
  then show "set (predicates f) = set (predicates g)" by blast
qed

lemma restore_order:
  assumes "set (predicates g) = set (predicates f)" "distinct (map fp_id (predicates f))" "distinct (map fp_id (predicates g))"
  obtains g' where "withPredicateOrder g (map fp_id (predicates f)) = Inr g'" "predicates g' = predicates f"
    "revisions g' = revisions g" "same_scan g g'"
proof (cases "map fp_id (predicates g) = map fp_id (predicates f)")
  case True
  have "inj_on fp_id (set (predicates g) \<union> set (predicates f))" using assms(1,2) by (simp add: distinct_map)
  then have "predicates g = predicates f" by (rule map_inj_on [OF True])
  with True that [of g] show thesis by (simp add: withPredicateOrder_def same_scan_def)
next
  case False
  let ?es = "map (\<lambda>p. (fp_id p, p)) (predicates g)"
  have of: "jm_of ?es = ?es" using assms(3) by (intro jm_of_distinct) (simp add: o_def)
  have get: "jm_get ?es (fp_id p) = Some p" if "p \<in> set (predicates g)" for p
    using that assms(3) by (subst jm_get_mem) (auto simp: jm_ok_def o_def)
  have len: "length (predicates f) = length (predicates g)"
    using assms by (metis distinct_card distinct_map)
  have has: "list_all (jm_has ?es) (map fp_id (predicates f))"
    using assms(1) get by (auto simp: list_all_iff jm_has_iff)
  have m: "map (\<lambda>k. the (jm_get ?es k)) (map fp_id (predicates f)) = predicates f"
    using assms(1) get by (auto intro!: map_idI)
  have "withPredicateOrder g (map fp_id (predicates f)) = Inr (g\<lparr>predicates := predicates f\<rparr>)"
    using False assms(2) len has m by (simp add: withPredicateOrder_def of Let_def)
  then show thesis by (rule that) (simp_all add: same_scan_def)
qed

lemma similar_filters_ok:
  assumes "similar f g" "filters_ok f" "jm_ok (revisions g)"
  shows "filters_ok g"
  using assms by (simp add: filters_ok_def similar_def same_scan_def)

lemma similar_trans: "similar f g \<Longrightarrow> similar g k \<Longrightarrow> similar f k"
  by (simp add: similar_def same_scan_def)

section \<open>Turns over a state token\<close>

text \<open>What a tick with a delta changes in the state, given that every update of the delta parses.\<close>

lemma recorded_ids: "i \<in> fst ` set (revisions f) \<longleftrightarrow> id_state f i \<noteq> None"
  using jm_get_keys [of "revisions f" i] by (simp add: id_state_def del: not_None_eq)

lemma delta_effect:
  assumes "full_updates h ipc f0 d = Inr us" "same_scan f0 f" "filters_ok f" "decodeFilterDelta ipc d = Inr batch"
    "applyFilterDelta h f batch = Inr g"
  shows "\<And>i. id_state g i = lww (id_state f i) (id_update us i)" "filters_ok g" "same_scan f0 g"
    "card (fst ` set (revisions g)) \<le> MAX_PREDICATE_IDS" "fst ` set (revisions f) \<union> delta_ids us \<subseteq> fst ` set (revisions g)"
    "(\<And>i. id_state g i = id_state f i) \<Longrightarrow> similar f g"
proof -
  obtain P entries where u: "new_FilterParser h batch (options f0) = Inr P" "parser_header P ''delta'' ''updates'' = Inr entries"
      "parse_updates P (f0\<lparr>revisions := []\<rparr>) entries [] 0 = Inr us"
    by (rule full_updates_facts [OF assms(1)], rule that) (use assms(4) in simp_all)
  note us = full_updates_ok [OF assms(1)]
  have P: "parse_delta P f = Inr g" using assms(2,5) u(1) by (simp add: applyFilterDelta_def same_scan_def)
  let ?us = "filter (\<lambda>(i, r, p). \<not> is_stale f i r) us"
  obtain us' entries' where d: "delta_step P f us' g" "parser_header P ''delta'' ''updates'' = Inr entries'"
      "parse_updates P f entries' [] 0 = Inr us'" "card (set (map fst (revisions f)) \<union> set (map fst us')) \<le> MAX_PREDICATE_IDS"
      "predicates g = map snd (fold (\<lambda>(k, w). case w of None \<Rightarrow> jm_del k | Some v \<Rightarrow> jm_set k v) (map (\<lambda>(i, r, p). (i, p)) us') (live_map f))"
      "revisions g = fold (\<lambda>(k, v). jm_set k v) (map (\<lambda>(i, r, p). (i, r)) us') (revisions f)"
    by (rule parse_delta_step [OF P assms(3)], rule that) assumption+
  have "parse_updates P f entries [] 0 = Inr ?us"
    using assms(2) by (intro parse_updates_fresh [OF u(3)]) (simp_all add: same_scan_def)
  with u(2) d(2,3) have us': "us' = ?us" by simp
  show st: "id_state g i = lww (id_state f i) (id_update us i)" for i
    using delta_id_state [OF d(1) [unfolded us'] us assms(3)] .
  show "filters_ok g" by (rule delta_filters_ok [OF d(1) assms(3)])
  show "same_scan f0 g" using d(1) assms(2) by (simp add: delta_step_def same_scan_def)
  have "fst ` set (revisions g) \<subseteq> set (map fst (revisions f)) \<union> set (map fst us')"
  proof
    fix i assume "i \<in> fst ` set (revisions g)"
    then have "jm_get (revisions g) i \<noteq> None" using jm_get_keys [of "revisions g" i] by simp
    moreover have "jm_get (revisions g) i = (case update_revision us' i of Some r \<Rightarrow> Some r | None \<Rightarrow> jm_get (revisions f) i)"
      using d(1) by (simp add: delta_step_def)
    ultimately have "update_revision us' i \<noteq> None \<or> jm_get (revisions f) i \<noteq> None" by (auto split: option.splits)
    then show "i \<in> set (map fst (revisions f)) \<union> set (map fst us')"
      using jm_get_keys [of "revisions f" i] by (auto simp: update_None)
  qed
  then show "card (fst ` set (revisions g)) \<le> MAX_PREDICATE_IDS"
    using card_mono [of "set (map fst (revisions f)) \<union> set (map fst us')" "fst ` set (revisions g)"] d(4) by simp
  show "fst ` set (revisions f) \<union> delta_ids us \<subseteq> fst ` set (revisions g)"
  proof
    fix i assume i: "i \<in> fst ` set (revisions f) \<union> delta_ids us"
    show "i \<in> fst ` set (revisions g)"
    proof (cases "id_state f i")
      case None
      with i have "i \<in> fst ` set us" using recorded_ids [of i f] by (simp add: delta_ids_def)
      then obtain w where w: "id_update us i = Some w"
        by (cases "id_update us i") (auto simp: id_update_def map_of_eq_None_iff)
      then obtain r p where "w = (r, p)" "(i, r, p) \<in> set us" by (cases w) (auto simp: id_update_def dest: map_of_SomeD)
      with us(2) w None have "id_state g i = Some (r, p)" by (simp add: st lww_def) (metis less_le_trans neg_less_0_iff_less zero_less_one)
      then show ?thesis by (simp add: recorded_ids)
    next
      case (Some c)
      then have "id_state g i \<noteq> None" using id_state_rev_ge [OF assms(3), of i] by (cases "id_update us i") (auto simp: st lww_def)
      then show ?thesis by (simp add: recorded_ids)
    qed
  qed
  show "similar f g" if same: "\<And>i. id_state g i = id_state f i"
  proof -
    have "us' = []"
    proof (rule ccontr)
      assume "us' \<noteq> []"
      then obtain i r p where m: "(i, r, p) \<in> set us'" by (cases us') auto
      then have "\<not> is_stale f i r" by (simp add: us')
      moreover have "is_stale g i r" by (rule delta_update_stale [OF d(1) m])
      ultimately show False using same by (simp add: is_stale_iff)
    qed
    with d(1,5,6) show ?thesis by (simp add: similar_def same_scan_def delta_step_def live_map_def o_def)
  qed
qed

text \<open>
  What links the filters \<open>f\<close> of a stream in memory, after the deltas \<open>ds\<close> over the snapshot \<open>f0\<close>,
  to the history in its token.
\<close>

definition tracks :: "PushdownFilters \<Rightarrow> (bytes \<Rightarrow> filter_update list) \<Rightarrow> bytes list \<Rightarrow> PushdownFilters \<Rightarrow> FilterDeltaHistory \<Rightarrow> bool" where
  "tracks f0 us ds f hist \<longleftrightarrow> filters_ok f \<and> same_scan f0 f \<and> set (h_deltas hist) \<subseteq> set ds \<and>
     (\<forall>i. id_state f i = foldl lww (id_state f0 i) (map (\<lambda>d. id_update (us d) i) (h_deltas hist))) \<and>
     (h_deltas hist \<noteq> [] \<longrightarrow> h_order hist = map fp_id (predicates f)) \<and>
     ((\<forall>i. id_state f i = id_state f0 i) \<longrightarrow> similar f0 f) \<and>
     (ds \<noteq> [] \<longrightarrow> card (fst ` set (revisions f)) \<le> MAX_PREDICATE_IDS) \<and>
     fst ` set (revisions f0) \<union> (\<Union>d\<in>set ds. delta_ids (us d)) \<subseteq> fst ` set (revisions f)"

lemma tracks_start: "filters_ok f0 \<Longrightarrow> tracks f0 us [] f0 EMPTY_FILTER_HISTORY"
  by (simp add: tracks_def EMPTY_FILTER_HISTORY_def same_scan_def similar_def)

lemma tracks_replay:
  assumes "tracks f0 us ds f hist" "filters_ok f0" "\<And>d. d \<in> set ds \<Longrightarrow> full_updates h ipc f0 d = Inr (us d)"
  obtains g where "replayFilterHistory h ipc (Some f0) (Some hist) = Inr (Some g)" "similar f g" "filters_ok g"
proof (cases "h_deltas hist = []")
  case True
  then have "similar f0 f" using assms(1) by (simp add: tracks_def)
  then have "similar f f0" by (simp add: similar_def same_scan_def)
  then show thesis using that [of f0] assms(2) True by (simp add: replayFilterHistory_def)
next
  case False
  note t = assms(1) [unfolded tracks_def]
  have f: "filters_ok f" using t by simp
  have ds: "ds \<noteq> []" using t False by auto
  have d: "full_updates h ipc f0 d = Inr (us d) \<and> delta_ids (us d) \<subseteq> fst ` set (revisions f)" if "d \<in> set (h_deltas hist)" for d
  proof -
    have "d \<in> set ds" using that t by blast
    moreover have "(\<Union>d\<in>set ds. delta_ids (us d)) \<subseteq> fst ` set (revisions f)" using t by simp
    ultimately show ?thesis using assms(3) by blast
  qed
  have "\<exists>g'. replay_deltas h ipc (h_deltas hist) f0 = Inr g' \<and> same_scan f0 g' \<and> filters_ok g' \<and>
      (\<forall>i. id_state g' i = foldl lww (id_state f0 i) (map (\<lambda>d. id_update (us d) i) (h_deltas hist)))"
    using d t ds assms(2) by (intro replay_full [where S = "fst ` set (revisions f)"]) (auto simp: same_scan_def)
  then obtain g where g: "replay_deltas h ipc (h_deltas hist) f0 = Inr g" "same_scan f0 g" "filters_ok g" "\<And>i. id_state g i = id_state f i"
    using t by auto
  note sim = similar_of_id_state [OF g(4) g(3) f]
  obtain g' where g': "withPredicateOrder g (map fp_id (predicates f)) = Inr g'" "predicates g' = predicates f"
      "revisions g' = revisions g" "same_scan g g'"
    by (rule restore_order [OF sim(2)]) (use f g(3) in \<open>simp_all add: filters_ok_def\<close>)
  have s: "similar f g'" using g'(2-4) sim(1) g(2) t by (simp add: similar_def same_scan_def)
  have "filters_ok g'" by (rule similar_filters_ok [OF s f]) (use g'(3) g(3) in \<open>simp add: filters_ok_def\<close>)
  with s g(1) g'(1) False t that show thesis by (simp add: replayFilterHistory_def)
qed

lemma tracks_step:
  assumes "tracks f0 us ds f hist" "\<And>e. e \<in> set (d # ds) \<Longrightarrow> full_updates h ipc f0 e = Inr (us e)"
    "similar f g" "filters_ok g" "decodeFilterDelta ipc d = Inr batch" "applyFilterDelta h f batch = Inr f'" "filters_ok f0"
  obtains g' hist' where "recordFilterDelta h ipc g hist d = Inr (g', hist')" "tracks f0 us (ds @ [d]) f' hist'"
proof -
  note t = assms(1) [unfolded tracks_def]
  have f: "filters_ok f" "same_scan f0 f" and past: "set (h_deltas hist) \<subseteq> set ds"
    and st: "\<And>i. id_state f i = foldl lww (id_state f0 i) (map (\<lambda>d. id_update (us d) i) (h_deltas hist))"
    and still: "(\<And>i. id_state f i = id_state f0 i) \<Longrightarrow> similar f0 f" using t by simp_all
  have ud: "full_updates h ipc f0 d = Inr (us d)" using assms(2) by simp
  note e = delta_effect [OF ud f(2,1) assms(5,6)]
  obtain g' where g': "applyFilterDelta h g batch = Inr g'" "similar f' g'"
    by (rule similar_apply [OF assms(3) f(1) assms(4,6)])
  let ?ks = "\<lambda>e. keys_of (us e)"
  let ?ds = "h_deltas hist @ [d]"
  define hist' where "hist' = \<lparr>h_deltas = compacted ?ks ?ds (wanted_keys g'), h_order = map fp_id (predicates g')\<rparr>"
  have rec: "recordFilterDelta h ipc g hist d = Inr (g', hist')"
    unfolding hist'_def using past assms(2) by (intro record_compacted [OF _ assms(5) g'(1)]) auto
  have sub: "set (h_deltas hist') \<subseteq> set (ds @ [d])"
    using compact_subset [of ?ks ?ds "wanted_keys g'"] past by (auto simp: hist'_def)
  have whole: "id_state f' i = foldl lww (id_state f0 i) (map (\<lambda>d. id_update (us d) i) ?ds)" for i
    by (simp add: e(1) st)
  have same: "id_state f' i = foldl lww (id_state f0 i) (map (\<lambda>d. id_update (us d) i) (h_deltas hist'))" for i
  proof -
    let ?R = "id_rev (foldl lww (id_state f0 i) (map (\<lambda>d. id_update (us d) i) ?ds))"
    have "foldl lww (id_state f0 i) (map (\<lambda>d. id_update (us d) i) (compacted ?ks ?ds (wanted_keys g'))) =
        foldl lww (id_state f0 i) (map (\<lambda>d. id_update (us d) i) ?ds)"
    proof (rule compact_lww [where key = "revisionKey i (int_to_string ?R)"])
      fix e assume up: "id_rev (id_state f0 i) < ?R" and "e \<in> set ?ds"
      then have "full_updates h ipc f0 e = Inr (us e)" using past assms(2) by auto
      note ok = full_updates_ok [OF this]
      have nn: "0 \<le> ?R" using up id_state_rev_ge [OF assms(7), of i] by linarith
      show "revisionKey i (int_to_string ?R) \<in> set (?ks e) \<longleftrightarrow> id_rev (id_update (us e) i) = ?R"
        by (rule keys_of_mem [OF ok(1) _ nn]) (rule ok(2))
    next
      assume up: "id_rev (id_state f0 i) < ?R"
      then obtain c where c: "id_state f' i = Some (?R, c)"
        using id_state_rev_ge [OF assms(7), of i] unfolding whole [of i, symmetric] by (cases "id_state f' i") (auto simp: id_rev_def split: option.splits)
      then have "jm_get (revisions g') i = Some ?R" unfolding similar_id_state [OF g'(2)] by (rule id_state_Some)
      then have "(i, ?R) \<in> set (revisions g')" by (auto simp: jm_get_def dest: map_of_SomeD)
      then show "revisionKey i (int_to_string ?R) \<in> set (wanted_keys g')" by (force simp: wanted_keys_def)
    qed
    then show ?thesis by (simp add: whole hist'_def)
  qed
  have sim: "similar f0 f'" if "\<And>i. id_state f' i = id_state f0 i"
  proof -
    have f0: "id_state f i = id_state f0 i" for i
    proof -
      let ?us = "map (\<lambda>d. id_update (us d) i) (h_deltas hist)"
      have "id_rev (id_state f i) \<le> id_rev (id_state f0 i)" using e(1) [of i] that [of i] by (simp add: lww_def split: if_splits)
      then have "foldl lww (id_state f0 i) ?us = id_state f0 i"
        using foldl_lww_bound [of _ ?us "id_state f0 i"] by (intro foldl_lww_keep) (force simp: st)
      then show ?thesis by (simp add: st)
    qed
    have "similar f0 f" using f0 by (rule still)
    moreover have "similar f f'" using f0 that by (intro e(6)) simp
    ultimately show ?thesis by (rule similar_trans)
  qed
  have ids: "fst ` set (revisions f0) \<union> (\<Union>d\<in>set (ds @ [d]). delta_ids (us d)) \<subseteq> fst ` set (revisions f')"
  proof -
    have a: "fst ` set (revisions f0) \<subseteq> fst ` set (revisions f)" "(\<Union>d\<in>set ds. delta_ids (us d)) \<subseteq> fst ` set (revisions f)"
      using t by simp_all
    have k: "fst ` set (revisions f) \<subseteq> fst ` set (revisions f')" "delta_ids (us d) \<subseteq> fst ` set (revisions f')"
      using e(5) by simp_all
    have eq: "(\<Union>d\<in>set (ds @ [d]). delta_ids (us d)) = (\<Union>d\<in>set ds. delta_ids (us d)) \<union> delta_ids (us d)"
      by (simp add: Un_commute)
    show ?thesis unfolding eq
      by (intro Un_least order_trans [OF a(1) k(1)] order_trans [OF a(2) k(1)] k(2))
  qed
  have order: "h_order hist' = map fp_id (predicates f')" using g'(2) by (simp add: hist'_def similar_def)
  have "tracks f0 us (ds @ [d]) f' hist'"
    unfolding tracks_def by (intro conjI allI impI e(2,3,4) sub same sim ids order) simp
  with rec that show thesis by blast
qed

text \<open>
  A turn of an HTTP stream: the filters are rebuilt from the snapshot and the token's history, and
  the tick's delta is recorded.
\<close>

definition http_turn :: "host \<Rightarrow> ipc_reader \<Rightarrow> PushdownFilters \<Rightarrow> FilterDeltaHistory \<Rightarrow> bytes \<Rightarrow> FilterDeltaHistory fresult" where
  "http_turn h ipc f0 hist d = rbind (replayFilterHistory h ipc (Some f0) (Some hist)) (\<lambda>g.
     case g of None \<Rightarrow> js_fail ''no filters''
     | Some g \<Rightarrow> rbind (recordFilterDelta h ipc g hist d) (\<lambda>(_, hist'). Inr hist'))"

fun http_turns :: "host \<Rightarrow> ipc_reader \<Rightarrow> PushdownFilters \<Rightarrow> FilterDeltaHistory \<Rightarrow> bytes list \<Rightarrow> FilterDeltaHistory fresult" where
  "http_turns h ipc f0 hist [] = Inr hist"
| "http_turns h ipc f0 hist (d # ds) = rbind (http_turn h ipc f0 hist d) (\<lambda>hist'. http_turns h ipc f0 hist' ds)"

lemma tracks_turns:
  assumes "tracks f0 us past f hist" "\<And>e. e \<in> set (past @ ds) \<Longrightarrow> full_updates h ipc f0 e = Inr (us e)"
    "replay_deltas h ipc ds f = Inr f'" "filters_ok f0"
  shows "\<exists>hist'. http_turns h ipc f0 hist ds = Inr hist' \<and> tracks f0 us (past @ ds) f' hist'"
  using assms(1,2,3)
proof (induction ds arbitrary: past f hist)
  case Nil
  then show ?case by simp
next
  case (Cons d ds)
  from Cons.prems(3) obtain batch f1 where d: "decodeFilterDelta ipc d = Inr batch" "applyFilterDelta h f batch = Inr f1"
      "replay_deltas h ipc ds f1 = Inr f'"
    by (auto simp: result_simps)
  obtain g where g: "replayFilterHistory h ipc (Some f0) (Some hist) = Inr (Some g)" "similar f g" "filters_ok g"
    by (rule tracks_replay [OF Cons.prems(1) assms(4), of h ipc]) (use Cons.prems(2) in auto)
  obtain g' hist1 where r: "recordFilterDelta h ipc g hist d = Inr (g', hist1)" "tracks f0 us (past @ [d]) f1 hist1"
    by (rule tracks_step [OF Cons.prems(1) _ g(2,3) d(1,2) assms(4)]) (use Cons.prems(2) in auto)
  have "\<exists>hist'. http_turns h ipc f0 hist1 ds = Inr hist' \<and> tracks f0 us ((past @ [d]) @ ds) f' hist'"
    by (rule Cons.IH [OF r(2) _ d(3)]) (use Cons.prems(2) in auto)
  with g(1) r(1) show ?case by (simp add: http_turn_def)
qed

section \<open>What the history promises\<close>

definition numbered_ipc :: "vgi_batch list \<Rightarrow> ipc_reader" where
  "numbered_ipc batches bs = (case bs of [b] \<Rightarrow> if unat b < length batches then Inr (batches ! unat b) else js_fail ''no batch''
     | _ \<Rightarrow> js_fail ''no batch'')"

definition second_delta :: vgi_batch where
  "second_delta = filter_batch (''{~encoding~:~vgi.filters.v2~,~semantics~:~vgi.duckdb.standard.v1~,~kind~:~delta~,~updates~:['' @
     ''{~operation~:~upsert~,~id~:~b~,~revision~:3,~mode~:~advisory~,~source~:~top_n~,~expression~:'' @
     ''{~node~:~column_ref~,~column_index~:1,~column_name~:~flag~}}]}'')"

definition sample_ipc :: ipc_reader where
  "sample_ipc = numbered_ipc [sample_delta, second_delta]"

definition final_filters :: PushdownFilters where
  "final_filters = updated_filters\<lparr>predicates := predicates updated_filters @
       [\<lparr>fp_id = ''b'', fp_revision = 3, fp_mode = Advisory, fp_source = SrcTopN, fp_expression = sample_flag\<rparr>],
     revisions := [(''a'', 0), (''b'', 3), (''c'', 1)]\<rparr>"

lemma sample_stream: "replay_deltas decimal_host sample_ipc [[0], [1]] initial_filters = Inr final_filters"
  by code_simp

lemma sample_full:
  "(case full_updates decimal_host sample_ipc initial_filters [0] of Inr _ \<Rightarrow> True | Inl _ \<Rightarrow> False)"
  "(case full_updates decimal_host sample_ipc initial_filters [1] of Inr _ \<Rightarrow> True | Inl _ \<Rightarrow> False)"
  by code_simp+



text \<open>
  C39: the history in the token stays small.  Recording a delta keeps at most one delta per id on
  record, whatever the number of ticks, and at most 4,096.
\<close>

theorem history_bounded:
  assumes "recordFilterDelta h ipc f hist d = Inr (g, hist')" "filters_ok f"
  shows "length (h_deltas hist') \<le> length (revisions g) \<and> length (h_deltas hist') \<le> 4096"
  using record_bounded [OF assms] by (simp add: MAX_PREDICATE_IDS_def)

lemma sample_record:
  "recordFilterDelta decimal_host sample_ipc initial_filters EMPTY_FILTER_HISTORY [0] =
   Inr (updated_filters, \<lparr>h_deltas = [[0]], h_order = [''a'', ''c'']\<rparr>)"
  by code_simp

lemma history_bounded_witness: "length [[0 :: byte]] \<le> length (revisions updated_filters)"
  using history_bounded [OF sample_record sample_filters_ok] by simp

text \<open>
  C38: a history survives the state token: whatever the encoder writes, the decoder reads back, for
  counts and lengths that fit the 32-bit length words.
\<close>

theorem history_codec_roundtrip:
  assumes "encodeFilterHistory (Some hist) = Some bs" "chunks_ok (h_deltas hist)" "chunks_ok (map utf8 (h_order hist))"
  shows "decodeFilterHistory (Some bs) = Inr hist"
  using assms by (rule decode_encode_history)

lemma history_codec_roundtrip_witness:
  "decodeFilterHistory (Some ([1, 1, 0, 0, 0, 2, 0, 0, 0, 7, 8, 1, 0, 0, 0, 1, 0, 0, 0, 97])) = Inr \<lparr>h_deltas = [[7, 8]], h_order = [''a'']\<rparr>"
proof (rule history_codec_roundtrip)
  show "encodeFilterHistory (Some \<lparr>h_deltas = [[7, 8]], h_order = [''a'']\<rparr>) =
      Some [1, 1, 0, 0, 0, 2, 0, 0, 0, 7, 8, 1, 0, 0, 0, 1, 0, 0, 0, 97]"
    by code_simp
qed (simp_all add: chunks_ok_def, code_simp)

section \<open>A stale update is not always stale on replay\<close>

text \<open>
  The first delta sets \<open>x\<close> at revision 5; the second carries a malformed update of \<open>x\<close> at revision 3,
  which is stale and therefore not parsed, beside an update of \<open>y\<close>; the third sets \<open>x\<close> at revision 6.
  The compacted history drops the first delta, and the replay, no longer finding the second one's
  update stale, refuses it.
\<close>

definition x_update :: "string \<Rightarrow> string \<Rightarrow> string \<Rightarrow> string" where
  "x_update i r node = ''{~operation~:~upsert~,~id~:~'' @ i @ ''~,~revision~:'' @ r @
     '',~mode~:~advisory~,~source~:~top_n~,~expression~:{~node~:~'' @ node @ ''~,~column_index~:1,~column_name~:~flag~}}''"

definition x_delta :: "string \<Rightarrow> vgi_batch" where
  "x_delta us = filter_batch (''{~encoding~:~vgi.filters.v2~,~semantics~:~vgi.duckdb.standard.v1~,~kind~:~delta~,~updates~:['' @ us @ '']}'')"

definition stale_ipc :: ipc_reader where
  "stale_ipc = numbered_ipc [x_delta (x_update ''x'' ''5'' ''column_ref''),
     x_delta (x_update ''x'' ''3'' ''unknown'' @ '','' @ x_update ''y'' ''1'' ''column_ref''), x_delta (x_update ''x'' ''6'' ''column_ref'')]"

lemma stale_update_recorded:
  "http_turn decimal_host stale_ipc initial_filters \<lparr>h_deltas = [[0], [1]], h_order = [''a'', ''b'', ''x'', ''y'']\<rparr> [2] =
   Inr \<lparr>h_deltas = [[1], [2]], h_order = [''a'', ''b'', ''x'', ''y'']\<rparr>"
  by code_simp

lemma stale_update_breaks_replay:
  "replayFilterHistory decimal_host stale_ipc (Some initial_filters) (Some \<lparr>h_deltas = [[1], [2]], h_order = [''a'', ''b'', ''x'', ''y'']\<rparr>) =
   fail_filter ''unknown expression node''"
  by code_simp

end
