(* ===== verification/Crypto.thy ===== *)
theory Crypto
  imports Prelude
begin

text \<open>
  The authenticated envelopes of \<open>src/crypto.ts\<close>: the identity part of the
  associated data, the attach and transaction AADs, and sealing and opening.

  The cipher (\<open>xchacha20poly1305\<close> of \<open>@noble/ciphers\<close>) and Web Crypto's SHA-256 are
  code outside the repository: they are the fields of a record of primitives, and what
  the code relies on is the predicate \<open>aead_laws\<close>.
\<close>

text \<open>The three fields of vgi-rpc's \<open>AuthContext\<close> that the code reads.\<close>

record auth_context =
  authenticated :: bool
  domain :: "string option"
  principal :: "string option"

record crypto_prims =
  sha256 :: "bytes \<Rightarrow> bytes"
  aead_encrypt :: "bytes \<Rightarrow> bytes \<Rightarrow> bytes \<Rightarrow> bytes \<Rightarrow> bytes"
  aead_decrypt :: "bytes \<Rightarrow> bytes \<Rightarrow> bytes \<Rightarrow> bytes \<Rightarrow> bytes option"

text \<open>
  Documented behaviour of the AEAD: decryption inverts encryption under the same key,
  nonce and associated data, a ciphertext is the plaintext plus a 16-byte tag, and a
  ciphertext that verifies is the one encryption makes (the stream cipher and the tag
  are functions of key, nonce, associated data and plaintext).
\<close>

definition aead_laws :: "crypto_prims \<Rightarrow> bool" where
  "aead_laws P \<longleftrightarrow>
     (\<forall>k n a p. aead_decrypt P k n a (aead_encrypt P k n a p) = Some p) \<and>
     (\<forall>k n a p. length (aead_encrypt P k n a p) = length p + 16) \<and>
     (\<forall>k n a c p. aead_decrypt P k n a c = Some p \<longrightarrow> c = aead_encrypt P k n a p)"

definition ATTACH_ENVELOPE_VERSION :: nat where "ATTACH_ENVELOPE_VERSION = 2"
definition TRANSACTION_ENVELOPE_VERSION :: nat where "TRANSACTION_ENVELOPE_VERSION = 2"
definition NONCE_LEN :: nat where "NONCE_LEN = 24"
definition TAG_LEN :: nat where "TAG_LEN = 16"
definition MIN_ENVELOPE_LEN :: nat where "MIN_ENVELOPE_LEN = 1 + NONCE_LEN + TAG_LEN"

definition ATTACH_AAD_PREFIX :: bytes where
  "ATTACH_AAD_PREFIX = utf8 (''vgi.attach_opaque_data.v1'' @ [CHR 0x00])"

definition TRANSACTION_AAD_PREFIX :: bytes where
  "TRANSACTION_AAD_PREFIX = utf8 (''vgi.transaction_opaque_data.v1'' @ [CHR 0x00])"

datatype crypto_error = OpaqueDataRejectedError string | NonceLengthError

definition normalizeKey :: "crypto_prims \<Rightarrow> bytes \<Rightarrow> bytes" where
  "normalizeKey P key = (if length key = 32 then key else sha256 P key)"

definition or_empty :: "string option \<Rightarrow> string" where
  "or_empty s = (case s of None \<Rightarrow> [] | Some t \<Rightarrow> t)"

definition identityTail :: "auth_context option \<Rightarrow> bytes" where
  "identityTail auth = (case auth of
     None \<Rightarrow> utf8 (CHR 0x00 # ''anonymous'')
   | Some a \<Rightarrow>
       if \<not> authenticated a then utf8 (CHR 0x00 # ''anonymous'')
       else [1] @ utf8 (or_empty (domain a)) @ [0] @ utf8 (or_empty (principal a)))"

definition attachAad :: "auth_context option \<Rightarrow> bytes" where
  "attachAad auth = ATTACH_AAD_PREFIX @ identityTail auth"

definition transactionAad :: "auth_context option \<Rightarrow> bytes \<Rightarrow> bytes" where
  "transactionAad auth attachEnvelope =
     TRANSACTION_AAD_PREFIX @ identityTail auth @ [0] @ attachEnvelope"

text \<open>The random nonce of \<open>crypto.getRandomValues\<close> is the argument \<open>rnd\<close>.\<close>

definition sealBytes ::
  "crypto_prims \<Rightarrow> bytes \<Rightarrow> bytes \<Rightarrow> bytes \<Rightarrow> nat \<Rightarrow> bytes option \<Rightarrow> bytes \<Rightarrow> crypto_error + bytes" where
  "sealBytes P payload key aad version fixedNonce rnd =
     (case fixedNonce of
        Some n \<Rightarrow> if length n \<noteq> NONCE_LEN then Inl NonceLengthError
          else Inr ([word_of_nat (version mod 256)] @ n @ aead_encrypt P (normalizeKey P key) n aad payload)
      | None \<Rightarrow> Inr ([word_of_nat (version mod 256)] @ rnd @ aead_encrypt P (normalizeKey P key) rnd aad payload))"

definition openBytes ::
  "crypto_prims \<Rightarrow> bytes \<Rightarrow> bytes \<Rightarrow> bytes \<Rightarrow> nat \<Rightarrow> string \<Rightarrow> crypto_error + bytes" where
  "openBytes P token key aad version field =
     (if length token < MIN_ENVELOPE_LEN \<or> token ! 0 \<noteq> word_of_nat (version mod 256)
      then Inl (OpaqueDataRejectedError field)
      else
        let nonce = take NONCE_LEN (drop 1 token);
            ciphertext = drop (1 + NONCE_LEN) token
        in (case aead_decrypt P (normalizeKey P key) nonce aad ciphertext of
              None \<Rightarrow> Inl (OpaqueDataRejectedError field)
            | Some p \<Rightarrow> Inr p))"

section \<open>Sealing and opening\<close>

lemmas envelope_consts = NONCE_LEN_def TAG_LEN_def MIN_ENVELOPE_LEN_def

lemma aead_lawsD:
  assumes "aead_laws P"
  shows "aead_decrypt P k n a (aead_encrypt P k n a p) = Some p"
    and "length (aead_encrypt P k n a p) = length p + 16"
    and "aead_decrypt P k n a c = Some p \<Longrightarrow> c = aead_encrypt P k n a p"
  using assms by (auto simp: aead_laws_def)

lemma sealBytes_random:
  "sealBytes P payload key aad version None rnd =
     Inr ([word_of_nat (version mod 256)] @ rnd @ aead_encrypt P (normalizeKey P key) rnd aad payload)"
  by (simp add: sealBytes_def)

lemma openBytes_sealBytes:
  assumes "aead_laws P" "length rnd = NONCE_LEN"
    "sealBytes P payload key aad version None rnd = Inr token"
  shows "openBytes P token key aad version field = Inr payload"
  using assms(2,3)
  by (auto simp: sealBytes_random openBytes_def envelope_consts aead_lawsD [OF assms(1)])

text \<open>Nothing opens but what sealing with the same key and associated data makes.\<close>

lemma openBytes_only_sealed:
  assumes "aead_laws P" "openBytes P token key aad version field = Inr p"
  shows "\<exists>nonce. length nonce = NONCE_LEN \<and> sealBytes P p key aad version None nonce = Inr token"
proof -
  let ?n = "take NONCE_LEN (drop 1 token)" and ?c = "drop (1 + NONCE_LEN) token"
  from assms(2) have len: "MIN_ENVELOPE_LEN \<le> length token"
    and v: "token ! 0 = word_of_nat (version mod 256)"
    and d: "aead_decrypt P (normalizeKey P key) ?n aad ?c = Some p"
    by (auto simp: openBytes_def Let_def split: if_splits option.splits)
  from aead_lawsD(3) [OF assms(1) d] have c: "?c = aead_encrypt P (normalizeKey P key) ?n aad p" .
  from len have "token = [token ! 0] @ ?n @ ?c"
    by (cases token) (simp_all add: envelope_consts)
  with v c have "sealBytes P p key aad version None ?n = Inr token"
    by (simp add: sealBytes_random)
  moreover from len have "length ?n = NONCE_LEN" by (simp add: envelope_consts)
  ultimately show ?thesis by blast
qed

lemma openBytes_error:
  "openBytes P token key aad version field = Inl e \<Longrightarrow> e = OpaqueDataRejectedError field"
  by (auto simp: openBytes_def Let_def split: if_splits option.splits)

section \<open>What an identity tail tells apart\<close>

lemma split_at_first_zero:
  assumes "xs @ (0 :: byte) # ys = xs' @ 0 # ys'" "0 \<notin> set xs" "0 \<notin> set xs'"
  shows "xs = xs' \<and> ys = ys'"
  using assms
proof (induction xs arbitrary: xs')
  case Nil
  then show ?case by (cases xs') auto
next
  case (Cons x xs)
  then show ?case by (cases xs') auto
qed

lemma char_of_0: "char_of (0 :: nat) = CHR 0x00"
  by code_simp

lemma utf8_char_zero: "0 \<in> set (utf8_char c) \<longleftrightarrow> c = CHR 0x00"
proof
  assume z: "0 \<in> set (utf8_char c)"
  show "c = CHR 0x00"
  proof (cases "(of_char c :: nat) < 128")
    case True
    with z have "(of_char c :: nat) = 0" using utf8_char_narrow [of c] by auto
    then show ?thesis by (metis char_of_char char_of_0)
  next
    case False
    then obtain h l where "utf8_char c = [h, l]" "unat h \<noteq> 0" "unat l \<noteq> 0"
      by (rule utf8_char_wide) simp
    with z show ?thesis by auto
  qed
qed (simp add: utf8_char_def)

lemma utf8_zero: "0 \<in> set (utf8 s) \<longleftrightarrow> CHR 0x00 \<in> set s"
  by (induction s) (auto simp: utf8_Cons utf8_char_zero)

text \<open>
  The domain and the principal are joined by a zero byte, so the tail tells two callers
  apart as long as no domain holds a NUL.
\<close>

lemma identityTail_inj:
  assumes "identityTail (Some a) = identityTail (Some b)"
    "authenticated a" "authenticated b"
    "CHR 0x00 \<notin> set (or_empty (domain a))" "CHR 0x00 \<notin> set (or_empty (domain b))"
  shows "or_empty (domain a) = or_empty (domain b) \<and> or_empty (principal a) = or_empty (principal b)"
  using assms split_at_first_zero [of "utf8 (or_empty (domain a))" "utf8 (or_empty (principal a))"
      "utf8 (or_empty (domain b))" "utf8 (or_empty (principal b))"]
  by (auto simp: identityTail_def utf8_zero dest: utf8_inj)

lemma identityTail_anonymous:
  assumes "authenticated a"
  shows "identityTail (Some a) \<noteq> identityTail None"
  using assms by (simp add: identityTail_def utf8_Cons utf8_char_def)

text \<open>
  With a NUL inside a name the boundary moves: two different callers share one tail, and
  so one associated data.
\<close>

lemma identityTail_nul_ambiguous:
  "identityTail (Some \<lparr> authenticated = True, domain = Some (d @ [CHR 0x00] @ e), principal = Some p \<rparr>) =
   identityTail (Some \<lparr> authenticated = True, domain = Some d, principal = Some (e @ [CHR 0x00] @ p) \<rparr>)"
proof -
  have "utf8 [CHR 0x00] = [0]" by code_simp
  then show ?thesis by (simp add: identityTail_def or_empty_def utf8_Cons)
qed

end
