(* ===== verification/SplitToken.thy ===== *)
theory SplitToken
  imports Crypto
begin

text \<open>
  The split-token envelope of \<open>src/split-token.ts\<close>: the fingerprint of a bind, the
  fixed header, stamping a payload (\<open>buildSplitToken\<close>) and redeeming a token
  (\<open>openSplitToken\<close>) with its checks in the order of the code.
\<close>

definition SPLIT_TOKEN_FORMAT_VERSION :: byte where "SPLIT_TOKEN_FORMAT_VERSION = 1"
definition FLAG_PAYLOAD_SEALED :: byte where "FLAG_PAYLOAD_SEALED = 1"
definition RESERVED_FLAGS_MASK :: byte where "RESERVED_FLAGS_MASK = 254"
definition FINGERPRINT_LEN :: nat where "FINGERPRINT_LEN = 16"
definition HEADER_LEN :: nat where "HEADER_LEN = 4 + FINGERPRINT_LEN"
definition SEAL_VERSION :: nat where "SEAL_VERSION = 1"
definition AAD_PREFIX :: bytes where "AAD_PREFIX = utf8 (''vgi.split_token.v1'' @ [CHR 0x00])"

text \<open>The stable error kinds, and the message that goes with each refusal.\<close>

datatype split_kind = SPLIT_TOKEN_INVALID | SPLIT_SNAPSHOT_EXPIRED | SPLIT_TRANSACTION_ENDED

datatype split_message =
    FingerprintLength nat
  | AnchorTooLong nat
  | TokenTooShort nat
  | UnsupportedVersion byte
  | ReservedFlagBits byte
  | UnsealedButKeyed
  | SealedButKeyless
  | TokenTruncated nat nat
  | FingerprintMismatch
  | SnapshotExpired
  | FailedAuthentication crypto_error

datatype split_error = SplitTokenError (kind: split_kind) (message: split_message)

fun equalBytes_from :: "byte \<Rightarrow> bytes \<Rightarrow> bytes \<Rightarrow> byte" where
  "equalBytes_from diff (a # as) (b # bs) = equalBytes_from (diff OR (a XOR b)) as bs"
| "equalBytes_from diff _ _ = diff"

definition equalBytes :: "bytes \<Rightarrow> bytes \<Rightarrow> bool" where
  "equalBytes a b = (if length a \<noteq> length b then False else equalBytes_from 0 a b = 0)"

text \<open>A value the caller expects and the token does not have.\<close>

definition mismatch :: "bytes option \<Rightarrow> bytes \<Rightarrow> bool" where
  "mismatch expected actual = (case expected of None \<Rightarrow> False | Some e \<Rightarrow> \<not> equalBytes actual e)"

text \<open>\<open>bindFingerprint\<close>: the message that is hashed, and the truncated digest.\<close>

definition fp_field :: "string \<Rightarrow> bytes \<Rightarrow> bytes" where
  "fp_field label value = utf8 label @ [0] @ value @ [0]"

definition bindMessage :: "string list \<Rightarrow> string \<Rightarrow> bytes \<Rightarrow> bytes \<Rightarrow> bytes \<Rightarrow> bytes" where
  "bindMessage schemaPath functionName args settings projection =
     AAD_PREFIX
     @ fp_field ''schema_path'' (utf8 (json_string_array schemaPath))
     @ fp_field ''function_name'' (utf8 functionName)
     @ fp_field ''arguments'' args
     @ fp_field ''settings'' settings
     @ fp_field ''projection_ids'' projection"

definition bindFingerprint ::
  "crypto_prims \<Rightarrow> string list \<Rightarrow> string \<Rightarrow> bytes \<Rightarrow> bytes \<Rightarrow> bytes \<Rightarrow> bytes" where
  "bindFingerprint P schemaPath functionName args settings projection =
     take FINGERPRINT_LEN (sha256 P (bindMessage schemaPath functionName args settings projection))"

definition splitTokenAad :: "bytes \<Rightarrow> auth_context option \<Rightarrow> bytes" where
  "splitTokenAad header auth = header @ identityTail auth"

definition splitAnchor :: "int \<Rightarrow> bytes" where
  "splitAnchor catalogVersion = i64_le catalogVersion"

definition split_body :: "bytes \<Rightarrow> bytes \<Rightarrow> bool \<Rightarrow> bytes" where
  "split_body fingerprint anchor sealed =
     [SPLIT_TOKEN_FORMAT_VERSION, if sealed then FLAG_PAYLOAD_SEALED else 0]
     @ le_bytes 2 (length anchor) @ fingerprint @ anchor"

text \<open>\<open>buildSplitToken\<close>; \<open>rnd\<close> is the nonce that sealing draws.\<close>

definition buildSplitToken ::
  "crypto_prims \<Rightarrow> bytes \<Rightarrow> bytes \<Rightarrow> bytes \<Rightarrow> bytes option \<Rightarrow> auth_context option \<Rightarrow> bytes
     \<Rightarrow> split_error + bytes" where
  "buildSplitToken P payload fingerprint anchor signingKey auth rnd =
     (if length fingerprint \<noteq> FINGERPRINT_LEN
      then Inl (SplitTokenError SPLIT_TOKEN_INVALID (FingerprintLength (length fingerprint)))
      else if length anchor > 65535
      then Inl (SplitTokenError SPLIT_TOKEN_INVALID (AnchorTooLong (length anchor)))
      else case signingKey of
          None \<Rightarrow> Inr (split_body fingerprint anchor False @ payload)
        | Some key \<Rightarrow>
            (case sealBytes P payload key (splitTokenAad (split_body fingerprint anchor True) auth)
                    SEAL_VERSION None rnd of
               Inl e \<Rightarrow> Inl (SplitTokenError SPLIT_TOKEN_INVALID (FailedAuthentication e))
             | Inr sealed \<Rightarrow> Inr (split_body fingerprint anchor True @ sealed)))"

text \<open>\<open>openSplitToken\<close>.  A missing option skips its check, as in the code.\<close>

definition openSplitToken ::
  "crypto_prims \<Rightarrow> bytes \<Rightarrow> bytes option \<Rightarrow> auth_context option \<Rightarrow> bytes option \<Rightarrow> bytes option
     \<Rightarrow> split_error + bytes" where
  "openSplitToken P token signingKey auth expectedFingerprint currentAnchor =
     (if length token < HEADER_LEN
      then Inl (SplitTokenError SPLIT_TOKEN_INVALID (TokenTooShort (length token)))
      else let
        version = token ! 0;
        flags = token ! 1;
        anchorLen = le_nat (take 2 (drop 2 token))
      in if version \<noteq> SPLIT_TOKEN_FORMAT_VERSION
      then Inl (SplitTokenError SPLIT_TOKEN_INVALID (UnsupportedVersion version))
      else if flags AND RESERVED_FLAGS_MASK \<noteq> 0
      then Inl (SplitTokenError SPLIT_TOKEN_INVALID (ReservedFlagBits flags))
      else let
        sealed = (flags AND FLAG_PAYLOAD_SEALED \<noteq> 0)
      in if signingKey \<noteq> None \<and> \<not> sealed
      then Inl (SplitTokenError SPLIT_TOKEN_INVALID UnsealedButKeyed)
      else if signingKey = None \<and> sealed
      then Inl (SplitTokenError SPLIT_TOKEN_INVALID SealedButKeyless)
      else let
        endOfAnchor = HEADER_LEN + anchorLen
      in if length token < endOfAnchor
      then Inl (SplitTokenError SPLIT_TOKEN_INVALID (TokenTruncated anchorLen (length token)))
      else let
        fingerprint = take FINGERPRINT_LEN (drop 4 token);
        anchor = take anchorLen (drop HEADER_LEN token);
        body = take endOfAnchor token;
        rest = drop endOfAnchor token
      in if mismatch expectedFingerprint fingerprint
      then Inl (SplitTokenError SPLIT_TOKEN_INVALID FingerprintMismatch)
      else if mismatch currentAnchor anchor
      then Inl (SplitTokenError SPLIT_SNAPSHOT_EXPIRED SnapshotExpired)
      else case signingKey of
          None \<Rightarrow> Inr rest
        | Some key \<Rightarrow>
            (case openBytes P rest key (splitTokenAad body auth) SEAL_VERSION ''split token'' of
               Inl e \<Rightarrow> Inl (SplitTokenError SPLIT_TOKEN_INVALID (FailedAuthentication e))
             | Inr payload \<Rightarrow> Inr payload))"

section \<open>Helper facts\<close>

lemmas split_consts = SPLIT_TOKEN_FORMAT_VERSION_def FLAG_PAYLOAD_SEALED_def
  RESERVED_FLAGS_MASK_def FINGERPRINT_LEN_def HEADER_LEN_def

lemma equalBytes_from_zero:
  "length a = length b \<Longrightarrow> equalBytes_from d a b = 0 \<longleftrightarrow> d = 0 \<and> a = b"
proof (induction d a b rule: equalBytes_from.induct)
  case (1 d a as b bs)
  have "(d OR (a XOR b) = 0) \<longleftrightarrow> d = 0 \<and> a = b"
    by (metis or_eq_0_iff xor_self_eq xor.left_neutral xor.assoc or.right_neutral)
  with 1 show ?case by auto
qed auto

lemma equalBytes_iff [simp]: "equalBytes a b \<longleftrightarrow> a = b"
  by (auto simp: equalBytes_def equalBytes_from_zero)

lemma mismatch_iff [simp]: "mismatch expected actual \<longleftrightarrow> expected \<notin> {None, Some actual}"
  by (auto simp: mismatch_def split: option.splits)

lemma split_body_length:
  "length fingerprint = FINGERPRINT_LEN \<Longrightarrow>
     length (split_body fingerprint anchor sealed) = HEADER_LEN + length anchor"
  by (simp add: split_body_def split_consts)

text \<open>What a reader finds in a token that starts with a stamped header.\<close>

lemma split_body_fields:
  assumes "length fingerprint = FINGERPRINT_LEN" "length anchor \<le> 65535"
    "token = split_body fingerprint anchor sealed @ rest"
  shows "token ! 0 = SPLIT_TOKEN_FORMAT_VERSION"
    and "token ! 1 = (if sealed then FLAG_PAYLOAD_SEALED else 0)"
    and "le_nat (take 2 (drop 2 token)) = length anchor"
    and "take FINGERPRINT_LEN (drop 4 token) = fingerprint"
    and "take (length anchor) (drop HEADER_LEN token) = anchor"
    and "take (HEADER_LEN + length anchor) token = split_body fingerprint anchor sealed"
    and "drop (HEADER_LEN + length anchor) token = rest"
proof -
  have len: "length (split_body fingerprint anchor sealed) = HEADER_LEN + length anchor"
    using assms(1) by (rule split_body_length)
  show "token ! 0 = SPLIT_TOKEN_FORMAT_VERSION" "token ! 1 = (if sealed then FLAG_PAYLOAD_SEALED else 0)"
    by (simp_all add: assms(3) split_body_def)
  have "take 2 (drop 2 token) = le_bytes 2 (length anchor)"
    by (simp add: assms(3) split_body_def)
  then show "le_nat (take 2 (drop 2 token)) = length anchor"
    using assms(2) by (simp add: le_nat_le_bytes)
  have split: "token = ([SPLIT_TOKEN_FORMAT_VERSION, if sealed then FLAG_PAYLOAD_SEALED else 0]
      @ le_bytes 2 (length anchor)) @ fingerprint @ anchor @ rest"
    by (simp add: assms(3) split_body_def)
  show "take FINGERPRINT_LEN (drop 4 token) = fingerprint"
    using assms(1) by (simp add: split)
  show "take (length anchor) (drop HEADER_LEN token) = anchor"
    using assms(1) by (simp add: split HEADER_LEN_def FINGERPRINT_LEN_def)
  show "take (HEADER_LEN + length anchor) token = split_body fingerprint anchor sealed"
    "drop (HEADER_LEN + length anchor) token = rest"
    using len by (simp_all add: assms(3))
qed

lemma flag_values:
  "flags AND RESERVED_FLAGS_MASK = 0 \<longleftrightarrow> flags = 0 \<or> flags = FLAG_PAYLOAD_SEALED"
proof
  assume "flags AND RESERVED_FLAGS_MASK = 0"
  moreover have "flags = (flags AND RESERVED_FLAGS_MASK) OR (flags AND 1)"
  proof -
    have "(RESERVED_FLAGS_MASK OR 1 :: byte) = -1" by (simp add: RESERVED_FLAGS_MASK_def)
    then show ?thesis by (metis and.right_neutral bit.conj_disj_distrib) 
  qed
  ultimately have "flags = flags AND 1" by simp
  then show "flags = 0 \<or> flags = FLAG_PAYLOAD_SEALED"
    by (metis FLAG_PAYLOAD_SEALED_def and_one_eq odd_iff_mod_2_eq_one parity_cases)
qed (auto simp: split_consts)

text \<open>A token whose header passes the checks is a stamped header and a rest.\<close>

lemma split_body_parse:
  assumes "HEADER_LEN \<le> length token" "token ! 0 = SPLIT_TOKEN_FORMAT_VERSION"
    "token ! 1 = (if sealed then FLAG_PAYLOAD_SEALED else 0)"
    "n = le_nat (take 2 (drop 2 token))" "HEADER_LEN + n \<le> length token"
  shows "token = split_body (take FINGERPRINT_LEN (drop 4 token)) (take n (drop HEADER_LEN token)) sealed
           @ drop (HEADER_LEN + n) token"
    and "take (HEADER_LEN + n) token =
           split_body (take FINGERPRINT_LEN (drop 4 token)) (take n (drop HEADER_LEN token)) sealed"
    and "length (take FINGERPRINT_LEN (drop 4 token)) = FINGERPRINT_LEN"
    and "length (take n (drop HEADER_LEN token)) = n" and "n \<le> 65535"
proof -
  let ?a = "take n (drop HEADER_LEN token)"
  have two: "length (take 2 (drop 2 token)) = 2"
    using assms(1) by (simp add: split_consts)
  show la: "length ?a = n" using assms(5) by simp
  show "length (take FINGERPRINT_LEN (drop 4 token)) = FINGERPRINT_LEN"
    using assms(1) by (simp add: split_consts)
  show "n \<le> 65535" using le_nat_bound [of "take 2 (drop 2 token)"] two assms(4) by simp
  have enc: "le_bytes 2 (length ?a) = take 2 (drop 2 token)"
    using two unfolding la unfolding assms(4) by (rule le_bytes_le_nat)
  have "take (HEADER_LEN + n) token =
      take 2 token @ take 2 (drop 2 token) @ take FINGERPRINT_LEN (drop 4 token) @ ?a"
  proof -
    have e: "HEADER_LEN + n = 2 + (2 + (FINGERPRINT_LEN + n))" by (simp add: split_consts)
    show ?thesis unfolding e by (simp only: take_add) (simp add: split_consts)
  qed
  moreover have "take 2 token = [token ! 0, token ! 1]"
    using assms(1) by (cases token; cases "tl token") (auto simp: split_consts)
  ultimately show body: "take (HEADER_LEN + n) token =
      split_body (take FINGERPRINT_LEN (drop 4 token)) ?a sealed"
    using enc assms(2,3) by (simp add: split_body_def)
  show "token = split_body (take FINGERPRINT_LEN (drop 4 token)) ?a sealed @ drop (HEADER_LEN + n) token"
    using body by (metis append_take_drop_id)
qed

text \<open>
  \<open>openSplitToken\<close> on a stamped header: what is left are the fingerprint, the anchor and
  the envelope.
\<close>

lemma openSplitToken_stamped:
  assumes "length fingerprint = FINGERPRINT_LEN" "length anchor \<le> 65535"
    "token = split_body fingerprint anchor (signingKey \<noteq> None) @ rest"
  shows "openSplitToken P token signingKey auth expectedFingerprint currentAnchor =
     (if expectedFingerprint \<notin> {None, Some fingerprint}
      then Inl (SplitTokenError SPLIT_TOKEN_INVALID FingerprintMismatch)
      else if currentAnchor \<notin> {None, Some anchor}
      then Inl (SplitTokenError SPLIT_SNAPSHOT_EXPIRED SnapshotExpired)
      else case signingKey of
          None \<Rightarrow> Inr rest
        | Some key \<Rightarrow>
            (case openBytes P rest key (splitTokenAad (split_body fingerprint anchor True) auth)
                    SEAL_VERSION ''split token'' of
               Inl e \<Rightarrow> Inl (SplitTokenError SPLIT_TOKEN_INVALID (FailedAuthentication e))
             | Inr payload \<Rightarrow> Inr payload))"
proof -
  note f = split_body_fields [OF assms(1,2,3)]
  have len: "length token = HEADER_LEN + length anchor + length rest"
    using assms(1) by (simp add: assms(3) split_body_length)
  have sealed: "(token ! 1 AND FLAG_PAYLOAD_SEALED \<noteq> 0) = (signingKey \<noteq> None)"
    and res: "token ! 1 AND RESERVED_FLAGS_MASK = 0"
    unfolding f(2) by (simp_all add: split_consts)
  show ?thesis
    unfolding openSplitToken_def Let_def f(3) f(4) f(5) f(6) f(7) res sealed f(1)
    by (cases signingKey) (simp_all add: len)
qed

text \<open>Conversely, only a stamped header gets past the header checks.\<close>

lemma openSplitToken_passes_header:
  assumes "(\<exists>p. openSplitToken P token signingKey auth efp ca = Inr p) \<or>
           (\<exists>k m. openSplitToken P token signingKey auth efp ca = Inl (SplitTokenError k m) \<and>
                  k \<noteq> SPLIT_TOKEN_INVALID)"
  obtains fingerprint anchor rest where
    "length fingerprint = FINGERPRINT_LEN" "length anchor \<le> 65535"
    "token = split_body fingerprint anchor (signingKey \<noteq> None) @ rest"
proof -
  let ?n = "le_nat (take 2 (drop 2 token))"
  from assms have len: "HEADER_LEN \<le> length token"
    and v: "token ! 0 = SPLIT_TOKEN_FORMAT_VERSION"
    and r: "token ! 1 AND RESERVED_FLAGS_MASK = 0"
    and s: "(token ! 1 AND FLAG_PAYLOAD_SEALED \<noteq> 0) = (signingKey \<noteq> None)"
    and e: "HEADER_LEN + ?n \<le> length token"
    by (auto simp: openSplitToken_def Let_def split: if_splits)
  from r s have "token ! 1 = (if signingKey \<noteq> None then FLAG_PAYLOAD_SEALED else 0)"
    unfolding flag_values by (auto simp: split_consts)
  from split_body_parse [OF len v this refl e] that show thesis by metis
qed

section \<open>The framing of the fingerprint message\<close>

text \<open>
  The fields of the hashed message are delimited by zero bytes that may also occur inside
  the serialized arguments and settings, so two different binds can have one message.
\<close>

lemma bindMessage_ambiguous:
  "bindMessage schemaPath functionName (x @ [0] @ utf8 ''settings'' @ [0] @ y) z projection =
   bindMessage schemaPath functionName x (y @ [0] @ utf8 ''settings'' @ [0] @ z) projection"
  by (simp add: bindMessage_def fp_field_def)

text \<open>Arguments and settings of given lengths are told apart.\<close>

lemma bindMessage_inj:
  assumes "bindMessage path name a s p = bindMessage path name a' s' p'"
    "length a = length a'" "length s = length s'"
  shows "a = a' \<and> s = s' \<and> p = p'"
  using assms by (simp add: bindMessage_def fp_field_def)

text \<open>Primitives with the laws, for the concrete instances below: a zero tag is appended.\<close>

definition sample_prims :: crypto_prims where
  "sample_prims = \<lparr> sha256 = (\<lambda>b. b),
     aead_encrypt = (\<lambda>k n a p. p @ replicate 16 0),
     aead_decrypt = (\<lambda>k n a c. if 16 \<le> length c \<and> drop (length c - 16) c = replicate 16 0
                              then Some (take (length c - 16) c) else None) \<rparr>"

lemma sample_prims_laws: "aead_laws sample_prims"
  by (auto simp: aead_laws_def sample_prims_def) (metis append_take_drop_id)

section \<open>Properties\<close>

text \<open>
  C1: a payload stamped by \<open>buildSplitToken\<close>, sealed or not, is what \<open>openSplitToken\<close>
  returns to the same caller under the same key, fingerprint and anchor.
\<close>

theorem split_token_roundtrip:
  assumes "aead_laws P" "length rnd = NONCE_LEN"
    "buildSplitToken P payload fingerprint anchor signingKey auth rnd = Inr token"
  shows "openSplitToken P token signingKey auth (Some fingerprint) (Some anchor) = Inr payload"
proof (cases signingKey)
  case None
  with assms(3) have b: "length fingerprint = FINGERPRINT_LEN" "length anchor \<le> 65535"
      "token = split_body fingerprint anchor (signingKey \<noteq> None) @ payload"
    by (auto simp: buildSplitToken_def split: if_splits)
  show ?thesis unfolding openSplitToken_stamped [OF b] using None by simp
next
  case (Some key)
  with assms(3) obtain sealed where b: "length fingerprint = FINGERPRINT_LEN" "length anchor \<le> 65535"
      "token = split_body fingerprint anchor (signingKey \<noteq> None) @ sealed"
    and s: "sealBytes P payload key (splitTokenAad (split_body fingerprint anchor True) auth)
             SEAL_VERSION None rnd = Inr sealed"
    by (auto simp: buildSplitToken_def split: if_splits sum.splits)
  show ?thesis unfolding openSplitToken_stamped [OF b]
    using Some by (simp add: openBytes_sealBytes [OF assms(1,2) s])
qed

theorem split_token_roundtrip_witness:
  "\<exists>token. buildSplitToken sample_prims [1, 2] (replicate 16 5) [9] (Some [3]) None (replicate 24 7) = Inr token
     \<and> openSplitToken sample_prims token (Some [3]) None (Some (replicate 16 5)) (Some [9]) = Inr [1, 2]"
proof -
  obtain token where t: "buildSplitToken sample_prims [1, 2] (replicate 16 5) [9] (Some [3]) None
      (replicate 24 7) = Inr token"
    by (simp add: buildSplitToken_def sealBytes_def split_consts)
  have "length (replicate 24 (7 :: byte)) = NONCE_LEN" by (simp add: NONCE_LEN_def)
  from t split_token_roundtrip [OF sample_prims_laws this t] show ?thesis by blast
qed



text \<open>
  C40: the error kind a connector acts on.  \<open>SPLIT_SNAPSHOT_EXPIRED\<close> is reported exactly
  for a well-formed token of this bind whose anchor is not the current one; every other
  refusal is \<open>SPLIT_TOKEN_INVALID\<close>.
\<close>

theorem split_snapshot_expired_iff:
  "openSplitToken P token signingKey auth expectedFingerprint currentAnchor
       = Inl (SplitTokenError SPLIT_SNAPSHOT_EXPIRED m)
   \<longleftrightarrow> m = SnapshotExpired \<and>
     (\<exists>fingerprint anchor rest current. length fingerprint = FINGERPRINT_LEN \<and> length anchor \<le> 65535
       \<and> token = split_body fingerprint anchor (signingKey \<noteq> None) @ rest
       \<and> expectedFingerprint \<in> {None, Some fingerprint}
       \<and> currentAnchor = Some current \<and> current \<noteq> anchor)"
    (is "?L \<longleftrightarrow> ?R")
proof
  assume l: ?L
  then obtain fingerprint anchor rest where b:
      "length fingerprint = FINGERPRINT_LEN" "length anchor \<le> 65535"
      "token = split_body fingerprint anchor (signingKey \<noteq> None) @ rest"
    using openSplitToken_passes_header by blast
  from l have "m = SnapshotExpired" "expectedFingerprint \<in> {None, Some fingerprint}"
      "\<exists>current. currentAnchor = Some current \<and> current \<noteq> anchor"
    by (auto simp: openSplitToken_stamped [OF b] split: option.splits if_splits sum.splits)
  with b show ?R by blast
next
  assume ?R
  then show ?L by (auto simp: openSplitToken_stamped split: option.splits)
qed

end
