(* ===== verification/Storage.thy ===== *)
theory Storage
  imports Prelude
begin

text \<open>
  Function state shared by worker processes, \<open>src/functions/storage.ts\<close>: the three
  tables of \<open>FunctionStorageSqlite\<close> with each operation as the SQL statement it runs,
  \<open>BoundStorage\<close> with its worker-state slots, and the choice of a backend.

  A table is the list of its rows.  Rows that are selected without \<open>ORDER BY\<close> come back
  in list order, and the theorems about them speak of sets and multisets only.
\<close>

record sqlite_db =
  function_state :: "((bytes \<times> bytes \<times> bytes) \<times> bytes) list"
  function_state_log :: "(nat \<times> (bytes \<times> bytes \<times> bytes) \<times> bytes) list"
  log_seq :: nat
  work_queue :: "(nat \<times> bytes \<times> bytes) list"
  queue_seq :: nat

definition empty_db :: sqlite_db where
  "empty_db = \<lparr> function_state = [], function_state_log = [], log_seq = 0, work_queue = [], queue_seq = 0 \<rparr>"

text \<open>\<open>INSERT OR REPLACE\<close>: the row with the same primary key goes, the new one is added.\<close>

definition insert_or_replace :: "'k \<Rightarrow> 'v \<Rightarrow> ('k \<times> 'v) list \<Rightarrow> ('k \<times> 'v) list" where
  "insert_or_replace k v rows = filter (\<lambda>(k', _). k' \<noteq> k) rows @ [(k, v)]"

definition order_by_id :: "(nat \<times> 'r) list \<Rightarrow> (nat \<times> 'r) list" where
  "order_by_id rows = sort_key fst rows"

section \<open>Keys\<close>

datatype worker_key = WorkerId int | Substream bytes

definition packIntKey :: "int \<Rightarrow> bytes" where
  "packIntKey i = i64_le i"

definition NS_WORKER :: bytes where "NS_WORKER = utf8 ''worker''"
definition BUFFERING_INIT :: bytes where "BUFFERING_INIT = utf8 ''_vgi/buffering_init''"
definition STREAMING_FINALIZE :: bytes where "STREAMING_FINALIZE = utf8 ''_vgi/streaming_finalize''"

definition int64Key :: "int \<Rightarrow> bytes" where
  "int64Key v = i64_be v"

fun workerStateKey :: "worker_key \<Rightarrow> bytes" where
  "workerStateKey (WorkerId n) = int64Key n"
| "workerStateKey (Substream b) = b"

definition int64FromKey :: "bytes \<Rightarrow> int" where
  "int64FromKey b = (if length b \<noteq> 8 then 0 else i64_of_be b)"

section \<open>Operations of the SQLite backend\<close>

definition stateGet :: "bytes \<Rightarrow> bytes \<Rightarrow> bytes \<Rightarrow> sqlite_db \<Rightarrow> bytes option" where
  "stateGet scopeId ns key db = map_of (function_state db) (scopeId, ns, key)"

definition statePut :: "bytes \<Rightarrow> bytes \<Rightarrow> bytes \<Rightarrow> bytes \<Rightarrow> sqlite_db \<Rightarrow> sqlite_db" where
  "statePut scopeId ns key value db =
     db\<lparr> function_state := insert_or_replace (scopeId, ns, key) value (function_state db) \<rparr>"

definition stateAppend :: "bytes \<Rightarrow> bytes \<Rightarrow> bytes \<Rightarrow> bytes \<Rightarrow> sqlite_db \<Rightarrow> nat \<times> sqlite_db" where
  "stateAppend scopeId ns key item db =
     (let rowid = Suc (log_seq db) in
      (rowid, db\<lparr> function_state_log := function_state_log db @ [(rowid, (scopeId, ns, key), item)],
                 log_seq := rowid \<rparr>))"

text \<open>\<open>LIMIT\<close> with a negative number is no limit in SQLite.\<close>

definition sql_limit :: "int option \<Rightarrow> 'a list \<Rightarrow> 'a list" where
  "sql_limit limit rows = (case limit of
     None \<Rightarrow> rows | Some n \<Rightarrow> if n < 0 then rows else take (nat n) rows)"

definition stateLogScan ::
  "bytes \<Rightarrow> bytes \<Rightarrow> bytes \<Rightarrow> int \<Rightarrow> int option \<Rightarrow> sqlite_db \<Rightarrow> (nat \<times> bytes) list" where
  "stateLogScan scopeId ns key afterId limit db =
     map (\<lambda>(rowid, _, value). (rowid, value))
       (sql_limit limit
         (order_by_id
           (filter (\<lambda>(rowid, k, _). k = (scopeId, ns, key) \<and> afterId < int rowid) (function_state_log db))))"

definition state_row_in :: "bytes \<Rightarrow> (bytes \<times> bytes \<times> bytes) \<times> bytes \<Rightarrow> bool" where
  "state_row_in scopeId r \<longleftrightarrow> fst (fst r) = scopeId"

definition log_row_in :: "bytes \<Rightarrow> nat \<times> (bytes \<times> bytes \<times> bytes) \<times> bytes \<Rightarrow> bool" where
  "log_row_in scopeId r \<longleftrightarrow> fst (fst (snd r)) = scopeId"

definition executionClear :: "bytes \<Rightarrow> sqlite_db \<Rightarrow> nat \<times> sqlite_db" where
  "executionClear scopeId db =
     (length (filter (state_row_in scopeId) (function_state db))
        + length (filter (log_row_in scopeId) (function_state_log db)),
      db\<lparr> function_state := filter (\<lambda>r. \<not> state_row_in scopeId r) (function_state db),
          function_state_log := filter (\<lambda>r. \<not> log_row_in scopeId r) (function_state_log db) \<rparr>)"

definition workerPut :: "bytes \<Rightarrow> worker_key \<Rightarrow> bytes \<Rightarrow> sqlite_db \<Rightarrow> sqlite_db" where
  "workerPut executionId worker state db =
     db\<lparr> function_state :=
          insert_or_replace (executionId, NS_WORKER, workerStateKey worker) state (function_state db) \<rparr>"

definition is_worker_row :: "bytes \<Rightarrow> (bytes \<times> bytes \<times> bytes) \<times> bytes \<Rightarrow> bool" where
  "is_worker_row executionId r = (case r of ((s, n, _), _) \<Rightarrow> s = executionId \<and> n = NS_WORKER)"

definition workerCollect :: "bytes \<Rightarrow> sqlite_db \<Rightarrow> bytes list \<times> sqlite_db" where
  "workerCollect executionId db =
     (map snd (filter (is_worker_row executionId) (function_state db)),
      db\<lparr> function_state := filter (\<lambda>r. \<not> is_worker_row executionId r) (function_state db) \<rparr>)"

definition workerScan :: "bytes \<Rightarrow> sqlite_db \<Rightarrow> (int \<times> bytes) list" where
  "workerScan executionId db =
     map (\<lambda>((_, _, k), v). (int64FromKey k, v)) (filter (is_worker_row executionId) (function_state db))"

text \<open>The inserts of \<open>queuePush\<close> run in one transaction.\<close>

fun queue_insert :: "bytes \<Rightarrow> bytes list \<Rightarrow> sqlite_db \<Rightarrow> sqlite_db" where
  "queue_insert executionId [] db = db"
| "queue_insert executionId (item # items) db =
     queue_insert executionId items
       (db\<lparr> work_queue := work_queue db @ [(Suc (queue_seq db), executionId, item)],
            queue_seq := Suc (queue_seq db) \<rparr>)"

definition queuePush :: "bytes \<Rightarrow> bytes list \<Rightarrow> sqlite_db \<Rightarrow> nat \<times> sqlite_db" where
  "queuePush executionId items db = (length items, queue_insert executionId items db)"

definition queuePop :: "bytes \<Rightarrow> sqlite_db \<Rightarrow> bytes option \<times> sqlite_db" where
  "queuePop executionId db =
     (case sql_limit (Some 1) (order_by_id (filter (\<lambda>(_, e, _). e = executionId) (work_queue db))) of
        [] \<Rightarrow> (None, db)
      | (rowid, _, item) # _ \<Rightarrow>
          (Some item, db\<lparr> work_queue := filter (\<lambda>(i, _). i \<noteq> rowid) (work_queue db) \<rparr>))"

definition queueClear :: "bytes \<Rightarrow> sqlite_db \<Rightarrow> nat \<times> sqlite_db" where
  "queueClear executionId db =
     (length (filter (\<lambda>(_, e, _). e = executionId) (work_queue db)),
      db\<lparr> work_queue := filter (\<lambda>(_, e, _). e \<noteq> executionId) (work_queue db) \<rparr>)"

section \<open>BoundStorage\<close>

record bound_storage =
  executionId :: bytes
  substreamId :: "bytes option"

definition bound_worker :: "bound_storage \<Rightarrow> int \<Rightarrow> worker_key" where
  "bound_worker b pid = (case substreamId b of None \<Rightarrow> WorkerId pid | Some s \<Rightarrow> Substream s)"

definition bound_put :: "bound_storage \<Rightarrow> int \<Rightarrow> bytes \<Rightarrow> sqlite_db \<Rightarrow> sqlite_db" where
  "bound_put b pid state db = workerPut (executionId b) (bound_worker b pid) state db"

definition bound_collect :: "bound_storage \<Rightarrow> sqlite_db \<Rightarrow> bytes list \<times> sqlite_db" where
  "bound_collect b db = workerCollect (executionId b) db"

definition bound_workerScan :: "bound_storage \<Rightarrow> sqlite_db \<Rightarrow> (int \<times> bytes) list" where
  "bound_workerScan b db = workerScan (executionId b) db"

definition bound_queuePush :: "bound_storage \<Rightarrow> bytes list \<Rightarrow> sqlite_db \<Rightarrow> nat \<times> sqlite_db" where
  "bound_queuePush b items db = queuePush (executionId b) items db"

definition bound_queuePop :: "bound_storage \<Rightarrow> sqlite_db \<Rightarrow> bytes option \<times> sqlite_db" where
  "bound_queuePop b db = queuePop (executionId b) db"

definition bound_queueClear :: "bound_storage \<Rightarrow> sqlite_db \<Rightarrow> nat \<times> sqlite_db" where
  "bound_queueClear b db = queueClear (executionId b) db"

definition bound_stateGet :: "bound_storage \<Rightarrow> bytes \<Rightarrow> bytes \<Rightarrow> sqlite_db \<Rightarrow> bytes option" where
  "bound_stateGet b ns key db = stateGet (executionId b) ns key db"

definition bound_statePut :: "bound_storage \<Rightarrow> bytes \<Rightarrow> bytes \<Rightarrow> bytes \<Rightarrow> sqlite_db \<Rightarrow> sqlite_db" where
  "bound_statePut b ns key value db = statePut (executionId b) ns key value db"

definition bound_stateAppend :: "bound_storage \<Rightarrow> bytes \<Rightarrow> bytes \<Rightarrow> bytes \<Rightarrow> sqlite_db \<Rightarrow> nat \<times> sqlite_db" where
  "bound_stateAppend b ns key item db = stateAppend (executionId b) ns key item db"

definition bound_stateLogScan ::
  "bound_storage \<Rightarrow> bytes \<Rightarrow> bytes \<Rightarrow> int \<Rightarrow> int option \<Rightarrow> sqlite_db \<Rightarrow> (nat \<times> bytes) list" where
  "bound_stateLogScan b ns key afterId limit db = stateLogScan (executionId b) ns key afterId limit db"

definition bound_executionClear :: "bound_storage \<Rightarrow> sqlite_db \<Rightarrow> nat \<times> sqlite_db" where
  "bound_executionClear b db = executionClear (executionId b) db"

section \<open>Backend selection\<close>

datatype backend = SqliteBackend string | SqliteDefault | CloudflareDo string "string option"

datatype backend_error = MissingCfDoUrl | UnknownBackend string

text \<open>The constructor strips trailing slashes off the URL.\<close>

definition strip_slashes :: "string \<Rightarrow> string" where
  "strip_slashes url = rev (dropWhile (\<lambda>c. c = CHR ''/'') (rev url))"

text \<open>\<open>FunctionStorageCfDo.fromEnv\<close>: an empty variable counts as unset.\<close>

definition cf_do_from_env :: "(string \<Rightarrow> string option) \<Rightarrow> backend_error + backend" where
  "cf_do_from_env env = (case env ''VGI_CF_DO_URL'' of
     None \<Rightarrow> Inl MissingCfDoUrl
   | Some url \<Rightarrow> if url = [] then Inl MissingCfDoUrl
       else Inr (CloudflareDo (strip_slashes url)
         (case env ''VGI_CF_DO_TOKEN'' of None \<Rightarrow> None | Some t \<Rightarrow> if t = [] then None else Some t)))"

definition resolveStorageFromEnv :: "(string \<Rightarrow> string option) \<Rightarrow> backend_error + backend" where
  "resolveStorageFromEnv env =
     (let backend = to_lower (case env ''VGI_WORKER_SHARED_STORAGE'' of None \<Rightarrow> ''sqlite'' | Some b \<Rightarrow> b)
      in if backend = ''memory'' then Inr (SqliteBackend '':memory:'')
         else if backend = ''sqlite'' then Inr SqliteDefault
         else if backend = ''cloudflare-do'' then cf_do_from_env env
         else Inl (UnknownBackend backend))"

section \<open>The table invariant\<close>

text \<open>
  Primary keys are unique, and the \<open>AUTOINCREMENT\<close> ids of the log and the queue are
  in order and below their sequence.
\<close>

definition seq_ok :: "nat \<Rightarrow> (nat \<times> 'r) list \<Rightarrow> bool" where
  "seq_ok n rows \<longleftrightarrow> sorted_wrt (<) (map fst rows) \<and> (\<forall>r\<in>set rows. fst r \<le> n)"

definition db_ok :: "sqlite_db \<Rightarrow> bool" where
  "db_ok db \<longleftrightarrow> distinct (map fst (function_state db))
     \<and> seq_ok (log_seq db) (function_state_log db) \<and> seq_ok (queue_seq db) (work_queue db)"

lemma seq_ok_Nil [simp]: "seq_ok n []"
  by (simp add: seq_ok_def)

lemma seq_ok_filter: "seq_ok n rows \<Longrightarrow> seq_ok n (filter P rows)"
  by (auto simp: seq_ok_def sorted_wrt_map sorted_wrt_filter)

lemma seq_ok_append: "seq_ok n rows \<Longrightarrow> seq_ok (Suc n) (rows @ [(Suc n, r)])"
  by (auto simp: seq_ok_def sorted_wrt_append less_Suc_eq_le)

lemma order_by_id_seq: "seq_ok n rows \<Longrightarrow> order_by_id rows = rows"
  by (simp add: seq_ok_def order_by_id_def sort_key_id_if_sorted strict_sorted_imp_sorted)

lemma distinct_insert_or_replace:
  "distinct (map fst rows) \<Longrightarrow> distinct (map fst (insert_or_replace k v rows))"
  by (auto simp: insert_or_replace_def distinct_map_filter)

lemma map_of_insert_or_replace:
  "map_of (insert_or_replace k v rows) j = (if j = k then Some v else map_of rows j)"
proof -
  have "map_of (filter (\<lambda>(k', _). k' \<noteq> k) rows) j = (if j = k then None else map_of rows j)"
    by (induction rows) auto
  then show ?thesis by (auto simp: insert_or_replace_def map_add_def split: option.splits)
qed

lemma db_ok_empty: "db_ok empty_db"
  by (simp add: db_ok_def empty_db_def)

lemma db_ok_statePut: "db_ok db \<Longrightarrow> db_ok (statePut s n k v db)"
  by (simp add: db_ok_def statePut_def distinct_insert_or_replace)

lemma db_ok_workerPut: "db_ok db \<Longrightarrow> db_ok (workerPut e w v db)"
  by (simp add: db_ok_def workerPut_def distinct_insert_or_replace)

lemma db_ok_stateAppend: "db_ok db \<Longrightarrow> db_ok (snd (stateAppend s n k v db))"
  by (simp add: db_ok_def stateAppend_def seq_ok_append)

lemma db_ok_executionClear: "db_ok db \<Longrightarrow> db_ok (snd (executionClear s db))"
  by (simp add: db_ok_def executionClear_def Let_def seq_ok_filter distinct_map_filter)

lemma db_ok_workerCollect: "db_ok db \<Longrightarrow> db_ok (snd (workerCollect e db))"
  by (simp add: db_ok_def workerCollect_def distinct_map_filter)

lemma db_ok_queue_insert: "db_ok db \<Longrightarrow> db_ok (queue_insert e items db)"
  by (induction e items db rule: queue_insert.induct) (simp_all add: db_ok_def seq_ok_append)

lemma db_ok_queuePop: "db_ok db \<Longrightarrow> db_ok (snd (queuePop e db))"
  by (auto simp: db_ok_def queuePop_def seq_ok_filter split: list.splits)

lemma db_ok_queueClear: "db_ok db \<Longrightarrow> db_ok (snd (queueClear e db))"
  by (simp add: db_ok_def queueClear_def seq_ok_filter)

lemmas db_ok_operations [intro] = db_ok_empty db_ok_statePut db_ok_workerPut db_ok_stateAppend
  db_ok_executionClear db_ok_workerCollect db_ok_queue_insert db_ok_queuePop db_ok_queueClear

text \<open>One operation of any worker process on the shared database.\<close>

datatype db_op =
    OpStatePut bytes bytes bytes bytes
  | OpStateAppend bytes bytes bytes bytes
  | OpExecutionClear bytes
  | OpWorkerPut bytes worker_key bytes
  | OpWorkerCollect bytes
  | OpQueuePush bytes "bytes list"
  | OpQueuePop bytes
  | OpQueueClear bytes

fun db_apply :: "db_op \<Rightarrow> sqlite_db \<Rightarrow> sqlite_db" where
  "db_apply (OpStatePut s n k v) db = statePut s n k v db"
| "db_apply (OpStateAppend s n k v) db = snd (stateAppend s n k v db)"
| "db_apply (OpExecutionClear s) db = snd (executionClear s db)"
| "db_apply (OpWorkerPut e w v) db = workerPut e w v db"
| "db_apply (OpWorkerCollect e) db = snd (workerCollect e db)"
| "db_apply (OpQueuePush e xs) db = snd (queuePush e xs db)"
| "db_apply (OpQueuePop e) db = snd (queuePop e db)"
| "db_apply (OpQueueClear e) db = snd (queueClear e db)"

lemma db_ok_apply: "db_ok db \<Longrightarrow> db_ok (db_apply op db)"
  by (cases op) (auto simp: queuePush_def)

lemma sorted_last_max:
  fixes f :: "'a \<Rightarrow> nat"
  shows "sorted (map f xs) \<Longrightarrow> x \<in> set xs \<Longrightarrow> f x \<le> f (last xs)"
  by (induction xs) auto

lemma filter_after_prefix:
  fixes p q :: "(nat \<times> 'v) list"
  assumes "sorted_wrt (<) (map fst (p @ q))" "p \<noteq> []"
  shows "filter (\<lambda>e. fst (last p) < fst e) (p @ q) = q"
proof -
  from assms(1) have sp: "sorted (map fst p)" and cross: "\<forall>x\<in>set p. \<forall>y\<in>set q. fst x < fst y"
    by (auto simp: sorted_wrt_append strict_sorted_imp_sorted)
  have "\<forall>x\<in>set p. \<not> fst (last p) < fst x"
    using sorted_last_max [OF sp] by (auto simp: not_less)
  then have "filter (\<lambda>e. fst (last p) < fst e) p = []" by simp
  moreover have "filter (\<lambda>e. fst (last p) < fst e) q = q"
    using cross assms(2) by (intro filter_True) simp
  ultimately show ?thesis by simp
qed

section \<open>The contracts\<close>

subsection \<open>Key/value state\<close>

definition state_get :: "sqlite_db \<Rightarrow> bytes \<times> bytes \<times> bytes \<Rightarrow> bytes option" where
  "state_get db k = (case k of (s, n, key) \<Rightarrow> stateGet s n key db)"

definition state_put :: "bytes \<times> bytes \<times> bytes \<Rightarrow> bytes \<Rightarrow> sqlite_db \<Rightarrow> sqlite_db" where
  "state_put k v db = (case k of (s, n, key) \<Rightarrow> statePut s n key v db)"

interpretation kv: kv_store state_get state_put db_ok
  by unfold_locales
    (auto simp: state_get_def state_put_def stateGet_def statePut_def map_of_insert_or_replace
      distinct_insert_or_replace db_ok_def)

lemma workerPut_is_put: "workerPut e w v db = state_put (e, NS_WORKER, workerStateKey w) v db"
  by (simp add: workerPut_def state_put_def statePut_def)

subsection \<open>Work queue\<close>

text \<open>Popping a number of times.\<close>

fun drain :: "('s \<Rightarrow> 'a option \<times> 's) \<Rightarrow> nat \<Rightarrow> 's \<Rightarrow> 'a option list \<times> 's" where
  "drain pop 0 s = ([], s)"
| "drain pop (Suc n) s = (let (x, s') = pop s; (xs, s'') = drain pop n s' in (x # xs, s''))"

locale fifo_queue =
  fixes push :: "'e \<Rightarrow> 'a list \<Rightarrow> 's \<Rightarrow> 's"
    and pop :: "'e \<Rightarrow> 's \<Rightarrow> 'a option \<times> 's"
    and items :: "'e \<Rightarrow> 's \<Rightarrow> 'a list"
    and ok :: "'s \<Rightarrow> bool"
  assumes push_items: "ok s \<Longrightarrow> items j (push e xs s) = (if j = e then items e s @ xs else items j s)"
    and push_ok: "ok s \<Longrightarrow> ok (push e xs s)"
    and pop_empty: "ok s \<Longrightarrow> items e s = [] \<Longrightarrow> pop e s = (None, s)"
    and pop_value: "ok s \<Longrightarrow> items e s = x # xs \<Longrightarrow> fst (pop e s) = Some x"
    and pop_items: "ok s \<Longrightarrow> items j (snd (pop e s)) = (if j = e then tl (items e s) else items j s)"
    and pop_ok: "ok s \<Longrightarrow> ok (snd (pop e s))"
begin

lemma drain_values:
  "ok s \<Longrightarrow> fst (drain (pop e) n s) = map Some (take n (items e s)) @ replicate (n - length (items e s)) None"
proof (induction n arbitrary: s)
  case 0
  show ?case by simp
next
  case (Suc n)
  let ?s' = "snd (pop e s)"
  have ok': "ok ?s'" and it: "items e ?s' = tl (items e s)"
    using Suc.prems by (simp_all add: pop_ok pop_items)
  have "fst (drain (pop e) (Suc n) s) = fst (pop e s) # fst (drain (pop e) n ?s')"
    by (simp add: Let_def case_prod_beta)
  also have "\<dots> = fst (pop e s) # map Some (take n (tl (items e s))) @ replicate (n - length (tl (items e s))) None"
    by (simp add: Suc.IH [OF ok'] it)
  finally show ?case
    by (cases "items e s") (simp_all add: pop_empty pop_value Suc.prems)
qed

lemma drain_other: "ok s \<Longrightarrow> j \<noteq> e \<Longrightarrow> items j (snd (drain (pop e) n s)) = items j s"
proof (induction n arbitrary: s)
  case (Suc n)
  then show ?case by (simp add: Let_def case_prod_beta pop_ok pop_items)
qed simp

lemma push_then_drain:
  "ok s \<Longrightarrow> items e s = [] \<Longrightarrow> fst (drain (pop e) (length xs + k) (push e xs s)) = map Some xs @ replicate k None"
  by (simp add: drain_values push_ok push_items)

end

definition queue_items :: "bytes \<Rightarrow> sqlite_db \<Rightarrow> bytes list" where
  "queue_items e db = map (\<lambda>(_, _, item). item) (filter (\<lambda>(_, e', _). e' = e) (work_queue db))"

definition queue_push :: "bytes \<Rightarrow> bytes list \<Rightarrow> sqlite_db \<Rightarrow> sqlite_db" where
  "queue_push e items db = snd (queuePush e items db)"

lemma queue_items_insert:
  "queue_items j (queue_insert e items db) = (if j = e then queue_items e db @ items else queue_items j db)"
  by (induction e items db rule: queue_insert.induct) (auto simp: queue_items_def)

text \<open>The row that \<open>queuePop\<close> takes is the first of its execution, and the only one with its id.\<close>

lemma queuePop_rows:
  assumes "db_ok db"
  shows "queuePop e db =
    (case filter (\<lambda>(_, e', _). e' = e) (work_queue db) of
       [] \<Rightarrow> (None, db)
     | (rowid, _, item) # _ \<Rightarrow>
         (Some item, db\<lparr> work_queue := filter (\<lambda>(i, _). i \<noteq> rowid) (work_queue db) \<rparr>))"
proof -
  have "order_by_id (filter (\<lambda>(_, e', _). e' = e) (work_queue db)) = filter (\<lambda>(_, e', _). e' = e) (work_queue db)"
    using assms unfolding db_ok_def by (blast intro: order_by_id_seq seq_ok_filter)
  then show ?thesis
    by (auto simp: queuePop_def sql_limit_def split: list.splits)
qed

lemma filter_drop_first:
  assumes "distinct (map fst rows)" "filter P rows = r # rs"
  shows "filter P (filter (\<lambda>x. fst x \<noteq> fst r) rows) = rs"
proof -
  have "filter P (filter (\<lambda>x. fst x \<noteq> fst r) rows) = filter (\<lambda>x. fst x \<noteq> fst r) (r # rs)"
    unfolding assms(2) [symmetric] by (simp add: conj_commute)
  moreover have "distinct (map fst (r # rs))"
    using assms by (metis distinct_map_filter)
  then have "\<forall>x\<in>set rs. fst x \<noteq> fst r" by (simp add: image_iff) metis
  then have "filter (\<lambda>x. fst x \<noteq> fst r) rs = rs" by (rule filter_True)
  ultimately show ?thesis by simp
qed

lemma filter_keep_others:
  assumes "distinct (map fst rows)" "filter P rows = r # rs" "\<And>x. Q x \<Longrightarrow> \<not> P x"
  shows "filter Q (filter (\<lambda>x. fst x \<noteq> fst r) rows) = filter Q rows"
proof -
  have r: "r \<in> set rows" "P r" using assms(2) by (metis filter_eq_ConsD in_set_conv_decomp)+
  have "x \<in> set rows \<Longrightarrow> fst x = fst r \<Longrightarrow> x = r" for x
    using assms(1) r(1) by (metis distinct_map inj_onD)
  with r assms(3) show ?thesis by (auto intro!: filter_cong)
qed

lemma queue_items_pop:
  assumes "db_ok db"
  shows "queue_items e db = [] \<Longrightarrow> queuePop e db = (None, db)"
    and "queue_items e db = x # xs \<Longrightarrow> fst (queuePop e db) = Some x"
    and "queue_items j (snd (queuePop e db)) = (if j = e then tl (queue_items e db) else queue_items j db)"
proof -
  let ?P = "\<lambda>e (_, e', _). e' = e"
  let ?rows = "work_queue db"
  have d: "distinct (map fst ?rows)"
    using assms by (simp add: db_ok_def seq_ok_def strict_sorted_iff)
  note pop = queuePop_rows [OF assms, of e]
  show "queue_items e db = [] \<Longrightarrow> queuePop e db = (None, db)"
    "queue_items e db = x # xs \<Longrightarrow> fst (queuePop e db) = Some x"
    by (auto simp: pop queue_items_def split: list.splits)
  show "queue_items j (snd (queuePop e db)) = (if j = e then tl (queue_items e db) else queue_items j db)"
  proof (cases "filter (?P e) ?rows")
    case Nil
    then show ?thesis by (auto simp: pop queue_items_def)
  next
    case (Cons r rs)
    obtain i e' v where r: "r = (i, e', v)" by (cases r)
    have wq: "work_queue (snd (queuePop e db)) = filter (\<lambda>x. fst x \<noteq> fst r) ?rows"
      unfolding pop Cons by (simp add: r case_prod_unfold)
    show ?thesis
    proof (cases "j = e")
      case True
      then show ?thesis using filter_drop_first [OF d Cons] Cons
        by (simp add: queue_items_def wq)
    next
      case False
      then have "filter (?P j) (filter (\<lambda>x. fst x \<noteq> fst r) ?rows) = filter (?P j) ?rows"
        by (intro filter_keep_others [OF d Cons]) auto
      with False show ?thesis by (simp add: queue_items_def wq)
    qed
  qed
qed

interpretation fifo: fifo_queue queue_push queuePop queue_items db_ok
  by unfold_locales
    (auto simp: queue_push_def queuePush_def queue_items_insert queue_items_pop)

subsection \<open>Append-only log\<close>

definition log_entries :: "bytes \<times> bytes \<times> bytes \<Rightarrow> sqlite_db \<Rightarrow> (nat \<times> bytes) list" where
  "log_entries k db = map (\<lambda>(i, _, v). (i, v)) (filter (\<lambda>(_, k', _). k' = k) (function_state_log db))"

definition log_append :: "bytes \<times> bytes \<times> bytes \<Rightarrow> bytes \<Rightarrow> sqlite_db \<Rightarrow> nat \<times> sqlite_db" where
  "log_append k item db = (case k of (s, n, key) \<Rightarrow> stateAppend s n key item db)"

definition log_scan :: "bytes \<times> bytes \<times> bytes \<Rightarrow> int \<Rightarrow> int option \<Rightarrow> sqlite_db \<Rightarrow> (nat \<times> bytes) list" where
  "log_scan k afterId limit db = (case k of (s, n, key) \<Rightarrow> stateLogScan s n key afterId limit db)"

locale append_log =
  fixes append :: "'k \<Rightarrow> 'v \<Rightarrow> 's \<Rightarrow> nat \<times> 's"
    and scan :: "'k \<Rightarrow> int \<Rightarrow> int option \<Rightarrow> 's \<Rightarrow> (nat \<times> 'v) list"
    and entries :: "'k \<Rightarrow> 's \<Rightarrow> (nat \<times> 'v) list"
    and ok :: "'s \<Rightarrow> bool"
  assumes append_entries: "ok s \<Longrightarrow> entries j (snd (append k v s)) =
      (if j = k then entries k s @ [(fst (append k v s), v)] else entries j s)"
    and append_ok: "ok s \<Longrightarrow> ok (snd (append k v s))"
    and entries_sorted: "ok s \<Longrightarrow> sorted_wrt (<) (map fst (entries k s))"
    and scan_entries: "ok s \<Longrightarrow> scan k a None s = filter (\<lambda>e. a < int (fst e)) (entries k s)"
    and scan_limit: "scan k a (Some n) s = (if n < 0 then scan k a None s else take (nat n) (scan k a None s))"
begin

text \<open>
  A scan resumed after the last id of a page returns exactly what the page left out: no
  entry is skipped and none is seen twice.
\<close>

lemma scan_resumes:
  assumes "ok s" "0 \<le> n" "page = scan k a (Some n) s" "page \<noteq> []"
  shows "scan k a None s = page @ scan k (int (fst (last page))) None s"
proof -
  let ?all = "scan k a None s"
  have all: "?all = filter (\<lambda>e. a < int (fst e)) (entries k s)"
    using assms(1) by (rule scan_entries)
  have sorted: "sorted_wrt (<) (map fst ?all)"
    using entries_sorted [OF assms(1), of k] by (simp add: all sorted_wrt_map sorted_wrt_filter)
  have page: "page = take (nat n) ?all" using assms(2,3) by (simp add: scan_limit)
  have "last page \<in> set ?all" using assms(4) by (metis in_set_takeD last_in_set page)
  then have la: "a < int (fst (last page))" by (simp add: all)
  have "scan k (int (fst (last page))) None s = filter (\<lambda>e. fst (last page) < fst e) (entries k s)"
    using assms(1) by (simp add: scan_entries)
  also have "\<dots> = filter (\<lambda>e. fst (last page) < fst e) ?all"
    using la by (auto simp: all intro!: filter_cong)
  also have "\<dots> = drop (nat n) ?all"
  proof -
    have "sorted_wrt (<) (map fst (page @ drop (nat n) ?all))" using sorted by (simp add: page)
    from filter_after_prefix [OF this assms(4)] show ?thesis by (simp add: page)
  qed
  finally show ?thesis by (metis append_take_drop_id page)
qed

end

lemma log_entries_sorted: "db_ok db \<Longrightarrow> sorted_wrt (<) (map fst (log_entries k db))"
  by (auto simp: db_ok_def seq_ok_def log_entries_def sorted_wrt_map sorted_wrt_filter case_prod_beta)

lemma log_scan_all: "db_ok db \<Longrightarrow> log_scan k a None db = filter (\<lambda>e. a < int (fst e)) (log_entries k db)"
proof -
  assume ok: "db_ok db"
  obtain s n key where k: "k = (s, n, key)" by (cases k)
  let ?P = "\<lambda>(i, k', _). k' = (s, n, key) \<and> a < int i"
  have "order_by_id (filter ?P (function_state_log db)) = filter ?P (function_state_log db)"
    using ok unfolding db_ok_def by (blast intro: order_by_id_seq seq_ok_filter)
  then have "log_scan k a None db = map (\<lambda>(i, _, v). (i, v)) (filter ?P (function_state_log db))"
    by (simp add: log_scan_def k stateLogScan_def sql_limit_def)
  also have "\<dots> = filter (\<lambda>e. a < int (fst e)) (log_entries k db)"
    by (auto simp: log_entries_def k filter_map comp_def case_prod_beta conj_commute
        intro!: arg_cong [where f = "map _"] filter_cong)
  finally show ?thesis .
qed

interpretation slog: append_log log_append log_scan log_entries db_ok
proof unfold_locales
  fix db :: sqlite_db and j k :: "bytes \<times> bytes \<times> bytes" and v :: bytes
  obtain s n key where k: "k = (s, n, key)" by (cases k)
  show "log_entries j (snd (log_append k v db)) =
      (if j = k then log_entries k db @ [(fst (log_append k v db), v)] else log_entries j db)"
    by (simp add: k log_append_def stateAppend_def log_entries_def)
  show "db_ok db \<Longrightarrow> db_ok (snd (log_append k v db))"
    by (auto simp: k log_append_def)
  fix a m :: int
  show "log_scan k a (Some m) db = (if m < 0 then log_scan k a None db else take (nat m) (log_scan k a None db))"
    by (simp add: k log_scan_def stateLogScan_def sql_limit_def take_map)
qed (simp_all add: log_entries_sorted log_scan_all)

section \<open>Worker-state slots\<close>

definition worker_slots :: "bytes \<Rightarrow> sqlite_db \<Rightarrow> (bytes \<times> bytes) list" where
  "worker_slots e db = map (\<lambda>((_, _, k), v). (k, v)) (filter (is_worker_row e) (function_state db))"

definition put_all :: "bytes \<Rightarrow> (worker_key \<times> bytes) list \<Rightarrow> sqlite_db \<Rightarrow> sqlite_db" where
  "put_all e puts db = fold (\<lambda>(w, st). workerPut e w st) puts db"

lemma workerCollect_slots: "fst (workerCollect e db) = map snd (worker_slots e db)"
  by (simp add: workerCollect_def worker_slots_def comp_def case_prod_beta)

lemma slots_distinct: "db_ok db \<Longrightarrow> distinct (map fst (worker_slots e db))"
proof -
  assume "db_ok db"
  then have "distinct (map fst (filter (is_worker_row e) (function_state db)))"
    by (simp add: db_ok_def distinct_map_filter)
  then have "distinct (map (snd \<circ> snd) (map fst (filter (is_worker_row e) (function_state db))))"
    by (auto simp: distinct_map inj_on_def is_worker_row_def)
  then show ?thesis by (simp add: worker_slots_def comp_def case_prod_beta)
qed

lemma slots_lookup: "map_of (worker_slots e db) k = stateGet e NS_WORKER k db"
proof -
  have "map_of (map (\<lambda>((_, _, k), v). (k, v)) (filter (is_worker_row e) rows)) k = map_of rows (e, NS_WORKER, k)"
    for rows by (induction rows) (auto simp: is_worker_row_def)
  then show ?thesis by (simp add: worker_slots_def stateGet_def)
qed

lemma put_all_kv:
  "put_all e puts db =
     fold (\<lambda>(k, v). state_put k v) (map (\<lambda>(w, st). ((e, NS_WORKER, workerStateKey w), st)) puts) db"
  by (induction puts arbitrary: db) (auto simp: put_all_def workerPut_is_put)

lemma map_of_slot_keys:
  fixes puts :: "(worker_key \<times> bytes) list"
  shows "map_of (rev (map (\<lambda>(w, st). ((e, NS_WORKER, workerStateKey w), st)) puts)) (e, NS_WORKER, k) =
   map_of (rev (map (\<lambda>(w, st). (workerStateKey w, st)) puts)) k"
proof -
  have "map_of (map (\<lambda>(w, st). ((e, NS_WORKER, workerStateKey w), st)) ps) (e, NS_WORKER, k) =
        map_of (map (\<lambda>(w, st). (workerStateKey w, st)) ps) k" for ps :: "(worker_key \<times> bytes) list"
    by (induction ps) auto
  then show ?thesis by (simp add: rev_map)
qed

section \<open>Properties\<close>


text \<open>
  C28: the work queue of an execution is first in, first out and every item is handed out
  once: what was pushed comes back in order, then only \<open>null\<close>; other executions' queues
  are untouched by it.
\<close>

theorem queue_fifo:
  assumes "db_ok db" "queue_items e db = []"
  shows "fst (drain (queuePop e) (length xs + k) (queue_push e xs db)) = map Some xs @ replicate k None
    \<and> (\<forall>j. j \<noteq> e \<longrightarrow> queue_items j (snd (drain (queuePop e) n (queue_push e xs db))) = queue_items j db)"
  using assms by (simp add: fifo.push_then_drain fifo.drain_other fifo.push_ok fifo.push_items)

theorem queue_fifo_witness:
  "fst (drain (queuePop [1]) 3 (queue_push [1] [[7], [8]] empty_db)) = [Some [7], Some [8], None]"
proof -
  have "queue_items [1] empty_db = []" by (simp add: queue_items_def empty_db_def)
  from queue_fifo [OF db_ok_empty this, of "[[7], [8]]" 1] show ?thesis by (simp add: numeral_3_eq_3)
qed

text \<open>
  C29: \<open>collect\<close> returns, for every worker-state slot written since the last drain, the
  last state put there and nothing else: substreams do not overwrite each other, and a
  second \<open>collect\<close> finds nothing.
\<close>

theorem collect_last_states:
  assumes "db_ok db" "worker_slots e db = []" "db' = put_all e puts db"
  shows "fst (workerCollect e db') = map snd (worker_slots e db')
    \<and> distinct (map fst (worker_slots e db'))
    \<and> map_of (worker_slots e db') = map_of (rev (map (\<lambda>(w, st). (workerStateKey w, st)) puts))
    \<and> fst (workerCollect e (snd (workerCollect e db'))) = []"
proof -
  have ok: "db_ok db'" unfolding assms(3) put_all_kv by (intro kv.ok_fold_put assms(1))
  have "map_of (worker_slots e db') k = map_of (rev (map (\<lambda>(w, st). (workerStateKey w, st)) puts)) k" for k
  proof -
    have "stateGet e NS_WORKER k db = None"
      using assms(2) slots_lookup [of e db k] by simp
    then have "state_get db (e, NS_WORKER, k) = None" by (simp add: state_get_def)
    then have "state_get db' (e, NS_WORKER, k) =
        map_of (rev (map (\<lambda>(w, st). (workerStateKey w, st)) puts)) k"
      unfolding assms(3) put_all_kv kv.get_fold_put map_of_slot_keys by (auto split: option.splits)
    then show ?thesis by (simp add: slots_lookup state_get_def)
  qed
  moreover have "fst (workerCollect e (snd (workerCollect e db'))) = []"
    by (simp add: workerCollect_def filter_empty_conv)
  ultimately show ?thesis using slots_distinct [OF ok] by (simp add: workerCollect_slots fun_eq_iff)
qed

theorem collect_last_states_witness:
  "\<exists>db'. db' = put_all [1] [(Substream [2], [10]), (Substream [3], [11]), (Substream [2], [12])] empty_db
     \<and> map_of (worker_slots [1] db') = map_of [([2], [12]), ([3], [11]), ([2], [10])]"
proof -
  have "worker_slots [1] empty_db = []" by (simp add: worker_slots_def empty_db_def)
  from collect_last_states [OF db_ok_empty this refl,
      of "[(Substream [2], [10]), (Substream [3], [11]), (Substream [2], [12])]"]
  show ?thesis by simp
qed

text \<open>
  C30: \<open>stateLogScan\<close> is a faithful cursor.  A page of any limit followed by the scan from
  the page's last id is the scan without a limit, and an append is seen by every scan that
  starts below its id, after all earlier entries.
\<close>

theorem log_scan_cursor:
  assumes "db_ok db" "0 \<le> limit" "page = stateLogScan s n key afterId (Some limit) db" "page \<noteq> []"
    "(newId, db') = stateAppend s n key item db" "afterId < int newId"
  shows "stateLogScan s n key afterId None db
           = page @ stateLogScan s n key (int (fst (last page))) None db
       \<and> stateLogScan s n key afterId None db' = stateLogScan s n key afterId None db @ [(newId, item)]"
proof -
  have "page = log_scan (s, n, key) afterId (Some limit) db" using assms(3) by (simp add: log_scan_def)
  from slog.scan_resumes [OF assms(1,2) this assms(4)]
  have resume: "stateLogScan s n key afterId None db
      = page @ stateLogScan s n key (int (fst (last page))) None db"
    by (simp add: log_scan_def)
  have app: "log_append (s, n, key) item db = (newId, db')"
    using assms(5) by (simp add: log_append_def)
  then have ok': "db_ok db'" and ent: "log_entries (s, n, key) db' = log_entries (s, n, key) db @ [(newId, item)]"
    using slog.append_ok [OF assms(1), of "(s, n, key)" item]
      slog.append_entries [OF assms(1), of "(s, n, key)" "(s, n, key)" item] by simp_all
  have "log_scan (s, n, key) afterId None db' = log_scan (s, n, key) afterId None db @ [(newId, item)]"
    using assms(6) by (simp add: log_scan_all ok' assms(1) ent)
  with resume show ?thesis by (simp add: log_scan_def)
qed

theorem log_scan_cursor_witness:
  "\<exists>db db'. stateLogScan [1] [2] [3] (-1) None db' = stateLogScan [1] [2] [3] (-1) None db @ [(3, [30])]"
proof -
  define db where "db = snd (stateAppend [1] [2] [3] [20] (snd (stateAppend [1] [2] [3] [10] empty_db)))"
  have ok: "db_ok db" unfolding db_def by (intro db_ok_operations)
  have page: "[(1, [10])] = stateLogScan [1] [2] [3] (-1) (Some 1) db"
    unfolding db_def by code_simp
  obtain newId db' where app: "(newId, db') = stateAppend [1] [2] [3] [30] db" by (metis surj_pair)
  then have id3: "newId = 3" by (simp add: stateAppend_def db_def empty_db_def Let_def)
  from log_scan_cursor [OF ok _ page _ app] show ?thesis unfolding id3 by auto
qed

text \<open>
  C31: \<open>executionClear\<close> wipes the state and the log of its scope in every namespace,
  reports how many rows went, and leaves other scopes and every work queue as they were.
\<close>

theorem execution_clear_scope:
  "executionClear scope db = (count, db') \<Longrightarrow>
     stateGet s n k db' = (if s = scope then None else stateGet s n k db)
   \<and> log_entries (s, n, k) db' = (if s = scope then [] else log_entries (s, n, k) db)
   \<and> work_queue db' = work_queue db
   \<and> count + length (function_state db') + length (function_state_log db')
       = length (function_state db) + length (function_state_log db)"
proof -
  assume clear: "executionClear scope db = (count, db')"
  have "map_of (filter (\<lambda>r. \<not> state_row_in scope r) rows) (s, n, k) =
      (if s = scope then None else map_of rows (s, n, k))" for rows
    by (induction rows) (auto simp: state_row_in_def)
  moreover have "filter (\<lambda>(_, k', _). k' = (s, n, k)) (filter (\<lambda>r. \<not> log_row_in scope r) rows) =
      (if s = scope then [] else filter (\<lambda>(_, k', _). k' = (s, n, k)) rows)" for rows
    by (induction rows) (auto simp: log_row_in_def)
  moreover note sum_length_filter_compl [of "state_row_in scope" "function_state db"]
    sum_length_filter_compl [of "log_row_in scope" "function_state_log db"]
  ultimately show ?thesis
    using clear unfolding executionClear_def stateGet_def log_entries_def by auto
qed

theorem execution_clear_scope_witness:
  "\<exists>count db'. executionClear [1] (statePut [1] [2] [3] [4] empty_db) = (count, db')
     \<and> stateGet [1] [2] [3] db' = None"
proof -
  obtain count db' where c: "executionClear [1] (statePut [1] [2] [3] [4] empty_db) = (count, db')"
    by fastforce
  from execution_clear_scope [OF c, of "[1]" "[2]" "[3]"] c show ?thesis by auto
qed

text \<open>
  An 8-byte substream id is a worker id in disguise: it shares the slot of the process
  whose id it encodes, and \<open>workerScan\<close> reports that number for it.
\<close>

lemma substream_id_as_pid:
  assumes "- (2 ^ 63) \<le> pid" "pid < 2 ^ 63"
  shows "workerStateKey (Substream (int64Key pid)) = workerStateKey (WorkerId pid)"
    and "int64FromKey (workerStateKey (Substream (int64Key pid))) = pid"
  using assms by (simp_all add: int64FromKey_def int64Key_def i64_be_roundtrip)

end
