(* ===== verification/Collector.thy ===== *)
theory Collector
  imports FilterLaws Base64Codec
begin

text \<open>
  The output side of pushed filters, \<open>src/filter-pushdown/collector.ts\<close>: the collector that filters
  every emitted batch together with its row provenance, and the formatters for logs.  The wrapped
  collector is seen through the calls it receives; building a batch from columns is a parameter.
\<close>

section \<open>Formatting\<close>

definition formatPushedFilters :: "host \<Rightarrow> PushdownFilters option \<Rightarrow> string" where
  "formatPushedFilters h f = (case f of
     None \<Rightarrow> ''(none)''
   | Some f \<Rightarrow> if filters f = [] then ''(none)'' else let sql = toSql h f in if sql = [] then ''(none)'' else sql)"

definition opSymbol :: "ComparisonOp \<Rightarrow> string" where
  "opSymbol op = (case op of EQ \<Rightarrow> ''=='' | NE \<Rightarrow> ''!='' | GT \<Rightarrow> ''>'' | GE \<Rightarrow> ''>='' | LT \<Rightarrow> ''<'' | LE \<Rightarrow> ''<=''
     | DISTINCT_FROM \<Rightarrow> ''IS DISTINCT FROM'' | NOT_DISTINCT_FROM \<Rightarrow> ''IS NOT DISTINCT FROM'')"

definition reprValue :: "host \<Rightarrow> jsval \<Rightarrow> string" where
  "reprValue h v = (case v of VStr s \<Rightarrow> json_quote s | VBig i \<Rightarrow> int_to_string i | VNull \<Rightarrow> ''null'' | VUndef \<Rightarrow> ''null''
     | _ \<Rightarrow> js_to_string h v)"

fun reprFilter :: "host \<Rightarrow> FilterExpression \<Rightarrow> string" where
  "reprFilter h (ECompare op l r) = (case (l, r) of
     (EColumn _ n _, ELiteral _ _ v) \<Rightarrow> ''ConstantFilter('' @ n @ '' '' @ opSymbol op @ '' '' @ reprValue h v @ '')''
   | _ \<Rightarrow> ''V2ExpressionFilter('' @ expressionToSql h (ECompare op l r) @ '')'')"
| "reprFilter h (EIsNull e negated) =
     ''Is'' @ (if negated then ''Not'' else []) @ ''NullFilter('' @ expressionToSql h (EIsNull e negated) @ '')''"
| "reprFilter h (EIn e fset negated) = (let values = set_values fset;
       preview = (if 5 < length values
         then ''['' @ join_with '', '' (map (reprValue h) (take 3 values)) @ '']...('' @ nat_to_string (length values) @ '' total)''
         else ''['' @ join_with '', '' (map (reprValue h) values) @ '']'') in
     ''InFilter('' @ expressionToSql h e @ '' IN '' @ preview @ '')'')"
| "reprFilter h (EAnd cs) = ''AndFilter('' @ join_with '' AND '' (map (\<lambda>c. reprFilter h c) cs) @ '')''"
| "reprFilter h (EOr cs) = ''OrFilter('' @ join_with '' OR '' (map (\<lambda>c. reprFilter h c) cs) @ '')''"
| "reprFilter h e = ''V2ExpressionFilter('' @ expressionToSql h e @ '')''"

definition reprPushedFilters :: "host \<Rightarrow> PushdownFilters option \<Rightarrow> string" where
  "reprPushedFilters h f = (case f of
     None \<Rightarrow> ''(none)''
   | Some f \<Rightarrow> if filters f = [] then ''(none)''
       else ''PushdownFilters(['' @ join_with '', '' (map (reprFilter h) (filters f)) @ ''])'')"

section \<open>The filtering collector\<close>

type_synonym batch_metadata = "(string, string) jsmap"

datatype collector_call =
    Emit vgi_batch "batch_metadata option"
  | Finish
  | ClientLog string string "(string \<times> string) list option"

datatype emitted = EmitBatch vgi_batch | EmitColumns "(string \<times> jsval list) list"

record FilteringOutputCollector =
  inner_schema :: vgi_schema
  inner_calls :: "collector_call list"
  fc_filters :: PushdownFilters

type_synonym batch_builder = "(string \<times> jsval list) list \<Rightarrow> vgi_schema \<Rightarrow> vgi_batch"

definition inner_call :: "collector_call \<Rightarrow> FilteringOutputCollector \<Rightarrow> FilteringOutputCollector" where
  "inner_call call c = c\<lparr>inner_calls := inner_calls c @ [call]\<rparr>"

definition kept_parents :: "bool list \<Rightarrow> int list \<Rightarrow> int list" where
  "kept_parents keep parents = map (\<lambda>i. parents ! i) (filter (\<lambda>i. i < length keep \<and> keep ! i) [0..<length parents])"

definition emit ::
  "host \<Rightarrow> batch_builder \<Rightarrow> emitted \<Rightarrow> batch_metadata option \<Rightarrow> FilteringOutputCollector \<Rightarrow> filter_error + FilteringOutputCollector" where
  "emit h build batchOrColumns metadata c =
     (let batch = (case batchOrColumns of EmitBatch b \<Rightarrow> b | EmitColumns cols \<Rightarrow> build cols (inner_schema c));
          encoded = (case metadata of None \<Rightarrow> None | Some md \<Rightarrow> jm_get md PARENT_ROW_METADATA_KEY) in
      case (encoded, metadata) of
        (Some enc, Some md) \<Rightarrow>
          if 0 < b_rows batch \<and> filters (fc_filters c) \<noteq> [] then
            rbind (evaluate h (fc_filters c) batch) (\<lambda>keep.
              let kept = kept_parents keep (decodeParentRows enc);
                  md' = (if kept \<noteq> [] then jm_set PARENT_ROW_METADATA_KEY (encodeParentRows kept) md
                         else jm_del PARENT_ROW_METADATA_KEY md) in
              Inr (inner_call (Emit (filterBatch batch keep) (Some md')) c))
          else rbind (apply_filters h (fc_filters c) batch) (\<lambda>filtered. Inr (inner_call (Emit filtered metadata) c))
      | _ \<Rightarrow> rbind (apply_filters h (fc_filters c) batch) (\<lambda>filtered. Inr (inner_call (Emit filtered metadata) c)))"

definition emitRow ::
  "host \<Rightarrow> batch_builder \<Rightarrow> (string \<times> jsval) list \<Rightarrow> FilteringOutputCollector \<Rightarrow> filter_error + FilteringOutputCollector" where
  "emitRow h build vals c = emit h build (EmitColumns (map (\<lambda>(k, v). (k, [v])) vals)) None c"

definition finish :: "FilteringOutputCollector \<Rightarrow> FilteringOutputCollector" where
  "finish c = inner_call Finish c"

definition clientLog :: "string \<Rightarrow> string \<Rightarrow> (string \<times> string) list option \<Rightarrow> FilteringOutputCollector \<Rightarrow> FilteringOutputCollector" where
  "clientLog level message extra c = inner_call (ClientLog level message extra) c"

section \<open>Rows and provenance stay together\<close>

definition kept_rows :: "bool list \<Rightarrow> nat list" where
  "kept_rows keep = filter (\<lambda>i. keep ! i) [0..<length keep]"

lemma kept_parents_rows: "length parents = length keep \<Longrightarrow> kept_parents keep parents = map ((!) parents) (kept_rows keep)"
  unfolding kept_parents_def kept_rows_def by (intro arg_cong [where f = "map _"] filter_cong) auto

lemma filterBatch_rows: "length keep = b_rows batch \<Longrightarrow> b_rows (filterBatch batch keep) = length (kept_rows keep)"
proof -
  assume m: "length keep = b_rows batch"
  then have k: "filter (\<lambda>i. i < length keep \<and> keep ! i) [0..<b_rows batch] = kept_rows keep"
    unfolding kept_rows_def by (intro filter_cong) auto
  show ?thesis unfolding filterBatch_def k by (auto simp: Let_def emptyBatch_def)
qed

lemma kept_ints: "list_all is_int32 parents \<Longrightarrow> length parents = length keep \<Longrightarrow> list_all is_int32 (map ((!) parents) (kept_rows keep))"
  by (auto simp: list_all_iff kept_rows_def)

text \<open>
  C10: a filtered batch and its row provenance stay aligned.  Emitting a batch with one parent row per
  row passes on exactly one batch, of exactly the rows the filters keep, whose metadata decodes to
  the parents of those rows in order (and names no parents when no row is kept); every other
  metadata key is untouched.
\<close>

theorem emit_keeps_provenance:
  assumes "evaluate h (fc_filters c) batch = Inr keep" "filters (fc_filters c) \<noteq> []" "0 < b_rows batch"
    "jm_get md PARENT_ROW_METADATA_KEY = Some (encodeParentRows parents)" "length parents = b_rows batch" "list_all is_int32 parents"
  shows "\<exists>md'. emit h build (EmitBatch batch) (Some md) c = Inr (inner_call (Emit (filterBatch batch keep) (Some md')) c) \<and>
    b_rows (filterBatch batch keep) = length (kept_rows keep) \<and>
    map_option decodeParentRows (jm_get md' PARENT_ROW_METADATA_KEY) =
      (if kept_rows keep = [] then None else Some (map ((!) parents) (kept_rows keep))) \<and>
    (k \<noteq> PARENT_ROW_METADATA_KEY \<longrightarrow> jm_get md' k = jm_get md k)"
proof -
  let ?md' = "if kept_rows keep \<noteq> [] then jm_set PARENT_ROW_METADATA_KEY (encodeParentRows (map ((!) parents) (kept_rows keep))) md
      else jm_del PARENT_ROW_METADATA_KEY md"
  have len: "length keep = b_rows batch" using evaluate_length [OF assms(1)] .
  have p: "kept_parents keep parents = map ((!) parents) (kept_rows keep)" using assms(5) len by (intro kept_parents_rows) simp
  have "decodeParentRows (encodeParentRows (map ((!) parents) (kept_rows keep))) = map ((!) parents) (kept_rows keep)"
    using assms(5,6) len by (intro codec_simps kept_ints) simp_all
  then have codec: "map_option decodeParentRows (jm_get ?md' PARENT_ROW_METADATA_KEY) =
      (if kept_rows keep = [] then None else Some (map ((!) parents) (kept_rows keep)))"
    by (simp add: jm_get_set jm_get_del)
  have "emit h build (EmitBatch batch) (Some md) c = Inr (inner_call (Emit (filterBatch batch keep) (Some ?md')) c)"
    using assms len p by (simp add: emit_def codec_simps Let_def)
  moreover have "k \<noteq> PARENT_ROW_METADATA_KEY \<longrightarrow> jm_get ?md' k = jm_get md k" by (simp add: jm_get_set jm_get_del)
  ultimately show ?thesis using codec filterBatch_rows [OF len] by blast
qed

lemma emit_keeps_provenance_witness:
  "\<exists>md'. emit plain_host (\<lambda>_ s. emptyBatch s) (EmitBatch sample_batch) (Some [(PARENT_ROW_METADATA_KEY, encodeParentRows [7, 8, 9])])
      \<lparr>inner_schema = b_schema sample_batch, inner_calls = [], fc_filters = sample_filters\<rparr> =
    Inr \<lparr>inner_schema = b_schema sample_batch, inner_calls = [Emit (filterBatch sample_batch [True, False, False]) (Some md')],
      fc_filters = sample_filters\<rparr> \<and> map_option decodeParentRows (jm_get md' PARENT_ROW_METADATA_KEY) = Some [7]"
proof -
  let ?c = "\<lparr>inner_schema = b_schema sample_batch, inner_calls = [], fc_filters = sample_filters\<rparr>"
  have "evaluate plain_host (fc_filters ?c) sample_batch = Inr [True, False, False]" using sample_evaluate by simp
  moreover have "filters (fc_filters ?c) \<noteq> []" by (simp add: filters_def sample_filters_def)
  moreover have "0 < b_rows sample_batch" "length [7 :: int, 8, 9] = b_rows sample_batch" by (simp_all add: sample_batch_def)
  moreover have "list_all is_int32 [7, 8, 9]" by (simp add: is_int32_def)
  moreover have "jm_get [(PARENT_ROW_METADATA_KEY, encodeParentRows [7, 8, 9])] PARENT_ROW_METADATA_KEY = Some (encodeParentRows [7, 8, 9])"
    by (simp add: jm_get_def)
  moreover have "kept_rows [True, False, False] = [0]" by (simp add: kept_rows_def upt_rec)
  ultimately show ?thesis
    using emit_keeps_provenance [of plain_host ?c sample_batch "[True, False, False]"
        "[(PARENT_ROW_METADATA_KEY, encodeParentRows [7, 8, 9])]" "[7, 8, 9]" "\<lambda>_ s. emptyBatch s" "[]"]
    by (auto simp: inner_call_def)
qed

end
