(* ===== verification/Arguments.thy ===== *)
theory Arguments
  imports FilterLaws
begin

text \<open>
  Function arguments: the container of \<open>src/arguments/arguments.ts\<close> and the argument
  specifications of \<open>src/arguments/argument-spec.ts\<close> with their schema encoding, their constraints
  and the check of a bound value.  \<open>localeCompare\<close> and \<open>RegExp\<close> are parameters.
\<close>

section \<open>Bound arguments\<close>

record arguments =
  positional :: "jsval list"
  named :: "(string, jsval) jsmap"
  argumentsSchema :: "vgi_schema option"

datatype argument_error = ArgumentMissing string | ArgumentValidationError string

definition is_nullish :: "jsval \<Rightarrow> bool" where
  "is_nullish v \<longleftrightarrow> v = VNull \<or> v = VUndef"

text \<open>On plain values \<open>unwrapScalar\<close> is the identity: \<open>valueOf\<close> of an array or object is the object itself.\<close>

definition unwrapScalar :: "jsval \<Rightarrow> jsval" where
  "unwrapScalar v = (if is_nullish v then VNull else v)"

definition found_argument :: "jsval \<Rightarrow> jsval option \<Rightarrow> jsval" where
  "found_argument v default_value = (if is_nullish v then (case default_value of Some d \<Rightarrow> d | None \<Rightarrow> VNull) else unwrapScalar v)"

definition get_positional :: "arguments \<Rightarrow> nat \<Rightarrow> jsval option \<Rightarrow> argument_error + jsval" where
  "get_positional args i default_value =
     (if i < length (positional args) then Inr (found_argument (positional args ! i) default_value)
      else case default_value of Some d \<Rightarrow> Inr d
      | None \<Rightarrow> Inl (ArgumentMissing (''Positional argument '' @ nat_to_string i @ '' not found'')))"

definition get_named :: "arguments \<Rightarrow> string \<Rightarrow> jsval option \<Rightarrow> argument_error + jsval" where
  "get_named args name default_value =
     (case jm_get (named args) name of
        Some v \<Rightarrow> Inr (found_argument v default_value)
      | None \<Rightarrow> (case default_value of Some d \<Rightarrow> Inr d
          | None \<Rightarrow> Inl (ArgumentMissing (''Named argument '' @ json_quote name @ '' not found''))))"

section \<open>Argument specifications\<close>

datatype position = At nat | ByName string

record ArgumentSpec =
  as_name :: string
  as_position :: position
  as_type :: arrow_type
  isTableInput :: bool
  isAnyType :: bool
  isVarargs :: bool
  isConst :: bool
  doc :: string
  defaultJson :: "string option"
  choicesJson :: "string option"
  rangeNotation :: "string option"
  as_pattern :: "string option"

record ArgumentConstraints =
  choices :: "jsval list option"
  ge :: "jsnum option"
  le :: "jsnum option"
  gt :: "jsnum option"
  lt :: "jsnum option"
  c_pattern :: "string option"
  c_default :: "jsval option"

text \<open>\<open>JSON.stringify\<close>: \<open>None\<close> where it throws; an \<open>undefined\<close> member is \<open>null\<close> in an array and absent in an object.\<close>

definition json_number :: "host \<Rightarrow> jsnum \<Rightarrow> string" where
  "json_number h x = (case x of NaN \<Rightarrow> ''null'' | Inf _ \<Rightarrow> ''null'' | _ \<Rightarrow> num_to_string h x)"

function json_text :: "host \<Rightarrow> jsval \<Rightarrow> string option" where
  "json_text h v = (case v of
     VUndef \<Rightarrow> Some ''null'' | VNull \<Rightarrow> Some ''null'' | VBool b \<Rightarrow> Some (if b then ''true'' else ''false'')
   | VNum x \<Rightarrow> Some (json_number h x) | VBig _ \<Rightarrow> None | VStr s \<Rightarrow> Some (json_quote s)
   | VArr vs \<Rightarrow> (let ts = map (\<lambda>v. json_text h v) vs in
       if None \<in> set ts then None else Some (''['' @ join_with '','' (map the ts) @ '']''))
   | _ \<Rightarrow> (let ts = map (\<lambda>e. if snd e = VUndef then Some None else map_option (\<lambda>t. Some (json_quote (fst e) @ '':'' @ t)) (json_text h (snd e)))
             (own_props v) in
       if None \<in> set ts then None else Some (''{'' @ join_with '','' (List.map_filter the ts) @ ''}'')))"
  by pat_completeness auto
termination
  by (relation "measure (\<lambda>(h, v). jsize v)")
    (auto simp: less_Suc_eq_le member_sum_list simp del: own_props.simps dest: own_props_smaller)

definition safeJson :: "host \<Rightarrow> jsval \<Rightarrow> string" where
  "safeJson h value = (if value = VUndef then json_quote ''undefined''
     else case json_text h value of Some t \<Rightarrow> t | None \<Rightarrow> json_quote (js_to_string h value))"

definition formatRange :: "host \<Rightarrow> jsnum option \<Rightarrow> jsnum option \<Rightarrow> jsnum option \<Rightarrow> jsnum option \<Rightarrow> string option" where
  "formatRange h cge cle cgt clt =
     (if cge = None \<and> cle = None \<and> cgt = None \<and> clt = None then None
      else let low = (case cgt of Some x \<Rightarrow> ''('' @ num_to_string h x
                 | None \<Rightarrow> (case cge of Some x \<Rightarrow> ''['' @ num_to_string h x | None \<Rightarrow> ''(-inf''));
               high = (case clt of Some x \<Rightarrow> num_to_string h x @ '')''
                 | None \<Rightarrow> (case cle of Some x \<Rightarrow> num_to_string h x @ '']'' | None \<Rightarrow> ''+inf)'')) in
        Some (low @ '', '' @ high))"

text \<open>The four constraint fields: default, choices, range and pattern.\<close>

definition constraintSpecFields ::
  "host \<Rightarrow> ArgumentConstraints option \<Rightarrow> jsval option \<Rightarrow> string option \<times> string option \<times> string option \<times> string option" where
  "constraintSpecFields h cs runtimeDefault =
     (let dflt = (case runtimeDefault of Some d \<Rightarrow> Some (safeJson h d)
            | None \<Rightarrow> (case cs of None \<Rightarrow> None | Some c \<Rightarrow> map_option (safeJson h) (c_default c))) in
      case cs of None \<Rightarrow> (dflt, None, None, None)
      | Some c \<Rightarrow> (dflt, map_option (\<lambda>vs. safeJson h (VArr vs)) (choices c),
                   formatRange h (ge c) (le c) (gt c) (lt c), c_pattern c))"

definition toNumber :: "jsval \<Rightarrow> jsnum option" where
  "toNumber v = (case v of VNum x \<Rightarrow> Some x | VBig i \<Rightarrow> Some (num_of_int i) | _ \<Rightarrow> None)"

text \<open>A choice and the bound value are never the same object.\<close>

definition choiceEquals :: "jsval \<Rightarrow> jsval \<Rightarrow> bool" where
  "choiceEquals choice value = (case (toNumber choice, toNumber value) of
     (Some c, Some v) \<Rightarrow> num_eq c v | _ \<Rightarrow> \<not> is_object choice \<and> strict_equal choice value)"

definition narrowArgValue :: "jsval \<Rightarrow> jsval" where
  "narrowArgValue v = (case v of VBig i \<Rightarrow> VNum (num_of_int i) | _ \<Rightarrow> v)"

text \<open>The declared type of an argument may be a factory by mistake, or missing.\<close>

datatype declared_type = Typed arrow_type | Factory string | Missing jsval

definition assertArrowType :: "declared_type \<Rightarrow> string \<Rightarrow> argument_error + unit" where
  "assertArrowType value where = (case value of
     Typed _ \<Rightarrow> Inr ()
   | Factory n \<Rightarrow> Inl (ArgumentValidationError (where @ '' is a type factory, not an Arrow type''))
   | Missing v \<Rightarrow> if is_nullish v then Inl (ArgumentValidationError (where @ '' is not an Arrow type'')) else Inr ())"

fun assertArrowTypes :: "(string \<times> declared_type) list \<Rightarrow> string \<Rightarrow> argument_error + unit" where
  "assertArrowTypes [] where = Inr ()"
| "assertArrowTypes ((n, t) # ts) where = rbind (assertArrowType t (where @ ''.'' @ n)) (\<lambda>_. assertArrowTypes ts where)"

section \<open>Checking a bound value\<close>

type_synonym regexp_engine = "string \<Rightarrow> (string \<Rightarrow> bool) option"

definition range_error :: "host \<Rightarrow> string \<Rightarrow> string \<Rightarrow> jsnum \<Rightarrow> argument_error" where
  "range_error h name op bound = ArgumentValidationError (''argument '' @ name @ '' must be '' @ op @ num_to_string h bound)"

definition bound_ok :: "host \<Rightarrow> string \<Rightarrow> string \<Rightarrow> (jsnum \<Rightarrow> bool) \<Rightarrow> jsnum option \<Rightarrow> argument_error + unit" where
  "bound_ok h name op violated bound = (case bound of None \<Rightarrow> Inr ()
     | Some b \<Rightarrow> if violated b then Inl (range_error h name op b) else Inr ())"

definition num_le :: "jsnum \<Rightarrow> jsnum \<Rightarrow> bool" where
  "num_le x y \<longleftrightarrow> num_lt x y \<or> num_eq x y"

definition check_range :: "host \<Rightarrow> string \<Rightarrow> ArgumentConstraints \<Rightarrow> jsval \<Rightarrow> argument_error + unit" where
  "check_range h name c value = (case toNumber value of None \<Rightarrow> Inr ()
     | Some num \<Rightarrow>
         rbind (bound_ok h name ''>= '' (\<lambda>b. num_lt num b) (ge c)) (\<lambda>_.
         rbind (bound_ok h name ''<= '' (\<lambda>b. num_lt b num) (le c)) (\<lambda>_.
         rbind (bound_ok h name ''> '' (\<lambda>b. num_le num b) (gt c)) (\<lambda>_.
         bound_ok h name ''< '' (\<lambda>b. num_le b num) (lt c)))))"

definition check_choices :: "string \<Rightarrow> ArgumentConstraints \<Rightarrow> jsval \<Rightarrow> argument_error + unit" where
  "check_choices name c value = (case choices c of None \<Rightarrow> Inr ()
     | Some cs \<Rightarrow> if cs \<noteq> [] \<and> \<not> list_ex (\<lambda>ch. choiceEquals ch value) cs
         then Inl (ArgumentValidationError (''argument '' @ name @ '' must be one of its choices'')) else Inr ())"

definition check_pattern :: "regexp_engine \<Rightarrow> string \<Rightarrow> ArgumentConstraints \<Rightarrow> jsval \<Rightarrow> argument_error + unit" where
  "check_pattern regexp name c value = (case (c_pattern c, value) of
     (Some p, VStr s) \<Rightarrow> (case regexp p of None \<Rightarrow> Inr ()
        | Some test \<Rightarrow> if test s then Inr () else Inl (ArgumentValidationError (''argument '' @ name @ '' must match pattern '' @ json_quote p)))
   | _ \<Rightarrow> Inr ())"

definition validateConstConstraints ::
  "host \<Rightarrow> regexp_engine \<Rightarrow> string \<Rightarrow> ArgumentConstraints \<Rightarrow> jsval \<Rightarrow> argument_error + unit" where
  "validateConstConstraints h regexp name c value =
     (if is_nullish value then Inr ()
      else rbind (check_range h name c value) (\<lambda>_.
           rbind (check_choices name c value) (\<lambda>_. check_pattern regexp name c value)))"

section \<open>Schemas of argument specifications\<close>

type_synonym collation = "string \<Rightarrow> string \<Rightarrow> bool"

text \<open>\<open>collate a b\<close> is \<open>a.localeCompare(b) <= 0\<close>.\<close>

definition spec_le :: "collation \<Rightarrow> ArgumentSpec \<Rightarrow> ArgumentSpec \<Rightarrow> bool" where
  "spec_le collate a b = (case (as_position a, as_position b) of
     (At i, At j) \<Rightarrow> i \<le> j | (At _, ByName _) \<Rightarrow> True | (ByName _, At _) \<Rightarrow> False
   | (ByName n, ByName m) \<Rightarrow> collate n m)"

definition opt_entry :: "string \<Rightarrow> string option \<Rightarrow> (string \<times> string) list" where
  "opt_entry k v = (case v of Some s \<Rightarrow> [(k, s)] | None \<Rightarrow> [])"

definition flag_entry :: "string \<Rightarrow> bool \<Rightarrow> string \<Rightarrow> (string \<times> string) list" where
  "flag_entry k b v = (if b then [(k, v)] else [])"

definition is_named :: "ArgumentSpec \<Rightarrow> bool" where
  "is_named spec \<longleftrightarrow> (case as_position spec of ByName _ \<Rightarrow> True | At _ \<Rightarrow> False)"

definition spec_metadata :: "ArgumentSpec \<Rightarrow> (string \<times> string) list" where
  "spec_metadata spec =
     flag_entry ''vgi_arg'' (is_named spec) ''named'' @
     (if isTableInput spec then [(''vgi_type'', ''table'')] else flag_entry ''vgi_type'' (isAnyType spec) ''any'') @
     flag_entry ''vgi_varargs'' (isVarargs spec) ''true'' @
     flag_entry ''vgi_const'' (isConst spec) ''true'' @
     flag_entry ''vgi_doc'' (doc spec \<noteq> []) (doc spec) @
     opt_entry ''vgi_default'' (defaultJson spec) @ opt_entry ''vgi_choices'' (choicesJson spec) @
     opt_entry ''vgi_range'' (rangeNotation spec) @ opt_entry ''vgi_pattern'' (as_pattern spec)"

definition spec_field :: "ArgumentSpec \<Rightarrow> arrow_field" where
  "spec_field spec = Field (as_name spec) (as_type spec) True (spec_metadata spec) []"

definition argumentSpecsToSchema :: "collation \<Rightarrow> ArgumentSpec list \<Rightarrow> vgi_schema" where
  "argumentSpecsToSchema collate specs = \<lparr>s_fields = map spec_field (sort_by (spec_le collate) specs), s_metadata = []\<rparr>"

definition field_spec :: "position \<Rightarrow> arrow_field \<Rightarrow> ArgumentSpec" where
  "field_spec p f = (let get = map_of (f_metadata f) in
     \<lparr>as_name = f_name f, as_position = p, as_type = f_type f,
      isTableInput = (get ''vgi_type'' = Some ''table''), isAnyType = (get ''vgi_type'' = Some ''any''),
      isVarargs = (get ''vgi_varargs'' = Some ''true''), isConst = (get ''vgi_const'' = Some ''true''),
      doc = (case get ''vgi_doc'' of Some d \<Rightarrow> d | None \<Rightarrow> []), defaultJson = get ''vgi_default'',
      choicesJson = get ''vgi_choices'', rangeNotation = get ''vgi_range'', as_pattern = get ''vgi_pattern''\<rparr>)"

fun fields_to_specs :: "nat \<Rightarrow> arrow_field list \<Rightarrow> ArgumentSpec list" where
  "fields_to_specs i [] = []"
| "fields_to_specs i (f # fs) =
     (if map_of (f_metadata f) ''vgi_arg'' = Some ''named'' then field_spec (ByName (f_name f)) f # fields_to_specs i fs
      else field_spec (At i) f # fields_to_specs (Suc i) fs)"

definition schemaToArgumentSpecs :: "vgi_schema \<Rightarrow> ArgumentSpec list" where
  "schemaToArgumentSpecs schema = fields_to_specs 0 (s_fields schema)"

section \<open>Macros\<close>

definition macro_field :: "(string, arrow_type) jsmap \<Rightarrow> (string, string) jsmap \<Rightarrow> string \<Rightarrow> arrow_field" where
  "macro_field defaultTypes docs name =
     Field name (case jm_get defaultTypes name of Some t \<Rightarrow> t | None \<Rightarrow> TNull) True
       (case jm_get docs name of Some d \<Rightarrow> flag_entry ''vgi_doc'' (d \<noteq> []) d | None \<Rightarrow> []) []"

definition macroArgumentsSchema ::
  "(bytes \<Rightarrow> argument_error + vgi_batch) \<Rightarrow> string list \<Rightarrow> bytes option \<Rightarrow> (string, string) jsmap \<Rightarrow> argument_error + vgi_schema" where
  "macroArgumentsSchema ipc parameters defaults docs =
     rbind (case defaults of None \<Rightarrow> Inr [] | Some bs \<Rightarrow> if bs = [] then Inr []
            else rbind (ipc bs) (\<lambda>batch. Inr (jm_of (map (\<lambda>f. (f_name f, f_type f)) (s_fields (b_schema batch))))))
       (\<lambda>defaultTypes. Inr \<lparr>s_fields = map (macro_field defaultTypes docs) parameters, s_metadata = []\<rparr>)"

definition macroParameterDocsFromSchema :: "vgi_schema \<Rightarrow> (string, string) jsmap" where
  "macroParameterDocsFromSchema schema =
     fold (\<lambda>f docs. case map_of (f_metadata f) ''vgi_doc'' of
         Some d \<Rightarrow> if d \<noteq> [] then jm_set (f_name f) d docs else docs | None \<Rightarrow> docs) (s_fields schema) []"

section \<open>Encoding a signature keeps it\<close>

interpretation code_units: total_preorder str_le
  by unfold_locales (metis str_le_def str_less_linear str_less_irrefl str_less_trans)+

lemma map_of_flag [simp]: "map_of (flag_entry k b v @ es) j = (if b \<and> j = k then Some v else map_of es j)"
  by (simp add: flag_entry_def)

lemma map_of_opt [simp]: "map_of (opt_entry k v @ es) j = (if v \<noteq> None \<and> j = k then v else map_of es j)"
  by (cases v) (simp_all add: opt_entry_def)

lemma map_of_opt_last [simp]: "map_of (opt_entry k v) j = (if j = k then v else None)"
  by (cases v) (simp_all add: opt_entry_def)

definition spec_canonical :: "ArgumentSpec \<Rightarrow> bool" where
  "spec_canonical s \<longleftrightarrow> \<not> (isTableInput s \<and> isAnyType s) \<and> as_position s \<in> {ByName (as_name s)} \<union> range At"

lemma type_entry: "map_of ((if t then [(''vgi_type'', ''table'')] else flag_entry ''vgi_type'' a ''any'') @ es) j =
  (if (t \<or> a) \<and> j = ''vgi_type'' then Some (if t then ''table'' else ''any'') else map_of es j)"
  by (cases t) (simp_all del: map_of_append)

lemma spec_metadata_get:
  "map_of (spec_metadata s) ''vgi_arg'' = (if is_named s then Some ''named'' else None)"
  "map_of (spec_metadata s) ''vgi_type'' = (if isTableInput s then Some ''table'' else if isAnyType s then Some ''any'' else None)"
  "map_of (spec_metadata s) ''vgi_varargs'' = (if isVarargs s then Some ''true'' else None)"
  "map_of (spec_metadata s) ''vgi_const'' = (if isConst s then Some ''true'' else None)"
  "map_of (spec_metadata s) ''vgi_doc'' = (if doc s \<noteq> [] then Some (doc s) else None)"
  "map_of (spec_metadata s) ''vgi_default'' = defaultJson s"
  "map_of (spec_metadata s) ''vgi_choices'' = choicesJson s"
  "map_of (spec_metadata s) ''vgi_range'' = rangeNotation s"
  "map_of (spec_metadata s) ''vgi_pattern'' = as_pattern s"
  unfolding spec_metadata_def map_of_flag type_entry map_of_opt map_of_opt_last by simp_all

lemma field_spec_field: "spec_canonical s \<Longrightarrow> field_spec (as_position s) (spec_field s) = s"
  unfolding field_spec_def spec_field_def Let_def arrow_field.sel spec_metadata_get
  by (cases s) (auto simp: spec_canonical_def)

definition positions :: "ArgumentSpec list \<Rightarrow> nat list" where
  "positions specs = List.map_filter (\<lambda>s. case as_position s of At i \<Rightarrow> Some i | ByName _ \<Rightarrow> None) specs"

lemma positions_simps [simp]: "positions [] = []"
  "positions (s # ss) = (case as_position s of At i \<Rightarrow> i # positions ss | ByName _ \<Rightarrow> positions ss)"
  by (simp_all add: positions_def List.map_filter_simps split: position.splits)

lemma fields_to_specs_map:
  "positions ss = [i..<i + length (positions ss)] \<Longrightarrow> list_all spec_canonical ss \<Longrightarrow> fields_to_specs i (map spec_field ss) = ss"
proof (induction ss arbitrary: i)
  case Nil
  then show ?case by simp
next
  case (Cons s ss)
  then have c: "spec_canonical s" by simp
  have meta: "f_metadata (spec_field s) = spec_metadata s" "f_name (spec_field s) = as_name s" by (simp_all add: spec_field_def)
  show ?case
  proof (cases "as_position s")
    case (At j)
    have "[i..<i + Suc (length (positions ss))] = i # [Suc i..<Suc i + length (positions ss)]"
      by (simp add: upt_conv_Cons del: upt_Suc)
    with Cons.prems(1) At have "j = i" "positions ss = [Suc i..<Suc i + length (positions ss)]" by (simp_all del: upt_Suc)
    with Cons.IH [of "Suc i"] Cons.prems(2) At field_spec_field [OF c] show ?thesis
      by (simp add: meta spec_metadata_get is_named_def)
  next
    case (ByName n)
    with c have "n = as_name s" by (auto simp: spec_canonical_def)
    with Cons.IH [of i] Cons.prems ByName field_spec_field [OF c] show ?thesis
      by (simp add: meta spec_metadata_get is_named_def)
  qed
qed

lemma positions_insert_by:
  "length (positions (insert_by r x xs)) = length (positions (x # xs)) \<and> set (positions (insert_by r x xs)) = set (positions (x # xs))"
  by (induction xs) (auto split: position.splits)

lemma positions_sort_by:
  "length (positions (sort_by r xs)) = length (positions xs) \<and> set (positions (sort_by r xs)) = set (positions xs)"
proof (induction xs)
  case (Cons x xs)
  with positions_insert_by [of r x "sort_by r xs"] show ?case by (auto split: position.splits)
qed simp

lemma spec_le_preorder:
  assumes "total_preorder collate"
  shows "total_preorder (spec_le collate)"
proof
  fix a b c
  show "spec_le collate a b \<or> spec_le collate b a"
    using total_preorder.total [OF assms] by (auto simp: spec_le_def split: position.splits)
  show "spec_le collate a b \<Longrightarrow> spec_le collate b c \<Longrightarrow> spec_le collate a c"
    using total_preorder.trans [OF assms] by (auto simp: spec_le_def split: position.splits)
qed

lemma positions_sorted: "sorted_wrt (spec_le collate) ss \<Longrightarrow> sorted (positions ss)"
proof (induction ss)
  case (Cons s ss)
  have "i \<le> j" if "as_position s = At i" "j \<in> set (positions ss)" for i j
  proof -
    from that(2) obtain t where "t \<in> set ss" "as_position t = At j"
      by (auto simp: positions_def map_filter_def split: position.splits)
    with that(1) Cons.prems show ?thesis by (auto simp: spec_le_def)
  qed
  with Cons show ?case by (auto split: position.splits)
qed simp

text \<open>
  C9: a signature survives its schema.  For specifications whose positions are \<open>0\<close> to \<open>k - 1\<close>, whose
  named arguments are keyed by their names, and that are not both a table and of any type, reading
  the schema they are written to gives them back, flags, description and constraint metadata
  included, with the positional ones in order before the named ones.
\<close>

theorem argument_schema_roundtrip:
  assumes "total_preorder collate" "list_all spec_canonical specs" "set (positions specs) = {0..<length (positions specs)}"
  shows "schemaToArgumentSpecs (argumentSpecsToSchema collate specs) = sort_by (spec_le collate) specs \<and>
    sorted_wrt (spec_le collate) (sort_by (spec_le collate) specs)"
proof -
  let ?ss = "sort_by (spec_le collate) specs"
  note sorted = total_preorder.sorted_sort_by [OF spec_le_preorder [OF assms(1)]]
  have "sorted (positions ?ss)" by (rule positions_sorted [OF sorted])
  moreover have "set (positions ?ss) = {0..<length (positions ?ss)}" using positions_sort_by [of "spec_le collate" specs] assms(3) by simp
  moreover from this have "distinct (positions ?ss)" by (intro card_distinct) simp
  ultimately have "positions ?ss = [0..<0 + length (positions ?ss)]"
    by (intro sorted_distinct_set_unique) auto
  then have "fields_to_specs 0 (map spec_field ?ss) = ?ss"
    using assms(2) by (intro fields_to_specs_map) (simp_all add: list_all_iff)
  with sorted show ?thesis by (simp add: schemaToArgumentSpecs_def argumentSpecsToSchema_def)
qed

definition sample_spec :: "string \<Rightarrow> position \<Rightarrow> ArgumentSpec" where
  "sample_spec n p = \<lparr>as_name = n, as_position = p, as_type = TInt 64 True, isTableInput = False, isAnyType = False, isVarargs = False,
     isConst = True, doc = ''d'', defaultJson = None, choicesJson = None, rangeNotation = Some ''[0, +inf)'', as_pattern = None\<rparr>"

lemma argument_schema_roundtrip_witness:
  "schemaToArgumentSpecs (argumentSpecsToSchema str_le [sample_spec ''n'' (ByName ''n''), sample_spec ''a'' (At 0)]) =
   [sample_spec ''a'' (At 0), sample_spec ''n'' (ByName ''n'')]"
  using argument_schema_roundtrip [OF code_units.total_preorder_axioms, of "[sample_spec ''n'' (ByName ''n''), sample_spec ''a'' (At 0)]"]
  by (simp add: sample_spec_def spec_canonical_def spec_le_def)

end
