(* ===== verification/Registry.thy ===== *)
theory Registry
  imports Arguments
begin

text \<open>
  Schema paths (\<open>src/schema-path.ts\<close>) and the function registry with its overload resolution
  (\<open>src/functions/registry.ts\<close>).  A registered function is an object with an identity,
  \<open>fn_ref\<close>; \<open>localeCompare\<close> is a parameter.
\<close>

section \<open>Schema paths\<close>

datatype registry_error =
    InvalidSchemaPath
  | NotInSchema string "string list" "string list list"
  | FunctionNotFoundError string "string list"

definition schemaPathKey :: "string list \<Rightarrow> registry_error + string" where
  "schemaPathKey path = (if path = [] \<or> [] \<in> set path then Inl InvalidSchemaPath
     else Inr (join_with [CHR 0x00] (map to_lower path)))"

definition schemaPathsEqual :: "string list \<Rightarrow> string list \<Rightarrow> registry_error + bool" where
  "schemaPathsEqual l r = rbind (schemaPathKey l) (\<lambda>a. rbind (schemaPathKey r) (\<lambda>b. Inr (a = b)))"

definition schemaPathDisplay :: "string list \<Rightarrow> string" where
  "schemaPathDisplay path = join_with ''.'' (map json_quote path)"

section \<open>Functions and calls\<close>

datatype fn_kind = KScalar | KTable | KTableInOut | KTableBuffering

record VgiFunction =
  fn_ref :: nat
  fn_kind :: fn_kind
  fn_name :: string
  inputFromArgs :: bool
  argumentSpecs :: "ArgumentSpec list"

record OverloadContext =
  oc_arguments :: "arguments option"
  oc_inputSchema :: "vgi_schema option"
  oc_isScalar :: "bool option"
  oc_schemaPath :: "string list option"
  oc_catalogName :: "string option"

section \<open>Scores\<close>

definition EXACT_MATCH_SCORE :: nat where "EXACT_MATCH_SCORE = 2"
definition FAMILY_MATCH_SCORE :: nat where "FAMILY_MATCH_SCORE = 1"

definition typesIdentical :: "arrow_type \<Rightarrow> arrow_type \<Rightarrow> bool" where
  "typesIdentical a b \<longleftrightarrow> typeSignature a = typeSignature b"

definition typesCompatible :: "arrow_type \<Rightarrow> arrow_type \<Rightarrow> bool" where
  "typesCompatible actual declared \<longleftrightarrow> typesIdentical actual declared \<or>
     (isInt actual \<and> isInt declared) \<or>
     ((isFloat actual \<or> isDecimal actual) \<and> (isFloat declared \<or> isDecimal declared)) \<or>
     (isUtf8 actual \<and> isUtf8 declared) \<or> (isBinary actual \<and> isBinary declared) \<or> (isBool actual \<and> isBool declared)"

definition type_score :: "arrow_type \<Rightarrow> arrow_type \<Rightarrow> nat option" where
  "type_score actual declared = (if typesIdentical actual declared then Some EXACT_MATCH_SCORE
     else if typesCompatible actual declared then Some FAMILY_MATCH_SCORE else None)"

definition any_spec :: "ArgumentSpec \<Rightarrow> bool" where
  "any_spec spec \<longleftrightarrow> isAnyType spec \<or> isNull (as_type spec)"

definition varargs_spec :: "ArgumentSpec \<Rightarrow> ArgumentSpec option \<Rightarrow> ArgumentSpec option" where
  "varargs_spec spec va = (if isVarargs spec then Some spec else va)"

text \<open>The first loop: the score so far, whether it matched, and the varargs spec it met.\<close>

fun score_specs :: "ArgumentSpec list \<Rightarrow> arrow_type option list \<Rightarrow> nat \<Rightarrow> ArgumentSpec option \<Rightarrow> nat \<times> bool \<times> ArgumentSpec option" where
  "score_specs [] types score va = (score, True, va)"
| "score_specs (spec # specs) [] score va = (score, True, varargs_spec spec va)"
| "score_specs (spec # specs) (actual # types) score va =
     (if any_spec spec then score_specs specs types score (varargs_spec spec va)
      else case actual of None \<Rightarrow> score_specs specs types score (varargs_spec spec va)
      | Some t \<Rightarrow> (case type_score t (as_type spec) of
          Some s \<Rightarrow> score_specs specs types (score + s) (varargs_spec spec va)
        | None \<Rightarrow> (score, False, varargs_spec spec va)))"

fun score_tail :: "arrow_type \<Rightarrow> arrow_type option list \<Rightarrow> nat \<Rightarrow> nat \<times> bool" where
  "score_tail declared [] score = (score, True)"
| "score_tail declared (None # types) score = score_tail declared types score"
| "score_tail declared (Some t # types) score = (case type_score t declared of
     Some s \<Rightarrow> score_tail declared types (score + s) | None \<Rightarrow> (score, False))"

definition scoreTypes :: "ArgumentSpec list \<Rightarrow> arrow_type option list \<Rightarrow> nat \<times> bool" where
  "scoreTypes specs actualTypes = (case score_specs specs actualTypes 0 None of (score, matched, va) \<Rightarrow>
     if \<not> matched then (score, False)
     else case va of None \<Rightarrow> (score, True)
       | Some v \<Rightarrow> if any_spec v then (score, True) else score_tail (as_type v) (drop (length specs) actualTypes) score)"

definition is_positional :: "ArgumentSpec \<Rightarrow> bool" where
  "is_positional s \<longleftrightarrow> \<not> is_named s"

definition position_of :: "ArgumentSpec \<Rightarrow> nat" where
  "position_of s = (case as_position s of At i \<Rightarrow> i | ByName _ \<Rightarrow> 0)"

text \<open>The types of the positional arguments on the wire, and of input columns at declared positions.\<close>

definition wire_types :: "arguments \<Rightarrow> arrow_type option list" where
  "wire_types args = map (\<lambda>i. case argumentsSchema args of None \<Rightarrow> None
     | Some s \<Rightarrow> map_option f_type (List.find (\<lambda>f. f_name f = ''positional_'' @ nat_to_string i) (s_fields s)))
     [0..<length (positional args)]"

definition column_types :: "vgi_schema \<Rightarrow> ArgumentSpec list \<Rightarrow> arrow_type option list" where
  "column_types schema specs =
     (let fields = s_fields schema;
          va = foldl (\<lambda>va s. varargs_spec s va) None specs in
      map (\<lambda>s. if position_of s < length fields then Some (f_type (fields ! position_of s)) else None) specs @
      (case va of None \<Rightarrow> [] | Some v \<Rightarrow> map (\<lambda>f. Some (f_type f)) (drop (position_of v + 1) fields)))"

definition positional_specs :: "VgiFunction \<Rightarrow> ArgumentSpec list" where
  "positional_specs func = filter (\<lambda>s. is_positional s \<and> \<not> isTableInput s) (argumentSpecs func)"

definition candidate_score :: "arguments \<Rightarrow> vgi_schema option \<Rightarrow> bool \<Rightarrow> VgiFunction \<Rightarrow> nat option" where
  "candidate_score args inputSchema isScalar func =
     (if isScalar then
        let constSpecs = filter isConst (argumentSpecs func);
            colSpecs = filter (\<lambda>s. \<not> isConst s \<and> is_positional s) (argumentSpecs func) in
        (case scoreTypes constSpecs (wire_types args) of (s1, m1) \<Rightarrow>
           if \<not> m1 then None
           else case inputSchema of None \<Rightarrow> Some s1
             | Some schema \<Rightarrow> (case scoreTypes colSpecs (column_types schema colSpecs) of (s2, m2) \<Rightarrow>
                 if m2 then Some (s1 + s2) else None))
      else
        let posSpecs = sort_by (\<lambda>a b. position_of a \<le> position_of b) (positional_specs func);
            posTypes = (if inputFromArgs func
              then (case inputSchema of None \<Rightarrow> [] | Some schema \<Rightarrow> column_types schema posSpecs)
              else wire_types args) in
        (case scoreTypes posSpecs posTypes of (s, m) \<Rightarrow> if m then Some s else None))"

definition filterByArgumentTypes :: "VgiFunction list \<Rightarrow> arguments \<Rightarrow> vgi_schema option \<Rightarrow> bool \<Rightarrow> VgiFunction list" where
  "filterByArgumentTypes candidates args inputSchema isScalar =
     (let scored = List.map_filter (\<lambda>f. map_option (\<lambda>s. (s, f)) (candidate_score args inputSchema isScalar f)) candidates in
      if scored = [] then []
      else let best = Max (set (map fst scored)) in map snd (filter (\<lambda>(s, _). s = best) scored))"

section \<open>Counting arguments\<close>

definition count_matches :: "nat \<Rightarrow> ArgumentSpec list \<Rightarrow> bool" where
  "count_matches n specs = (if list_ex isVarargs specs then length (filter (\<lambda>s. \<not> isVarargs s) specs) \<le> n
     else length specs = n)"

definition named_known :: "arguments \<Rightarrow> VgiFunction \<Rightarrow> bool" where
  "named_known args func \<longleftrightarrow> (\<forall>k\<in>set (map fst (named args)). \<exists>s\<in>set (argumentSpecs func). as_position s = ByName k)"

definition count_filter :: "arguments \<Rightarrow> vgi_schema option \<Rightarrow> bool \<Rightarrow> VgiFunction \<Rightarrow> bool" where
  "count_filter args inputSchema isScalar func =
     (if isScalar then count_matches (length (positional args)) (filter isConst (argumentSpecs func))
      else if inputFromArgs func
      then count_matches (case inputSchema of None \<Rightarrow> 0 | Some s \<Rightarrow> length (s_fields s)) (positional_specs func) \<and> named_known args func
      else count_matches (length (positional args)) (positional_specs func))"

text \<open>\<open>_disambiguate\<close>, for a list of candidates that is not empty.\<close>

definition disambiguate :: "VgiFunction list \<Rightarrow> OverloadContext option \<Rightarrow> VgiFunction" where
  "disambiguate candidates context =
     (if length candidates = 1 then hd candidates
      else case context of None \<Rightarrow> hd candidates
      | Some ctx \<Rightarrow> (case oc_arguments ctx of None \<Rightarrow> hd candidates
        | Some args \<Rightarrow>
            let isScalar = (case oc_isScalar ctx of Some b \<Rightarrow> b | None \<Rightarrow> fn_kind (hd candidates) = KScalar);
                matches = filter (count_filter args (oc_inputSchema ctx) isScalar) candidates;
                matches = (if matches = [] then candidates else matches) in
            if length matches = 1 then hd matches
            else case filterByArgumentTypes matches args (oc_inputSchema ctx) isScalar of
              f # _ \<Rightarrow> f | [] \<Rightarrow> hd candidates))"

section \<open>The registry\<close>

record FunctionRegistry =
  reg_functions :: "(string, VgiFunction list) jsmap"
  bySchema :: "(string, VgiFunction list) jsmap"
  byCatalog :: "(string, VgiFunction list) jsmap"

definition empty_registry :: FunctionRegistry where
  "empty_registry = \<lparr>reg_functions = [], bySchema = [], byCatalog = []\<rparr>"

definition schemaKey :: "string list \<Rightarrow> string \<Rightarrow> registry_error + string" where
  "schemaKey path name = rbind (schemaPathKey path) (\<lambda>k. Inr (k @ CHR 0x01 # name))"

definition catalogKey :: "string \<Rightarrow> string list \<Rightarrow> string \<Rightarrow> registry_error + string" where
  "catalogKey catalog path name = rbind (schemaKey path name) (\<lambda>k. Inr (to_lower catalog @ CHR 0x00 # k))"

definition bucket :: "('k, 'v list) jsmap \<Rightarrow> 'k \<Rightarrow> 'v list" where
  "bucket m k = (case jm_get m k of Some b \<Rightarrow> b | None \<Rightarrow> [])"

definition register :: "VgiFunction \<Rightarrow> FunctionRegistry \<Rightarrow> FunctionRegistry" where
  "register func r = r\<lparr>reg_functions := jm_set (fn_name func) (bucket (reg_functions r) (fn_name func) @ [func]) (reg_functions r)\<rparr>"

definition add_bucket :: "string \<Rightarrow> VgiFunction \<Rightarrow> (string, VgiFunction list) jsmap \<Rightarrow> (string, VgiFunction list) jsmap" where
  "add_bucket key func m = (case jm_get m key of
     None \<Rightarrow> jm_set key [func] m
   | Some b \<Rightarrow> if fn_ref func \<in> set (map fn_ref b) then m else jm_set key (b @ [func]) m)"

definition registerInSchema :: "VgiFunction \<Rightarrow> string list \<Rightarrow> string option \<Rightarrow> FunctionRegistry \<Rightarrow> registry_error + FunctionRegistry" where
  "registerInSchema func path catalog r =
     rbind (schemaKey path (fn_name func)) (\<lambda>k.
     let r' = r\<lparr>bySchema := add_bucket k func (bySchema r)\<rparr> in
     case catalog of None \<Rightarrow> Inr r'
     | Some c \<Rightarrow> if c = [] then Inr r'
         else rbind (catalogKey c path (fn_name func)) (\<lambda>ck. Inr (r'\<lparr>byCatalog := add_bucket ck func (byCatalog r')\<rparr>)))"

text \<open>The schema and name parts of a key, split at its last \<open>U+0001\<close>.\<close>

definition key_name :: "string \<Rightarrow> string" where
  "key_name key = rev (takeWhile (\<lambda>c. c \<noteq> CHR 0x01) (rev key))"

definition key_schema :: "string \<Rightarrow> string" where
  "key_schema key = rev (tl (dropWhile (\<lambda>c. c \<noteq> CHR 0x01) (rev key)))"

fun split_on :: "char \<Rightarrow> string \<Rightarrow> string list" where
  "split_on z [] = [[]]"
| "split_on z (c # s) = (if c = z then [] # split_on z s
     else (case split_on z s of w # ws \<Rightarrow> (c # w) # ws | [] \<Rightarrow> [[c]]))"

definition schemasFor :: "collation \<Rightarrow> string \<Rightarrow> FunctionRegistry \<Rightarrow> registry_error + string list list" where
  "schemasFor collate name r =
     (let out = map (\<lambda>k. split_on (CHR 0x00) (key_schema k)) (filter (\<lambda>k. key_name k = name) (map fst (bySchema r))) in
      if 1 < length out \<and> list_ex (\<lambda>p. [] \<in> set p) out then Inl InvalidSchemaPath
      else Inr (sort_by (\<lambda>a b. collate (join_with [CHR 0x00] (map to_lower a)) (join_with [CHR 0x00] (map to_lower b))) out))"

definition names :: "FunctionRegistry \<Rightarrow> string list" where
  "names r = sort_by str_le (map fst (reg_functions r))"

definition all_functions :: "FunctionRegistry \<Rightarrow> VgiFunction list" where
  "all_functions r = concat (map snd (reg_functions r))"

definition has_function :: "string \<Rightarrow> FunctionRegistry \<Rightarrow> bool" where
  "has_function name r \<longleftrightarrow> bucket (reg_functions r) name \<noteq> []"

definition get_unscoped :: "string \<Rightarrow> VgiFunction list \<Rightarrow> OverloadContext option \<Rightarrow> FunctionRegistry \<Rightarrow> registry_error + VgiFunction" where
  "get_unscoped name candidates context r =
     (if candidates = [] then Inl (FunctionNotFoundError name (names r)) else Inr (disambiguate candidates context))"

definition get_in_schema ::
  "collation \<Rightarrow> string \<Rightarrow> string list option \<Rightarrow> OverloadContext option \<Rightarrow> FunctionRegistry \<Rightarrow> registry_error + VgiFunction" where
  "get_in_schema collate name schemaPath context r =
     (let candidates = bucket (reg_functions r) name in
      case schemaPath of None \<Rightarrow> get_unscoped name candidates context r
      | Some path \<Rightarrow> rbind (schemaKey path name) (\<lambda>k.
          let scoped = bucket (bySchema r) k in
          if scoped \<noteq> [] then get_unscoped name scoped context r
          else if candidates = [] then get_unscoped name candidates context r
          else rbind (schemasFor collate name r) (\<lambda>schemas.
            if schemas \<noteq> [] then Inl (NotInSchema name path schemas) else get_unscoped name candidates context r)))"

definition get_function :: "collation \<Rightarrow> string \<Rightarrow> OverloadContext option \<Rightarrow> FunctionRegistry \<Rightarrow> registry_error + VgiFunction" where
  "get_function collate name context r =
     (let path = (case context of None \<Rightarrow> None | Some c \<Rightarrow> oc_schemaPath c);
          catalog = (case context of None \<Rightarrow> None | Some c \<Rightarrow> oc_catalogName c) in
      case (catalog, path) of
        (Some c, Some p) \<Rightarrow>
          if c = [] then get_in_schema collate name path context r
          else rbind (catalogKey c p name) (\<lambda>k.
            if bucket (byCatalog r) k \<noteq> [] then Inr (disambiguate (bucket (byCatalog r) k) context)
            else get_in_schema collate name path context r)
      | _ \<Rightarrow> get_in_schema collate name path context r)"

section \<open>Keys\<close>

lemma split_on_ne: "split_on z s \<noteq> []"
  by (induction s) (auto split: list.splits)

lemma split_on_plain: "z \<notin> set w \<Longrightarrow> split_on z w = [w]"
  by (induction w) auto

lemma split_on_append: "z \<notin> set w \<Longrightarrow> split_on z (w @ z # s) = w # split_on z s"
  by (induction w) auto

lemma split_on_join: "ws \<noteq> [] \<Longrightarrow> (\<And>w. w \<in> set ws \<Longrightarrow> z \<notin> set w) \<Longrightarrow> split_on z (join_with [z] ws) = ws"
proof (induction "[z]" ws rule: join_with.induct)
  case (3 w v ws)
  then show ?case using split_on_append [of z w "join_with [z] (v # ws)"] by simp
qed (auto simp: split_on_plain)

lemma lower_char_zero: "lower_char c = CHR 0x00 \<longleftrightarrow> c = CHR 0x00"
proof
  assume a: "lower_char c = CHR 0x00"
  have z: "(of_char (CHR 0x00) :: nat) = 0" by simp
  show "c = CHR 0x00"
  proof (cases "lower_char c = c")
    case False
    then have "lower_char c = char_of ((of_char c :: nat) + 32)" "(of_char c :: nat) \<le> 222"
      by (auto simp: lower_char_def Let_def split: if_splits)
    then have "(of_char (lower_char c) :: nat) = ((of_char c :: nat) + 32) mod 256" by simp
    with a z \<open>(of_char c :: nat) \<le> 222\<close> show ?thesis by simp
  qed (use a in simp)
qed (simp add: lower_char_def)

definition plain_part :: "string \<Rightarrow> bool" where
  "plain_part w \<longleftrightarrow> CHR 0x00 \<notin> set w"

lemma plain_lower: "plain_part w \<Longrightarrow> CHR 0x00 \<notin> set (to_lower w)"
  by (auto simp: plain_part_def to_lower_def) (metis lower_char_zero)

lemma schemaPathKey_inj:
  assumes "schemaPathKey p = Inr k" "schemaPathKey q = Inr k" "list_all plain_part p" "list_all plain_part q"
  shows "map to_lower p = map to_lower q"
proof -
  have "split_on (CHR 0x00) (join_with [CHR 0x00] (map to_lower x)) = map to_lower x" if "x \<noteq> []" "list_all plain_part x" for x
    using that by (intro split_on_join) (auto simp: list_all_iff dest: plain_lower)
  with assms show ?thesis by (metis (no_types, lifting) Inr_inject schemaPathKey_def sum.distinct(1))
qed

definition plain_name :: "string \<Rightarrow> bool" where
  "plain_name n \<longleftrightarrow> CHR 0x01 \<notin> set n"

lemma last_separator:
  assumes "k @ z # n = k' @ z # n'" "z \<notin> set n" "z \<notin> set n'"
  shows "k = k' \<and> n = n'"
proof -
  have "rev n @ z # rev k = rev n' @ z # rev k'" using arg_cong [OF assms(1), of rev] by simp
  then have "rev n = rev n' \<and> rev k = rev k'" using assms(2,3) by (intro split_at_separator) simp_all
  then show ?thesis by simp
qed

lemma schemaKey_inj:
  assumes "schemaKey p n = Inr k" "schemaKey q m = Inr k" "list_all plain_part p" "list_all plain_part q" "plain_name n" "plain_name m"
  shows "map to_lower p = map to_lower q \<and> n = m"
proof -
  from assms(1,2) obtain a b where "schemaPathKey p = Inr a" "schemaPathKey q = Inr b" "a @ CHR 0x01 # n = b @ CHR 0x01 # m"
    by (auto simp: schemaKey_def result_simps)
  with last_separator [of a "CHR 0x01" n b m] assms(3-6) schemaPathKey_inj [of p a q] show ?thesis
    by (auto simp: plain_name_def)
qed

lemma catalogKey_inj:
  assumes "catalogKey c p n = Inr k" "catalogKey d q m = Inr k" "plain_part c" "plain_part d"
    "list_all plain_part p" "list_all plain_part q" "plain_name n" "plain_name m"
  shows "to_lower c = to_lower d \<and> map to_lower p = map to_lower q \<and> n = m"
proof -
  from assms(1,2) obtain a b where ab: "schemaKey p n = Inr a" "schemaKey q m = Inr b"
      "to_lower c @ CHR 0x00 # a = to_lower d @ CHR 0x00 # b"
    by (auto simp: catalogKey_def result_simps)
  have "to_lower c = to_lower d \<and> a = b"
    by (rule split_at_separator [OF ab(3) plain_lower [OF assms(3)] plain_lower [OF assms(4)]])
  with ab(1,2) schemaKey_inj [of p n a q m] assms(5-8) show ?thesis by auto
qed

lemma takeWhile_separator: "z \<notin> set xs \<Longrightarrow> takeWhile (\<lambda>c. c \<noteq> z) (xs @ z # ys) = xs"
  by (subst takeWhile_append2) auto

lemma key_name_schemaKey: "schemaKey p n = Inr k \<Longrightarrow> plain_name n \<Longrightarrow> key_name k = n"
  by (auto simp: schemaKey_def result_simps key_name_def plain_name_def takeWhile_separator)

section \<open>What a registry holds\<close>

text \<open>The registries reachable by registrations, with the functions declared in schemas and the plain registrations.\<close>

type_synonym schema_entry = "VgiFunction \<times> string list \<times> string option"

inductive registry_state :: "schema_entry list \<Rightarrow> VgiFunction list \<Rightarrow> FunctionRegistry \<Rightarrow> bool" where
  start: "registry_state [] [] empty_registry"
| plain: "registry_state ds fs r \<Longrightarrow> registry_state ds (fs @ [f]) (register f r)"
| scoped: "registry_state ds fs r \<Longrightarrow> registerInSchema f p c r = Inr r' \<Longrightarrow> registry_state (ds @ [(f, p, c)]) fs r'"

lemma bucket_add: "bucket (add_bucket k f m) j = (if j = k \<and> fn_ref f \<notin> fn_ref ` set (bucket m k) then bucket m k @ [f] else bucket m j)"
  by (auto simp: bucket_def add_bucket_def jm_get_set split: option.splits)

lemma bucket_set: "bucket (jm_set k b m) j = (if j = k then b else bucket m j)"
  by (simp add: bucket_def jm_get_set)

definition in_schema :: "schema_entry list \<Rightarrow> VgiFunction \<Rightarrow> string \<Rightarrow> bool" where
  "in_schema ds f k \<longleftrightarrow> (\<exists>p c. (f, p, c) \<in> set ds \<and> schemaKey p (fn_name f) = Inr k)"

definition in_catalog :: "schema_entry list \<Rightarrow> VgiFunction \<Rightarrow> string \<Rightarrow> bool" where
  "in_catalog ds f k \<longleftrightarrow> (\<exists>p c. (f, p, Some c) \<in> set ds \<and> c \<noteq> [] \<and> catalogKey c p (fn_name f) = Inr k)"

lemma registry_invariant:
  assumes "registry_state ds fs r"
  shows "(\<forall>k. \<forall>f\<in>set (bucket (bySchema r) k). in_schema ds f k) \<and> (\<forall>k. \<forall>f\<in>set (bucket (byCatalog r) k). in_catalog ds f k) \<and>
    (\<forall>f k. in_schema ds f k \<longrightarrow> fn_ref f \<in> fn_ref ` set (bucket (bySchema r) k)) \<and>
    (\<forall>f k. in_catalog ds f k \<longrightarrow> fn_ref f \<in> fn_ref ` set (bucket (byCatalog r) k)) \<and>
    (\<forall>n. bucket (reg_functions r) n = filter (\<lambda>f. fn_name f = n) fs) \<and> jm_ok (bySchema r)"
  using assms
proof induction
  case start
  then show ?case by (simp add: empty_registry_def bucket_def in_schema_def in_catalog_def)
next
  case (plain ds fs r f)
  then show ?case by (simp add: register_def bucket_set)
next
  case (scoped ds fs r f p c r')
  from scoped.hyps(2) obtain k where k: "schemaKey p (fn_name f) = Inr k" by (auto simp: registerInSchema_def result_simps)
  have sch: "in_schema (ds @ [(f, p, c)]) g j \<longleftrightarrow> in_schema ds g j \<or> (g = f \<and> j = k)" for g j
    using k by (auto simp: in_schema_def)
  have ok: "jm_ok (add_bucket k f (bySchema r))"
    using scoped.IH by (auto simp: add_bucket_def intro: jm_ok_set split: option.splits)
  show ?case
  proof (cases "c = None \<or> c = Some []")
    case True
    then have "r' = r\<lparr>bySchema := add_bucket k f (bySchema r)\<rparr>"
      using scoped.hyps(2) k by (auto simp: registerInSchema_def)
    moreover have "in_catalog (ds @ [(f, p, c)]) g j \<longleftrightarrow> in_catalog ds g j" for g j using True by (auto simp: in_catalog_def)
    ultimately show ?thesis using scoped.IH ok by (auto simp: sch bucket_add)
  next
    case False
    then obtain d where d: "c = Some d" "d \<noteq> []" by auto
    with scoped.hyps(2) k obtain ck where ck: "catalogKey d p (fn_name f) = Inr ck"
        "r' = r\<lparr>bySchema := add_bucket k f (bySchema r), byCatalog := add_bucket ck f (byCatalog r)\<rparr>"
      by (auto simp: registerInSchema_def result_simps)
    have cat: "in_catalog (ds @ [(f, p, c)]) g j \<longleftrightarrow> in_catalog ds g j \<or> (g = f \<and> j = ck)" for g j
      using d ck(1) by (auto simp: in_catalog_def)
    show ?thesis using scoped.IH ok ck(2) by (auto simp: sch cat bucket_add)
  qed
qed

lemma bucket_mem: "bucket m k \<noteq> [] \<Longrightarrow> k \<in> set (map fst m)"
  by (auto simp: bucket_def jm_get_def dest: map_of_SomeD split: option.splits intro: rev_image_eqI)

section \<open>Overload resolution\<close>

lemma filterByArgumentTypes_best:
  assumes "f \<in> set (filterByArgumentTypes candidates args schema sc)"
  shows "f \<in> set candidates" "\<exists>s. candidate_score args schema sc f = Some s \<and>
    (\<forall>g\<in>set candidates. \<forall>t. candidate_score args schema sc g = Some t \<longrightarrow> t \<le> s)"
proof -
  let ?scored = "List.map_filter (\<lambda>f. map_option (\<lambda>s. (s, f)) (candidate_score args schema sc f)) candidates"
  have mem: "(s, g) \<in> set ?scored \<longleftrightarrow> g \<in> set candidates \<and> candidate_score args schema sc g = Some s" for s g
    by (force simp: map_filter_def)
  from assms have b: "(Max (set (map fst ?scored)), f) \<in> set ?scored"
    by (auto simp: filterByArgumentTypes_def Let_def split: if_splits)
  then show "f \<in> set candidates" by (simp add: mem)
  have "t \<le> Max (set (map fst ?scored))" if "g \<in> set candidates" "candidate_score args schema sc g = Some t" for g t
  proof (rule Max_ge)
    have "(t, g) \<in> set ?scored" using that by (simp add: mem)
    then show "t \<in> set (map fst ?scored)" by force
  qed simp
  with b show "\<exists>s. candidate_score args schema sc f = Some s \<and>
    (\<forall>g\<in>set candidates. \<forall>t. candidate_score args schema sc g = Some t \<longrightarrow> t \<le> s)"
    by (auto simp: mem)
qed

lemma filterByArgumentTypes_Nil:
  assumes "filterByArgumentTypes candidates args schema sc = []" "g \<in> set candidates"
  shows "candidate_score args schema sc g = None"
proof -
  let ?scored = "List.map_filter (\<lambda>f. map_option (\<lambda>s. (s, f)) (candidate_score args schema sc f)) candidates"
  have "?scored = []"
  proof (rule ccontr)
    assume n: "?scored \<noteq> []"
    then have "Max (set (map fst ?scored)) \<in> set (map fst ?scored)" by (intro Max_in) auto
    then obtain e where "e \<in> set ?scored" "fst e = Max (set (map fst ?scored))" by auto
    then have "e \<in> set (filter (\<lambda>(s, _). s = Max (set (map fst ?scored))) ?scored)" by auto
    with assms(1) n show False by (auto simp: filterByArgumentTypes_def Let_def)
  qed
  with assms(2) show ?thesis by (auto simp: map_filter_def filter_empty_conv)
qed

lemma disambiguate_member: "candidates \<noteq> [] \<Longrightarrow> disambiguate candidates context \<in> set candidates"
proof -
  assume ne: "candidates \<noteq> []"
  have "hd xs \<in> set candidates" if "xs \<noteq> []" "set xs \<subseteq> set candidates" for xs using that by auto
  moreover have "f \<in> set candidates" if "filterByArgumentTypes ms args s sc = f # fs" "set ms \<subseteq> set candidates" for ms args s sc f fs
    using filterByArgumentTypes_best(1) [of f ms args s sc] that by auto
  ultimately show ?thesis using ne
    by (auto simp: disambiguate_def Let_def split: option.splits list.splits if_splits)
qed

text \<open>The overloads left by the argument count, all of them where the count fits none.\<close>

definition count_candidates :: "VgiFunction list \<Rightarrow> arguments \<Rightarrow> vgi_schema option \<Rightarrow> bool \<Rightarrow> VgiFunction list" where
  "count_candidates candidates args schema sc =
     (let ms = filter (count_filter args schema sc) candidates in if ms = [] then candidates else ms)"


definition int_spec :: "nat \<Rightarrow> ArgumentSpec" where
  "int_spec w = (sample_spec ''x'' (At 0))\<lparr>as_type := TInt w True, isConst := False\<rparr>"

definition int_function :: "nat \<Rightarrow> nat \<Rightarrow> VgiFunction" where
  "int_function ref w = \<lparr>fn_ref = ref, fn_kind = KTable, fn_name = ''f'', inputFromArgs = False, argumentSpecs = [int_spec w]\<rparr>"

definition int_call :: "string list option \<Rightarrow> nat \<Rightarrow> OverloadContext" where
  "int_call path w = \<lparr>oc_arguments = Some \<lparr>positional = [VBig 42], named = [],
       argumentsSchema = Some \<lparr>s_fields = [sample_field ''positional_0'' (TInt w True)], s_metadata = []\<rparr>\<rparr>,
     oc_inputSchema = None, oc_isScalar = None, oc_schemaPath = path, oc_catalogName = None\<rparr>"


section \<open>Scoped lookups\<close>

definition plain_entries :: "schema_entry list \<Rightarrow> bool" where
  "plain_entries ds \<longleftrightarrow> list_all (\<lambda>(f, p, c). plain_name (fn_name f) \<and> list_all plain_part p \<and>
     (case c of None \<Rightarrow> True | Some c \<Rightarrow> plain_part c)) ds"

definition same_path :: "string list \<Rightarrow> string list \<Rightarrow> bool" where
  "same_path p q \<longleftrightarrow> map to_lower p = map to_lower q"

lemma same_path_key: "same_path p q \<Longrightarrow> schemaPathKey p = Inr k \<Longrightarrow> schemaPathKey q = Inr k"
proof -
  assume s: "same_path p q" and k: "schemaPathKey p = Inr k"
  have "[] \<in> set q \<longleftrightarrow> [] \<in> set (map to_lower q)" "[] \<in> set p \<longleftrightarrow> [] \<in> set (map to_lower p)" by (auto simp: to_lower_def)
  with s k show ?thesis by (auto simp: schemaPathKey_def same_path_def split: if_splits)
qed

lemma in_schema_path:
  assumes "in_schema ds f k" "plain_entries ds" "schemaKey p n = Inr k" "list_all plain_part p" "plain_name n"
  shows "fn_name f = n \<and> (\<exists>q c. (f, q, c) \<in> set ds \<and> same_path p q)"
proof -
  from assms(1) obtain q c where q: "(f, q, c) \<in> set ds" "schemaKey q (fn_name f) = Inr k" by (auto simp: in_schema_def)
  then have "list_all plain_part q" "plain_name (fn_name f)" using assms(2) by (auto simp: plain_entries_def list_all_iff)
  with schemaKey_inj [OF assms(3) q(2) assms(4)] assms(5) q(1) show ?thesis by (auto simp: same_path_def)
qed

lemma in_catalog_path:
  assumes "in_catalog ds f k" "plain_entries ds" "catalogKey c p n = Inr k" "plain_part c" "list_all plain_part p" "plain_name n"
  shows "fn_name f = n \<and> (\<exists>q d. (f, q, Some d) \<in> set ds \<and> same_path p q \<and> to_lower c = to_lower d)"
proof -
  from assms(1) obtain q d where q: "(f, q, Some d) \<in> set ds" "catalogKey d q (fn_name f) = Inr k" by (auto simp: in_catalog_def)
  then have "list_all plain_part q" "plain_name (fn_name f)" "plain_part d" using assms(2) by (auto simp: plain_entries_def list_all_iff)
  with catalogKey_inj [OF assms(3) q(2) assms(4) _ assms(5)] assms(6) q(1) show ?thesis by (auto simp: same_path_def)
qed

lemma registered_key:
  assumes "registry_state ds fs r" "(g, q, c) \<in> set ds"
  shows "\<exists>k. schemaKey q (fn_name g) = Inr k"
  using assms by (induction) (auto simp: registerInSchema_def result_simps)

lemma schemasFor_some:
  assumes "registry_state ds fs r" "(g, q, c) \<in> set ds" "plain_entries ds" "schemasFor collate (fn_name g) r = Inr schemas"
  shows "schemas \<noteq> []"
proof -
  obtain k where k: "schemaKey q (fn_name g) = Inr k" using registered_key [OF assms(1,2)] by blast
  have "in_schema ds g k" using assms(2) k by (auto simp: in_schema_def)
  then have "bucket (bySchema r) k \<noteq> []" using registry_invariant [OF assms(1)] by fastforce
  then have "k \<in> set (map fst (bySchema r))" by (rule bucket_mem)
  moreover have "key_name k = fn_name g"
    using key_name_schemaKey [OF k] assms(2,3) by (auto simp: plain_entries_def list_all_iff)
  ultimately have "filter (\<lambda>k. key_name k = fn_name g) (map fst (bySchema r)) \<noteq> []" by (auto simp: filter_empty_conv)
  then have "map (\<lambda>k. split_on (CHR 0x00) (key_schema k)) (filter (\<lambda>k. key_name k = fn_name g) (map fst (bySchema r))) \<noteq> []" by simp
  with assms(4) show ?thesis
    unfolding schemasFor_def Let_def by (metis (no_types, lifting) Inr_inject length_0_conv length_sort_by sum.distinct(1))
qed

lemma get_in_schema_path:
  assumes "registry_state ds fs r" "plain_entries ds" "list_all plain_part p" "plain_name n"
    "get_in_schema collate n (Some p) octx r = Inr f" "(g, q, c) \<in> set ds" "fn_name g = n"
  shows "fn_name f = n \<and> (\<exists>q c. (f, q, c) \<in> set ds \<and> same_path p q)"
proof -
  from assms(5) obtain k where k: "schemaKey p n = Inr k" by (auto simp: get_in_schema_def result_simps Let_def)
  show ?thesis
  proof (cases "bucket (bySchema r) k = []")
    case False
    with assms(5) k have "f = disambiguate (bucket (bySchema r) k) octx"
      by (simp add: get_in_schema_def get_unscoped_def)
    with False disambiguate_member [of "bucket (bySchema r) k" octx] registry_invariant [OF assms(1)]
    have "in_schema ds f k" by simp
    from in_schema_path [OF this assms(2) k assms(3,4)] show ?thesis .
  next
    case True
    show ?thesis
    proof (cases "bucket (reg_functions r) n = []")
      case True
      with \<open>bucket (bySchema r) k = []\<close> assms(5) k show ?thesis by (simp add: get_in_schema_def get_unscoped_def)
    next
      case False
      with True assms(5) k obtain schemas where "schemasFor collate n r = Inr schemas" "schemas = []"
        by (auto simp: get_in_schema_def result_simps split: if_splits)
      with schemasFor_some [OF assms(1,6,2), of collate schemas] assms(7) show ?thesis by simp
    qed
  qed
qed


definition two_schemas :: "schema_entry list" where
  "two_schemas = [(int_function 0 32, [''Main''], None), (int_function 1 64, [''other''], None)]"

lemma two_schemas_state:
  "registry_state two_schemas [] \<lparr>reg_functions = [], bySchema = [(''main'' @ CHR 0x01 # ''f'', [int_function 0 32]),
     (''other'' @ CHR 0x01 # ''f'', [int_function 1 64])], byCatalog = []\<rparr>"
proof -
  have l: "to_lower ''Main'' = ''main''" "to_lower ''other'' = ''other''" by code_simp+
  have a: "registerInSchema (int_function 0 32) [''Main''] None empty_registry =
      Inr \<lparr>reg_functions = [], bySchema = [(''main'' @ CHR 0x01 # ''f'', [int_function 0 32])], byCatalog = []\<rparr>"
    by (simp add: registerInSchema_def empty_registry_def schemaKey_def schemaPathKey_def l add_bucket_def int_function_def)
  have b: "registerInSchema (int_function 1 64) [''other''] None
      \<lparr>reg_functions = [], bySchema = [(''main'' @ CHR 0x01 # ''f'', [int_function 0 32])], byCatalog = []\<rparr> =
      Inr \<lparr>reg_functions = [], bySchema = [(''main'' @ CHR 0x01 # ''f'', [int_function 0 32]),
     (''other'' @ CHR 0x01 # ''f'', [int_function 1 64])], byCatalog = []\<rparr>"
    by (simp add: registerInSchema_def schemaKey_def schemaPathKey_def l add_bucket_def int_function_def jm_get_def)
  from registry_state.scoped [OF registry_state.scoped [OF registry_state.start a] b] show ?thesis by (simp add: two_schemas_def)
qed


end
