(* ===== verification/CacheControl.thy ===== *)
theory CacheControl
  imports JsValue
begin

text \<open>
  The result-cache metadata of \<open>src/cache-control.ts\<close>: what a function advertises, and the map of
  \<open>vgi.cache.*\<close> keys it is rendered to.
\<close>

definition CACHE_TTL_KEY :: string where "CACHE_TTL_KEY = ''vgi.cache.ttl''"
definition CACHE_EXPIRES_KEY :: string where "CACHE_EXPIRES_KEY = ''vgi.cache.expires''"
definition CACHE_NO_STORE_KEY :: string where "CACHE_NO_STORE_KEY = ''vgi.cache.no_store''"
definition CACHE_SCOPE_KEY :: string where "CACHE_SCOPE_KEY = ''vgi.cache.scope''"
definition CACHE_ETAG_KEY :: string where "CACHE_ETAG_KEY = ''vgi.cache.etag''"
definition CACHE_LAST_MODIFIED_KEY :: string where "CACHE_LAST_MODIFIED_KEY = ''vgi.cache.last_modified''"
definition CACHE_REVALIDATABLE_KEY :: string where "CACHE_REVALIDATABLE_KEY = ''vgi.cache.revalidatable''"
definition CACHE_STALE_WHILE_REVALIDATE_KEY :: string where "CACHE_STALE_WHILE_REVALIDATE_KEY = ''vgi.cache.stale_while_revalidate''"
definition CACHE_STALE_IF_ERROR_KEY :: string where "CACHE_STALE_IF_ERROR_KEY = ''vgi.cache.stale_if_error''"
definition CACHE_NOT_MODIFIED_KEY :: string where "CACHE_NOT_MODIFIED_KEY = ''vgi.cache.not_modified''"
definition CACHE_PARTITION_SCOPE_KEY :: string where "CACHE_PARTITION_SCOPE_KEY = ''vgi.cache.partition_scope''"
definition CACHE_PER_VALUE_KEY :: string where "CACHE_PER_VALUE_KEY = ''vgi.cache.per_value''"
definition CACHE_SCOPE_CATALOG :: string where "CACHE_SCOPE_CATALOG = ''catalog''"
definition CACHE_SCOPE_TRANSACTION :: string where "CACHE_SCOPE_TRANSACTION = ''transaction''"

lemmas cache_keys =
  CACHE_TTL_KEY_def CACHE_EXPIRES_KEY_def CACHE_NO_STORE_KEY_def CACHE_SCOPE_KEY_def CACHE_ETAG_KEY_def CACHE_LAST_MODIFIED_KEY_def
  CACHE_REVALIDATABLE_KEY_def CACHE_STALE_WHILE_REVALIDATE_KEY_def CACHE_STALE_IF_ERROR_KEY_def CACHE_NOT_MODIFIED_KEY_def
  CACHE_PARTITION_SCOPE_KEY_def CACHE_PER_VALUE_KEY_def

record CacheControl =
  cc_ttl :: "jsnum option"
  cc_expires :: "string option"
  cc_scope :: "string option"
  cc_noStore :: bool
  cc_etag :: "string option"
  cc_lastModified :: "string option"
  cc_revalidatable :: bool
  cc_staleWhileRevalidate :: "jsnum option"
  cc_staleIfError :: "jsnum option"
  cc_notModified :: bool
  cc_partitionScope :: bool
  cc_perValue :: bool

datatype cache_error = BadScope string | NegativeDuration string jsnum

definition VALID_SCOPES :: "string list" where
  "VALID_SCOPES = [CACHE_SCOPE_CATALOG, CACHE_SCOPE_TRANSACTION]"

definition check_duration :: "string \<times> jsnum option \<Rightarrow> cache_error + unit" where
  "check_duration d = (case d of (name, Some v) \<Rightarrow> ensure (\<not> num_lt v (Fin 0)) (NegativeDuration name v) | _ \<Rightarrow> Inr ())"

text \<open>The keys rendered, in the order they are written; a false flag or an absent field writes none.\<close>

definition cache_entries :: "host \<Rightarrow> CacheControl \<Rightarrow> string \<Rightarrow> (string \<times> string) list" where
  "cache_entries h cc scope =
     List.map_filter (\<lambda>(k, v). map_option (Pair k) v)
       [(CACHE_TTL_KEY, map_option (num_to_string h) (cc_ttl cc)),
        (CACHE_EXPIRES_KEY, cc_expires cc),
        (CACHE_NO_STORE_KEY, if cc_noStore cc then Some ''1'' else None),
        (CACHE_SCOPE_KEY, Some scope),
        (CACHE_ETAG_KEY, cc_etag cc),
        (CACHE_LAST_MODIFIED_KEY, cc_lastModified cc),
        (CACHE_REVALIDATABLE_KEY, if cc_revalidatable cc then Some ''1'' else None),
        (CACHE_STALE_WHILE_REVALIDATE_KEY, map_option (num_to_string h) (cc_staleWhileRevalidate cc)),
        (CACHE_STALE_IF_ERROR_KEY, map_option (num_to_string h) (cc_staleIfError cc)),
        (CACHE_NOT_MODIFIED_KEY, if cc_notModified cc then Some ''1'' else None),
        (CACHE_PARTITION_SCOPE_KEY, if cc_partitionScope cc then Some ''1'' else None),
        (CACHE_PER_VALUE_KEY, if cc_perValue cc then Some ''1'' else None)]"

definition cacheControlMetadata :: "host \<Rightarrow> CacheControl \<Rightarrow> (string, string) jsmap option \<Rightarrow> cache_error + (string, string) jsmap" where
  "cacheControlMetadata h cc extra =
     (let scope = (case cc_scope cc of Some s \<Rightarrow> s | None \<Rightarrow> CACHE_SCOPE_CATALOG) in
      rbind (ensure (scope \<in> set VALID_SCOPES) (BadScope scope)) (\<lambda>_.
      rbind (mapR check_duration [(''ttl'', cc_ttl cc), (''staleWhileRevalidate'', cc_staleWhileRevalidate cc),
          (''staleIfError'', cc_staleIfError cc)]) (\<lambda>_.
      Inr (fold (\<lambda>(k, v). jm_set k v) (cache_entries h cc scope) (case extra of None \<Rightarrow> [] | Some e \<Rightarrow> e)))))"

section \<open>What is rendered\<close>

lemma present_entry:
  "(k, v) \<in> set (List.map_filter (\<lambda>(k, v). map_option (Pair k) v) es) \<longleftrightarrow> (k, Some v) \<in> set es"
  by (force simp: map_filter_def)

lemma cache_entries_keys:
  assumes "(k, v) \<in> set (cache_entries h cc scope)"
  shows "starts_with k ''vgi.cache.''"
proof -
  from assms have "k \<in> {CACHE_TTL_KEY, CACHE_EXPIRES_KEY, CACHE_NO_STORE_KEY, CACHE_SCOPE_KEY, CACHE_ETAG_KEY, CACHE_LAST_MODIFIED_KEY,
     CACHE_REVALIDATABLE_KEY, CACHE_STALE_WHILE_REVALIDATE_KEY, CACHE_STALE_IF_ERROR_KEY, CACHE_NOT_MODIFIED_KEY,
     CACHE_PARTITION_SCOPE_KEY, CACHE_PER_VALUE_KEY}"
    unfolding cache_entries_def present_entry by (simp only: set_simps insert_iff prod.inject empty_iff) blast
  then show ?thesis by (elim insertE) (simp_all add: cache_keys)
qed

lemma cache_entries_scope: "(CACHE_SCOPE_KEY, scope) \<in> set (cache_entries h cc scope)"
  unfolding cache_entries_def present_entry by (simp only: set_simps insert_iff) simp

lemma cacheControlMetadata_Inr:
  assumes "cacheControlMetadata h cc extra = Inr md"
  obtains scope where "scope \<in> set VALID_SCOPES"
    "md = fold (\<lambda>(k, v). jm_set k v) (cache_entries h cc scope) (case extra of None \<Rightarrow> [] | Some e \<Rightarrow> e)"
  using assms by (auto simp: cacheControlMetadata_def Let_def result_simps)

lemma cache_metadata_keeps:
  assumes "cacheControlMetadata h cc extra = Inr md" "\<not> starts_with k ''vgi.cache.''"
  shows "jm_get md k = jm_get (case extra of None \<Rightarrow> [] | Some e \<Rightarrow> e) k"
  using assms(1)
proof (rule cacheControlMetadata_Inr)
  fix scope assume md: "md = fold (\<lambda>(k, v). jm_set k v) (cache_entries h cc scope) (case extra of None \<Rightarrow> [] | Some e \<Rightarrow> e)"
  have "\<forall>(j, v)\<in>set (cache_entries h cc scope). j \<noteq> k" using cache_entries_keys assms(2) by blast
  then have "map_of (rev (cache_entries h cc scope)) k = None" by (auto simp: map_of_eq_None_iff)
  with md show ?thesis by (simp add: jm.get_fold_put)
qed

lemma cache_metadata_scope:
  assumes "cacheControlMetadata h cc extra = Inr md"
  shows "jm_get md CACHE_SCOPE_KEY \<noteq> None"
  using assms
proof (rule cacheControlMetadata_Inr)
  fix scope assume md: "md = fold (\<lambda>(k, v). jm_set k v) (cache_entries h cc scope) (case extra of None \<Rightarrow> [] | Some e \<Rightarrow> e)"
  have "CACHE_SCOPE_KEY \<in> fst ` set (rev (cache_entries h cc scope))"
    using imageI [OF cache_entries_scope [of scope h cc], of fst] by simp
  then have "map_of (rev (cache_entries h cc scope)) CACHE_SCOPE_KEY \<noteq> None" unfolding map_of_eq_None_iff by blast
  then show ?thesis unfolding md jm.get_fold_put by (auto split: option.splits)
qed

lemma cache_metadata_ok:
  assumes "cacheControlMetadata h cc extra = Inr md" "jm_ok (case extra of None \<Rightarrow> [] | Some e \<Rightarrow> e)"
  shows "jm_ok md"
  using assms(1) by (rule cacheControlMetadata_Inr) (simp add: jm.ok_fold_put assms(2))

end
