(* ===== verification/Continuation.thy ===== *)
theory Continuation
  imports CacheControl
begin

text \<open>
  Continued output of table-in-out exchanges, \<open>src/functions/continuation.ts\<close>: one turn under the
  continuation rules, the exchange as a sequence of turns, and the definition-time checks.  The
  collector of a turn is seen through the batches the function emitted into it; the function's
  \<open>process()\<close> and \<open>resume()\<close> are a parameter.
\<close>

type_synonym batch_md = "(string, string) jsmap"

definition STATUS_KEY :: string where "STATUS_KEY = ''vgi.status''"
definition HAVE_MORE_OUTPUT :: string where "HAVE_MORE_OUTPUT = ''HAVE_MORE_OUTPUT''"
definition CONTINUE :: string where "CONTINUE = ''CONTINUE''"
definition CACHE_KEY_PREFIX :: string where "CACHE_KEY_PREFIX = ''vgi.cache.''"

definition moreOutputMetadata :: "bool \<Rightarrow> batch_md option \<Rightarrow> batch_md" where
  "moreOutputMetadata has_more extra =
     (let md = (case extra of None \<Rightarrow> [] | Some e \<Rightarrow> e) in if has_more then jm_set STATUS_KEY HAVE_MORE_OUTPUT md else md)"

section \<open>One turn\<close>

record emitted_batch =
  batch_carried :: "batch_md option"
  per_emit :: "batch_md option"

record turn_output =
  out_batches :: "emitted_batch list"
  dataBatchIdx :: "nat option"

definition replyMetadata :: "turn_output \<Rightarrow> batch_md option" where
  "replyMetadata out = (case dataBatchIdx out of
     None \<Rightarrow> None
   | Some i \<Rightarrow> let emitted = out_batches out ! i in
       Some (fold (\<lambda>(k, v). jm_set k v) (case per_emit emitted of None \<Rightarrow> [] | Some e \<Rightarrow> e)
         (case batch_carried emitted of None \<Rightarrow> [] | Some e \<Rightarrow> e)))"

datatype turn_error =
    RunFailed string
  | MoreNotAllowed
  | NoOutputPending
  | TickWithRows nat
  | InputWhilePending
  | NoReply bool
  | NotResumable
  | CacheOnTick string

definition refuseMoreOutput :: "turn_output \<Rightarrow> turn_error + unit" where
  "refuseMoreOutput out = (case replyMetadata out of
     Some md \<Rightarrow> ensure (jm_get md STATUS_KEY \<noteq> Some HAVE_MORE_OUTPUT) MoreNotAllowed
   | None \<Rightarrow> Inr ())"

record ContinuationState =
  morePending :: "bool option"

record turn_input =
  in_rows :: nat
  in_metadata :: "batch_md option"
  collector_metadata :: "batch_md option"

definition lookup_opt :: "batch_md option \<Rightarrow> string \<Rightarrow> string option" where
  "lookup_opt md k = (case md of None \<Rightarrow> None | Some m \<Rightarrow> jm_get m k)"

definition inputStatus :: "turn_input \<Rightarrow> string option" where
  "inputStatus input = (case lookup_opt (in_metadata input) STATUS_KEY of
     Some s \<Rightarrow> Some s | None \<Rightarrow> lookup_opt (collector_metadata input) STATUS_KEY)"

definition is_tick :: "turn_input \<Rightarrow> bool" where
  "is_tick input \<longleftrightarrow> inputStatus input = Some CONTINUE"

fun check_cache_keys :: "string list \<Rightarrow> turn_error + unit" where
  "check_cache_keys [] = Inr ()"
| "check_cache_keys (k # ks) = (if starts_with k CACHE_KEY_PREFIX then Inl (CacheOnTick k) else check_cache_keys ks)"

definition continuationTurn ::
  "ContinuationState \<Rightarrow> turn_input \<Rightarrow> bool \<Rightarrow> (bool \<Rightarrow> string + turn_output) \<Rightarrow> turn_error + ContinuationState" where
  "continuationTurn eState input resumable run =
     (let tick = is_tick input; pending = (morePending eState = Some True) in
      rbind (ensure (tick \<longrightarrow> pending) NoOutputPending) (\<lambda>_.
      rbind (ensure (tick \<longrightarrow> in_rows input = 0) (TickWithRows (in_rows input))) (\<lambda>_.
      rbind (ensure (\<not> tick \<longrightarrow> \<not> pending) InputWhilePending) (\<lambda>_.
      case run tick of
        Inl e \<Rightarrow> Inl (RunFailed e)
      | Inr out \<Rightarrow> (case replyMetadata out of
          None \<Rightarrow> Inl (NoReply tick)
        | Some md \<Rightarrow>
            let has_more = (jm_get md STATUS_KEY = Some HAVE_MORE_OUTPUT) in
            rbind (ensure (has_more \<longrightarrow> resumable) NotResumable) (\<lambda>_.
            rbind (if tick then check_cache_keys (map fst md) else Inr ()) (\<lambda>_.
            Inr (eState\<lparr>morePending := Some has_more\<rparr>))))))))"

section \<open>Checks at definition\<close>

datatype resume_value = NoResume | ResumeFunction | ResumeOther
datatype contract_error = ResumeNotFunction | ResumeOneWorker | ResumeWithoutState | NotBlended | NotPositiveInteger jsval

definition checkResumeContract :: "resume_value \<Rightarrow> bool \<Rightarrow> jsnum option \<Rightarrow> contract_error + unit" where
  "checkResumeContract res has_initialState maxWorkers =
     (case res of
        NoResume \<Rightarrow> Inr ()
      | ResumeOther \<Rightarrow> Inl ResumeNotFunction
      | ResumeFunction \<Rightarrow>
          rbind (ensure (\<not> (case maxWorkers of Some n \<Rightarrow> num_eq n (Fin 1) | None \<Rightarrow> False)) ResumeOneWorker) (\<lambda>_.
          ensure has_initialState ResumeWithoutState))"

definition checkInputRowsPerCall :: "jsval \<Rightarrow> bool \<Rightarrow> contract_error + jsval" where
  "checkInputRowsPerCall v blended =
     (if v = VNull \<or> v = VUndef then Inr VUndef
      else if \<not> blended then Inl NotBlended
      else case v of
        VNum n \<Rightarrow> if is_safe_integer n \<and> \<not> num_lt n (Fin 1) then Inr v else Inl (NotPositiveInteger v)
      | _ \<Rightarrow> Inl (NotPositiveInteger v))"

section \<open>An exchange\<close>

text \<open>The turns of one stream, each with its input and what the function does on it.\<close>

type_synonym turn = "turn_input \<times> (bool \<Rightarrow> string + turn_output)"

fun exchange :: "bool \<Rightarrow> turn list \<Rightarrow> ContinuationState \<Rightarrow> turn_error + ContinuationState" where
  "exchange resumable [] s = Inr s"
| "exchange resumable ((input, run) # ts) s = rbind (continuationTurn s input resumable run) (exchange resumable ts)"

text \<open>The reply a turn must give, and whether it says there is more.\<close>

definition replies :: "turn \<Rightarrow> bool \<Rightarrow> bool \<Rightarrow> bool" where
  "replies t tick has_more \<longleftrightarrow> (case snd t tick of Inl _ \<Rightarrow> False | Inr out \<Rightarrow> (case replyMetadata out of
     None \<Rightarrow> False
   | Some md \<Rightarrow> (jm_get md STATUS_KEY = Some HAVE_MORE_OUTPUT) = has_more \<and>
       (tick \<longrightarrow> list_all (\<lambda>k. \<not> starts_with k CACHE_KEY_PREFIX) (map fst md))))"

definition good_input :: "bool \<Rightarrow> turn \<Rightarrow> bool" where
  "good_input has_more t \<longleftrightarrow> \<not> is_tick (fst t) \<and> replies t False has_more"

definition good_tick :: "bool \<Rightarrow> turn \<Rightarrow> bool" where
  "good_tick has_more t \<longleftrightarrow> is_tick (fst t) \<and> in_rows (fst t) = 0 \<and> replies t True has_more"

text \<open>
  The answer to one input: the input itself, and as many ticks as its replies ask for; every reply
  but the last says there is more.
\<close>

fun answer :: "bool \<Rightarrow> turn list \<Rightarrow> bool" where
  "answer resumable [] = False"
| "answer resumable (t # ticks) =
     (if ticks = [] then good_input False t
      else resumable \<and> good_input True t \<and> list_all (good_tick True) (butlast ticks) \<and> good_tick False (last ticks))"

section \<open>Turns\<close>

lemma check_cache_keys_Inr [result_simps]:
  "check_cache_keys ks = Inr u \<longleftrightarrow> list_all (\<lambda>k. \<not> starts_with k CACHE_KEY_PREFIX) ks"
  by (induction ks) auto

lemma input_turn:
  assumes "\<not> is_tick i"
  shows "continuationTurn s i res run = Inr s' \<longleftrightarrow> morePending s \<noteq> Some True \<and>
    (\<exists>m. replies (i, run) False m \<and> (m \<longrightarrow> res) \<and> s' = s\<lparr>morePending := Some m\<rparr>)"
  using assms by (auto simp: continuationTurn_def replies_def Let_def result_simps split: sum.splits option.splits)

lemma tick_turn:
  assumes "is_tick i"
  shows "continuationTurn s i res run = Inr s' \<longleftrightarrow> morePending s = Some True \<and> in_rows i = 0 \<and>
    (\<exists>m. replies (i, run) True m \<and> (m \<longrightarrow> res) \<and> s' = s\<lparr>morePending := Some m\<rparr>)"
  using assms by (auto simp: continuationTurn_def replies_def Let_def result_simps split: sum.splits option.splits)

definition ends_idle :: "bool \<Rightarrow> turn list \<Rightarrow> ContinuationState \<Rightarrow> bool" where
  "ends_idle res ts s \<longleftrightarrow> (\<exists>s'. exchange res ts s = Inr s' \<and> morePending s' \<noteq> Some True)"

lemma ends_idle_Nil [simp]: "ends_idle res [] s \<longleftrightarrow> morePending s \<noteq> Some True"
  by (simp add: ends_idle_def)

lemma ends_idle_idle:
  assumes "morePending s \<noteq> Some True"
  shows "ends_idle res (t # ts) s \<longleftrightarrow> (\<exists>m. good_input m t \<and> (m \<longrightarrow> res) \<and> ends_idle res ts (s\<lparr>morePending := Some m\<rparr>))"
proof (cases "is_tick (fst t)")
  case True
  with assms show ?thesis by (cases t) (auto simp: ends_idle_def result_simps tick_turn good_input_def)
next
  case False
  with assms show ?thesis by (cases t) (auto simp: ends_idle_def result_simps input_turn good_input_def)
qed

lemma ends_idle_pending:
  assumes "morePending s = Some True"
  shows "ends_idle res (t # ts) s \<longleftrightarrow> (\<exists>m. good_tick m t \<and> (m \<longrightarrow> res) \<and> ends_idle res ts (s\<lparr>morePending := Some m\<rparr>))"
proof (cases "is_tick (fst t)")
  case True
  with assms show ?thesis by (cases t) (auto simp: ends_idle_def result_simps tick_turn good_tick_def)
next
  case False
  with assms show ?thesis by (cases t) (auto simp: ends_idle_def result_simps input_turn good_tick_def)
qed

definition ticks_ok :: "turn list \<Rightarrow> bool" where
  "ticks_ok ticks \<longleftrightarrow> ticks \<noteq> [] \<and> list_all (good_tick True) (butlast ticks) \<and> good_tick False (last ticks)"

lemma ticks_ok_Cons: "ticks_ok (t # ticks) \<longleftrightarrow> (if ticks = [] then good_tick False t else good_tick True t \<and> ticks_ok ticks)"
  by (auto simp: ticks_ok_def)

lemma pending_ticks:
  assumes "ends_idle True ts s" "morePending s = Some True"
  shows "\<exists>ticks rest s'. ts = ticks @ rest \<and> ticks_ok ticks \<and> morePending s' \<noteq> Some True \<and> ends_idle True rest s'"
  using assms
proof (induction ts arbitrary: s)
  case (Cons t ts)
  from Cons.prems obtain m where m: "good_tick m t" "ends_idle True ts (s\<lparr>morePending := Some m\<rparr>)"
    by (auto simp: ends_idle_pending)
  show ?case
  proof (cases m)
    case True
    with Cons.IH [OF m(2)] obtain ticks rest s' where
      "ts = ticks @ rest" "ticks_ok ticks" "morePending s' \<noteq> Some True" "ends_idle True rest s'" by auto
    with m(1) True show ?thesis
      by (intro exI [of _ "t # ticks"] exI [of _ rest] exI [of _ s']) (auto simp: ticks_ok_Cons ticks_ok_def)
  next
    case False
    with m show ?thesis
      by (intro exI [of _ "[t]"] exI [of _ ts] exI [of _ "s\<lparr>morePending := Some m\<rparr>"]) (auto simp: ticks_ok_def)
  qed
qed simp

lemma ticks_run:
  assumes "ticks_ok ticks" "morePending s = Some True" "\<And>s'. morePending s' \<noteq> Some True \<Longrightarrow> ends_idle True rest s'"
  shows "ends_idle True (ticks @ rest) s"
  using assms
proof (induction ticks arbitrary: s)
  case (Cons t ticks)
  show ?case
  proof (cases "ticks = []")
    case True
    with Cons.prems have "good_tick False t" by (simp add: ticks_ok_Cons)
    moreover have "ends_idle True rest (s\<lparr>morePending := Some False\<rparr>)" by (rule Cons.prems(3)) simp
    ultimately show ?thesis using Cons.prems(2) True by (auto simp: ends_idle_pending)
  next
    case False
    with Cons.prems have t: "good_tick True t" "ticks_ok ticks" by (simp_all add: ticks_ok_Cons)
    have "ends_idle True (ticks @ rest) (s\<lparr>morePending := Some True\<rparr>)"
      by (rule Cons.IH [OF t(2) _ Cons.prems(3)]) simp_all
    with t(1) Cons.prems(2) show ?thesis by (auto simp: ends_idle_pending)
  qed
qed (simp add: ticks_ok_def)

lemma answer_Cons: "answer res (t # ticks) \<longleftrightarrow>
  (if ticks = [] then good_input False t else res \<and> good_input True t \<and> ticks_ok ticks)"
  by (simp add: ticks_ok_def)

lemma answers_run:
  assumes "list_all (answer res) answers" "morePending s \<noteq> Some True"
  shows "ends_idle res (concat answers) s"
  using assms
proof (induction answers arbitrary: s)
  case (Cons a answers)
  then have a: "answer res a" and rest: "\<And>s'. morePending s' \<noteq> Some True \<Longrightarrow> ends_idle res (concat answers) s'" by auto
  from a obtain t ticks where t: "a = t # ticks" by (cases a) auto
  show ?case
  proof (cases "ticks = []")
    case True
    have "ends_idle res (concat answers) (s\<lparr>morePending := Some False\<rparr>)" by (rule rest) simp
    with a t True Cons.prems(2) show ?thesis by (auto simp: ends_idle_idle)
  next
    case False
    with a t have g: "res" "good_input True t" "ticks_ok ticks" by (simp_all only: answer_Cons if_False)
    have "ends_idle True (ticks @ concat answers) (s\<lparr>morePending := Some True\<rparr>)"
      by (rule ticks_run [OF g(3)]) (use rest g(1) in auto)
    with g t Cons.prems(2) show ?thesis by (auto simp: ends_idle_idle)
  qed
qed simp

lemma run_answers:
  assumes "ends_idle res ts s" "morePending s \<noteq> Some True"
  shows "\<exists>answers. ts = concat answers \<and> list_all (answer res) answers"
  using assms
proof (induction ts arbitrary: s rule: length_induct)
  case (1 ts)
  show ?case
  proof (cases ts)
    case Nil
    then show ?thesis by (intro exI [of _ "[]"]) simp
  next
    case (Cons t rest)
    with 1(2,3) obtain m where m: "good_input m t" "m \<longrightarrow> res" "ends_idle res rest (s\<lparr>morePending := Some m\<rparr>)"
      by (auto simp: ends_idle_idle)
    show ?thesis
    proof (cases m)
      case False
      then have "morePending (s\<lparr>morePending := Some m\<rparr>) \<noteq> Some True" by simp
      moreover have "length rest < length ts" using Cons by simp
      ultimately obtain as where "rest = concat as" "list_all (answer res) as" using 1(1) m(3) by blast
      with m(1) False Cons show ?thesis by (intro exI [of _ "[t] # as"]) simp
    next
      case True
      with m(2,3) pending_ticks [of rest "s\<lparr>morePending := Some m\<rparr>"] obtain ticks rest' s' where
        r: "rest = ticks @ rest'" "ticks_ok ticks" "morePending s' \<noteq> Some True" "ends_idle res rest' s'" by auto
      have "length rest' < length ts" using Cons r(1) by simp
      with 1(1) r(3,4) obtain as where "rest' = concat as" "list_all (answer res) as" by blast
      moreover have "answer res (t # ticks)" using r(2) m True by (auto simp: ticks_ok_def)
      ultimately show ?thesis using Cons r(1) by (intro exI [of _ "(t # ticks) # as"]) simp
    qed
  qed
qed

text \<open>
  C11: an exchange is a sequence of whole answers.  On a fresh stream the turns of an exchange are all
  accepted, leaving no output pending, exactly when they are the answers to inputs one after the
  other: each an input followed by as many row-less ticks as its replies ask for, every reply but the
  last saying there is more, and no reply to a tick carrying cache control.
\<close>

theorem exchange_is_answers:
  "(case exchange resumable ts \<lparr>morePending = None\<rparr> of Inl _ \<Rightarrow> False | Inr s \<Rightarrow> morePending s \<noteq> Some True) \<longleftrightarrow>
   (\<exists>answers. ts = concat answers \<and> list_all (answer resumable) answers)"
proof -
  have "(case exchange resumable ts \<lparr>morePending = None\<rparr> of Inl _ \<Rightarrow> False | Inr s \<Rightarrow> morePending s \<noteq> Some True) \<longleftrightarrow>
      ends_idle resumable ts \<lparr>morePending = None\<rparr>"
    by (auto simp: ends_idle_def split: sum.splits)
  then show ?thesis using answers_run run_answers [of resumable ts "\<lparr>morePending = None\<rparr>"] by auto
qed

text \<open>
  Cache control rides on first replies only.  A function that emits a batch with metadata built
  by \<open>moreOutputMetadata\<close> over \<open>cacheControlMetadata\<close> is refused on every tick; on an input with no
  output pending the same reply is accepted by a resumable stream, and leaves output pending when it
  says there is more.
\<close>

theorem cache_control_first_reply:
  assumes "cacheControlMetadata h cc extra = Inr md" "jm_ok (case extra of None \<Rightarrow> [] | Some e \<Rightarrow> e)"
    "\<And>tick. run tick = Inr \<lparr>out_batches = [\<lparr>batch_carried = carried, per_emit = Some (moreOutputMetadata m (Some md))\<rparr>],
        dataBatchIdx = Some 0\<rparr>"
  shows "(is_tick input \<longrightarrow> (\<exists>e. continuationTurn s input resumable run = Inl e)) \<and>
    (\<not> is_tick input \<and> morePending s \<noteq> Some True \<and> resumable \<longrightarrow>
      (\<exists>pending. continuationTurn s input resumable run = Inr (s\<lparr>morePending := Some pending\<rparr>) \<and> (m \<longrightarrow> pending)))"
proof -
  let ?e = "moreOutputMetadata m (Some md)"
  let ?md = "fold (\<lambda>(k, v). jm_set k v) ?e (case carried of None \<Rightarrow> [] | Some c \<Rightarrow> c)"
  have r: "replies (i, run) tick b \<longleftrightarrow> (jm_get ?md STATUS_KEY = Some HAVE_MORE_OUTPUT) = b \<and>
      (tick \<longrightarrow> list_all (\<lambda>k. \<not> starts_with k CACHE_KEY_PREFIX) (map fst ?md))" for i tick b
    by (simp add: replies_def assms(3) replyMetadata_def del: fold_simps)
  have ok: "jm_ok ?e" using cache_metadata_ok [OF assms(1,2)] by (simp add: moreOutputMetadata_def jm_ok_set)
  then have get: "jm_get ?md k = (case jm_get ?e k of Some v \<Rightarrow> Some v | None \<Rightarrow> jm_get (case carried of None \<Rightarrow> [] | Some c \<Rightarrow> c) k)" for k
    unfolding jm.get_fold_put using ok by (simp add: map_of_rev_distinct jm_ok_def jm_get_def)
  have "jm_get ?e CACHE_SCOPE_KEY \<noteq> None"
    using cache_metadata_scope [OF assms(1)] by (simp add: moreOutputMetadata_def jm_get_set)
  then have "jm_get ?md CACHE_SCOPE_KEY \<noteq> None" by (auto simp: get split: option.splits)
  then have "CACHE_SCOPE_KEY \<in> set (map fst ?md)" by (simp only: jm_get_keys)
  moreover have "starts_with CACHE_SCOPE_KEY CACHE_KEY_PREFIX" by (simp add: CACHE_SCOPE_KEY_def CACHE_KEY_PREFIX_def)
  ultimately have no: "\<not> list_all (\<lambda>k. \<not> starts_with k CACHE_KEY_PREFIX) (map fst ?md)" unfolding list_all_iff by blast
  have "\<exists>e. continuationTurn s input resumable run = Inl e" if "is_tick input"
    using no tick_turn [OF that, of s resumable run] r by (cases "continuationTurn s input resumable run") auto
  moreover have "continuationTurn s input resumable run = Inr (s\<lparr>morePending := Some (jm_get ?md STATUS_KEY = Some HAVE_MORE_OUTPUT)\<rparr>)"
    if "\<not> is_tick input" "morePending s \<noteq> Some True" resumable
    using that by (simp add: input_turn r)
  moreover have "jm_get ?md STATUS_KEY = Some HAVE_MORE_OUTPUT" if m
  proof -
    have "jm_get ?e STATUS_KEY = Some HAVE_MORE_OUTPUT" using that by (simp add: moreOutputMetadata_def jm_get_set)
    then show ?thesis by (simp only: get option.case)
  qed
  ultimately show ?thesis by blast
qed

definition day_cache :: CacheControl where
  "day_cache = \<lparr>cc_ttl = Some (Fin 86400), cc_expires = None, cc_scope = None, cc_noStore = False, cc_etag = None, cc_lastModified = None,
     cc_revalidatable = False, cc_staleWhileRevalidate = None, cc_staleIfError = None, cc_notModified = False,
     cc_partitionScope = False, cc_perValue = False\<rparr>"

lemma cache_control_first_reply_witness:
  "\<exists>md. cacheControlMetadata \<lparr>num_to_string = (\<lambda>_. ''86400''), string_to_num = (\<lambda>_. NaN), string_to_bigint = (\<lambda>_. None)\<rparr> day_cache None = Inr md \<and>
    (\<exists>pending. continuationTurn \<lparr>morePending = None\<rparr> \<lparr>in_rows = 3, in_metadata = None, collector_metadata = None\<rparr> True
       (\<lambda>_. Inr \<lparr>out_batches = [\<lparr>batch_carried = None, per_emit = Some (moreOutputMetadata True (Some md))\<rparr>], dataBatchIdx = Some 0\<rparr>) =
       Inr \<lparr>morePending = Some pending\<rparr> \<and> pending)"
proof -
  let ?h = "\<lparr>num_to_string = (\<lambda>_. ''86400''), string_to_num = (\<lambda>_. NaN), string_to_bigint = (\<lambda>_. None)\<rparr>"
  have "\<exists>md. cacheControlMetadata ?h day_cache None = Inr md"
    by (simp add: cacheControlMetadata_def day_cache_def check_duration_def VALID_SCOPES_def num_lt_def)
  then obtain md where md: "cacheControlMetadata ?h day_cache None = Inr md" ..
  have "\<not> is_tick \<lparr>in_rows = 3, in_metadata = None, collector_metadata = None\<rparr>"
    by (simp add: is_tick_def inputStatus_def lookup_opt_def)
  with cache_control_first_reply [OF md _ refl, of "\<lparr>in_rows = 3, in_metadata = None, collector_metadata = None\<rparr>"
      "\<lparr>morePending = None\<rparr>" True None True] md
  show ?thesis by auto
qed

end
