(* ===== verification/SqlGrammar.thy ===== *)
theory SqlGrammar
  imports StrictJson
begin

text \<open>
  The bounded SQL grammar of \<open>src/catalog/sql-grammar.ts\<close>: the tokenizer, the precedence parser and the
  two validators built on it.  The tokens left to read stand for the parser's position.  A call of
  \<open>expr\<close> inside another one takes a unit of fuel, as does each round of a loop; the input's length is
  always enough (\<open>sql_parser_total\<close>), so the error \<open>OutOfFuel\<close> never shows.
\<close>

section \<open>Tokens\<close>

datatype sql_token = TNum string | TStr string | TIdent string bool | TOp string | TEnd

datatype grammar_error = GrammarError string | OutOfFuel

definition OPERATORS :: "string list" where
  "OPERATORS = [''::'', ''<='', ''>='', ''<>'', ''!='', ''=='', ''||'', ''//'', ''**'', ''='', ''<'', ''>'', ''+'', ''-'', ''*'', ''/'', ''%'', ''^'',
     ''('', '')'', '','', ''.'']"

definition sql_space :: "char \<Rightarrow> bool" where
  "sql_space c \<longleftrightarrow> (let n = of_char c :: nat in 9 \<le> n \<and> n \<le> 13 \<or> n = 32 \<or> n = 160)"

definition is_letter :: "char \<Rightarrow> bool" where
  "is_letter c \<longleftrightarrow> (let n = of_char c :: nat in 65 \<le> n \<and> n \<le> 90 \<or> n = 95 \<or> 97 \<le> n \<and> n \<le> 122)"

definition is_ident_start :: "char \<Rightarrow> bool" where
  "is_ident_start c \<longleftrightarrow> is_letter c \<or> 128 \<le> (of_char c :: nat)"

definition is_ident_part :: "char \<Rightarrow> bool" where
  "is_ident_part c \<longleftrightarrow> is_ident_start c \<or> is_digit c \<or> c = CHR ''$''"

definition first_is :: "(char \<Rightarrow> bool) \<Rightarrow> string \<Rightarrow> bool" where
  "first_is p s \<longleftrightarrow> (case s of [] \<Rightarrow> False | c # _ \<Rightarrow> p c)"

text \<open>The numeric literal at the front of a text that starts one, and what follows it.\<close>

definition scan_exponent :: "string \<Rightarrow> string" where
  "scan_exponent s = (case s of
     e # r \<Rightarrow> if e = CHR ''e'' \<or> e = CHR ''E''
       then (let sign = (if first_is (\<lambda>c. c = CHR ''+'' \<or> c = CHR ''-'') r then take 1 r else []);
                 digits = takeWhile is_digit (drop (length sign) r) in
             if digits = [] then [] else e # sign @ digits)
       else []
   | [] \<Rightarrow> [])"

definition scan_mantissa :: "string \<Rightarrow> string" where
  "scan_mantissa s = (let whole = takeWhile is_digit s; r = drop (length whole) s in
     if whole = [] then take 1 s @ takeWhile is_digit (drop 1 s)
     else case r of d # r' \<Rightarrow> if d = CHR ''.'' then whole @ d # takeWhile is_digit r' else whole | [] \<Rightarrow> whole)"

definition scan_number :: "string \<Rightarrow> string" where
  "scan_number s = (let m = scan_mantissa s in m @ scan_exponent (drop (length m) s))"

text \<open>Quoted text up to its closing quote, a doubled quote standing for one.\<close>

fun scan_quoted :: "char \<Rightarrow> string \<Rightarrow> (string \<times> string) option" where
  "scan_quoted q [] = None"
| "scan_quoted q (c # s) =
     (if c = q then (case s of
        d # s' \<Rightarrow> if d = q then map_option (\<lambda>(t, r). (q # t, r)) (scan_quoted q s') else Some ([], s)
      | [] \<Rightarrow> Some ([], s))
      else map_option (\<lambda>(t, r). (c # t, r)) (scan_quoted q s))"

fun after_comment :: "string \<Rightarrow> string option" where
  "after_comment [] = None"
| "after_comment (c # s) = (if starts_with (c # s) ''*/'' then Some (drop 1 s) else after_comment s)"

lemma length_scan_quoted: "scan_quoted q s = Some (t, r) \<Longrightarrow> length r < length s"
  by (induction q s arbitrary: t r rule: scan_quoted.induct) (fastforce split: if_splits list.splits)+

lemma length_after_comment: "after_comment s = Some r \<Longrightarrow> length r < length s"
  by (induction s) (auto split: if_splits)

definition starts_number :: "string \<Rightarrow> bool" where
  "starts_number s \<longleftrightarrow> first_is is_digit s \<or> first_is (\<lambda>c. c = CHR ''.'') s \<and> first_is is_digit (drop 1 s)"

lemma scan_number_nonempty: "starts_number s \<Longrightarrow> scan_number s \<noteq> []"
  by (cases s) (auto simp: starts_number_def scan_number_def scan_mantissa_def first_is_def Let_def split: list.splits)

definition operator_at :: "string \<Rightarrow> string option" where
  "operator_at s = find (\<lambda>o'. starts_with s o') OPERATORS"

lemma operator_at_Some: "operator_at s = Some p \<Longrightarrow> p \<noteq> [] \<and> starts_with s p"
  unfolding operator_at_def OPERATORS_def by (auto split: if_splits)

text \<open>One round of the tokenizer's loop: the token it pushes, if any, and the text left.\<close>

definition next_token :: "string \<Rightarrow> grammar_error + (sql_token option \<times> string)" where
  "next_token s =
     (let c = hd s in
      if sql_space c then Inr (None, tl s)
      else if starts_with s ''--'' then Inr (None, dropWhile (\<lambda>c. c \<noteq> CHR 0x0A) s)
      else if starts_with s ''/*'' then
        (case after_comment (drop 2 s) of None \<Rightarrow> Inl (GrammarError ''unterminated comment'') | Some r \<Rightarrow> Inr (None, r))
      else if starts_number s then
        (let m = scan_number s; r = drop (length m) s in
         if first_is is_letter r then Inl (GrammarError ''unsupported numeric literal'') else Inr (Some (TNum m), r))
      else if c = CHR 0x27 \<or> c = CHR 0x22 then
        (case scan_quoted c (tl s) of
           None \<Rightarrow> Inl (GrammarError ''unterminated quoted text'')
         | Some (t, r) \<Rightarrow> Inr (Some (if c = CHR 0x27 then TStr t else TIdent t True), r))
      else if is_ident_start c then
        (let m = takeWhile is_ident_part s in Inr (Some (TIdent m False), drop (length m) s))
      else case operator_at s of
        None \<Rightarrow> Inl (GrammarError ''unsupported character'')
      | Some p \<Rightarrow> Inr (Some (TOp p), drop (length p) s))"

lemma next_token_shorter:
  assumes "next_token s = Inr (t, r)" "s \<noteq> []"
  shows "length r < length s"
proof -
  obtain c s' where s: "s = c # s'" using assms(2) by (cases s) auto
  have drop: "length (drop (length m) s) < length s" if "m \<noteq> []" for m :: string
    using that assms(2) by (cases m; cases s) auto
  let ?a = "sql_space (hd s)" and ?b = "starts_with s ''--''" and ?c = "starts_with s ''/*''" and ?d = "starts_number s"
    and ?e = "hd s = CHR 0x27 \<or> hd s = CHR 0x22" and ?f = "is_ident_start (hd s)"
  note token = assms(1) [unfolded next_token_def Let_def]
  show ?thesis
  proof (cases ?a)
    case True
    with token s show ?thesis by simp
  next
    case a: False
    show ?thesis
    proof (cases ?b)
      case True
      with token a have "r = dropWhile (\<lambda>c. c \<noteq> CHR 0x0A) s" by simp
      with True have "r = dropWhile (\<lambda>c. c \<noteq> CHR 0x0A) s'" using s by (cases "c = CHR ''-''") auto
      then show ?thesis using s length_dropWhile_le [of _ s'] by (simp add: less_Suc_eq_le)
    next
      case b: False
      show ?thesis
      proof (cases ?c)
        case True
        with token a b have "after_comment (drop 2 s) = Some r" by (simp split: option.splits)
        from length_after_comment [OF this] show ?thesis by simp
      next
        case c: False
        note token = token [unfolded if_not_P [OF a] if_not_P [OF b] if_not_P [OF c]]
        show ?thesis
        proof (cases ?d)
          case True
          with token have "r = drop (length (scan_number s)) s" by (simp split: if_splits)
          with drop [OF scan_number_nonempty [OF True]] show ?thesis by simp
        next
          case d: False
          show ?thesis
          proof (cases ?e)
            case True
            with token d obtain t where "scan_quoted (hd s) (tl s) = Some (t, r)" by (simp split: option.splits prod.splits)
            from length_scan_quoted [OF this] show ?thesis using s by simp
          next
            case e: False
            note token = token [unfolded if_not_P [OF d] if_not_P [OF e]]
            show ?thesis
            proof (cases ?f)
              case True
              then have "takeWhile is_ident_part s \<noteq> []" using s by (simp add: is_ident_part_def)
              with token True drop show ?thesis by auto
            next
              case False
              with token obtain p where "operator_at s = Some p" "r = drop (length p) s" by (simp split: option.splits)
              with drop operator_at_Some show ?thesis by blast
            qed
          qed
        qed
      qed
    qed
  qed
qed

function tokens_from :: "string \<Rightarrow> grammar_error + sql_token list" where
  "tokens_from [] = Inr [TEnd]"
| "tokens_from (c # s) = rbind (next_token (c # s)) (\<lambda>(t, r).
     rbind (tokens_from r) (\<lambda>ts. Inr (case t of None \<Rightarrow> ts | Some t \<Rightarrow> t # ts)))"
  by pat_completeness auto
termination
proof (relation "measure length")
  fix c s x t r
  assume "next_token (c # s) = Inr x" "(t, r) = x"
  then show "(r, c # s) \<in> measure length" using next_token_shorter [of "c # s" t r] by simp
qed simp

definition tokenize :: "string \<Rightarrow> grammar_error + sql_token list" where
  "tokenize sql = tokens_from sql"

section \<open>Syntax trees\<close>

text \<open>A constant read from a number remembers its text and its sign, which a minus before it folds into.\<close>

datatype ScalarNode =
    SConstant string "(string \<times> bool) option"
  | SColumn "string list"
  | SCast "string option" bool ScalarNode
  | SComparison string ScalarNode ScalarNode
  | SConjunction string "ScalarNode list"
  | SOperator string "ScalarNode list"
  | SFunction string bool "ScalarNode list"

definition RESERVED :: "string list" where
  "RESERVED = [''all'', ''and'', ''any'', ''array'', ''as'', ''asc'', ''between'', ''both'', ''case'', ''cast'', ''check'', ''collate'', ''column'',
     ''constraint'', ''create'', ''default'', ''desc'', ''distinct'', ''do'', ''else'', ''end'', ''except'', ''false'', ''fetch'', ''for'',
     ''foreign'', ''from'', ''glob'', ''grant'', ''group'', ''having'', ''ilike'', ''in'', ''intersect'', ''interval'', ''into'', ''is'',
     ''isnull'', ''like'', ''limit'', ''not'', ''notnull'', ''null'', ''offset'', ''on'', ''or'', ''order'', ''primary'', ''references'',
     ''returning'', ''select'', ''similar'', ''some'', ''table'', ''then'', ''to'', ''true'', ''try_cast'', ''union'', ''unique'', ''using'',
     ''when'', ''where'', ''window'', ''with'']"

definition CAST_TYPES :: "(string \<times> string) list" where
  "CAST_TYPES = [(''boolean'', ''BOOLEAN''), (''bool'', ''BOOLEAN''), (''logical'', ''BOOLEAN''), (''tinyint'', ''TINYINT''), (''int1'', ''TINYINT''),
     (''smallint'', ''SMALLINT''), (''int2'', ''SMALLINT''), (''short'', ''SMALLINT''),
     (''integer'', ''INTEGER''), (''int'', ''INTEGER''), (''int4'', ''INTEGER''), (''signed'', ''INTEGER''),
     (''bigint'', ''BIGINT''), (''int8'', ''BIGINT''), (''long'', ''BIGINT''), (''float'', ''FLOAT''), (''real'', ''FLOAT''), (''float4'', ''FLOAT''),
     (''double'', ''DOUBLE''), (''float8'', ''DOUBLE''), (''decimal'', ''DECIMAL''), (''numeric'', ''DECIMAL''),
     (''varchar'', ''VARCHAR''), (''text'', ''VARCHAR''), (''string'', ''VARCHAR''), (''char'', ''VARCHAR''), (''bpchar'', ''VARCHAR''),
     (''nvarchar'', ''VARCHAR''), (''character'', ''VARCHAR'')]"

definition INT64_MAX :: int where "INT64_MAX = 2 ^ 63 - 1"

text \<open>The first dot is taken out, as \<open>replace\<close> does.\<close>

definition remove_dot :: "string \<Rightarrow> string" where
  "remove_dot s = takeWhile (\<lambda>c. c \<noteq> CHR ''.'') s @ drop 1 (dropWhile (\<lambda>c. c \<noteq> CHR ''.'') s)"

definition literalNumber :: "string \<Rightarrow> bool \<Rightarrow> string" where
  "literalNumber txt negative =
     (if txt \<noteq> [] \<and> list_all is_digit txt
      then (let v = int (decimal_value txt) * (if negative then -1 else 1) in
            if - (2 ^ 31) \<le> v \<and> v < 2 ^ 31 then ''INTEGER''
            else if - INT64_MAX - 1 \<le> v \<and> v \<le> INT64_MAX then ''BIGINT'' else ''HUGEINT'')
      else if \<not> list_ex (\<lambda>c. c = CHR ''e'' \<or> c = CHR ''E'') txt \<and> length (dropWhile (\<lambda>c. c = CHR ''0'') (remove_dot txt)) \<le> 38
      then ''DECIMAL'' else ''DOUBLE'')"

definition number_node :: "string \<Rightarrow> bool \<Rightarrow> ScalarNode" where
  "number_node txt negative = SConstant (literalNumber txt negative) (Some (txt, negative))"

section \<open>Looking ahead\<close>

type_synonym 'a parser = "sql_token list \<Rightarrow> grammar_error + ('a \<times> sql_token list)"

definition fail :: "string \<Rightarrow> grammar_error + 'a" where
  "fail m = Inl (GrammarError m)"

text \<open>Every list of tokens ends in \<open>TEnd\<close>, which is also what a reader sees beyond its end.\<close>

definition peek :: "nat \<Rightarrow> sql_token list \<Rightarrow> sql_token" where
  "peek n ts = (if n < length ts then ts ! n else TEnd)"

definition op_token :: "string \<Rightarrow> sql_token \<Rightarrow> bool" where
  "op_token v t \<longleftrightarrow> t = TOp v"

definition word_token :: "string \<Rightarrow> sql_token \<Rightarrow> bool" where
  "word_token w t \<longleftrightarrow> (case t of TIdent v quoted \<Rightarrow> \<not> quoted \<and> to_lower v = w | _ \<Rightarrow> False)"

abbreviation isOp :: "string \<Rightarrow> sql_token list \<Rightarrow> bool" where
  "isOp v ts \<equiv> op_token v (peek 0 ts)"

abbreviation isWord :: "string \<Rightarrow> sql_token list \<Rightarrow> bool" where
  "isWord w ts \<equiv> word_token w (peek 0 ts)"

definition expectOp :: "string \<Rightarrow> sql_token list \<Rightarrow> grammar_error + sql_token list" where
  "expectOp v ts = (if isOp v ts then Inr (tl ts) else fail (''expected operator''))"

definition op_in :: "string list \<Rightarrow> sql_token \<Rightarrow> string option" where
  "op_in vs t = (case t of TOp v \<Rightarrow> if v \<in> set vs then Some v else None | _ \<Rightarrow> None)"

section \<open>Type names\<close>

text \<open>The parts after the dots of a qualified name: whether there is one, and the text left.\<close>

fun qualifiers :: "string \<Rightarrow> sql_token list \<Rightarrow> grammar_error + (string list \<times> sql_token list)" where
  "qualifiers msg [] = Inr ([], [])"
| "qualifiers msg (t # ts) = (if op_token ''.'' t
     then (case ts of
        TIdent v _ # ts' \<Rightarrow> rbind (qualifiers msg ts') (\<lambda>(vs, r). Inr (v # vs, r))
      | _ \<Rightarrow> fail msg)
     else Inr ([], t # ts))"

fun type_params :: "sql_token list \<Rightarrow> grammar_error + (string list \<times> sql_token list)" where
  "type_params [] = fail ''unsupported type parameter''"
| "type_params (t # ts) = (case t of
     TNum v \<Rightarrow> if isOp '','' ts then rbind (type_params (tl ts)) (\<lambda>(ps, r). Inr (v # ps, r)) else Inr ([v], ts)
   | _ \<Rightarrow> fail ''unsupported type parameter'')"

definition cast_type :: "host \<Rightarrow> string \<Rightarrow> string list \<Rightarrow> string option" where
  "cast_type h name params = (let type = map_of CAST_TYPES name in
     if type = Some ''FLOAT'' \<and> length params = 1 \<and> num_lt (Fin 24) (string_to_num h (params ! 0)) then Some ''DOUBLE'' else type)"

text \<open>\<open>DOUBLE PRECISION\<close> and \<open>CHARACTER VARYING\<close> are two words.\<close>

definition type_word :: "string \<Rightarrow> sql_token list \<Rightarrow> string \<times> sql_token list" where
  "type_word first ts = (if first = ''double'' \<and> isWord ''precision'' ts then (''double'', tl ts)
     else if first = ''character'' \<and> isWord ''varying'' ts then (''varchar'', tl ts) else (first, ts))"

definition type_arguments :: "string list parser" where
  "type_arguments ts = (if isOp ''('' ts
     then rbind (type_params (tl ts)) (\<lambda>(params, r). rbind (expectOp '')'' r) (\<lambda>r'. Inr (params, r')))
     else Inr ([], ts))"

definition typeName :: "host \<Rightarrow> (string option \<times> bool) parser" where
  "typeName h ts = (case ts of
     TIdent v _ # ts1 \<Rightarrow>
       rbind (qualifiers ''expected a type name'' ts1) (\<lambda>(parts, ts2).
       let (name, ts3) = type_word (to_lower v) ts2 in
       rbind (type_arguments ts3) (\<lambda>(params, ts4).
       if isOp ''['' ts4 then fail ''array types are unsupported''
       else Inr ((cast_type h name params, parts \<noteq> []), ts4)))
   | _ \<Rightarrow> fail ''expected a type name'')"

section \<open>The precedence levels\<close>

text \<open>
  Each level of the parser takes the parser of a whole expression as an argument, for what stands in
  parentheses.  The levels of left-associative operators are one loop each.
\<close>

fun left_loop ::
  "nat \<Rightarrow> (sql_token \<Rightarrow> (ScalarNode \<Rightarrow> ScalarNode \<Rightarrow> ScalarNode) option) \<Rightarrow> ScalarNode parser \<Rightarrow> ScalarNode \<Rightarrow> ScalarNode parser" where
  "left_loop 0 operator operand left ts = Inl OutOfFuel"
| "left_loop (Suc n) operator operand left ts = (case operator (peek 0 ts) of
     None \<Rightarrow> Inr (left, ts)
   | Some mk \<Rightarrow> rbind (operand (tl ts)) (\<lambda>(right, r). left_loop n operator operand (mk left right) r))"

definition left_level :: "(sql_token \<Rightarrow> (ScalarNode \<Rightarrow> ScalarNode \<Rightarrow> ScalarNode) option) \<Rightarrow> ScalarNode parser \<Rightarrow> ScalarNode parser" where
  "left_level operator operand ts = rbind (operand ts) (\<lambda>(left, r). left_loop (Suc (length r)) operator operand left r)"

definition binary :: "string list \<Rightarrow> sql_token \<Rightarrow> (ScalarNode \<Rightarrow> ScalarNode \<Rightarrow> ScalarNode) option" where
  "binary vs t = map_option (\<lambda>v l r. SFunction v False [l, r]) (op_in vs t)"

definition junction :: "string \<Rightarrow> string \<Rightarrow> sql_token \<Rightarrow> (ScalarNode \<Rightarrow> ScalarNode \<Rightarrow> ScalarNode) option" where
  "junction word name t = (if word_token word t then Some (\<lambda>l r. SConjunction name [l, r]) else None)"

fun call_arguments :: "nat \<Rightarrow> ScalarNode parser \<Rightarrow> ScalarNode list parser" where
  "call_arguments 0 ex ts = Inl OutOfFuel"
| "call_arguments (Suc n) ex ts =
     (if isOp ''*'' ts then fail ''star arguments are unsupported''
      else if op_in ['':'', ''=''] (peek 1 ts) \<noteq> None \<and> (case peek 0 ts of TIdent _ _ \<Rightarrow> True | _ \<Rightarrow> False)
      then fail ''named scalar arguments are unsupported''
      else rbind (ex ts) (\<lambda>(c, r).
        if isOp '','' r then rbind (call_arguments n ex (tl r)) (\<lambda>(cs, r'). Inr (c # cs, r')) else Inr ([c], r)))"

definition parse_call :: "ScalarNode parser \<Rightarrow> (ScalarNode list \<Rightarrow> ScalarNode) \<Rightarrow> ScalarNode parser" where
  "parse_call ex mk ts =
     (if isWord ''distinct'' ts then fail ''DISTINCT function arguments are unsupported''
      else rbind (if isOp '')'' ts then Inr ([], ts) else call_arguments (Suc (length ts)) ex ts) (\<lambda>(children, r).
      if isWord ''order'' r then fail ''ordered function arguments are unsupported''
      else rbind (expectOp '')'' r) (\<lambda>r'.
      if isWord ''filter'' r' \<or> isWord ''over'' r' then fail ''aggregate and window functions are unsupported''
      else Inr (mk children, r'))))"

definition parse_cast_call :: "host \<Rightarrow> ScalarNode parser \<Rightarrow> ScalarNode parser" where
  "parse_cast_call h ex ts = rbind (ex ts) (\<lambda>(child, r).
     if \<not> isWord ''as'' r then fail ''expected AS in CAST''
     else rbind (typeName h (tl r)) (\<lambda>((type, qualified), r').
     rbind (expectOp '')'' r') (\<lambda>r''. Inr (SCast type qualified child, r''))))"

definition parse_name :: "ScalarNode parser \<Rightarrow> string \<Rightarrow> bool \<Rightarrow> ScalarNode parser" where
  "parse_name ex v quoted ts = rbind (qualifiers ''unsupported qualified name'' ts) (\<lambda>(parts, r).
     let names = v # parts in
     if isOp ''('' r
     then parse_call ex (\<lambda>children.
       if length names = 1 \<and> \<not> quoted \<and> to_lower v = ''coalesce'' then SOperator ''COALESCE'' children
       else SFunction (last names) (1 < length names) children) (tl r)
     else case peek 0 r of TStr _ \<Rightarrow> fail ''typed literals are unsupported'' | _ \<Rightarrow> Inr (SColumn names, r))"

definition primary :: "host \<Rightarrow> ScalarNode parser \<Rightarrow> ScalarNode parser" where
  "primary h ex ts = (case ts of
     [] \<Rightarrow> fail ''expected an expression''
   | t # r \<Rightarrow> (case t of
       TNum v \<Rightarrow> Inr (number_node v False, r)
     | TStr _ \<Rightarrow> (case peek 0 r of TStr _ \<Rightarrow> fail ''adjacent string literals are unsupported'' | _ \<Rightarrow> Inr (SConstant ''VARCHAR'' None, r))
     | TOp v \<Rightarrow>
         if v = ''('' then rbind (ex r) (\<lambda>(inner, r').
           if isOp '','' r' then fail ''row constructors are unsupported''
           else rbind (expectOp '')'' r') (\<lambda>r''. Inr (inner, r'')))
         else fail ''unexpected operator''
     | TEnd \<Rightarrow> fail ''expected an expression''
     | TIdent v quoted \<Rightarrow>
         (let word = to_lower v in
          if \<not> quoted \<and> word = ''null'' then Inr (SConstant ''NULL'' None, r)
          else if \<not> quoted \<and> (word = ''true'' \<or> word = ''false'') then Inr (SConstant ''BOOLEAN'' None, r)
          else if \<not> quoted \<and> word = ''cast'' \<and> isOp ''('' r then parse_cast_call h ex (tl r)
          else if \<not> quoted \<and> word = ''case'' then fail ''CASE is outside the supported scalar grammar''
          else if \<not> quoted \<and> word \<in> set RESERVED then fail ''unexpected keyword''
          else parse_name ex v quoted r)))"

fun cast_loop :: "nat \<Rightarrow> host \<Rightarrow> ScalarNode \<Rightarrow> ScalarNode parser" where
  "cast_loop 0 h node ts = Inl OutOfFuel"
| "cast_loop (Suc n) h node ts =
     (if isOp ''::'' ts then rbind (typeName h (tl ts)) (\<lambda>((type, qualified), r). cast_loop n h (SCast type qualified node) r)
      else if isOp ''['' ts then fail ''subscripts are unsupported''
      else Inr (node, ts))"

definition postfix :: "host \<Rightarrow> ScalarNode parser \<Rightarrow> ScalarNode parser" where
  "postfix h ex ts = rbind (primary h ex ts) (\<lambda>(node, r). cast_loop (Suc (length r)) h node r)"

definition apply_sign :: "string \<Rightarrow> ScalarNode \<Rightarrow> ScalarNode" where
  "apply_sign sign operand = (case operand of
     SConstant _ (Some (txt, negative)) \<Rightarrow> if sign = ''-'' then number_node txt (\<not> negative) else SFunction sign False [operand]
   | _ \<Rightarrow> SFunction sign False [operand])"

fun unary :: "host \<Rightarrow> ScalarNode parser \<Rightarrow> ScalarNode parser" where
  "unary h ex [] = postfix h ex []"
| "unary h ex (t # ts) = (case op_in [''-'', ''+''] t of
     Some sign \<Rightarrow> rbind (unary h ex ts) (\<lambda>(operand, r). Inr (apply_sign sign operand, r))
   | None \<Rightarrow> postfix h ex (t # ts))"

definition power_level :: "host \<Rightarrow> ScalarNode parser \<Rightarrow> ScalarNode parser" where
  "power_level h ex = left_level (binary [''^'']) (unary h ex)"

definition multiplicative :: "host \<Rightarrow> ScalarNode parser \<Rightarrow> ScalarNode parser" where
  "multiplicative h ex = left_level (binary [''*'', ''/'', ''%'']) (power_level h ex)"

definition additive :: "host \<Rightarrow> ScalarNode parser \<Rightarrow> ScalarNode parser" where
  "additive h ex = left_level (binary [''+'', ''-'']) (multiplicative h ex)"

definition otherOp :: "host \<Rightarrow> ScalarNode parser \<Rightarrow> ScalarNode parser" where
  "otherOp h ex = left_level (binary [''||'', ''//'', ''**'']) (additive h ex)"

definition COMPARISONS :: "string list" where
  "COMPARISONS = [''='', ''=='', ''<>'', ''!='', ''<'', ''>'', ''<='', ''>='']"

definition comparison_name :: "string \<Rightarrow> string" where
  "comparison_name v = (if v = ''=='' then ''='' else if v = ''!='' then ''<>'' else v)"

definition comparison :: "host \<Rightarrow> ScalarNode parser \<Rightarrow> ScalarNode parser" where
  "comparison h ex ts = rbind (otherOp h ex ts) (\<lambda>(left, r).
     case op_in COMPARISONS (peek 0 r) of
       Some v \<Rightarrow> rbind (otherOp h ex (tl r)) (\<lambda>(right, r').
         if op_in COMPARISONS (peek 0 r') \<noteq> None then fail ''chained comparisons are unsupported''
         else Inr (SComparison (comparison_name v) left right, r'))
     | None \<Rightarrow>
         if list_ex (\<lambda>w. isWord w r) [''between'', ''in'', ''like'', ''ilike'', ''glob'', ''similar'', ''not'', ''collate'']
         then fail ''outside the supported scalar grammar''
         else Inr (left, r))"

fun is_loop :: "nat \<Rightarrow> ScalarNode \<Rightarrow> ScalarNode parser" where
  "is_loop 0 left ts = Inl OutOfFuel"
| "is_loop (Suc n) left ts =
     (if isWord ''isnull'' ts then is_loop n (SOperator ''IS_NULL'' [left]) (tl ts)
      else if isWord ''notnull'' ts then is_loop n (SOperator ''IS_NOT_NULL'' [left]) (tl ts)
      else if isWord ''is'' ts
      then (let negated = isWord ''not'' (tl ts); r = (if negated then tl (tl ts) else tl ts) in
            if \<not> isWord ''null'' r then fail ''only IS [NOT] NULL is supported''
            else is_loop n (SOperator (if negated then ''IS_NOT_NULL'' else ''IS_NULL'') [left]) (tl r))
      else Inr (left, ts))"

definition is_level :: "host \<Rightarrow> ScalarNode parser \<Rightarrow> ScalarNode parser" where
  "is_level h ex ts = rbind (comparison h ex ts) (\<lambda>(left, r). is_loop (Suc (length r)) left r)"

fun not_level :: "host \<Rightarrow> ScalarNode parser \<Rightarrow> ScalarNode parser" where
  "not_level h ex [] = is_level h ex []"
| "not_level h ex (t # ts) = (if word_token ''not'' t
     then rbind (not_level h ex ts) (\<lambda>(e, r). Inr (SOperator ''NOT'' [e], r))
     else is_level h ex (t # ts))"

definition and_level :: "host \<Rightarrow> ScalarNode parser \<Rightarrow> ScalarNode parser" where
  "and_level h ex = left_level (junction ''and'' ''AND'') (not_level h ex)"

definition or_level :: "host \<Rightarrow> ScalarNode parser \<Rightarrow> ScalarNode parser" where
  "or_level h ex = left_level (junction ''or'' ''OR'') (and_level h ex)"

fun expr :: "host \<Rightarrow> nat \<Rightarrow> ScalarNode parser" where
  "expr h 0 ts = Inl OutOfFuel"
| "expr h (Suc n) ts = or_level h (expr h n) ts"

definition parseAll :: "host \<Rightarrow> sql_token list \<Rightarrow> grammar_error + ScalarNode" where
  "parseAll h ts = rbind (expr h (Suc (length ts)) ts) (\<lambda>(node, r).
     if peek 0 r \<noteq> TEnd then fail ''unexpected text after the expression'' else Inr node)"

definition parseScalarSql :: "host \<Rightarrow> string \<Rightarrow> grammar_error + ScalarNode" where
  "parseScalarSql h sql =
     (if sql = [] \<or> CHR 0x00 \<in> set sql \<or> 1024 * 1024 < utf8_length sql then fail ''invalid SQL size or text''
      else rbind (tokenize sql) (parseAll h))"

section \<open>Column expressions\<close>

definition PRIMITIVE :: "string list" where
  "PRIMITIVE = [''NULL'', ''BOOLEAN'', ''TINYINT'', ''SMALLINT'', ''INTEGER'', ''BIGINT'', ''FLOAT'', ''DOUBLE'', ''DECIMAL'', ''VARCHAR'']"

definition GENERATED_PRIMITIVE :: "string list" where
  "GENERATED_PRIMITIVE = [''NULL'', ''BOOLEAN'', ''TINYINT'', ''SMALLINT'', ''INTEGER'', ''BIGINT'', ''VARCHAR'']"

definition ALLOWED_FUNCTIONS :: "string list" where
  "ALLOWED_FUNCTIONS = [''+'', ''-'', ''*'', ''%'', ''abs'', ''lower'', ''upper'']"

record expression_scope =
  usingColumns :: bool
  generated :: bool

definition scope_types :: "expression_scope \<Rightarrow> string list" where
  "scope_types sc = (if generated sc then GENERATED_PRIMITIVE else PRIMITIVE)"

definition function_ok :: "expression_scope \<Rightarrow> string \<Rightarrow> bool \<Rightarrow> bool" where
  "function_ok sc name qualified \<longleftrightarrow> \<not> qualified \<and>
     (to_lower name \<in> set ALLOWED_FUNCTIONS \<or> usingColumns sc \<and> \<not> generated sc \<and> name = ''/'' \<or> generated sc \<and> name = ''||'')"

text \<open>The walk over the tree, threading the count of nodes and the columns met.\<close>

fun visit :: "expression_scope \<Rightarrow> nat \<Rightarrow> ScalarNode \<Rightarrow> nat \<times> string list \<Rightarrow> grammar_error + nat \<times> string list"
  and visit_all :: "expression_scope \<Rightarrow> nat \<Rightarrow> ScalarNode list \<Rightarrow> nat \<times> string list \<Rightarrow> grammar_error + nat \<times> string list" where
  "visit sc depth node st =
     (if 64 < depth \<or> 4096 < Suc (fst st) then fail ''scalar expression is too complex''
      else let st = (Suc (fst st), snd st) in
      case node of
        SConstant type _ \<Rightarrow> if type \<in> set (scope_types sc) then Inr st else fail ''unsupported scalar literal type''
      | SColumn names \<Rightarrow>
          if \<not> usingColumns sc \<or> length names \<noteq> 1 then fail ''column references are unsupported in this scope''
          else Inr (fst st, snd st @ [hd names])
      | SCast type qualified child \<Rightarrow>
          if qualified then fail ''qualified scalar cast types are unsupported''
          else (case type of
            None \<Rightarrow> fail ''unsupported scalar cast''
          | Some t \<Rightarrow> if t \<in> set (scope_types sc) then visit sc (Suc depth) child st else fail ''unsupported scalar cast'')
      | SComparison _ l r \<Rightarrow> rbind (visit sc (Suc depth) l st) (visit sc (Suc depth) r)
      | SConjunction _ cs \<Rightarrow> visit_all sc (Suc depth) cs st
      | SOperator _ cs \<Rightarrow> visit_all sc (Suc depth) cs st
      | SFunction name qualified cs \<Rightarrow>
          if function_ok sc name qualified then visit_all sc (Suc depth) cs st else fail ''unsupported scalar function'')"
| "visit_all sc depth [] st = Inr st"
| "visit_all sc depth (c # cs) st = rbind (visit sc depth c st) (visit_all sc depth cs)"

declare visit.simps [simp del]

definition validateColumnExpressionSql :: "host \<Rightarrow> expression_scope \<Rightarrow> string \<Rightarrow> grammar_error + string list" where
  "validateColumnExpressionSql h sc sql =
     rbind (parseScalarSql h sql) (\<lambda>node. rbind (visit sc 0 node (0, [])) (\<lambda>(_, columns). Inr columns))"

section \<open>Native checks\<close>

definition check_operand :: "(string \<Rightarrow> grammar_error + unit) \<Rightarrow> ScalarNode \<Rightarrow> grammar_error + unit" where
  "check_operand resolveColumn operand = (case operand of
     SConstant type _ \<Rightarrow> if type = ''NULL'' \<or> type = ''BOOLEAN'' \<or> type = ''VARCHAR'' then fail ''CHECK requires numeric operands'' else Inr ()
   | SColumn names \<Rightarrow> if length names \<noteq> 1 then fail ''CHECK requires unqualified column references'' else resolveColumn (hd names)
   | _ \<Rightarrow> fail ''native CHECK read supports only numeric column/constant comparisons'')"

definition validateNumericCheckSql :: "host \<Rightarrow> string \<Rightarrow> (string \<Rightarrow> grammar_error + unit) \<Rightarrow> grammar_error + unit" where
  "validateNumericCheckSql h sql resolveColumn = rbind (parseScalarSql h sql) (\<lambda>node. case node of
     SComparison _ l r \<Rightarrow> rbind (check_operand resolveColumn l) (\<lambda>_. check_operand resolveColumn r)
   | _ \<Rightarrow> fail ''native CHECK read supports only Boolean numeric comparisons'')"

end
