(* ===== verification/SqlLaws.thy ===== *)
theory SqlLaws
  imports SqlGrammar "HOL-Library.Code_Target_Nat"
begin

text \<open>
  Correctness of the SQL grammar: the parser reads what a stratified precedence grammar derives and
  always returns, the walk of the validator is a declarative condition on the tree, and integer
  literals get the smallest type that holds them.
\<close>

section \<open>The grammar\<close>

datatype level = LOr | LAnd | LNot | LIs | LComparison | LOther | LAdditive | LMultiplicative | LPower | LUnary | LPostfix | LPrimary

fun tighter :: "level \<Rightarrow> level" where
  "tighter LOr = LAnd" | "tighter LAnd = LNot" | "tighter LNot = LIs" | "tighter LIs = LComparison" | "tighter LComparison = LOther"
| "tighter LOther = LAdditive" | "tighter LAdditive = LMultiplicative" | "tighter LMultiplicative = LPower" | "tighter LPower = LUnary"
| "tighter LUnary = LPostfix" | "tighter LPostfix = LPrimary" | "tighter LPrimary = LPrimary"

text \<open>The left-associative operators of a level, with the node each one makes.\<close>

fun level_operator :: "level \<Rightarrow> sql_token \<Rightarrow> (ScalarNode \<Rightarrow> ScalarNode \<Rightarrow> ScalarNode) option" where
  "level_operator LOr t = junction ''or'' ''OR'' t"
| "level_operator LAnd t = junction ''and'' ''AND'' t"
| "level_operator LOther t = binary [''||'', ''//'', ''**''] t"
| "level_operator LAdditive t = binary [''+'', ''-''] t"
| "level_operator LMultiplicative t = binary [''*'', ''/'', ''%''] t"
| "level_operator LPower t = binary [''^''] t"
| "level_operator _ t = None"

inductive dotted :: "sql_token list \<Rightarrow> string list \<Rightarrow> bool" where
  "dotted [] []"
| "dotted u vs \<Longrightarrow> dotted (TOp ''.'' # TIdent v q # u) (v # vs)"

definition type_tokens :: "host \<Rightarrow> sql_token list \<Rightarrow> string option \<Rightarrow> bool \<Rightarrow> bool" where
  "type_tokens h w ty q \<longleftrightarrow> w \<noteq> [] \<and> TEnd \<notin> set w \<and> (\<exists>r. typeName h (w @ r) = Inr ((ty, q), r))"

inductive derives :: "host \<Rightarrow> level \<Rightarrow> sql_token list \<Rightarrow> ScalarNode \<Rightarrow> bool"
  and derives_args :: "host \<Rightarrow> sql_token list \<Rightarrow> ScalarNode list \<Rightarrow> bool" for h where
  tighter: "derives h (tighter l) u e \<Longrightarrow> derives h l u e"
| left: "derives h l u a \<Longrightarrow> level_operator l t = Some mk \<Longrightarrow> derives h (tighter l) v b \<Longrightarrow> derives h l (u @ t # v) (mk a b)"
| not: "word_token ''not'' t \<Longrightarrow> derives h LNot u e \<Longrightarrow> derives h LNot (t # u) (SOperator ''NOT'' [e])"
| isnull: "derives h LIs u e \<Longrightarrow> word_token ''isnull'' t \<Longrightarrow> derives h LIs (u @ [t]) (SOperator ''IS_NULL'' [e])"
| notnull: "derives h LIs u e \<Longrightarrow> word_token ''notnull'' t \<Longrightarrow> derives h LIs (u @ [t]) (SOperator ''IS_NOT_NULL'' [e])"
| is_null: "derives h LIs u e \<Longrightarrow> word_token ''is'' t \<Longrightarrow> word_token ''null'' t' \<Longrightarrow> derives h LIs (u @ [t, t']) (SOperator ''IS_NULL'' [e])"
| is_not_null: "derives h LIs u e \<Longrightarrow> word_token ''is'' t \<Longrightarrow> word_token ''not'' n \<Longrightarrow> word_token ''null'' t' \<Longrightarrow>
    derives h LIs (u @ [t, n, t']) (SOperator ''IS_NOT_NULL'' [e])"
| comparison: "derives h LOther u a \<Longrightarrow> op_in COMPARISONS t = Some v \<Longrightarrow> derives h LOther w b \<Longrightarrow>
    derives h LComparison (u @ t # w) (SComparison (comparison_name v) a b)"
| sign: "op_in [''-'', ''+''] t = Some s \<Longrightarrow> derives h LUnary u e \<Longrightarrow> derives h LUnary (t # u) (apply_sign s e)"
| typed: "derives h LPostfix u e \<Longrightarrow> type_tokens h w ty q \<Longrightarrow> derives h LPostfix (u @ TOp ''::'' # w) (SCast ty q e)"
| number: "derives h LPrimary [TNum v] (number_node v False)"
| string: "derives h LPrimary [TStr v] (SConstant ''VARCHAR'' None)"
| parens: "derives h LOr u e \<Longrightarrow> derives h LPrimary (TOp ''('' # u @ [TOp '')'']) e"
| null: "to_lower v = ''null'' \<Longrightarrow> derives h LPrimary [TIdent v False] (SConstant ''NULL'' None)"
| boolean: "to_lower v = ''true'' \<or> to_lower v = ''false'' \<Longrightarrow> derives h LPrimary [TIdent v False] (SConstant ''BOOLEAN'' None)"
| cast: "word_token ''cast'' c \<Longrightarrow> derives h LOr u e \<Longrightarrow> word_token ''as'' a \<Longrightarrow> type_tokens h w ty q \<Longrightarrow>
    derives h LPrimary (c # TOp ''('' # u @ a # w @ [TOp '')'']) (SCast ty q e)"
| column: "quoted \<or> to_lower v \<notin> set RESERVED \<Longrightarrow> dotted u parts \<Longrightarrow> derives h LPrimary (TIdent v quoted # u) (SColumn (v # parts))"
| call: "quoted \<or> to_lower v \<notin> set RESERVED \<Longrightarrow> dotted u parts \<Longrightarrow> derives_args h w es \<Longrightarrow>
    derives h LPrimary (TIdent v quoted # u @ TOp ''('' # w @ [TOp '')''])
      (if parts = [] \<and> \<not> quoted \<and> to_lower v = ''coalesce'' then SOperator ''COALESCE'' es else SFunction (last (v # parts)) (parts \<noteq> []) es)"
| no_args: "derives_args h [] []"
| one_arg: "derives h LOr u e \<Longrightarrow> derives_args h u [e]"
| more_args: "derives h LOr u e \<Longrightarrow> derives_args h w (e' # es) \<Longrightarrow> derives_args h (u @ TOp '','' # w) (e # e' # es)"

section \<open>The parser stays inside the grammar\<close>

text \<open>A parser for a level reads a prefix of the tokens, and one the grammar derives at that level.\<close>

definition sound :: "host \<Rightarrow> level \<Rightarrow> ScalarNode parser \<Rightarrow> bool" where
  "sound h l p \<longleftrightarrow> (\<forall>ts e r. p ts = Inr (e, r) \<longrightarrow> (\<exists>u. ts = u @ r \<and> derives h l u e))"

lemma soundI: "(\<And>ts e r. p ts = Inr (e, r) \<Longrightarrow> \<exists>u. ts = u @ r \<and> derives h l u e) \<Longrightarrow> sound h l p"
  by (simp add: sound_def)

lemma soundE:
  assumes "sound h l p" "p ts = Inr (e, r)"
  obtains u where "ts = u @ r" "derives h l u e"
  using assms unfolding sound_def by blast

lemma fail_not [simp]: "fail m \<noteq> Inr x" "fail m \<noteq> Inl OutOfFuel"
  by (simp_all add: fail_def)

lemma peek_0 [simp]: "peek 0 [] = TEnd" "peek 0 (t # ts) = t"
  by (simp_all add: peek_def)

lemma token_simps [simp]: "\<not> op_token v TEnd" "\<not> word_token w TEnd" "op_in vs TEnd = None" "level_operator l TEnd = None"
  by (simp_all add: op_token_def word_token_def op_in_def) (cases l; simp add: junction_def word_token_def binary_def op_in_def)

lemma sound_tighter: "sound h (tighter l) p \<Longrightarrow> sound h l p"
  unfolding sound_def by (meson derives_derives_args.tighter)

lemma level_operators:
  "junction ''or'' ''OR'' = level_operator LOr" "junction ''and'' ''AND'' = level_operator LAnd"
  "binary [''||'', ''//'', ''**''] = level_operator LOther" "binary [''+'', ''-''] = level_operator LAdditive"
  "binary [''*'', ''/'', ''%''] = level_operator LMultiplicative" "binary [''^''] = level_operator LPower"
  by (rule ext, simp)+

text \<open>A test on the token ahead that holds finds a token there.\<close>

lemma head_token:
  "isOp v ts \<Longrightarrow> \<exists>r. ts = TOp v # r"
  "isWord w ts \<Longrightarrow> \<exists>t r. ts = t # r \<and> word_token w t"
  by (cases ts; simp add: op_token_def)+

lemma expectOp_Inr [result_simps]: "expectOp v ts = Inr r \<longleftrightarrow> ts = TOp v # r"
  by (cases ts) (auto simp: expectOp_def op_token_def)

lemma expectOp_fuel [simp]: "expectOp v ts \<noteq> Inl OutOfFuel"
  by (simp add: expectOp_def)

lemma left_loop_sound:
  assumes "sound h (tighter l) operand"
  shows "left_loop n (level_operator l) operand left ts = Inr (e, r) \<Longrightarrow> derives h l u left \<Longrightarrow>
    \<exists>v. ts = v @ r \<and> derives h l (u @ v) e"
proof (induction n arbitrary: left ts u)
  case (Suc n)
  show ?case
  proof (cases "level_operator l (peek 0 ts)")
    case None
    with Suc.prems show ?thesis by auto
  next
    case (Some mk)
    then obtain t ts' where ts: "ts = t # ts'" by (cases ts) auto
    with Some Suc.prems(1) obtain right r' where
      right: "operand ts' = Inr (right, r')" "left_loop n (level_operator l) operand (mk left right) r' = Inr (e, r)"
      by (auto simp: result_simps)
    from soundE [OF assms right(1)] obtain v where v: "ts' = v @ r'" "derives h (tighter l) v right" .
    have "derives h l (u @ t # v) (mk left right)" using derives_derives_args.left [OF Suc.prems(2) _ v(2)] Some ts by simp
    from Suc.IH [OF right(2) this] obtain w where "r' = w @ r" "derives h l ((u @ t # v) @ w) e" by blast
    then show ?thesis using ts v(1) by (intro exI [of _ "t # v @ w"]) simp
  qed
qed simp

lemma left_level_sound:
  assumes "sound h (tighter l) operand"
  shows "sound h l (left_level (level_operator l) operand)"
proof (rule soundI)
  fix ts e r
  assume "left_level (level_operator l) operand ts = Inr (e, r)"
  then obtain left r' where l: "operand ts = Inr (left, r')" "left_loop (Suc (length r')) (level_operator l) operand left r' = Inr (e, r)"
    by (auto simp: left_level_def result_simps simp del: left_loop.simps)
  from soundE [OF assms l(1)] obtain u where u: "ts = u @ r'" "derives h (tighter l) u left" .
  from left_loop_sound [OF assms l(2) derives_derives_args.tighter [OF u(2)]] u(1)
  show "\<exists>u. ts = u @ r \<and> derives h l u e" by auto
qed

lemma qualifiers_dotted: "qualifiers msg ts = Inr (vs, r) \<Longrightarrow> \<exists>u. ts = u @ r \<and> dotted u vs"
proof (induction msg ts arbitrary: vs r rule: qualifiers.induct)
  case (1 msg)
  then show ?case by (auto intro: dotted.intros)
next
  case (2 msg t ts)
  show ?case
  proof (cases "op_token ''.'' t")
    case True
    with "2.prems" obtain v q ts' vs' where v: "ts = TIdent v q # ts'" "qualifiers msg ts' = Inr (vs', r)" "vs = v # vs'"
      by (auto simp: result_simps split: list.splits sql_token.splits)
    from "2.IH" [OF True v(1) refl v(2)] obtain u where "ts' = u @ r" "dotted u vs'" by blast
    with v True show ?thesis
      by (intro exI [of _ "TOp ''.'' # TIdent v q # u"]) (auto simp: op_token_def intro: dotted.intros)
  next
    case False
    with "2.prems" show ?thesis by (auto intro: dotted.intros)
  qed
qed

lemma dotted_no_end: "dotted u vs \<Longrightarrow> TEnd \<notin> set u"
  by (induction rule: dotted.induct) auto

text \<open>A parser reads a prefix that does not reach the end.\<close>

definition prefix_of :: "sql_token list \<Rightarrow> sql_token list \<Rightarrow> bool" where
  "prefix_of r ts \<longleftrightarrow> (\<exists>u. ts = u @ r \<and> TEnd \<notin> set u)"

lemma prefix_of_refl [simp]: "prefix_of r r"
  by (simp add: prefix_of_def)

lemma prefix_of_Cons: "prefix_of r ts \<Longrightarrow> t \<noteq> TEnd \<Longrightarrow> prefix_of r (t # ts)"
  unfolding prefix_of_def by (metis append_Cons set_ConsD)

lemma prefix_of_tl: "isOp v ts \<Longrightarrow> prefix_of (tl ts) ts" "isWord w ts \<Longrightarrow> prefix_of (tl ts) ts"
  by (cases ts; force intro: prefix_of_Cons)+

lemma prefix_of_trans: "prefix_of r ts \<Longrightarrow> prefix_of ts us \<Longrightarrow> prefix_of r us"
  unfolding prefix_of_def by (metis Un_iff append.assoc set_append)

lemma type_params_suffix: "type_params ts = Inr (ps, r) \<Longrightarrow> prefix_of r ts"
proof (induction ts arbitrary: ps r rule: type_params.induct)
  case (2 t ts)
  from "2.prems" obtain v where t: "t = TNum v" by (cases t) auto
  show ?case
  proof (cases "isOp '','' ts")
    case True
    with "2.prems" t obtain ps' where "type_params (tl ts) = Inr (ps', r)" by (auto simp: result_simps)
    from "2.IH" [OF t True this] prefix_of_tl(1) [OF True] t show ?thesis by (blast intro: prefix_of_trans prefix_of_Cons)
  next
    case False
    with "2.prems" t show ?thesis by (auto intro: prefix_of_Cons)
  qed
qed (simp add: fail_def)

lemma type_word_suffix: "type_word w ts = (n, r) \<Longrightarrow> prefix_of r ts"
  using prefix_of_tl(2) [of _ ts] by (auto simp: type_word_def split: if_splits)

lemma type_arguments_suffix:
  assumes "type_arguments ts = Inr (ps, r)"
  shows "prefix_of r ts"
proof (cases "isOp ''('' ts")
  case True
  with assms obtain ps' where "type_params (tl ts) = Inr (ps', TOp '')'' # r)"
    by (auto simp: type_arguments_def result_simps)
  then have "prefix_of (TOp '')'' # r) ts" using prefix_of_trans [OF type_params_suffix prefix_of_tl(1) [OF True]] by simp
  moreover have "prefix_of r (TOp '')'' # r)" by (simp add: prefix_of_Cons)
  ultimately show ?thesis by (blast intro: prefix_of_trans)
next
  case False
  with assms show ?thesis by (simp add: type_arguments_def)
qed

text \<open>What a type name is read from, whatever follows it.\<close>

lemma typeName_tokens:
  assumes "typeName h ts = Inr ((ty, q), r)"
  shows "\<exists>w. ts = w @ r \<and> type_tokens h w ty q"
proof -
  from assms obtain v k ts1 where t: "ts = TIdent v k # ts1" by (auto simp: typeName_def split: list.splits sql_token.splits)
  with assms obtain parts ts2 where q: "qualifiers ''expected a type name'' ts1 = Inr (parts, ts2)"
    by (auto simp: typeName_def result_simps)
  obtain name ts3 where n: "type_word (to_lower v) ts2 = (name, ts3)" by (cases "type_word (to_lower v) ts2")
  from assms obtain params where "type_arguments ts3 = Inr (params, r)"
    by (auto simp: t q n typeName_def result_simps split: if_splits)
  note q n this
  then have "prefix_of r ts2" using type_word_suffix type_arguments_suffix prefix_of_trans by blast
  moreover obtain a where "ts1 = a @ ts2" "TEnd \<notin> set a" using qualifiers_dotted [OF q] dotted_no_end by blast
  ultimately obtain b where "ts = (TIdent v k # a @ b) @ r" "TEnd \<notin> set (TIdent v k # a @ b)"
    using t unfolding prefix_of_def by auto
  with assms show ?thesis unfolding type_tokens_def by blast
qed

lemma call_arguments_sound:
  assumes "sound h LOr ex"
  shows "call_arguments n ex ts = Inr (es, r) \<Longrightarrow> \<exists>u. ts = u @ r \<and> es \<noteq> [] \<and> derives_args h u es"
proof (induction n arbitrary: ts es r)
  case (Suc n)
  then obtain c r1 where c: "ex ts = Inr (c, r1)"
    and rest: "(if isOp '','' r1 then rbind (call_arguments n ex (tl r1)) (\<lambda>(cs, r'). Inr (c # cs, r')) else Inr ([c], r1)) = Inr (es, r)"
    by (auto simp: result_simps split: if_splits)
  from soundE [OF assms c] obtain u where u: "ts = u @ r1" "derives h LOr u c" .
  show ?case
  proof (cases "isOp '','' r1")
    case True
    with rest obtain cs where cs: "call_arguments n ex (tl r1) = Inr (cs, r)" "es = c # cs" by (auto simp: result_simps)
    from Suc.IH [OF cs(1)] obtain w where w: "tl r1 = w @ r" "cs \<noteq> []" "derives_args h w cs" by blast
    from w(2) obtain e' es' where "cs = e' # es'" by (cases cs) auto
    with u(2) w(3) cs(2) have "derives_args h (u @ TOp '','' # w) es" by (auto intro: derives_derives_args.more_args)
    with u(1) w(1) cs(2) head_token(1) [OF True] show ?thesis by (intro exI [of _ "u @ TOp '','' # w"]) auto
  next
    case False
    with rest u show ?thesis by (auto intro: derives_derives_args.one_arg)
  qed
qed simp

lemma parse_call_sound:
  assumes "sound h LOr ex" "parse_call ex mk ts = Inr (e, r)"
  shows "\<exists>w es. ts = w @ TOp '')'' # r \<and> derives_args h w es \<and> e = mk es"
proof -
  from assms(2) obtain es r1 where es: "(if isOp '')'' ts then Inr ([], ts) else call_arguments (Suc (length ts)) ex ts) = Inr (es, r1)"
      "r1 = TOp '')'' # r" "e = mk es"
    by (auto simp: parse_call_def result_simps simp del: call_arguments.simps split: if_splits)
  show ?thesis
  proof (cases "isOp '')'' ts")
    case True
    with es show ?thesis by (intro exI [of _ "[]"]) (auto intro: derives_derives_args.no_args)
  next
    case False
    with es(1) have "call_arguments (Suc (length ts)) ex ts = Inr (es, r1)" by simp
    from call_arguments_sound [OF assms(1) this] es(2,3) show ?thesis by blast
  qed
qed

lemma parse_cast_call_sound:
  assumes "sound h LOr ex" "parse_cast_call h ex ts = Inr (e, r)"
  shows "\<exists>u a w c ty q. ts = u @ a # w @ TOp '')'' # r \<and> derives h LOr u c \<and> word_token ''as'' a \<and> type_tokens h w ty q \<and> e = SCast ty q c"
proof -
  from assms(2) obtain c r1 ty q where c: "ex ts = Inr (c, r1)" "isWord ''as'' r1" "typeName h (tl r1) = Inr ((ty, q), TOp '')'' # r)" "e = SCast ty q c"
    by (auto simp: parse_cast_call_def result_simps split: if_splits)
  from soundE [OF assms(1) c(1)] obtain u where u: "ts = u @ r1" "derives h LOr u c" .
  from typeName_tokens [OF c(3)] obtain w where w: "tl r1 = w @ TOp '')'' # r" "type_tokens h w ty q" by blast
  from head_token(2) [OF c(2)] obtain a where "r1 = a # tl r1" "word_token ''as'' a" by auto
  with u w c(4) show ?thesis by (metis)
qed

lemma parse_name_sound:
  assumes "sound h LOr ex" "parse_name ex v quoted ts = Inr (e, r)" "quoted \<or> to_lower v \<notin> set RESERVED"
  shows "\<exists>u. ts = u @ r \<and> derives h LPrimary (TIdent v quoted # u) e"
proof -
  from assms(2) obtain parts r1 where q: "qualifiers ''unsupported qualified name'' ts = Inr (parts, r1)"
    by (auto simp: parse_name_def result_simps)
  from qualifiers_dotted [OF q] obtain u where u: "ts = u @ r1" "dotted u parts" by blast
  show ?thesis
  proof (cases "isOp ''('' r1")
    case True
    with assms(2) q have "parse_call ex (\<lambda>es. if parts = [] \<and> \<not> quoted \<and> to_lower v = ''coalesce'' then SOperator ''COALESCE'' es
        else SFunction (last (v # parts)) (parts \<noteq> []) es) (tl r1) = Inr (e, r)"
      by (simp add: parse_name_def Let_def cong: if_cong)
    from parse_call_sound [OF assms(1) this] obtain w es where w: "tl r1 = w @ TOp '')'' # r" "derives_args h w es"
      "e = (if parts = [] \<and> \<not> quoted \<and> to_lower v = ''coalesce'' then SOperator ''COALESCE'' es
        else SFunction (last (v # parts)) (parts \<noteq> []) es)" by blast
    from derives_derives_args.call [OF assms(3) u(2) w(2)] u(1) w(1,3) head_token(1) [OF True]
    show ?thesis by (intro exI [of _ "u @ TOp ''('' # w @ [TOp '')'']"]) auto
  next
    case False
    with assms(2) q have "e = SColumn (v # parts)" "r = r1"
      by (auto simp: parse_name_def Let_def split: sql_token.splits)
    with derives_derives_args.column [OF assms(3) u(2)] u(1) show ?thesis by blast
  qed
qed

lemma primary_sound:
  assumes "sound h LOr ex"
  shows "sound h LPrimary (primary h ex)"
proof (rule soundI)
  fix ts e r
  assume p: "primary h ex ts = Inr (e, r)"
  then obtain t ts' where ts: "ts = t # ts'" by (cases ts) (auto simp: primary_def)
  show "\<exists>u. ts = u @ r \<and> derives h LPrimary u e"
  proof (cases t)
    case (TOp v)
    with p ts have v: "v = ''(''" by (auto simp: primary_def split: if_splits)
    with p ts TOp have "ex ts' = Inr (e, TOp '')'' # r)"
      by (auto simp: primary_def result_simps split: if_splits)
    from soundE [OF assms this] obtain u where "ts' = u @ TOp '')'' # r" "derives h LOr u e" .
    with ts TOp v show ?thesis by (intro exI [of _ "TOp ''('' # u @ [TOp '')'']"]) (auto intro: derives_derives_args.parens)
  next
    case (TIdent v quoted)
    consider "\<not> quoted" "to_lower v = ''null''" | "\<not> quoted" "to_lower v = ''true'' \<or> to_lower v = ''false''"
      | "\<not> quoted" "to_lower v = ''cast''" "isOp ''('' ts'" "parse_cast_call h ex (tl ts') = Inr (e, r)"
      | "quoted \<or> to_lower v \<notin> set RESERVED" "parse_name ex v quoted ts' = Inr (e, r)"
      using p ts TIdent by (auto simp: primary_def Let_def split: if_splits)
    then show ?thesis
    proof cases
      case 1
      with p ts TIdent show ?thesis by (auto simp: primary_def Let_def intro!: exI [of _ "[t]"] derives_derives_args.null)
    next
      case 2
      with p ts TIdent show ?thesis by (auto simp: primary_def Let_def intro!: exI [of _ "[t]"] derives_derives_args.boolean split: if_splits)
    next
      case 3
      from parse_cast_call_sound [OF assms 3(4)] obtain u a w c ty q where
        c: "tl ts' = u @ a # w @ TOp '')'' # r" "derives h LOr u c" "word_token ''as'' a" "type_tokens h w ty q" "e = SCast ty q c" by blast
      have "word_token ''cast'' t" using 3(1,2) TIdent by (simp add: word_token_def)
      from derives_derives_args.cast [OF this c(2-4)] c(1,5) ts head_token(1) [OF 3(3)]
      show ?thesis by (intro exI [of _ "t # TOp ''('' # u @ a # w @ [TOp '')'']"]) auto
    next
      case 4
      from parse_name_sound [OF assms 4(2,1)] obtain u where "ts' = u @ r" "derives h LPrimary (TIdent v quoted # u) e" by blast
      with ts TIdent show ?thesis by (intro exI [of _ "t # u"]) simp
    qed
  next
    case (TNum v)
    with p ts show ?thesis by (auto simp: primary_def intro!: exI [of _ "[t]"] derives_derives_args.number)
  next
    case (TStr v)
    with p ts show ?thesis
      by (auto simp: primary_def intro!: exI [of _ "[t]"] derives_derives_args.string split: sql_token.splits)
  next
    case TEnd
    with p ts show ?thesis by (simp add: primary_def)
  qed
qed

lemma cast_loop_sound:
  "cast_loop n h node ts = Inr (e, r) \<Longrightarrow> derives h LPostfix u node \<Longrightarrow> \<exists>v. ts = v @ r \<and> derives h LPostfix (u @ v) e"
proof (induction n arbitrary: node ts u)
  case (Suc n)
  show ?case
  proof (cases "isOp ''::'' ts")
    case True
    with Suc.prems(1) obtain ty q r1 where ty: "typeName h (tl ts) = Inr ((ty, q), r1)" "cast_loop n h (SCast ty q node) r1 = Inr (e, r)"
      by (auto simp: result_simps)
    from typeName_tokens [OF ty(1)] obtain w where w: "tl ts = w @ r1" "type_tokens h w ty q" by blast
    from Suc.IH [OF ty(2) derives_derives_args.typed [OF Suc.prems(2) w(2)]] obtain v
      where "r1 = v @ r" "derives h LPostfix ((u @ TOp ''::'' # w) @ v) e" by blast
    with w(1) head_token(1) [OF True] show ?thesis by (intro exI [of _ "TOp ''::'' # w @ v"]) auto
  next
    case False
    with Suc.prems show ?thesis by (auto split: if_splits)
  qed
qed simp

lemma postfix_sound:
  assumes "sound h LOr ex"
  shows "sound h LPostfix (postfix h ex)"
proof (rule soundI)
  fix ts e r
  assume "postfix h ex ts = Inr (e, r)"
  then obtain node r1 where p: "primary h ex ts = Inr (node, r1)" "cast_loop (Suc (length r1)) h node r1 = Inr (e, r)"
    by (auto simp: postfix_def result_simps simp del: cast_loop.simps)
  from soundE [OF primary_sound [OF assms] p(1)] obtain u where u: "ts = u @ r1" "derives h LPrimary u node" .
  then have "derives h LPostfix u node" by (simp add: derives_derives_args.tighter)
  from cast_loop_sound [OF p(2) this] obtain v where "r1 = v @ r" "derives h LPostfix (u @ v) e" by blast
  with u(1) show "\<exists>u. ts = u @ r \<and> derives h LPostfix u e" by (intro exI [of _ "u @ v"]) simp
qed

lemma unary_sound:
  assumes "sound h LOr ex"
  shows "sound h LUnary (unary h ex)"
proof (rule soundI)
  have base: "sound h LUnary (postfix h ex)" by (rule sound_tighter) (simp add: postfix_sound [OF assms])
  fix ts e r
  show "unary h ex ts = Inr (e, r) \<Longrightarrow> \<exists>u. ts = u @ r \<and> derives h LUnary u e"
  proof (induction ts arbitrary: e)
    case Nil
    then have "postfix h ex [] = Inr (e, r)" by simp
    then show ?case by (rule soundE [OF base]) blast
  next
    case (Cons t ts)
    show ?case
    proof (cases "op_in [''-'', ''+''] t")
      case None
      with Cons.prems base show ?thesis unfolding sound_def by simp
    next
      case (Some s)
      with Cons.prems obtain operand where o': "unary h ex ts = Inr (operand, r)" "e = apply_sign s operand"
        by (auto simp: result_simps)
      from Cons.IH [OF o'(1)] obtain u where "ts = u @ r" "derives h LUnary u operand" by blast
      with derives_derives_args.sign [OF Some] o'(2) show ?thesis by (intro exI [of _ "t # u"]) auto
    qed
  qed
qed

lemma otherOp_sound:
  assumes "sound h LOr ex"
  shows "sound h LOther (otherOp h ex)"
  unfolding otherOp_def additive_def multiplicative_def power_level_def level_operators
  by (simp add: left_level_sound unary_sound [OF assms])

lemma comparison_sound:
  assumes "sound h LOr ex"
  shows "sound h LComparison (comparison h ex)"
proof (rule soundI)
  fix ts e r
  assume "comparison h ex ts = Inr (e, r)"
  then obtain a r1 where a: "otherOp h ex ts = Inr (a, r1)"
    and rest: "(case op_in COMPARISONS (peek 0 r1) of Some v \<Rightarrow> rbind (otherOp h ex (tl r1)) (\<lambda>(right, r').
         if op_in COMPARISONS (peek 0 r') \<noteq> None then fail ''chained comparisons are unsupported''
         else Inr (SComparison (comparison_name v) a right, r'))
     | None \<Rightarrow> if list_ex (\<lambda>w. isWord w r1) [''between'', ''in'', ''like'', ''ilike'', ''glob'', ''similar'', ''not'', ''collate'']
         then fail ''outside the supported scalar grammar'' else Inr (a, r1)) = Inr (e, r)"
    by (auto simp: comparison_def rbind_eq_Inr)
  from soundE [OF otherOp_sound [OF assms] a] obtain u where u: "ts = u @ r1" "derives h LOther u a" .
  show "\<exists>u. ts = u @ r \<and> derives h LComparison u e"
  proof (cases "op_in COMPARISONS (peek 0 r1)")
    case None
    with rest have "e = a" "r = r1" by (simp_all split: if_splits)
    with u derives_derives_args.tighter [of h LComparison u a] show ?thesis by auto
  next
    case (Some v)
    then obtain t where t: "r1 = t # tl r1" by (cases r1) auto
    from Some rest obtain b where b: "otherOp h ex (tl r1) = Inr (b, r)" "e = SComparison (comparison_name v) a b"
      by (auto simp: rbind_eq_Inr split: if_splits)
    from soundE [OF otherOp_sound [OF assms] b(1)] obtain w where w: "tl r1 = w @ r" "derives h LOther w b" .
    have "op_in COMPARISONS t = Some v" using Some t by (metis peek_0(2))
    from derives_derives_args.comparison [OF u(2) this w(2)] u(1) t w(1) b(2)
    show ?thesis by (metis append.assoc append_Cons)
  qed
qed

lemma is_loop_sound:
  "is_loop n left ts = Inr (e, r) \<Longrightarrow> derives h LIs u left \<Longrightarrow> \<exists>v. ts = v @ r \<and> derives h LIs (u @ v) e"
proof (induction n arbitrary: left ts u)
  case (Suc n)
  have step: "\<exists>v. ts = v @ r \<and> derives h LIs (u @ v) e"
    if "is_loop n node r1 = Inr (e, r)" "ts = w @ r1" "derives h LIs (u @ w) node" for node r1 w
    using Suc.IH [OF that(1,3)] that(2) by auto
  consider (isnull) "isWord ''isnull'' ts" | (notnull) "\<not> isWord ''isnull'' ts" "isWord ''notnull'' ts"
    | (isn) "\<not> isWord ''isnull'' ts" "\<not> isWord ''notnull'' ts" "isWord ''is'' ts"
    | (none) "\<not> isWord ''isnull'' ts" "\<not> isWord ''notnull'' ts" "\<not> isWord ''is'' ts" by blast
  then show ?case
  proof cases
    case isnull
    from head_token(2) [OF this] obtain t where t: "ts = [t] @ tl ts" "word_token ''isnull'' t" by auto
    from Suc.prems(1) isnull have "is_loop n (SOperator ''IS_NULL'' [left]) (tl ts) = Inr (e, r)" by simp
    from step [OF this t(1) derives_derives_args.isnull [OF Suc.prems(2) t(2)]] show ?thesis .
  next
    case notnull
    from head_token(2) [OF notnull(2)] obtain t where t: "ts = [t] @ tl ts" "word_token ''notnull'' t" by auto
    from Suc.prems(1) notnull have "is_loop n (SOperator ''IS_NOT_NULL'' [left]) (tl ts) = Inr (e, r)" by simp
    from step [OF this t(1) derives_derives_args.notnull [OF Suc.prems(2) t(2)]] show ?thesis .
  next
    case isn
    from head_token(2) [OF isn(3)] obtain t r0 where t: "ts = t # r0" "word_token ''is'' t" by auto
    show ?thesis
    proof (cases "isWord ''not'' r0")
      case True
      from Suc.prems(1) isn t True have n: "isWord ''null'' (tl r0)" "is_loop n (SOperator ''IS_NOT_NULL'' [left]) (tl (tl r0)) = Inr (e, r)"
        by (auto simp: Let_def split: if_splits)
      from head_token(2) [OF True] obtain m where m: "r0 = m # tl r0" "word_token ''not'' m" by auto
      from head_token(2) [OF n(1)] obtain l where l: "tl r0 = l # tl (tl r0)" "word_token ''null'' l" by auto
      have "ts = [t, m, l] @ tl (tl r0)" using t m l by (metis append_Cons append_Nil)
      from step [OF n(2) this derives_derives_args.is_not_null [OF Suc.prems(2) t(2) m(2) l(2)]] show ?thesis .
    next
      case False
      from Suc.prems(1) isn t False have n: "isWord ''null'' r0" "is_loop n (SOperator ''IS_NULL'' [left]) (tl r0) = Inr (e, r)"
        by (auto simp: Let_def split: if_splits)
      from head_token(2) [OF n(1)] obtain l where l: "r0 = l # tl r0" "word_token ''null'' l" by auto
      have "ts = [t, l] @ tl r0" using t l by (metis append_Cons append_Nil)
      from step [OF n(2) this derives_derives_args.is_null [OF Suc.prems(2) t(2) l(2)]] show ?thesis .
    qed
  next
    case none
    with Suc.prems show ?thesis by (intro exI [of _ "[]"]) auto
  qed
qed simp

lemma is_level_sound:
  assumes "sound h LOr ex"
  shows "sound h LIs (is_level h ex)"
proof (rule soundI)
  fix ts e r
  assume "is_level h ex ts = Inr (e, r)"
  then obtain a r1 where a: "comparison h ex ts = Inr (a, r1)" "is_loop (Suc (length r1)) a r1 = Inr (e, r)"
    by (auto simp: is_level_def result_simps simp del: is_loop.simps)
  from soundE [OF comparison_sound [OF assms] a(1)] obtain u where u: "ts = u @ r1" "derives h LComparison u a" .
  then have "derives h LIs u a" by (simp add: derives_derives_args.tighter)
  from is_loop_sound [OF a(2) this] obtain v where "r1 = v @ r" "derives h LIs (u @ v) e" by blast
  with u(1) show "\<exists>u. ts = u @ r \<and> derives h LIs u e" by (intro exI [of _ "u @ v"]) simp
qed

lemma not_level_sound:
  assumes "sound h LOr ex"
  shows "sound h LNot (not_level h ex)"
proof (rule soundI)
  have base: "sound h LNot (is_level h ex)" by (rule sound_tighter) (simp add: is_level_sound [OF assms])
  fix ts e r
  show "not_level h ex ts = Inr (e, r) \<Longrightarrow> \<exists>u. ts = u @ r \<and> derives h LNot u e"
  proof (induction ts arbitrary: e)
    case Nil
    then have "is_level h ex [] = Inr (e, r)" by simp
    then show ?case by (rule soundE [OF base]) blast
  next
    case (Cons t ts)
    show ?case
    proof (cases "word_token ''not'' t")
      case False
      with Cons.prems base show ?thesis unfolding sound_def by simp
    next
      case True
      with Cons.prems obtain e' where o': "not_level h ex ts = Inr (e', r)" "e = SOperator ''NOT'' [e']"
        by (auto simp: result_simps)
      from Cons.IH [OF o'(1)] obtain u where "ts = u @ r" "derives h LNot u e'" by blast
      with derives_derives_args.not [OF True] o'(2) show ?thesis by (intro exI [of _ "t # u"]) auto
    qed
  qed
qed

lemma expr_sound: "sound h LOr (expr h n)"
proof (induction n)
  case 0
  show ?case by (rule soundI) simp
next
  case (Suc n)
  have "expr h (Suc n) = or_level h (expr h n)" by (rule ext) simp
  then show ?case unfolding or_level_def and_level_def level_operators
    by (simp only: left_level_sound tighter.simps not_level_sound [OF Suc])
qed

section \<open>The fuel is enough\<close>

lemma derives_nonempty: "derives h l u e \<Longrightarrow> u \<noteq> []"
  and "derives_args h u es \<Longrightarrow> True"
  by (induction rule: derives_derives_args.inducts) simp_all

lemma sound_shorter:
  assumes "sound h l p" "p ts = Inr (e, r)"
  shows "length r < length ts"
  using soundE [OF assms] derives_nonempty by (metis add.commute length_append length_greater_0_conv less_add_same_cancel1)

text \<open>A parser never runs out of fuel on at most \<open>n\<close> tokens.\<close>

definition fueled :: "nat \<Rightarrow> 'a parser \<Rightarrow> bool" where
  "fueled n p \<longleftrightarrow> (\<forall>ts. length ts \<le> n \<longrightarrow> p ts \<noteq> Inl OutOfFuel)"

lemma fueledI: "(\<And>ts. length ts \<le> n \<Longrightarrow> p ts \<noteq> Inl OutOfFuel) \<Longrightarrow> fueled n p"
  by (simp add: fueled_def)

lemma fueledD: "fueled n p \<Longrightarrow> length ts \<le> n \<Longrightarrow> p ts \<noteq> Inl OutOfFuel"
  by (simp add: fueled_def)

lemma head_shorter: "isOp v ts \<Longrightarrow> length (tl ts) < length ts" "isWord w ts \<Longrightarrow> length (tl ts) < length ts"
  by (cases ts; simp)+

lemma qualifiers_fuel [simp]: "qualifiers msg ts \<noteq> Inl OutOfFuel"
  by (induction msg ts rule: qualifiers.induct) (auto simp: rbind_eq_Inl split: list.splits sql_token.splits)

lemma type_params_fuel [simp]: "type_params ts \<noteq> Inl OutOfFuel"
  by (induction ts rule: type_params.induct) (auto simp: rbind_eq_Inl split: sql_token.splits)

lemma type_arguments_fuel [simp]: "type_arguments ts \<noteq> Inl OutOfFuel"
  by (auto simp: type_arguments_def rbind_eq_Inl)

lemma typeName_fuel [simp]: "typeName h ts \<noteq> Inl OutOfFuel"
  by (auto simp: typeName_def rbind_eq_Inl split: list.splits sql_token.splits prod.splits if_splits)

lemma left_loop_fuel:
  assumes "sound h l operand" "fueled m operand"
  shows "length ts < n \<Longrightarrow> length ts \<le> m \<Longrightarrow> left_loop n (level_operator k) operand left ts \<noteq> Inl OutOfFuel"
proof (induction n arbitrary: left ts)
  case (Suc n)
  show ?case
  proof (cases "level_operator k (peek 0 ts)")
    case (Some mk)
    then obtain t ts' where ts: "ts = t # ts'" by (cases ts) auto
    have "operand ts' \<noteq> Inl OutOfFuel" using fueledD [OF assms(2)] Suc.prems(2) ts by simp
    moreover have "left_loop n (level_operator k) operand (mk left right) r \<noteq> Inl OutOfFuel" if "operand ts' = Inr (right, r)" for right r
      using Suc.IH sound_shorter [OF assms(1) that] Suc.prems ts by simp
    ultimately show ?thesis using Some ts by (auto simp: rbind_eq_Inl)
  qed simp
qed simp

lemma left_level_fuel:
  assumes "sound h l operand" "fueled m operand"
  shows "fueled m (left_level (level_operator k) operand)"
proof (rule fueledI)
  fix ts :: "sql_token list"
  assume ts: "length ts \<le> m"
  have "left_loop (Suc (length r)) (level_operator k) operand a r \<noteq> Inl OutOfFuel" if "operand ts = Inr (a, r)" for a r
    by (rule left_loop_fuel [OF assms]) (use sound_shorter [OF assms(1) that] ts in simp_all)
  then show "left_level (level_operator k) operand ts \<noteq> Inl OutOfFuel"
    using fueledD [OF assms(2) ts] by (auto simp: left_level_def rbind_eq_Inl simp del: left_loop.simps)
qed

lemma call_arguments_fuel:
  assumes "sound h LOr ex" "fueled m ex"
  shows "length ts < n \<Longrightarrow> length ts \<le> m \<Longrightarrow> call_arguments n ex ts \<noteq> Inl OutOfFuel"
proof (induction n arbitrary: ts)
  case (Suc n)
  have "ex ts \<noteq> Inl OutOfFuel" using fueledD [OF assms(2)] Suc.prems(2) by simp
  moreover have "call_arguments n ex (tl r) \<noteq> Inl OutOfFuel" if "ex ts = Inr (c, r)" for c r
    using Suc.IH sound_shorter [OF assms(1) that] Suc.prems by simp
  ultimately show ?case by (auto simp: rbind_eq_Inl)
qed simp

lemma primary_fuel:
  assumes "sound h LOr ex" "\<And>k. m = Suc k \<Longrightarrow> fueled k ex"
  shows "fueled m (primary h ex)"
proof (rule fueledI)
  fix ts :: "sql_token list"
  assume len: "length ts \<le> m"
  show "primary h ex ts \<noteq> Inl OutOfFuel"
  proof (cases ts)
    case Nil
    then show ?thesis by (simp add: primary_def)
  next
    case (Cons t r)
    with len obtain k where k: "m = Suc k" "length r \<le> k" by (cases m) auto
    note ex = assms(2) [OF k(1)]
    have shorter: "length r' \<le> k" if "length r' \<le> length r" for r' :: "sql_token list" using that k(2) by simp
    have e: "ex r' \<noteq> Inl OutOfFuel" if "length r' \<le> length r" for r' using fueledD [OF ex shorter [OF that]] .
    have call: "parse_call ex mk r' \<noteq> Inl OutOfFuel" if "length r' \<le> length r" for mk r'
      using call_arguments_fuel [OF assms(1) ex, of r' "Suc (length r')"] shorter [OF that]
      by (auto simp: parse_call_def rbind_eq_Inl simp del: call_arguments.simps split: if_splits)
    have tl: "length (tl r') \<le> length r" if "length r' \<le> length r" for r' :: "sql_token list" using that by simp
    have cast: "parse_cast_call h ex r' \<noteq> Inl OutOfFuel" if "length r' \<le> length r" for r'
      using e [OF that] by (auto simp: parse_cast_call_def rbind_eq_Inl)
    have name: "parse_name ex v q r \<noteq> Inl OutOfFuel" for v q
    proof -
      have "length r1 \<le> length r" if "qualifiers msg r = Inr (parts, r1)" for msg parts r1
        using qualifiers_dotted [OF that] by auto
      then show ?thesis using call [OF tl] by (auto simp: parse_name_def Let_def rbind_eq_Inl split: sql_token.splits)
    qed
    have "rbind (ex r) (\<lambda>(inner, r'). if isOp '','' r' then fail ''row constructors are unsupported''
           else rbind (expectOp '')'' r') (\<lambda>r''. Inr (inner, r''))) \<noteq> Inl OutOfFuel"
      using e by (auto simp: rbind_eq_Inl)
    then show ?thesis using Cons name cast [OF tl] by (auto simp: primary_def Let_def split: sql_token.splits)
  qed
qed

lemma cast_loop_fuel: "length ts < n \<Longrightarrow> cast_loop n h node ts \<noteq> Inl OutOfFuel"
proof (induction n arbitrary: node ts)
  case (Suc n)
  have "length r < n" if "isOp ''::'' ts" "typeName h (tl ts) = Inr ((ty, q), r)" for ty q r
  proof -
    from typeName_tokens [OF that(2)] obtain w where "tl ts = w @ r" by blast
    then have "length r \<le> length (tl ts)" by simp
    then show ?thesis using head_shorter(1) [OF that(1)] Suc.prems by simp
  qed
  then show ?case using Suc.IH by (auto simp: rbind_eq_Inl)
qed simp

lemma postfix_fuel:
  assumes "sound h LOr ex" "\<And>k. m = Suc k \<Longrightarrow> fueled k ex"
  shows "fueled m (postfix h ex)"
proof (rule fueledI)
  fix ts :: "sql_token list"
  assume "length ts \<le> m"
  from fueledD [OF primary_fuel [OF assms] this] show "postfix h ex ts \<noteq> Inl OutOfFuel"
    using cast_loop_fuel by (auto simp: postfix_def rbind_eq_Inl simp del: cast_loop.simps)
qed

lemma unary_fuel:
  assumes "sound h LOr ex" "\<And>k. m = Suc k \<Longrightarrow> fueled k ex"
  shows "fueled m (unary h ex)"
proof (rule fueledI)
  fix ts :: "sql_token list"
  note p = fueledD [OF postfix_fuel [OF assms]]
  show "length ts \<le> m \<Longrightarrow> unary h ex ts \<noteq> Inl OutOfFuel"
  proof (induction ts)
    case (Cons t ts)
    then show ?case using p [where ts = "t # ts"] by (auto simp: rbind_eq_Inl split: option.splits)
  qed (simp add: p)
qed

lemma otherOp_fuel:
  assumes "sound h LOr ex" "\<And>k. m = Suc k \<Longrightarrow> fueled k ex"
  shows "fueled m (otherOp h ex)"
proof -
  have s: "sound h (tighter LPower) (unary h ex)" using unary_sound [OF assms(1)] by simp
  note s1 = left_level_sound [OF s]
  have s2: "sound h (tighter LMultiplicative) (power_level h ex)" using s1 by (simp add: power_level_def level_operators)
  note s3 = left_level_sound [OF s2]
  have s4: "sound h (tighter LAdditive) (multiplicative h ex)" using s3 by (simp add: multiplicative_def level_operators)
  note s5 = left_level_sound [OF s4]
  have s6: "sound h (tighter LOther) (additive h ex)" using s5 by (simp add: additive_def level_operators)
  have "fueled m (power_level h ex)"
    unfolding power_level_def level_operators by (rule left_level_fuel [OF s unary_fuel [OF assms]])
  from left_level_fuel [OF s2 this] have "fueled m (multiplicative h ex)" unfolding multiplicative_def level_operators .
  from left_level_fuel [OF s4 this] have "fueled m (additive h ex)" unfolding additive_def level_operators .
  from left_level_fuel [OF s6 this] show ?thesis unfolding otherOp_def level_operators .
qed

lemma comparison_fuel:
  assumes "sound h LOr ex" "\<And>k. m = Suc k \<Longrightarrow> fueled k ex"
  shows "fueled m (comparison h ex)"
proof (rule fueledI)
  fix ts :: "sql_token list"
  assume len: "length ts \<le> m"
  have o': "otherOp h ex r \<noteq> Inl OutOfFuel" if "length r \<le> m" for r
    using fueledD [OF otherOp_fuel [OF assms(1)] that] assms(2) by blast
  have "otherOp h ex (tl r) \<noteq> Inl OutOfFuel" if "otherOp h ex ts = Inr (a, r)" for a r
  proof (rule o')
    show "length (tl r) \<le> m" using sound_shorter [OF otherOp_sound [OF assms(1)] that] len by simp
  qed
  with o' [OF len] show "comparison h ex ts \<noteq> Inl OutOfFuel"
    by (auto simp: comparison_def rbind_eq_Inl split: option.splits)
qed

lemma is_loop_fuel: "length ts < n \<Longrightarrow> is_loop n left ts \<noteq> Inl OutOfFuel"
proof (induction n arbitrary: left ts)
  case (Suc n)
  have "is_loop n e (tl r) \<noteq> Inl OutOfFuel" if "isWord w r" "length r \<le> length ts" for e w r
    using Suc.IH [of "tl r" e] head_shorter(2) [OF that(1)] that(2) Suc.prems by simp
  then show ?case by (auto simp: Let_def)
qed simp

lemma not_level_fuel:
  assumes "sound h LOr ex" "\<And>k. m = Suc k \<Longrightarrow> fueled k ex"
  shows "fueled m (not_level h ex)"
proof (rule fueledI)
  fix ts :: "sql_token list"
  have p: "is_level h ex ts \<noteq> Inl OutOfFuel" if "length ts \<le> m" for ts
    using fueledD [OF comparison_fuel [OF assms] that] is_loop_fuel
    by (auto simp: is_level_def rbind_eq_Inl simp del: is_loop.simps)
  show "length ts \<le> m \<Longrightarrow> not_level h ex ts \<noteq> Inl OutOfFuel"
  proof (induction ts)
    case (Cons t ts)
    then show ?case using p [where ts = "t # ts"] by (auto simp: rbind_eq_Inl)
  qed (simp add: p)
qed

lemma or_level_fuel:
  assumes "sound h LOr ex" "\<And>k. m = Suc k \<Longrightarrow> fueled k ex"
  shows "fueled m (or_level h ex)"
proof -
  have s: "sound h (tighter LAnd) (not_level h ex)" using not_level_sound [OF assms(1)] by simp
  have s2: "sound h (tighter LOr) (and_level h ex)"
    using left_level_sound [OF s] by (simp add: and_level_def level_operators)
  from left_level_fuel [OF s not_level_fuel [OF assms]] have "fueled m (and_level h ex)" unfolding and_level_def level_operators .
  from left_level_fuel [OF s2 this] show ?thesis unfolding or_level_def level_operators .
qed

lemma expr_fuel: "fueled n (expr h (Suc n))"
proof (induction n)
  case (Suc n)
  have "expr h (Suc (Suc n)) = or_level h (expr h (Suc n))" by (rule ext) (rule expr.simps)
  moreover have "fueled (Suc n) (or_level h (expr h (Suc n)))" by (rule or_level_fuel [OF expr_sound]) (metis Suc nat.inject)
  ultimately show ?case by (simp only:)
next
  case 0
  have "expr h (Suc 0) = or_level h (expr h 0)" by (rule ext) (rule expr.simps)
  moreover have "fueled 0 (or_level h (expr h 0))" by (rule or_level_fuel [OF expr_sound]) simp
  ultimately show ?case by (simp only:)
qed

lemma parseAll_total: "parseAll h ts \<noteq> Inl OutOfFuel"
  using fueledD [OF expr_fuel, of ts "length ts"] by (auto simp: parseAll_def rbind_eq_Inl simp del: expr.simps)

section \<open>Whole texts\<close>

lemma junction_Some: "level_operator l t = Some mk \<Longrightarrow> t \<noteq> TEnd"
  by auto

lemma derives_no_end: "derives h l u e \<Longrightarrow> TEnd \<notin> set u"
  and "derives_args h u es \<Longrightarrow> TEnd \<notin> set u"
  by (induction rule: derives_derives_args.inducts) (auto simp: type_tokens_def dest: dotted_no_end)

lemma next_token_no_end: "next_token s = Inr (Some t, r) \<Longrightarrow> t \<noteq> TEnd"
  by (auto simp: next_token_def Let_def split: if_splits option.splits)

lemma next_token_fuel [simp]: "next_token s \<noteq> Inl OutOfFuel"
  by (auto simp: next_token_def Let_def split: option.splits)

lemma tokens_from_shape: "tokens_from s = Inr ts \<Longrightarrow> \<exists>us. ts = us @ [TEnd] \<and> TEnd \<notin> set us"
proof (induction s arbitrary: ts rule: tokens_from.induct)
  case (2 c s)
  then obtain t r ts' where n: "next_token (c # s) = Inr (t, r)" "tokens_from r = Inr ts'" "ts = (case t of None \<Rightarrow> ts' | Some t \<Rightarrow> t # ts')"
    by (auto simp: result_simps)
  from "2.IH" [OF n(1) refl n(2)] obtain us where "ts' = us @ [TEnd]" "TEnd \<notin> set us" by blast
  with n(1,3) next_token_no_end [of "c # s" _ r] show ?case
    by (cases t) (auto intro: exI [of _ us] exI [of _ "the t # us"])
qed simp

lemma tokens_from_fuel: "tokens_from s \<noteq> Inl OutOfFuel"
  by (induction s rule: tokens_from.induct) (auto simp: rbind_eq_Inl)

lemmas visit_node =
  visit.simps [of sc d "SConstant ty a" for sc d ty a] visit.simps [of sc d "SColumn ns" for sc d ns]
  visit.simps [of sc d "SCast ty q c" for sc d ty q c] visit.simps [of sc d "SComparison v a b" for sc d v a b]
  visit.simps [of sc d "SConjunction v cs" for sc d v cs] visit.simps [of sc d "SOperator v cs" for sc d v cs]
  visit.simps [of sc d "SFunction v q cs" for sc d v q cs]

lemma visit_fuel: "visit sc d node st \<noteq> Inl OutOfFuel" and visit_all_fuel: "visit_all sc d nodes st \<noteq> Inl OutOfFuel"
proof (induction sc d node st and sc d nodes st rule: visit_visit_all.induct)
  case (1 sc d node st)
  then show ?case by (cases node) (auto simp: visit_node Let_def rbind_eq_Inl split: option.splits)
qed (auto simp: rbind_eq_Inl)

text \<open>
  C22: reading an expression always ends with a result.  On every text the tokenizer, the parser and
  the column-expression validator return a tree, a list of columns or an error of the grammar: the
  fuel of the model, one unit per token, is never used up.
\<close>

theorem sql_parser_total:
  "parseScalarSql h sql \<noteq> Inl OutOfFuel \<and> validateColumnExpressionSql h sc sql \<noteq> Inl OutOfFuel"
proof -
  have "parseScalarSql h sql \<noteq> Inl OutOfFuel"
    using tokens_from_fuel parseAll_total by (auto simp: parseScalarSql_def tokenize_def rbind_eq_Inl)
  then show ?thesis using visit_fuel by (auto simp: validateColumnExpressionSql_def rbind_eq_Inl)
qed

text \<open>
  C20: the parser follows the precedence grammar.  The tree an expression is read to is one the
  stratified grammar derives from all its tokens: OR over AND over NOT over IS over comparison over
  the other operators, sums, products, powers, signs and casts, each level associating to the left.
\<close>

theorem parse_follows_grammar:
  assumes "parseScalarSql h sql = Inr e"
  shows "\<exists>u. tokenize sql = Inr (u @ [TEnd]) \<and> derives h LOr u e"
proof -
  from assms obtain ts r where ts: "tokens_from sql = Inr ts" "expr h (Suc (length ts)) ts = Inr (e, r)" "peek 0 r = TEnd"
    by (auto simp: parseScalarSql_def parseAll_def tokenize_def result_simps simp del: expr.simps split: if_splits)
  from soundE [OF expr_sound ts(2)] obtain u where u: "ts = u @ r" "derives h LOr u e" .
  from tokens_from_shape [OF ts(1)] obtain us where us: "ts = us @ [TEnd]" "TEnd \<notin> set us" by blast
  have no: "TEnd \<notin> set u" by (rule derives_no_end [OF u(2)])
  then have "r \<noteq> []" using u(1) us(1) by (cases r) auto
  then obtain r' where r': "r = TEnd # r'" using ts(3) by (cases r) auto
  have "r' = []"
  proof (rule ccontr)
    assume "r' \<noteq> []"
    then have "us = u @ TEnd # butlast r'" using u(1) us(1) r' by (metis append_butlast_last_id butlast_append butlast_snoc list.distinct(1) butlast.simps(2))
    with us(2) show False by simp
  qed
  with u r' ts(1) show ?thesis by (auto simp: tokenize_def)
qed

section \<open>Column expressions\<close>

text \<open>The expressions a scope permits, and the columns, the nodes and the levels below the root of a tree.\<close>

fun permitted :: "expression_scope \<Rightarrow> ScalarNode \<Rightarrow> bool" where
  "permitted sc (SConstant type _) \<longleftrightarrow> type \<in> set (scope_types sc)"
| "permitted sc (SColumn names) \<longleftrightarrow> usingColumns sc \<and> length names = 1"
| "permitted sc (SCast type qualified child) \<longleftrightarrow> \<not> qualified \<and> (case type of None \<Rightarrow> False | Some t \<Rightarrow> t \<in> set (scope_types sc)) \<and> permitted sc child"
| "permitted sc (SComparison _ l r) \<longleftrightarrow> permitted sc l \<and> permitted sc r"
| "permitted sc (SConjunction _ cs) \<longleftrightarrow> (\<forall>c\<in>set cs. permitted sc c)"
| "permitted sc (SOperator _ cs) \<longleftrightarrow> (\<forall>c\<in>set cs. permitted sc c)"
| "permitted sc (SFunction name qualified cs) \<longleftrightarrow> function_ok sc name qualified \<and> (\<forall>c\<in>set cs. permitted sc c)"

fun node_children :: "ScalarNode \<Rightarrow> ScalarNode list" where
  "node_children (SCast _ _ c) = [c]"
| "node_children (SComparison _ l r) = [l, r]"
| "node_children (SConjunction _ cs) = cs"
| "node_children (SOperator _ cs) = cs"
| "node_children (SFunction _ _ cs) = cs"
| "node_children _ = []"

lemma size_member: "c \<in> set cs \<Longrightarrow> size c < Suc (size_list size (cs :: ScalarNode list))"
  by (induction cs) auto

lemma node_children_size: "c \<in> set (node_children n) \<Longrightarrow> size c < size n"
  by (cases n) (auto simp: size_member)

function tree_columns :: "ScalarNode \<Rightarrow> string list" where
  "tree_columns n = (case n of SColumn names \<Rightarrow> [hd names] | _ \<Rightarrow> concat (map tree_columns (node_children n)))"
  by auto
termination by (relation "measure size") (auto simp: size_member)

function tree_nodes :: "ScalarNode \<Rightarrow> nat" where
  "tree_nodes n = Suc (sum_list (map tree_nodes (node_children n)))"
  by auto
termination by (relation "measure size") (simp_all add: node_children_size)

function tree_levels :: "ScalarNode \<Rightarrow> nat" where
  "tree_levels n = Max (insert 0 (Suc ` tree_levels ` set (node_children n)))"
  by auto
termination by (relation "measure size") (simp_all add: node_children_size)

declare tree_columns.simps [simp del] tree_nodes.simps [simp del] tree_levels.simps [simp del]

lemma tree_levels_le: "d + tree_levels n \<le> m \<longleftrightarrow> d \<le> m \<and> (\<forall>c\<in>set (node_children n). Suc d + tree_levels c \<le> m)"
proof -
  have "tree_levels n \<le> k \<longleftrightarrow> (\<forall>c\<in>set (node_children n). Suc (tree_levels c) \<le> k)" for k
    by (subst tree_levels.simps) simp
  from this [of "m - d"] show ?thesis by auto
qed

definition visits :: "expression_scope \<Rightarrow> ScalarNode \<Rightarrow> bool" where
  "visits sc node \<longleftrightarrow> (\<forall>d st st'. visit sc d node st = Inr st' \<longleftrightarrow> permitted sc node \<and> d + tree_levels node \<le> 64 \<and>
     fst st + tree_nodes node \<le> 4096 \<and> st' = (fst st + tree_nodes node, snd st @ tree_columns node))"

lemma visitsD: "visits sc c \<Longrightarrow> visit sc d c st = Inr st' \<longleftrightarrow> permitted sc c \<and> d + tree_levels c \<le> 64 \<and>
     fst st + tree_nodes c \<le> 4096 \<and> st' = (fst st + tree_nodes c, snd st @ tree_columns c)"
  unfolding visits_def by blast

lemma visit_all_exact:
  assumes "\<forall>c\<in>set cs. visits sc c"
  shows "visit_all sc d cs st = Inr st' \<longleftrightarrow> (\<forall>c\<in>set cs. permitted sc c \<and> d + tree_levels c \<le> 64) \<and>
     (cs = [] \<or> fst st + sum_list (map tree_nodes cs) \<le> 4096) \<and>
     st' = (fst st + sum_list (map tree_nodes cs), snd st @ concat (map tree_columns cs))"
  using assms
proof (induction cs arbitrary: st)
  case (Cons c cs)
  then have "visits sc c" by simp
  note c = visitsD [OF this]
  have "\<forall>c\<in>set cs. visits sc c" using Cons.prems by simp
  note ih = Cons.IH [OF this]
  show ?case by (simp add: rbind_eq_Inr c ih) (auto simp: add.assoc)
qed (auto simp: prod_eq_iff)

lemma visit_exact: "visits sc node"
proof (induction node)
  case (SConstant ty a)
  show ?case by (auto simp: visits_def visit_node Let_def tree_levels_le [of _ "SConstant ty a"] tree_nodes.simps [of "SConstant ty a"]
        tree_columns.simps [of "SConstant ty a"])
next
  case (SColumn ns)
  show ?case by (auto simp: visits_def visit_node Let_def tree_levels_le [of _ "SColumn ns"] tree_nodes.simps [of "SColumn ns"]
        tree_columns.simps [of "SColumn ns"])
next
  case (SCast ty q c)
  then have c: "visit sc d c st = Inr st' \<longleftrightarrow> permitted sc c \<and> d + tree_levels c \<le> 64 \<and>
     fst st + tree_nodes c \<le> 4096 \<and> st' = (fst st + tree_nodes c, snd st @ tree_columns c)" for d st st'
    unfolding visits_def by blast
  show ?case by (cases ty) (auto simp: visits_def visit_node Let_def c tree_levels_le [of _ "SCast t q c" for t] tree_nodes.simps [of "SCast t q c" for t]
        tree_columns.simps [of "SCast t q c" for t])
next
  case (SComparison v l r)
  then have c: "visit sc d c st = Inr st' \<longleftrightarrow> permitted sc c \<and> d + tree_levels c \<le> 64 \<and>
     fst st + tree_nodes c \<le> 4096 \<and> st' = (fst st + tree_nodes c, snd st @ tree_columns c)" if "c = l \<or> c = r" for d c st st'
    using that unfolding visits_def by blast
  show ?case by (auto simp: visits_def visit_node Let_def rbind_eq_Inr c tree_levels_le [of _ "SComparison v l r"]
        tree_nodes.simps [of "SComparison v l r"] tree_columns.simps [of "SComparison v l r"])
next
  case (SConjunction v cs)
  then have kids: "\<forall>c\<in>set cs. visits sc c" by blast
  show ?case
    by (auto simp: visits_def visit_node Let_def visit_all_exact [OF kids] tree_levels_le [of _ "SConjunction v cs"]
        tree_nodes.simps [of "SConjunction v cs"] tree_columns.simps [of "SConjunction v cs"])
next
  case (SOperator v cs)
  then have kids: "\<forall>c\<in>set cs. visits sc c" by blast
  show ?case
    by (auto simp: visits_def visit_node Let_def visit_all_exact [OF kids] tree_levels_le [of _ "SOperator v cs"]
        tree_nodes.simps [of "SOperator v cs"] tree_columns.simps [of "SOperator v cs"])
next
  case (SFunction v q cs)
  then have kids: "\<forall>c\<in>set cs. visits sc c" by blast
  show ?case
    by (auto simp: visits_def visit_node Let_def visit_all_exact [OF kids] tree_levels_le [of _ "SFunction v q cs"]
        tree_nodes.simps [of "SFunction v q cs"] tree_columns.simps [of "SFunction v q cs"])
qed

text \<open>
  C21: the column-expression check is exactly its rules.  A text is accepted with a list of columns
  precisely when it parses to a tree the scope permits throughout, of at most 64 levels below its
  root and 4,096 nodes, and the columns are those the tree names, in order.
\<close>

theorem column_expression_exact:
  "validateColumnExpressionSql h sc sql = Inr columns \<longleftrightarrow>
     (\<exists>e. parseScalarSql h sql = Inr e \<and> permitted sc e \<and> tree_levels e \<le> 64 \<and> tree_nodes e \<le> 4096 \<and> columns = tree_columns e)"
  using visitsD [OF visit_exact, of sc 0 _ "(0, [])"] by (auto simp: validateColumnExpressionSql_def rbind_eq_Inr)

section \<open>Integer literals\<close>

lemma digit_char: "n < 10 \<Longrightarrow> is_digit (char_of (48 + n :: nat))"
  by (simp add: is_digit_def Let_def)

lemma nat_to_string_digits: "list_all is_digit (nat_to_string n)"
proof (induction n rule: nat_to_string.induct)
  case (1 n)
  then show ?case using digit_char [of n] digit_char [of "n mod 10"] by (auto simp: nat_to_string.simps [of n])
qed

lemma nat_to_string_nonempty: "nat_to_string n \<noteq> []"
  by (subst nat_to_string.simps) simp

lemma digits_scan: "list_all is_digit d \<Longrightarrow> d \<noteq> [] \<Longrightarrow> scan_number d = d"
  by (auto simp: scan_number_def scan_mantissa_def scan_exponent_def Let_def takeWhile_eq_all_conv [THEN iffD2] list_all_iff)

lemma digit_not: "is_digit c \<Longrightarrow> \<not> sql_space c" "is_digit c \<Longrightarrow> c \<noteq> CHR ''-''" "is_digit c \<Longrightarrow> c \<noteq> CHR ''/''"
  by (auto simp: is_digit_def sql_space_def Let_def)

lemma digits_tokens: "list_all is_digit d \<Longrightarrow> d \<noteq> [] \<Longrightarrow> tokens_from d = Inr [TNum d, TEnd]"
  using digits_scan [of d]
  by (cases d) (auto simp: next_token_def Let_def starts_number_def first_is_def dest: digit_not)

lemma minus_tokens: "list_all is_digit d \<Longrightarrow> d \<noteq> [] \<Longrightarrow> tokens_from (CHR ''-'' # d) = Inr [TOp ''-'', TNum d, TEnd]"
proof -
  assume d: "list_all is_digit d" "d \<noteq> []"
  then obtain c r where c: "d = c # r" "is_digit c" by (cases d) auto
  have "next_token (CHR ''-'' # d) = Inr (Some (TOp ''-''), d)"
    using c digit_not(2) [OF c(2)]
    by (simp add: next_token_def Let_def sql_space_def starts_number_def first_is_def is_digit_def is_ident_start_def is_letter_def
        operator_at_def OPERATORS_def)
  then show ?thesis using digits_tokens [OF d] by simp
qed

lemma parse_number: "parseAll h [TNum d, TEnd] = Inr (number_node d False)" "parseAll h [TOp ''-'', TNum d, TEnd] = Inr (number_node d True)"
  by (simp_all add: parseAll_def or_level_def and_level_def is_level_def comparison_def otherOp_def additive_def multiplicative_def
      power_level_def left_level_def postfix_def primary_def junction_def binary_def op_in_def op_token_def word_token_def apply_sign_def
      number_node_def peek_def)

lemma literal_type:
  "literalNumber (nat_to_string n) b = (let i = int n * (if b then -1 else 1) in
     if - (2 ^ 31) \<le> i \<and> i < 2 ^ 31 then ''INTEGER'' else if - (2 ^ 63) \<le> i \<and> i < 2 ^ 63 then ''BIGINT'' else ''HUGEINT'')"
  by (auto simp: literalNumber_def nat_to_string_digits nat_to_string_nonempty decimal_value_nat Let_def INT64_MAX_def)

lemma digits_no_nul: "list_all is_digit d \<Longrightarrow> CHR 0x00 \<notin> set d"
  by (auto simp: list_all_iff is_digit_def)

lemma utf8_length_digits: "list_all is_digit d \<Longrightarrow> utf8_length d = length d"
  by (induction d) (auto simp: utf8_length_def utf8_Cons utf8_char_def is_digit_def Let_def)

text \<open>
  C23: an integer literal gets the smallest type that holds it.  Whatever the integer, its decimal
  text parses to a constant typed \<open>INTEGER\<close> just when it fits 32 bits and \<open>BIGINT\<close> just when it
  fits 64, the sign folded in: so the least value of each width is a literal of that width although its
  digits alone are not.
\<close>

theorem integer_literal_type:
  assumes "length (int_to_string i) \<le> 1024 * 1024"
  shows "\<exists>a. parseScalarSql h (int_to_string i) = Inr (SConstant
    (if - (2 ^ 31) \<le> i \<and> i < 2 ^ 31 then ''INTEGER'' else if - (2 ^ 63) \<le> i \<and> i < 2 ^ 63 then ''BIGINT'' else ''HUGEINT'') a)"
proof (cases "i < 0")
  case True
  let ?d = "nat_to_string (nat (- i))"
  have "int_to_string i = CHR ''-'' # ?d" using True by (simp add: int_to_string_def)
  moreover have "utf8_length (CHR ''-'' # ?d) = length (CHR ''-'' # ?d)"
    using utf8_length_digits [OF nat_to_string_digits] by (simp add: utf8_length_def utf8_Cons utf8_char_def)
  ultimately show ?thesis
    using assms True nat_to_string_digits nat_to_string_nonempty digits_no_nul [OF nat_to_string_digits]
    by (simp add: parseScalarSql_def tokenize_def minus_tokens parse_number number_node_def literal_type del: tokens_from.simps)
next
  case False
  then have "int_to_string i = nat_to_string (nat i)" by (simp add: int_to_string_def)
  then show ?thesis
    using assms False nat_to_string_digits nat_to_string_nonempty digits_no_nul [OF nat_to_string_digits] utf8_length_digits [OF nat_to_string_digits]
    by (simp add: parseScalarSql_def tokenize_def digits_tokens parse_number number_node_def literal_type del: tokens_from.simps)
qed

definition no_numbers :: host where
  "no_numbers = \<lparr>num_to_string = (\<lambda>_. []), string_to_num = (\<lambda>_. NaN), string_to_bigint = (\<lambda>_. None)\<rparr>"

lemma integer_literal_type_witness:
  "\<exists>a. parseScalarSql no_numbers ''-2147483648'' = Inr (SConstant ''INTEGER'' a)"
proof -
  have "int_to_string (-2147483648) = ''-2147483648''" by code_simp
  with integer_literal_type [of "-2147483648" no_numbers] show ?thesis by simp
qed

text \<open>Precedence and associativity at work, and the witness of the grammar.\<close>

lemma parse_sample:
  "parseScalarSql no_numbers ''a - 1 - b * 2 < c'' = Inr (SComparison ''<''
     (SFunction ''-'' False [SFunction ''-'' False [SColumn [''a''], SConstant ''INTEGER'' (Some (''1'', False))],
        SFunction ''*'' False [SColumn [''b''], SConstant ''INTEGER'' (Some (''2'', False))]])
     (SColumn [''c'']))"
  by code_simp

lemma parse_follows_grammar_witness:
  "\<exists>u e. tokenize ''a - 1 - b * 2 < c'' = Inr (u @ [TEnd]) \<and> derives no_numbers LOr u e"
  using parse_follows_grammar [OF parse_sample] by blast

end
