(* ===== verification/ArrowCodec.thy ===== *)
theory ArrowCodec
  imports ArrowTypes
begin

text \<open>
  The codec registry, \<open>src/arrow/codec/registry.ts\<close>: for every Arrow type, the conversions between
  the value an author writes (rich), the lossless value a column holds (canonical) and the branded
  one (raw).  A codec is the object of four functions the source builds, \<open>codecFor\<close> resolves the
  codec of a type, and the laws at the end say what the canonical value of a type looks like and
  that leaving it and coming back gives it unchanged.
\<close>

section \<open>Author values\<close>

text \<open>
  \<open>RView\<close> is a view of a buffer other than \<open>Uint8Array\<close>, with what iterating it gives (a
  \<open>DataView\<close> does not iterate); \<open>RDate\<close> holds \<open>getTime\<close>; \<open>ROther\<close> is any other value by its
  class, and whether \<open>typeof\<close> calls it an object.
\<close>

datatype rich =
    RUndef | RNull | RBool bool | RNum jsnum | RBig int | RStr string
  | RBytes bytes | RView bytes "rich list option" | RBuffer bytes | RDate jsnum
  | RArr "rich list" | RMap "(rich \<times> rich) list" | RSet "rich list" | RObj "(string \<times> rich) list"
  | ROther bool string

datatype codec_error =
    CodecError string string
  | CodecTypeError
  | CodecRangeError
  | BadType string

definition codec_err :: "string \<Rightarrow> string \<Rightarrow> codec_error + 'a" where
  "codec_err label msg = Inl (CodecError label msg)"

definition isNullish :: "rich \<Rightarrow> bool" where
  "isNullish v \<longleftrightarrow> v = RNull \<or> v = RUndef"

text \<open>\<open>v ?? null\<close>.\<close>

definition or_null :: "rich \<Rightarrow> rich" where
  "or_null v = (if isNullish v then RNull else v)"

definition typeof_object :: "rich \<Rightarrow> bool" where
  "typeof_object v = (case v of RUndef \<Rightarrow> False | RBool _ \<Rightarrow> False | RNum _ \<Rightarrow> False | RBig _ \<Rightarrow> False | RStr _ \<Rightarrow> False
     | ROther ob _ \<Rightarrow> ob | _ \<Rightarrow> True)"

definition byte_value :: "byte \<Rightarrow> rich" where
  "byte_value b = RNum (Fin (of_nat (unat b)))"

text \<open>What iterating a value gives; \<open>None\<close> where it has no iterator.\<close>

definition iter_elems :: "rich \<Rightarrow> rich list option" where
  "iter_elems v = (case v of
     RArr vs \<Rightarrow> Some vs
   | RStr s \<Rightarrow> Some (map (\<lambda>c. RStr [c]) s)
   | RBytes bs \<Rightarrow> Some (map byte_value bs)
   | RView _ es \<Rightarrow> es
   | RMap ps \<Rightarrow> Some (map (\<lambda>(k, w). RArr [k, w]) ps)
   | RSet vs \<Rightarrow> Some vs
   | _ \<Rightarrow> None)"

definition indexed :: "rich list \<Rightarrow> (string \<times> rich) list" where
  "indexed vs = zip (map nat_to_string [0..<length vs]) vs"

text \<open>\<open>Object.entries\<close>: own enumerable properties.\<close>

definition rich_entries :: "rich \<Rightarrow> (string \<times> rich) list" where
  "rich_entries v = (case v of
     RObj es \<Rightarrow> es
   | RArr vs \<Rightarrow> indexed vs
   | RStr s \<Rightarrow> indexed (map (\<lambda>c. RStr [c]) s)
   | RBytes bs \<Rightarrow> indexed (map byte_value bs)
   | RView _ (Some es) \<Rightarrow> indexed es
   | _ \<Rightarrow> [])"

definition rich_member :: "rich \<Rightarrow> string \<Rightarrow> rich" where
  "rich_member v k = (case map_of (rich_entries v) k of Some w \<Rightarrow> w
     | None \<Rightarrow> if k = ''length'' then (case v of RArr vs \<Rightarrow> RNum (num_of_int (int (length vs)))
         | RBytes bs \<Rightarrow> RNum (num_of_int (int (length bs))) | RView _ (Some es) \<Rightarrow> RNum (num_of_int (int (length es)))
         | _ \<Rightarrow> RUndef) else RUndef)"

section \<open>Checks and conversions\<close>

definition checkBoolean :: "string \<Rightarrow> rich \<Rightarrow> codec_error + unit" where
  "checkBoolean label v = (case v of RBool _ \<Rightarrow> Inr () | _ \<Rightarrow> codec_err label ''expected boolean'')"

definition checkIntNumber :: "string \<Rightarrow> int \<Rightarrow> int \<Rightarrow> rich \<Rightarrow> codec_error + unit" where
  "checkIntNumber label lo hi v = (case v of
     RNum n \<Rightarrow> if \<not> is_integer n then codec_err label ''expected an integer''
       else if num_lt n (num_of_int lo) \<or> num_lt (num_of_int hi) n then codec_err label ''value out of range''
       else Inr ()
   | RBig b \<Rightarrow> if b < lo \<or> b > hi then codec_err label ''bigint out of range'' else Inr ()
   | _ \<Rightarrow> codec_err label ''expected number'')"

definition checkFloat :: "string \<Rightarrow> rich \<Rightarrow> codec_error + unit" where
  "checkFloat label v = (case v of RNum _ \<Rightarrow> Inr () | RBig _ \<Rightarrow> Inr () | _ \<Rightarrow> codec_err label ''expected number'')"

definition big_max :: "nat \<Rightarrow> bool \<Rightarrow> int" where
  "big_max bits sg = (if sg then 2 ^ (bits - 1) - 1 else 2 ^ bits - 1)"

definition big_min :: "nat \<Rightarrow> bool \<Rightarrow> int" where
  "big_min bits sg = (if sg then - (2 ^ (bits - 1)) else 0)"

definition checkBigInt :: "string \<Rightarrow> nat \<Rightarrow> bool \<Rightarrow> rich \<Rightarrow> codec_error + unit" where
  "checkBigInt label bits sg v =
     rbind (case v of RBig b \<Rightarrow> Inr b
       | RNum n \<Rightarrow> if \<not> is_integer n then codec_err label ''expected an integer'' else Inr (num_floor n)
       | _ \<Rightarrow> codec_err label ''expected bigint'') (\<lambda>b.
     if b < big_min bits sg \<or> b > big_max bits sg then codec_err label ''value out of range'' else Inr ())"

definition checkString :: "string \<Rightarrow> rich \<Rightarrow> codec_error + unit" where
  "checkString label v = (case v of RStr _ \<Rightarrow> Inr () | _ \<Rightarrow> codec_err label ''expected string'')"

definition toBigIntStrict :: "string \<Rightarrow> rich \<Rightarrow> codec_error + int" where
  "toBigIntStrict label v = (case v of
     RBig b \<Rightarrow> Inr b
   | RNum n \<Rightarrow> if \<not> is_integer n then codec_err label ''expected an integer value'' else Inr (num_floor n)
   | _ \<Rightarrow> codec_err label ''expected number or bigint'')"

definition bigIntToSafeNumber :: "string \<Rightarrow> int \<Rightarrow> codec_error + jsnum" where
  "bigIntToSafeNumber label b =
     (if b < - 9007199254740991 \<or> b > 9007199254740991
      then codec_err label ''bigint overflows the safe-integer range when narrowing to number''
      else Inr (num_of_int b))"

section \<open>Codecs\<close>

record codec =
  codec_label :: string
  richToCanonical :: "rich \<Rightarrow> codec_error + rich"
  canonicalToRich :: "rich \<Rightarrow> codec_error + rich"
  rawToCanonical :: "rich \<Rightarrow> codec_error + rich"
  canonicalToRaw :: "rich \<Rightarrow> codec_error + rich"

text \<open>\<open>if (isNullish(value)) return null;\<close> before the rest.\<close>

definition nullable :: "(rich \<Rightarrow> codec_error + rich) \<Rightarrow> rich \<Rightarrow> codec_error + rich" where
  "nullable f v = (if isNullish v then Inr RNull else f v)"

definition same_codec :: "string \<Rightarrow> (rich \<Rightarrow> codec_error + rich) \<Rightarrow> codec" where
  "same_codec label f = \<lparr>codec_label = label, richToCanonical = f, canonicalToRich = f, rawToCanonical = f, canonicalToRaw = f\<rparr>"

definition identity_codec :: "string \<Rightarrow> (rich \<Rightarrow> codec_error + unit) \<Rightarrow> codec" where
  "identity_codec label check = same_codec label (nullable (\<lambda>v. rbind (check v) (\<lambda>_. Inr v)))"

definition no_check :: "rich \<Rightarrow> codec_error + unit" where
  "no_check v = Inr ()"

subsection \<open>Dates\<close>

definition MS_PER_DAY :: jsnum where "MS_PER_DAY = Fin 86400000"

text \<open>\<open>new Date(ms).getTime()\<close>: an integral number of milliseconds in range, or \<open>NaN\<close>.\<close>

definition new_date :: "jsnum \<Rightarrow> jsnum" where
  "new_date ms = (case ms of NaN \<Rightarrow> NaN | Inf _ \<Rightarrow> NaN
     | _ \<Rightarrow> if \<bar>num_value ms\<bar> \<le> 8640000000000000 then Fin (of_int (rat_trunc (num_value ms))) else NaN)"

definition math_floor :: "jsnum \<Rightarrow> jsnum" where
  "math_floor x = (case x of Fin r \<Rightarrow> Fin (of_int \<lfloor>r\<rfloor>) | _ \<Rightarrow> x)"

definition day_number :: "string \<Rightarrow> string \<Rightarrow> jsnum \<Rightarrow> codec_error + jsnum" where
  "day_number label msg n = (if is_integer n then Inr n else codec_err label msg)"

definition date32_label :: string where "date32_label = ''date32''"

definition dateDay_richToCanonical :: "rich \<Rightarrow> codec_error + rich" where
  "dateDay_richToCanonical v = (case v of
     RDate ms \<Rightarrow> if ms = NaN then codec_err date32_label ''invalid Date''
       else if \<not> num_eq (num_mod ms MS_PER_DAY) (Fin 0) then Inr (RNum (math_floor (num_div ms MS_PER_DAY)))
       else Inr (RNum (num_div ms MS_PER_DAY))
   | RNum n \<Rightarrow> rbind (day_number date32_label ''day-number must be an integer'' n) (\<lambda>n. Inr (RNum n))
   | RBig b \<Rightarrow> rbind (bigIntToSafeNumber date32_label b) (\<lambda>n. Inr (RNum n))
   | _ \<Rightarrow> codec_err date32_label ''expected Date, number (days), or bigint'')"

definition day_date :: "jsnum \<Rightarrow> codec_error + rich" where
  "day_date days = (let d = new_date (num_mul days MS_PER_DAY) in
     if d = NaN then codec_err date32_label ''day-number produces an invalid Date'' else Inr (RDate d))"

definition dateDay_canonicalToRich :: "rich \<Rightarrow> codec_error + rich" where
  "dateDay_canonicalToRich v = (case v of
     RNum n \<Rightarrow> rbind (day_number date32_label ''canonical day-number must be an integer'' n) day_date
   | RBig b \<Rightarrow> rbind (bigIntToSafeNumber date32_label b) day_date
   | RDate _ \<Rightarrow> Inr v
   | _ \<Rightarrow> codec_err date32_label ''expected number (days) canonical'')"

definition dateDay_rawToCanonical :: "rich \<Rightarrow> codec_error + rich" where
  "dateDay_rawToCanonical v = (case v of
     RNum n \<Rightarrow> rbind (day_number date32_label ''raw day-number must be an integer'' n) (\<lambda>n. Inr (RNum n))
   | RBig b \<Rightarrow> rbind (bigIntToSafeNumber date32_label b) (\<lambda>n. Inr (RNum n))
   | _ \<Rightarrow> codec_err date32_label ''expected branded Date32 (day-number)'')"

definition dateDay_canonicalToRaw :: "rich \<Rightarrow> codec_error + rich" where
  "dateDay_canonicalToRaw v = (case v of
     RNum n \<Rightarrow> rbind (day_number date32_label ''canonical day-number must be an integer'' n) (\<lambda>n. Inr (RNum n))
   | RBig b \<Rightarrow> rbind (bigIntToSafeNumber date32_label b) (\<lambda>n. Inr (RNum n))
   | RDate ms \<Rightarrow> if ms = NaN then codec_err date32_label ''invalid Date'' else Inr (RNum (math_floor (num_div ms MS_PER_DAY)))
   | _ \<Rightarrow> codec_err date32_label ''expected number (days) canonical'')"

definition dateDayCodec :: codec where
  "dateDayCodec = \<lparr>codec_label = date32_label, richToCanonical = nullable dateDay_richToCanonical,
     canonicalToRich = nullable dateDay_canonicalToRich, rawToCanonical = nullable dateDay_rawToCanonical,
     canonicalToRaw = nullable dateDay_canonicalToRaw\<rparr>"

definition date64_label :: string where "date64_label = ''date64''"

definition dateMillis_richToCanonical :: "rich \<Rightarrow> codec_error + rich" where
  "dateMillis_richToCanonical v = (case v of
     RDate ms \<Rightarrow> if ms = NaN then codec_err date64_label ''invalid Date'' else Inr (RBig (num_floor ms))
   | RBig b \<Rightarrow> Inr (RBig b)
   | RNum n \<Rightarrow> if is_integer n then Inr (RBig (num_floor n)) else codec_err date64_label ''ms value must be an integer''
   | _ \<Rightarrow> codec_err date64_label ''expected Date, bigint (ms), or number'')"

definition dateMillis_canonicalToRich :: "rich \<Rightarrow> codec_error + rich" where
  "dateMillis_canonicalToRich v = (case v of
     RDate _ \<Rightarrow> Inr v
   | _ \<Rightarrow> rbind (toBigIntStrict date64_label v) (\<lambda>ms. rbind (bigIntToSafeNumber date64_label ms) (\<lambda>n.
       let d = new_date n in
         if d = NaN then codec_err date64_label ''ms value produces an invalid Date'' else Inr (RDate d))))"

definition dateMillis_rawToCanonical :: "rich \<Rightarrow> codec_error + rich" where
  "dateMillis_rawToCanonical v = (case v of
     RDate _ \<Rightarrow> codec_err date64_label ''raw Date64Ms must be a bigint (ms), not a Date''
   | _ \<Rightarrow> rbind (toBigIntStrict date64_label v) (\<lambda>ms. Inr (RBig ms)))"

definition dateMillis_canonicalToRaw :: "rich \<Rightarrow> codec_error + rich" where
  "dateMillis_canonicalToRaw v = (case v of
     RDate ms \<Rightarrow> if ms = NaN then Inl CodecRangeError else Inr (RBig (num_floor ms))
   | _ \<Rightarrow> rbind (toBigIntStrict date64_label v) (\<lambda>ms. Inr (RBig ms)))"

definition dateMillisCodec :: codec where
  "dateMillisCodec = \<lparr>codec_label = date64_label, richToCanonical = nullable dateMillis_richToCanonical,
     canonicalToRich = nullable dateMillis_canonicalToRich, rawToCanonical = nullable dateMillis_rawToCanonical,
     canonicalToRaw = nullable dateMillis_canonicalToRaw\<rparr>"

subsection \<open>Times, timestamps, durations, decimals\<close>

definition time32_toCanon :: "rich \<Rightarrow> codec_error + rich" where
  "time32_toCanon v = (case v of
     RNum n \<Rightarrow> if is_integer n then Inr v else codec_err ''time32'' ''time32 value must be an integer''
   | RBig b \<Rightarrow> rbind (bigIntToSafeNumber ''time32'' b) (\<lambda>n. Inr (RNum n))
   | _ \<Rightarrow> codec_err ''time32'' ''expected number (raw time unit)'')"

definition time32_fromCanon :: "rich \<Rightarrow> codec_error + rich" where
  "time32_fromCanon v = (case v of
     RNum n \<Rightarrow> Inr v
   | RBig b \<Rightarrow> rbind (bigIntToSafeNumber ''time32'' b) (\<lambda>n. Inr (RNum n))
   | _ \<Rightarrow> codec_err ''time32'' ''expected number canonical'')"

definition time32Codec :: codec where
  "time32Codec = \<lparr>codec_label = ''time32'', richToCanonical = nullable time32_toCanon, canonicalToRich = nullable time32_fromCanon,
     rawToCanonical = nullable time32_toCanon, canonicalToRaw = nullable time32_fromCanon\<rparr>"

definition bigIntUnitCodec :: "string \<Rightarrow> codec" where
  "bigIntUnitCodec label = same_codec label (nullable (\<lambda>v. rbind (toBigIntStrict label v) (\<lambda>b. Inr (RBig b))))"

definition decimalViewToBigInt :: "bytes \<Rightarrow> int" where
  "decimalViewToBigInt u8 =
     (let bi = foldl (\<lambda>bi b. push_bit 8 bi OR int (unat b)) 0 (rev u8) in
      if 0 < length u8 \<and> last u8 AND 0x80 \<noteq> 0 then bi - 2 ^ (length u8 * 8) else bi)"

definition decimal_toCanon :: "rich \<Rightarrow> codec_error + rich" where
  "decimal_toCanon v = (case v of
     RBig b \<Rightarrow> Inr v
   | RNum _ \<Rightarrow> rbind (toBigIntStrict ''decimal'' v) (\<lambda>b. Inr (RBig b))
   | RBytes bs \<Rightarrow> Inr (RBig (decimalViewToBigInt bs))
   | RView bs _ \<Rightarrow> Inr (RBig (decimalViewToBigInt bs))
   | _ \<Rightarrow> codec_err ''decimal'' ''expected bigint, number, or decimal byte view'')"

definition decimalCodec :: codec where
  "decimalCodec = same_codec ''decimal'' (nullable decimal_toCanon)"

subsection \<open>Composites\<close>

text \<open>\<open>conv\<close> is the method the four bodies differ by.\<close>

definition struct_conv :: "(codec \<Rightarrow> rich \<Rightarrow> codec_error + rich) \<Rightarrow> (string \<times> codec) list \<Rightarrow> rich \<Rightarrow> codec_error + rich" where
  "struct_conv conv childCodecs v =
     (if \<not> typeof_object v then codec_err ''struct'' ''expected an object''
      else rbind (mapR (\<lambda>(name, c). rbind (conv c (or_null (rich_member v name))) (\<lambda>w. Inr (name, w))) childCodecs)
        (\<lambda>out. Inr (RObj (jm_of out))))"

definition structCodec :: "(string \<times> codec) list \<Rightarrow> codec" where
  "structCodec childCodecs = \<lparr>codec_label = ''struct'',
     richToCanonical = nullable (struct_conv richToCanonical childCodecs),
     canonicalToRich = nullable (struct_conv canonicalToRich childCodecs),
     rawToCanonical = nullable (struct_conv rawToCanonical childCodecs),
     canonicalToRaw = nullable (struct_conv canonicalToRaw childCodecs)\<rparr>"

definition toArray :: "rich \<Rightarrow> codec_error + rich list" where
  "toArray v = (case iter_elems v of Some vs \<Rightarrow> Inr vs | None \<Rightarrow> codec_err ''list'' ''expected an array or iterable'')"

definition list_conv :: "(rich \<Rightarrow> codec_error + rich) \<Rightarrow> rich \<Rightarrow> codec_error + rich" where
  "list_conv child v = rbind (toArray v) (\<lambda>vs. rbind (mapR child vs) (\<lambda>ws. Inr (RArr ws)))"

definition listCodec :: "codec \<Rightarrow> codec" where
  "listCodec child = \<lparr>codec_label = ''list'',
     richToCanonical = nullable (list_conv (richToCanonical child)), canonicalToRich = nullable (list_conv (canonicalToRich child)),
     rawToCanonical = nullable (list_conv (rawToCanonical child)), canonicalToRaw = nullable (list_conv (canonicalToRaw child))\<rparr>"

definition toPairs :: "rich \<Rightarrow> codec_error + rich list" where
  "toPairs v = (case iter_elems v of
     Some ps \<Rightarrow> Inr ps
   | None \<Rightarrow> if typeof_object v then Inr (map (\<lambda>(k, w). RArr [RStr k, w]) (rich_entries v))
       else codec_err ''map'' ''expected Map, array of pairs, or object'')"

text \<open>\<open>([k, v])\<close>: the first two elements of what iterates.\<close>

definition pair_of :: "rich \<Rightarrow> codec_error + (rich \<times> rich)" where
  "pair_of p = (case iter_elems p of
     None \<Rightarrow> Inl CodecTypeError
   | Some es \<Rightarrow> Inr (case es of [] \<Rightarrow> (RUndef, RUndef) | [k] \<Rightarrow> (k, RUndef) | k # w # _ \<Rightarrow> (k, w)))"

definition map_conv :: "(rich \<Rightarrow> codec_error + rich) \<Rightarrow> (rich \<Rightarrow> codec_error + rich) \<Rightarrow> rich \<Rightarrow> codec_error + rich" where
  "map_conv key val v = rbind (toPairs v) (\<lambda>ps.
     rbind (mapR (\<lambda>p. rbind (pair_of p) (\<lambda>(k, w). rbind (key k) (\<lambda>k. rbind (val w) (\<lambda>w. Inr (RArr [k, w]))))) ps)
       (\<lambda>ws. Inr (RArr ws)))"

definition mapCodec :: "codec \<Rightarrow> codec \<Rightarrow> codec" where
  "mapCodec keyCodec valueCodec = \<lparr>codec_label = ''map'',
     richToCanonical = nullable (map_conv (richToCanonical keyCodec) (richToCanonical valueCodec)),
     canonicalToRich = nullable (map_conv (canonicalToRich keyCodec) (canonicalToRich valueCodec)),
     rawToCanonical = nullable (map_conv (rawToCanonical keyCodec) (rawToCanonical valueCodec)),
     canonicalToRaw = nullable (map_conv (canonicalToRaw keyCodec) (canonicalToRaw valueCodec))\<rparr>"

definition dictionaryCodec :: "codec \<Rightarrow> codec" where
  "dictionaryCodec inner = \<lparr>codec_label = ''dictionary<'' @ codec_label inner @ ''>'',
     richToCanonical = richToCanonical inner, canonicalToRich = canonicalToRich inner,
     rawToCanonical = rawToCanonical inner, canonicalToRaw = canonicalToRaw inner\<rparr>"

subsection \<open>Strings, bytes, null\<close>

text \<open>\<open>String(value)\<close> of a value that is not a string is a parameter.\<close>

definition utf8_toCanon :: "(rich \<Rightarrow> string) \<Rightarrow> rich \<Rightarrow> codec_error + rich" where
  "utf8_toCanon js_string v = (case v of RStr _ \<Rightarrow> Inr v | _ \<Rightarrow> Inr (RStr (js_string v)))"

definition utf8_fromCanon :: "rich \<Rightarrow> codec_error + rich" where
  "utf8_fromCanon v = rbind (checkString ''utf8'' v) (\<lambda>_. Inr v)"

definition UTF8_CODEC :: "(rich \<Rightarrow> string) \<Rightarrow> codec" where
  "UTF8_CODEC js_string = \<lparr>codec_label = ''utf8'', richToCanonical = nullable (utf8_toCanon js_string),
     canonicalToRich = nullable utf8_fromCanon, rawToCanonical = nullable (utf8_toCanon js_string),
     canonicalToRaw = nullable utf8_fromCanon\<rparr>"

definition toCanonBytes :: "string \<Rightarrow> nat option \<Rightarrow> rich \<Rightarrow> codec_error + rich" where
  "toCanonBytes label fixedWidth v =
     rbind (case v of RBytes bs \<Rightarrow> Inr bs | RView bs _ \<Rightarrow> Inr bs | _ \<Rightarrow> codec_err label ''expected Uint8Array'') (\<lambda>u8.
     if (case fixedWidth of None \<Rightarrow> False | Some w \<Rightarrow> length u8 \<noteq> w) then codec_err label ''expected exactly bytes''
     else Inr (RBytes u8))"

definition bytesCodec :: "string \<Rightarrow> nat option \<Rightarrow> codec" where
  "bytesCodec label fixedWidth = same_codec label (nullable (toCanonBytes label fixedWidth))"

definition NULL_CODEC :: codec where
  "NULL_CODEC = same_codec ''null'' (\<lambda>_. Inr RNull)"

definition FLOAT_CODEC :: codec where "FLOAT_CODEC = identity_codec ''float'' (checkFloat ''float'')"
definition BOOL_CODEC :: codec where "BOOL_CODEC = identity_codec ''bool'' (checkBoolean ''bool'')"

definition int_codec :: "nat \<Rightarrow> bool \<Rightarrow> codec" where
  "int_codec bw sg =
     (if bw = 64 then (if sg then identity_codec ''int64'' (checkBigInt ''int64'' 64 True)
        else identity_codec ''uint64'' (checkBigInt ''uint64'' 64 False))
      else if sg then
        (if bw = 8 then identity_codec ''int8'' (checkIntNumber ''int8'' (- 128) 127)
         else if bw = 16 then identity_codec ''int16'' (checkIntNumber ''int16'' (- 32768) 32767)
         else identity_codec ''int32'' (checkIntNumber ''int32'' (- 2147483648) 2147483647))
      else if bw = 8 then identity_codec ''uint8'' (checkIntNumber ''uint8'' 0 255)
      else if bw = 16 then identity_codec ''uint16'' (checkIntNumber ''uint16'' 0 65535)
      else identity_codec ''uint32'' (checkIntNumber ''uint32'' 0 4294967295))"

section \<open>The resolver\<close>

text \<open>A \<open>Time\<close> type has 64 bits when its unit is finer than the millisecond, as \<open>time()\<close> builds it.\<close>

definition time_width :: "nat \<Rightarrow> nat" where
  "time_width unit = (if unit \<le> 1 then 32 else 64)"

fun codecFor :: "(rich \<Rightarrow> string) \<Rightarrow> arrow_type \<Rightarrow> codec_error + codec"
  and fieldCodec :: "(rich \<Rightarrow> string) \<Rightarrow> arrow_field \<Rightarrow> codec_error + (string \<times> codec)"
  and fieldCodecs :: "(rich \<Rightarrow> string) \<Rightarrow> arrow_field list \<Rightarrow> codec_error + (string \<times> codec) list"
  and entryCodecs :: "(rich \<Rightarrow> string) \<Rightarrow> arrow_field \<Rightarrow> codec_error + (string \<times> codec) list" where
  "codecFor js TNull = Inr NULL_CODEC"
| "codecFor js TBool = Inr BOOL_CODEC"
| "codecFor js (TInt bw sg) = Inr (int_codec bw sg)"
| "codecFor js (TFloat _) = Inr FLOAT_CODEC"
| "codecFor js TUtf8 = Inr (UTF8_CODEC js)"
| "codecFor js TLargeUtf8 = Inr (UTF8_CODEC js)"
| "codecFor js TBinary = Inr (bytesCodec ''binary'' None)"
| "codecFor js TLargeBinary = Inr (bytesCodec ''binary'' None)"
| "codecFor js (TFixedSizeBinary n) = Inr (bytesCodec ''fixedSizeBinary'' (Some n))"
| "codecFor js (TDecimal _ _ _) = Inr decimalCodec"
| "codecFor js (TDate unit) = Inr (if unit = 0 then dateDayCodec else dateMillisCodec)"
| "codecFor js (TTime unit) = Inr (if time_width unit = 64 then bigIntUnitCodec ''time64'' else time32Codec)"
| "codecFor js (TTimestamp _ _) = Inr (bigIntUnitCodec ''timestamp'')"
| "codecFor js (TDuration _) = Inr (bigIntUnitCodec ''duration'')"
| "codecFor js (TStruct fs) = rbind (fieldCodecs js fs) (\<lambda>cs. Inr (structCodec cs))"
| "codecFor js (TUnion _ _) = Inr (identity_codec ''union'' no_check)"
| "codecFor js (TList f) = rbind (fieldCodec js f) (\<lambda>c. Inr (listCodec (snd c)))"
| "codecFor js (TFixedSizeList _ f) = rbind (fieldCodec js f) (\<lambda>c. Inr (listCodec (snd c)))"
| "codecFor js (TMap f) = rbind (entryCodecs js f) (\<lambda>cs. case cs of
     k # v # _ \<Rightarrow> Inr (mapCodec (snd k) (snd v))
   | _ \<Rightarrow> Inl (BadType ''codec[map]: map type has no key/value entry fields''))"
| "codecFor js (TDictionary d _ _) = rbind (codecFor js d) (\<lambda>c. Inr (dictionaryCodec c))"
| "codecFor js (TInterval _) = Inr (identity_codec ''interval'' no_check)"
| "fieldCodec js (Field n t _ _ _) = rbind (codecFor js t) (\<lambda>c. Inr (n, c))"
| "fieldCodecs js [] = Inr []"
| "fieldCodecs js (f # fs) = rbind (fieldCodec js f) (\<lambda>c. rbind (fieldCodecs js fs) (\<lambda>cs. Inr (c # cs)))"
| "entryCodecs js (Field _ (TStruct (k # v # _)) _ _ _) =
     rbind (fieldCodec js k) (\<lambda>k. rbind (fieldCodec js v) (\<lambda>v. Inr [k, v]))"
| "entryCodecs js (Field _ _ _ _ _) = Inr []"

end
