(* ===== verification/CodecLaws.thy ===== *)
theory CodecLaws
  imports ArrowCodec
begin

text \<open>
  What the codecs of \<open>ArrowCodec\<close> promise: the canonical values of a type, as the table at the head
  of \<open>src/arrow/codec/registry.ts\<close> lists them, and the lossless passage from canonical to rich or
  raw and back.
\<close>

section \<open>Canonical values\<close>

text \<open>
  With \<open>strict\<close>, the representation the table promises; without it, the one the codecs let through:
  an integral number or a bigint wherever an integer goes, and a bigint in a float slot.
\<close>

definition in_range :: "int \<Rightarrow> int \<Rightarrow> int \<Rightarrow> bool" where
  "in_range lo hi i \<longleftrightarrow> lo \<le> i \<and> i \<le> hi"

definition integral :: "bool \<Rightarrow> jsnum \<Rightarrow> bool" where
  "integral strict n \<longleftrightarrow> is_integer n \<and> (strict \<longrightarrow> n \<noteq> NegZero)"

definition int_lo :: "nat \<Rightarrow> bool \<Rightarrow> int" where
  "int_lo bw sg = (if bw = 64 then big_min 64 sg else if \<not> sg then 0 else if bw = 8 then - 128 else if bw = 16 then - 32768 else - 2147483648)"

definition int_hi :: "nat \<Rightarrow> bool \<Rightarrow> int" where
  "int_hi bw sg = (if bw = 64 then big_max 64 sg
     else if sg then (if bw = 8 then 127 else if bw = 16 then 32767 else 2147483647)
     else if bw = 8 then 255 else if bw = 16 then 65535 else 4294967295)"

definition canonical_int :: "bool \<Rightarrow> nat \<Rightarrow> bool \<Rightarrow> rich \<Rightarrow> bool" where
  "canonical_int strict bw sg v = (case v of
     RNum n \<Rightarrow> (strict \<longrightarrow> bw \<noteq> 64) \<and> integral strict n \<and> in_range (int_lo bw sg) (int_hi bw sg) (num_floor n)
   | RBig b \<Rightarrow> (strict \<longrightarrow> bw = 64) \<and> in_range (int_lo bw sg) (int_hi bw sg) b
   | _ \<Rightarrow> False)"

definition canonical_number :: "bool \<Rightarrow> int \<Rightarrow> rich \<Rightarrow> bool" where
  "canonical_number strict bound v = (case v of
     RNum n \<Rightarrow> integral strict n \<and> (strict \<longrightarrow> in_range (- bound) bound (num_floor n)) | _ \<Rightarrow> False)"

definition canonical_big :: "rich \<Rightarrow> bool" where
  "canonical_big v = (case v of RBig _ \<Rightarrow> True | _ \<Rightarrow> False)"

definition MAX_DAYS :: int where "MAX_DAYS = 100000000"
definition MAX_MS :: int where "MAX_MS = 8640000000000000"
definition MAX_UNITS :: int where "MAX_UNITS = 9007199254740991"

fun canonical_value :: "bool \<Rightarrow> arrow_type \<Rightarrow> rich \<Rightarrow> bool"
  and canonical_field :: "bool \<Rightarrow> arrow_field \<Rightarrow> rich \<Rightarrow> bool"
  and canonical_fields :: "bool \<Rightarrow> arrow_field list \<Rightarrow> (string \<times> rich) list \<Rightarrow> bool"
  and canonical_pair :: "bool \<Rightarrow> arrow_field \<Rightarrow> rich \<Rightarrow> bool" where
  "canonical_value s TNull v = (v = RNull)"
| "canonical_value s TBool v = (case v of RNull \<Rightarrow> True | RBool _ \<Rightarrow> True | _ \<Rightarrow> False)"
| "canonical_value s (TInt bw sg) v = (v = RNull \<or> canonical_int s bw sg v)"
| "canonical_value s (TFloat _) v = (case v of RNull \<Rightarrow> True | RNum _ \<Rightarrow> True | RBig _ \<Rightarrow> \<not> s | _ \<Rightarrow> False)"
| "canonical_value s TUtf8 v = (case v of RNull \<Rightarrow> True | RStr _ \<Rightarrow> True | _ \<Rightarrow> False)"
| "canonical_value s TLargeUtf8 v = (case v of RNull \<Rightarrow> True | RStr _ \<Rightarrow> True | _ \<Rightarrow> False)"
| "canonical_value s TBinary v = (case v of RNull \<Rightarrow> True | RBytes _ \<Rightarrow> True | _ \<Rightarrow> False)"
| "canonical_value s TLargeBinary v = (case v of RNull \<Rightarrow> True | RBytes _ \<Rightarrow> True | _ \<Rightarrow> False)"
| "canonical_value s (TFixedSizeBinary n) v = (case v of RNull \<Rightarrow> True | RBytes bs \<Rightarrow> length bs = n | _ \<Rightarrow> False)"
| "canonical_value s (TDecimal _ _ _) v = (v = RNull \<or> canonical_big v)"
| "canonical_value s (TDate unit) v = (v = RNull \<or> (if unit = 0 then canonical_number s MAX_DAYS v
     else canonical_big v \<and> (s \<longrightarrow> (case v of RBig b \<Rightarrow> in_range (- MAX_MS) MAX_MS b | _ \<Rightarrow> False))))"
| "canonical_value s (TTime unit) v = (v = RNull \<or> (if time_width unit = 64 then canonical_big v else canonical_number s MAX_UNITS v))"
| "canonical_value s (TTimestamp _ _) v = (v = RNull \<or> canonical_big v)"
| "canonical_value s (TDuration _) v = (v = RNull \<or> canonical_big v)"
| "canonical_value s (TStruct fs) v = (case v of RNull \<Rightarrow> True | RObj es \<Rightarrow> canonical_fields s fs es | _ \<Rightarrow> False)"
| "canonical_value s (TUnion _ _) v = (v \<noteq> RUndef)"
| "canonical_value s (TList f) v = (case v of RNull \<Rightarrow> True | RArr vs \<Rightarrow> list_all (canonical_field s f) vs | _ \<Rightarrow> False)"
| "canonical_value s (TFixedSizeList _ f) v = (case v of RNull \<Rightarrow> True | RArr vs \<Rightarrow> list_all (canonical_field s f) vs | _ \<Rightarrow> False)"
| "canonical_value s (TMap f) v = (case v of RNull \<Rightarrow> True | RArr vs \<Rightarrow> list_all (canonical_pair s f) vs | _ \<Rightarrow> False)"
| "canonical_value s (TDictionary d _ _) v = canonical_value s d v"
| "canonical_value s (TInterval _) v = (v \<noteq> RUndef)"
| "canonical_field s (Field _ t _ _ _) v = canonical_value s t v"
| "canonical_fields s [] es = (es = [])"
| "canonical_fields s (f # fs) es = (case es of [] \<Rightarrow> False
     | e # es \<Rightarrow> fst e = f_name f \<and> canonical_field s f (snd e) \<and> canonical_fields s fs es)"
| "canonical_pair s (Field _ (TStruct (k # w # _)) _ _ _) p =
     (case p of RArr [a, b] \<Rightarrow> canonical_field s k a \<and> canonical_field s w b | _ \<Rightarrow> False)"
| "canonical_pair s (Field _ _ _ _ _) p = False"

text \<open>Structs whose field names are distinct, hereditarily.\<close>

fun names_ok :: "arrow_type \<Rightarrow> bool"
  and field_ok :: "arrow_field \<Rightarrow> bool" where
  "names_ok (TStruct fs) = (distinct (map f_name fs) \<and> list_all field_ok fs)"
| "names_ok (TList f) = field_ok f"
| "names_ok (TFixedSizeList _ f) = field_ok f"
| "names_ok (TMap f) = field_ok f"
| "names_ok (TDictionary d _ _) = names_ok d"
| "names_ok _ = True"
| "field_ok (Field _ t _ _ _) = names_ok t"

section \<open>The rich form of a canonical value\<close>

fun rich_of :: "arrow_type \<Rightarrow> rich \<Rightarrow> rich"
  and rich_field :: "arrow_field \<Rightarrow> rich \<Rightarrow> rich"
  and rich_fields :: "arrow_field list \<Rightarrow> (string \<times> rich) list \<Rightarrow> (string \<times> rich) list"
  and rich_pair :: "arrow_field \<Rightarrow> rich \<Rightarrow> rich" where
  "rich_of (TDate unit) v = (case v of
     RNum d \<Rightarrow> RDate (Fin (of_int (num_floor d * 86400000)))
   | RBig ms \<Rightarrow> RDate (Fin (of_int ms))
   | _ \<Rightarrow> v)"
| "rich_of (TStruct fs) v = (case v of RObj es \<Rightarrow> RObj (rich_fields fs es) | _ \<Rightarrow> v)"
| "rich_of (TList f) v = (case v of RArr vs \<Rightarrow> RArr (map (rich_field f) vs) | _ \<Rightarrow> v)"
| "rich_of (TFixedSizeList _ f) v = (case v of RArr vs \<Rightarrow> RArr (map (rich_field f) vs) | _ \<Rightarrow> v)"
| "rich_of (TMap f) v = (case v of RArr vs \<Rightarrow> RArr (map (rich_pair f) vs) | _ \<Rightarrow> v)"
| "rich_of (TDictionary d _ _) v = rich_of d v"
| "rich_of _ v = v"
| "rich_field (Field _ t _ _ _) v = rich_of t v"
| "rich_fields (f # fs) (e # es) = (fst e, rich_field f (snd e)) # rich_fields fs es"
| "rich_fields _ es = es"
| "rich_pair (Field _ (TStruct (k # w # _)) _ _ _) p = (case p of RArr [a, b] \<Rightarrow> RArr [rich_field k a, rich_field w b] | _ \<Rightarrow> p)"
| "rich_pair (Field _ _ _ _ _) p = p"

section \<open>The contract of a codec\<close>

text \<open>
  On the values \<open>good\<close> accepts, a codec leaves canonical form for \<open>form\<close> and comes back, and is the
  identity on raw values.
\<close>

locale lossless_codec =
  fixes c :: codec
    and good :: "rich \<Rightarrow> bool"
    and form :: "rich \<Rightarrow> rich"
  assumes to_rich: "good v \<Longrightarrow> canonicalToRich c v = Inr (form v)"
    and from_rich: "good v \<Longrightarrow> richToCanonical c (form v) = Inr v"
    and to_raw: "good v \<Longrightarrow> canonicalToRaw c v = Inr v"
    and from_raw: "good v \<Longrightarrow> rawToCanonical c v = Inr v"
    and no_undef: "good v \<Longrightarrow> v \<noteq> RUndef \<and> form v \<noteq> RUndef"
begin

lemma form_inj:
  assumes "good v" "good w" "form v = form w"
  shows "v = w"
proof -
  from from_rich [OF assms(1)] from_rich [OF assms(2)] have "Inr v = (Inr w :: codec_error + rich)"
    unfolding assms(3) by (rule trans [OF sym])
  then show ?thesis by simp
qed

lemma column_back: "list_all good vs \<Longrightarrow> mapR (canonicalToRich c) vs = Inr (map form vs) \<and> mapR (richToCanonical c) (map form vs) = Inr vs"
  by (induction vs) (simp_all add: to_rich from_rich)

lemma column_raw: "list_all good vs \<Longrightarrow> mapR (canonicalToRaw c) vs = Inr vs \<and> mapR (rawToCanonical c) vs = Inr vs"
  by (induction vs) (simp_all add: to_raw from_raw)

lemma or_null_form: "good v \<Longrightarrow> or_null v = v \<and> or_null (form v) = form v"
  using no_undef by (auto simp: or_null_def isNullish_def)

end

section \<open>Exact arithmetic on whole numbers\<close>

lemma bit_length_bounds: "0 < n \<Longrightarrow> 0 < bit_length n \<and> 2 ^ (bit_length n - 1) \<le> n \<and> n < 2 ^ bit_length n"
proof (induction n rule: bit_length.induct)
  case (1 n)
  show ?case
  proof (cases "n = 1")
    case True
    have "bit_length 1 = 1" by (subst bit_length.simps, simp, subst bit_length.simps, simp)
    with True show ?thesis by simp
  next
    case False
    with 1 have ih: "0 < bit_length (n div 2)" "2 ^ (bit_length (n div 2) - 1) \<le> n div 2" "n div 2 < 2 ^ bit_length (n div 2)" by auto
    have b: "bit_length n = Suc (bit_length (n div 2))" using 1(2) by (subst bit_length.simps) simp
    have "2 ^ bit_length (n div 2) = 2 * (2 :: nat) ^ (bit_length (n div 2) - 1)"
      using ih(1) by (metis Suc_diff_1 power_Suc)
    with ih have m: "2 ^ bit_length (n div 2) \<le> 2 * (n div 2)" "2 * (n div 2) < 2 * 2 ^ bit_length (n div 2)" by simp_all
    have "2 ^ bit_length (n div 2) \<le> n" using m(1) by linarith
    moreover have "n < 2 * 2 ^ bit_length (n div 2)" using ih(3) by linarith
    ultimately show ?thesis by (simp add: b)
  qed
qed

lemma pow2_ge1: "0 \<le> k \<Longrightarrow> 1 \<le> pow2 k"
  by (simp add: pow2_def)

lemma ilog2_int:
  assumes "0 < a"
  shows "0 \<le> ilog2 (of_int a)" "pow2 (ilog2 (of_int a)) \<le> of_int a" "of_int a < pow2 (ilog2 (of_int a) + 1)"
proof -
  define b where "b = bit_length (nat a)"
  have b: "0 < b" "2 ^ (b - 1) \<le> nat a" "nat a < 2 ^ b"
    using bit_length_bounds [of "nat a"] assms by (auto simp: b_def)
  have one: "bit_length 1 = 1" by (subst bit_length.simps, simp, subst bit_length.simps, simp)
  have lt: "(of_int a :: rat) < 2 ^ b"
  proof -
    have "a < 2 ^ b" using b(3) assms by (simp add: nat_less_iff)
    then have "(of_int a :: rat) < of_int (2 ^ b)" by (simp only: of_int_less_iff)
    then show ?thesis by simp
  qed
  have ge: "2 ^ (b - 1) \<le> (of_int a :: rat)"
  proof -
    have "2 ^ (b - 1) \<le> a" using b(2) assms by (simp add: le_nat_iff)
    then have "(of_int (2 ^ (b - 1)) :: rat) \<le> of_int a" by (simp only: of_int_le_iff)
    then show ?thesis by simp
  qed
  have "nat (int b - 1) = b - 1" "0 \<le> int b - 1" using b(1) by linarith+
  then have p: "pow2 (int b - 1) = 2 ^ (b - 1)" "pow2 (int b) = 2 ^ b" by (simp_all only: pow2_def if_True nat_int of_nat_0_le_iff)
  have il: "ilog2 (of_int a) = (if pow2 (int b - 1) \<le> of_int a then int b - 1 else int b - 2)"
    by (simp add: ilog2_def Let_def b_def one [simplified])
  have e: "ilog2 (of_int a) = int b - 1" unfolding il p(1) if_P [OF ge] by (rule refl)
  show "0 \<le> ilog2 (of_int a)" unfolding e using b(1) by linarith
  show "pow2 (ilog2 (of_int a)) \<le> of_int a" unfolding e p(1) by (rule ge)
  show "of_int a < pow2 (ilog2 (of_int a) + 1)" unfolding e diff_add_cancel p(2) by (rule lt)
qed

lemma round_half_even_int [simp]: "round_half_even (of_int i) = i"
  by (simp add: round_half_even_def Let_def)

lemma pow2_nonpos: "k \<le> 0 \<Longrightarrow> pow2 k = inverse (2 ^ nat (- k))"
proof (cases "0 \<le> k")
  case True
  assume "k \<le> 0"
  with True have "k = 0" by (rule order_antisym [rotated])
  then show ?thesis by (simp add: pow2_def)
next
  case False
  then show ?thesis unfolding pow2_def if_not_P [OF False] by (simp only: divide_inverse mult_1)
qed

lemma pow2_neg: "k \<le> 0 \<Longrightarrow> (of_int a :: rat) / pow2 k = of_int (a * 2 ^ nat (- k))"
  unfolding pow2_nonpos divide_inverse inverse_inverse_eq of_int_mult of_int_power of_int_numeral by (rule refl)

lemma round_double_int:
  assumes "i \<noteq> 0" "\<bar>i\<bar> < 2 ^ 53"
  shows "round_double s (of_int i) = Fin (of_int i)"
proof -
  define a where "a = \<bar>i\<bar>"
  define k where "k = ilog2 (of_int a)"
  have a: "0 < a" "a < 2 ^ 53" using assms by (simp_all add: a_def)
  have k: "0 \<le> k" "pow2 k \<le> of_int a" using ilog2_int [OF a(1)] by (simp_all add: k_def)
  have "k < 53"
  proof (rule ccontr)
    assume "\<not> k < 53"
    then have "(2 :: rat) ^ 53 \<le> 2 ^ nat k" by (intro power_increasing) auto
    then have "(2 :: rat) ^ 53 \<le> pow2 k" using k(1) by (simp add: pow2_def)
    moreover have "(of_int a :: rat) < of_int (2 ^ 53)" using a(2) by (simp only: of_int_less_iff)
    ultimately show False using k(2) by simp
  qed
  define q where "q = max k (- 1022) - 52"
  have q: "q \<le> 0" using \<open>k < 53\<close> k(1) by (simp add: q_def)
  have "round_half_even (of_int a / pow2 q) = a * 2 ^ nat (- q)" unfolding pow2_neg [OF q] by (rule round_half_even_int)
  moreover have "(of_int (a * 2 ^ nat (- q)) :: rat) * pow2 q = of_int a"
  proof -
    have "pow2 q \<noteq> 0" by (simp add: pow2_def)
    then show ?thesis unfolding pow2_neg [OF q, symmetric] by simp
  qed
  ultimately have r: "of_int (round_half_even (of_int a / pow2 q)) * pow2 q = of_int a" by simp
  have "\<not> pow2 1024 \<le> (of_int a :: rat)"
  proof
    assume "pow2 1024 \<le> (of_int a :: rat)"
    moreover have "(2 :: rat) ^ 53 \<le> pow2 1024" unfolding pow2_def by (simp only: if_True zero_le_numeral nat_numeral, rule power_increasing) simp_all
    moreover have "(of_int a :: rat) < of_int (2 ^ 53)" using a(2) by (simp only: of_int_less_iff)
    ultimately show False by simp
  qed
  moreover have "\<bar>of_int i :: rat\<bar> = of_int a" by (simp add: a_def)
  ultimately have "round_double s (of_int i) = Fin (if (of_int i :: rat) < 0 then - of_int a else of_int a)"
    using assms(1) a(1) unfolding round_double_def
    by (simp add: Let_def k_def [symmetric] q_def [symmetric] r)
  then show ?thesis by (auto simp: a_def)
qed

lemma num_mul_int:
  assumes "0 < j" "\<bar>i * j\<bar> < 2 ^ 53"
  shows "num_mul (Fin (of_int i)) (Fin (of_int j)) = Fin (of_int (i * j))"
proof (cases "i = 0")
  case True
  then show ?thesis using assms(1) by (simp add: num_mul_def round_double_def)
next
  case False
  then have nz: "i * j \<noteq> 0" using assms(1) by simp
  show ?thesis using round_double_int [OF nz assms(2), of "(i < 0) \<noteq> (j < 0)"] by (simp add: num_mul_def)
qed

lemma num_div_mult:
  assumes "0 < j" "\<bar>i\<bar> < 2 ^ 53"
  shows "num_div (Fin (of_int (i * j))) (Fin (of_int j)) = Fin (of_int i)"
proof (cases "i = 0")
  case True
  then show ?thesis using assms(1) by (simp add: num_div_def num_zero_def round_double_def)
next
  case False
  have "(of_int j :: rat) \<noteq> 0" "(of_int (i * j) :: rat) / of_int j = of_int i" using assms(1) by simp_all
  then show ?thesis using assms(1) by (simp add: num_div_def num_zero_def round_double_int [OF False assms(2)])
qed

lemma num_mod_mult: "0 < j \<Longrightarrow> num_eq (num_mod (Fin (of_int (i * j))) (Fin (of_int j))) (Fin 0)"
proof -
  assume "0 < j"
  then have "(of_int j :: rat) \<noteq> 0" "rat_trunc (of_int (i * j) / of_int j) = i"
    by (simp_all add: rat_trunc_def)
  then show ?thesis by (simp add: num_mod_def num_zero_def num_eq_def Let_def)
qed

section \<open>The codecs of single types\<close>

lemma same_codec_lossless:
  assumes "\<And>v. good v \<Longrightarrow> f v = Inr v" "\<And>v. good v \<Longrightarrow> v \<noteq> RUndef"
  shows "lossless_codec (same_codec label f) good (\<lambda>v. v)"
  by unfold_locales (simp_all add: same_codec_def assms)

lemma identity_lossless:
  assumes "\<And>v. good v \<Longrightarrow> v = RNull \<or> check v = Inr ()" "\<And>v. good v \<Longrightarrow> v \<noteq> RUndef"
  shows "lossless_codec (identity_codec label check) good (\<lambda>v. v)"
  unfolding identity_codec_def
proof (rule same_codec_lossless)
  fix v assume g: "good v"
  then show "nullable (\<lambda>v. rbind (check v) (\<lambda>_. Inr v)) v = Inr v"
    using assms(1) [OF g] by (auto simp: nullable_def isNullish_def assms(2) [OF g])
qed (rule assms(2))

lemma integralD: "integral True n \<Longrightarrow> n = Fin (of_int (num_floor n))"
  by (cases n) (auto simp: integral_def is_integer_def num_floor_def)

lemma num_lt_int: "num_lt (Fin (of_int i)) (num_of_int j) = (i < j)" if "\<bar>j\<bar> \<le> 2 ^ 53" for i j
  using that by (simp add: num_of_int_def num_lt_def)

lemma num_lt_int': "num_lt (num_of_int j) (Fin (of_int i)) = (j < i)" if "\<bar>j\<bar> \<le> 2 ^ 53" for i j
  using that by (simp add: num_of_int_def num_lt_def)

lemma checkIntNumber_ok:
  assumes "integral True n" "lo \<le> num_floor n" "num_floor n \<le> hi" "\<bar>lo\<bar> \<le> 2 ^ 53" "\<bar>hi\<bar> \<le> 2 ^ 53"
  shows "checkIntNumber label lo hi (RNum n) = Inr ()"
proof -
  obtain i where n: "n = Fin (of_int i)" using integralD [OF assms(1)] by metis
  then have "lo \<le> i" "i \<le> hi" using assms(2,3) by (simp_all add: num_floor_def)
  then show ?thesis using assms(4,5) by (simp add: checkIntNumber_def n is_integer_def num_lt_int num_lt_int')
qed

lemma int_codec_lossless: "lossless_codec (int_codec bw sg) (canonical_value True (TInt bw sg)) (\<lambda>v. v)"
proof -
  have u: "canonical_value True (TInt bw sg) v \<Longrightarrow> v \<noteq> RUndef" for v by (auto simp: canonical_int_def)
  show ?thesis
  proof (cases "bw = 64")
    case True
    show ?thesis unfolding int_codec_def if_P [OF True]
      by (cases sg; simp only: if_True if_False; rule identity_lossless)
        (auto simp: True canonical_int_def checkBigInt_def in_range_def int_lo_def int_hi_def split: rich.splits)
  next
    case False
    have k: "checkIntNumber label lo hi v = Inr ()"
      if "canonical_int True bw sg v" "lo = int_lo bw sg" "hi = int_hi bw sg" for label lo hi v
      using that False by (cases v) (auto simp: canonical_int_def in_range_def int_lo_def int_hi_def intro!: checkIntNumber_ok)
    have c: "int_codec bw sg = identity_codec label (checkIntNumber label lo hi) \<Longrightarrow> lo = int_lo bw sg \<Longrightarrow> hi = int_hi bw sg
        \<Longrightarrow> ?thesis" for label lo hi
      by (simp only:, rule identity_lossless) (use k u in auto)
    show ?thesis
      using False
      by (cases sg; cases "bw = 8"; cases "bw = 16") (rule c, simp add: int_codec_def, simp add: int_lo_def, simp add: int_hi_def)+
  qed
qed

lemma new_date_int: "\<bar>i\<bar> \<le> 8640000000000000 \<Longrightarrow> new_date (Fin (of_int i)) = Fin (of_int i)"
proof -
  assume "\<bar>i\<bar> \<le> 8640000000000000"
  then have "\<bar>of_int i :: rat\<bar> \<le> of_int 8640000000000000" by (simp only: of_int_abs [symmetric] of_int_le_iff)
  then show ?thesis by (simp add: new_date_def rat_trunc_def)
qed

lemma dateDay_all:
  assumes g: "canonical_value True (TDate 0) v"
  shows "canonicalToRich dateDayCodec v = Inr (rich_of (TDate 0) v) \<and> richToCanonical dateDayCodec (rich_of (TDate 0) v) = Inr v
      \<and> canonicalToRaw dateDayCodec v = Inr v \<and> rawToCanonical dateDayCodec v = Inr v"
proof (cases "v = RNull")
    case True
    then show ?thesis by (simp add: dateDayCodec_def nullable_def isNullish_def)
  next
    case False
    then obtain n where v: "v = RNum n" "integral True n" "in_range (- MAX_DAYS) MAX_DAYS (num_floor n)"
      using g by (auto simp: canonical_number_def split: rich.splits)
    obtain d where d: "n = Fin (of_int d)" using integralD [OF v(2)] by metis
    have b: "\<bar>d\<bar> \<le> 100000000" using v(3) by (simp add: d num_floor_def in_range_def MAX_DAYS_def abs_le_iff)
    have m: "num_mul (Fin (of_int d)) MS_PER_DAY = Fin (of_int (d * 86400000))"
      using num_mul_int [of 86400000 d] b by (simp add: MS_PER_DAY_def abs_mult)
    have q: "num_div (Fin (of_int (d * 86400000))) MS_PER_DAY = Fin (of_int d)"
      using num_div_mult [of 86400000 d] b by (simp add: MS_PER_DAY_def)
    have r: "num_eq (num_mod (Fin (of_int (d * 86400000))) MS_PER_DAY) (Fin 0)"
      using num_mod_mult [of 86400000 d] by (simp add: MS_PER_DAY_def)
    have w: "new_date (Fin (of_int (d * 86400000))) = Fin (of_int (d * 86400000))"
      using b by (intro new_date_int) (simp add: abs_mult)
    have i: "is_integer (Fin (of_int d))" "num_floor (Fin (of_int d)) = d" by (simp_all add: is_integer_def num_floor_def)
    note simps = v(1) d i m q r w dateDayCodec_def nullable_def isNullish_def day_number_def day_date_def
    show ?thesis
      by (simp only: simps codec.simps rich.simps rich_of.simps dateDay_canonicalToRich_def dateDay_richToCanonical_def
          dateDay_rawToCanonical_def dateDay_canonicalToRaw_def if_True if_False rbind_Inr Let_def jsnum.simps simp_thms)
qed

lemma dateDay_lossless: "lossless_codec dateDayCodec (canonical_value True (TDate 0)) (rich_of (TDate 0))"
proof (unfold_locales, goal_cases)
  case (5 v)
  then show ?case by (auto simp: canonical_number_def split: rich.splits)
qed (simp_all only: dateDay_all)

lemma dateMillis_all:
  assumes g: "canonical_value True (TDate u) v" "u \<noteq> 0"
  shows "canonicalToRich dateMillisCodec v = Inr (rich_of (TDate u) v) \<and> richToCanonical dateMillisCodec (rich_of (TDate u) v) = Inr v
      \<and> canonicalToRaw dateMillisCodec v = Inr v \<and> rawToCanonical dateMillisCodec v = Inr v"
proof (cases "v = RNull")
  case True
  then show ?thesis by (simp add: dateMillisCodec_def nullable_def isNullish_def)
next
  case False
  then obtain b where v: "v = RBig b" "in_range (- MAX_MS) MAX_MS b"
    using g by (auto simp: canonical_big_def split: rich.splits)
  then have b: "\<bar>b\<bar> \<le> 8640000000000000" by (simp add: in_range_def MAX_MS_def abs_le_iff)
  then have s: "bigIntToSafeNumber date64_label b = Inr (Fin (of_int b))"
    by (auto simp: bigIntToSafeNumber_def num_of_int_def abs_le_iff)
  show ?thesis
    by (simp add: v(1) s new_date_int [OF b] dateMillisCodec_def nullable_def isNullish_def toBigIntStrict_def num_floor_def
        dateMillis_canonicalToRich_def dateMillis_richToCanonical_def dateMillis_rawToCanonical_def dateMillis_canonicalToRaw_def)
qed

lemma dateMillis_lossless: "u \<noteq> 0 \<Longrightarrow> lossless_codec dateMillisCodec (canonical_value True (TDate u)) (rich_of (TDate u))"
proof (unfold_locales, goal_cases)
  case (5 v)
  then show ?case by (auto simp: canonical_big_def split: rich.splits)
qed (use dateMillis_all in blast)+

lemma date_lossless:
  "lossless_codec (if u = 0 then dateDayCodec else dateMillisCodec) (canonical_value True (TDate u)) (rich_of (TDate u))"
  using dateDay_lossless dateMillis_lossless by simp

interpretation day: lossless_codec dateDayCodec "canonical_value True (TDate 0)" "rich_of (TDate 0)"
  by (rule dateDay_lossless)

interpretation millis: lossless_codec dateMillisCodec "canonical_value True (TDate 1)" "rich_of (TDate 1)"
  by (rule dateMillis_lossless) simp

lemmas conversions = nullable_def isNullish_def same_codec_def identity_codec_def rbind_def

lemma time32_lossless:
  "time_width u \<noteq> 64 \<Longrightarrow> lossless_codec time32Codec (canonical_value True (TTime u)) (rich_of (TTime u))"
  by unfold_locales (auto simp: canonical_number_def integral_def time32Codec_def conversions time32_toCanon_def
      time32_fromCanon_def split: rich.splits)

lemma bigIntUnit_lossless: "lossless_codec (bigIntUnitCodec label) (\<lambda>v. v = RNull \<or> canonical_big v) (\<lambda>v. v)"
  by unfold_locales (auto simp: canonical_big_def bigIntUnitCodec_def conversions toBigIntStrict_def split: rich.splits)

lemma decimal_lossless: "lossless_codec decimalCodec (\<lambda>v. v = RNull \<or> canonical_big v) (\<lambda>v. v)"
  by unfold_locales (auto simp: canonical_big_def decimalCodec_def conversions decimal_toCanon_def split: rich.splits)

lemma utf8_lossless: "lossless_codec (UTF8_CODEC js) (canonical_value True TUtf8) (\<lambda>v. v)"
  by unfold_locales (auto simp: UTF8_CODEC_def conversions utf8_toCanon_def utf8_fromCanon_def checkString_def split: rich.splits)

lemma bytes_lossless: "lossless_codec (bytesCodec label None) (canonical_value True TBinary) (\<lambda>v. v)"
  by unfold_locales (auto simp: bytesCodec_def conversions toCanonBytes_def split: rich.splits)

lemma fixed_bytes_lossless: "lossless_codec (bytesCodec label (Some n)) (canonical_value True (TFixedSizeBinary n)) (\<lambda>v. v)"
  by unfold_locales (auto simp: bytesCodec_def conversions toCanonBytes_def split: rich.splits)

lemma null_lossless: "lossless_codec NULL_CODEC (\<lambda>v. v = RNull) (\<lambda>v. v)"
  by unfold_locales (auto simp: NULL_CODEC_def same_codec_def)

lemma bool_lossless: "lossless_codec BOOL_CODEC (canonical_value True TBool) (\<lambda>v. v)"
  unfolding BOOL_CODEC_def by (rule identity_lossless) (auto simp: checkBoolean_def split: rich.splits)

lemma float_lossless: "lossless_codec FLOAT_CODEC (canonical_value True (TFloat p)) (\<lambda>v. v)"
  unfolding FLOAT_CODEC_def by (rule identity_lossless) (auto simp: checkFloat_def split: rich.splits)

lemma pass_lossless: "lossless_codec (identity_codec label no_check) (\<lambda>v. v \<noteq> RUndef) (\<lambda>v. v)"
  by (rule identity_lossless) (auto simp: no_check_def)

section \<open>The composite codecs\<close>

lemma list_lossless:
  assumes "lossless_codec c good form"
  shows "lossless_codec (listCodec c) (\<lambda>v. case v of RNull \<Rightarrow> True | RArr vs \<Rightarrow> list_all good vs | _ \<Rightarrow> False)
    (\<lambda>v. case v of RArr vs \<Rightarrow> RArr (map form vs) | _ \<Rightarrow> v)"
  using lossless_codec.column_back [OF assms] lossless_codec.column_raw [OF assms]
  by unfold_locales (auto simp: listCodec_def nullable_def isNullish_def list_conv_def toArray_def iter_elems_def split: rich.splits)

lemma pair_conv:
  assumes "lossless_codec k good form" "lossless_codec w good' form'" "good a" "good' b"
  shows "canonicalToRich k a = Inr (form a)" "richToCanonical k (form a) = Inr a"
    "canonicalToRaw k a = Inr a" "rawToCanonical k a = Inr a"
    "canonicalToRich w b = Inr (form' b)" "richToCanonical w (form' b) = Inr b"
    "canonicalToRaw w b = Inr b" "rawToCanonical w b = Inr b"
  using assms by (simp_all add: lossless_codec.to_rich lossless_codec.from_rich lossless_codec.to_raw lossless_codec.from_raw)

definition good_pair :: "(rich \<Rightarrow> bool) \<Rightarrow> (rich \<Rightarrow> bool) \<Rightarrow> rich \<Rightarrow> bool" where
  "good_pair g h p = (case p of RArr [a, b] \<Rightarrow> g a \<and> h b | _ \<Rightarrow> False)"

definition form_pair :: "(rich \<Rightarrow> rich) \<Rightarrow> (rich \<Rightarrow> rich) \<Rightarrow> rich \<Rightarrow> rich" where
  "form_pair f g p = (case p of RArr [a, b] \<Rightarrow> RArr [f a, g b] | _ \<Rightarrow> p)"

lemma good_pairE:
  assumes "good_pair g h p"
  obtains a b where "p = RArr [a, b]" "g a" "h b"
  using assms by (auto simp: good_pair_def split: rich.splits list.splits)

lemma map_conv_pairs:
  assumes "\<And>p. p \<in> set ps \<Longrightarrow> \<exists>a b. p = RArr [a, b] \<and> key a = Inr (f a) \<and> val b = Inr (g b)"
  shows "map_conv key val (RArr ps) = Inr (RArr (map (form_pair f g) ps))"
proof -
  have "mapR (\<lambda>p. rbind (pair_of p) (\<lambda>(k, w). rbind (key k) (\<lambda>k. rbind (val w) (\<lambda>w. Inr (RArr [k, w]))))) ps
      = Inr (map (form_pair f g) ps)"
  proof (rule mapR_all)
    fix p assume "p \<in> set ps"
    with assms obtain a b where "p = RArr [a, b]" "key a = Inr (f a)" "val b = Inr (g b)" by blast
    then show "rbind (pair_of p) (\<lambda>(k, w). rbind (key k) (\<lambda>k. rbind (val w) (\<lambda>w. Inr (RArr [k, w])))) = Inr (form_pair f g p)"
      by (simp add: pair_of_def iter_elems_def form_pair_def)
  qed
  then show ?thesis by (simp add: map_conv_def toPairs_def iter_elems_def)
qed

lemma map_lossless:
  assumes k: "lossless_codec k good form" and w: "lossless_codec w good' form'"
  shows "lossless_codec (mapCodec k w) (\<lambda>v. case v of RNull \<Rightarrow> True | RArr ps \<Rightarrow> list_all (good_pair good good') ps | _ \<Rightarrow> False)
    (\<lambda>v. case v of RArr ps \<Rightarrow> RArr (map (form_pair form form') ps) | _ \<Rightarrow> v)"
proof -
  have "map_conv (canonicalToRich k) (canonicalToRich w) (RArr ps) = Inr (RArr (map (form_pair form form') ps))
      \<and> map_conv (richToCanonical k) (richToCanonical w) (RArr (map (form_pair form form') ps)) = Inr (RArr ps)
      \<and> map_conv (canonicalToRaw k) (canonicalToRaw w) (RArr ps) = Inr (RArr ps)
      \<and> map_conv (rawToCanonical k) (rawToCanonical w) (RArr ps) = Inr (RArr ps)"
    if g: "list_all (good_pair good good') ps" for ps
  proof -
    have p: "\<exists>a b. p = RArr [a, b] \<and> good a \<and> good' b" if "p \<in> set ps" for p
    proof -
      have "good_pair good good' p" using g that by (simp add: list_all_iff)
      then show ?thesis by (rule good_pairE) blast
    qed
    have returns: "map_conv (richToCanonical k) (richToCanonical w) (RArr (map (form_pair form form') ps)) = Inr (RArr ps)"
    proof -
      have m: "mapR (\<lambda>p. rbind (pair_of p) (\<lambda>(a, b). rbind (richToCanonical k a) (\<lambda>a. rbind (richToCanonical w b) (\<lambda>b. Inr (RArr [a, b])))))
          (map (form_pair form form') ps) = Inr ps"
        using p
      proof (induction ps)
        case (Cons q ps)
        obtain a b where "q = RArr [a, b]" "good a" "good' b" using Cons.prems [of q] by auto
        with Cons pair_conv [OF k w this(2,3)] show ?case by (simp add: pair_of_def iter_elems_def form_pair_def)
      qed simp
      show ?thesis using m by (simp add: map_conv_def toPairs_def iter_elems_def)
    qed
    have id: "map (form_pair (\<lambda>v. v) (\<lambda>v. v)) ps = ps"
    proof (rule map_idI)
      fix q assume "q \<in> set ps"
      from p [OF this] show "form_pair (\<lambda>v. v) (\<lambda>v. v) q = q" by (auto simp: form_pair_def)
    qed
    have e: "\<exists>a b. p = RArr [a, b] \<and> canonicalToRich k a = Inr (form a) \<and> canonicalToRich w b = Inr (form' b)"
      "\<exists>a b. p = RArr [a, b] \<and> canonicalToRaw k a = Inr a \<and> canonicalToRaw w b = Inr b"
      "\<exists>a b. p = RArr [a, b] \<and> rawToCanonical k a = Inr a \<and> rawToCanonical w b = Inr b" if "p \<in> set ps" for p
      using p [OF that] pair_conv [OF k w] by blast+
    show ?thesis
      using map_conv_pairs [of ps "canonicalToRich k" form "canonicalToRich w" form', OF e(1)]
        map_conv_pairs [of ps "canonicalToRaw k" "\<lambda>v. v" "canonicalToRaw w" "\<lambda>v. v", OF e(2)]
        map_conv_pairs [of ps "rawToCanonical k" "\<lambda>v. v" "rawToCanonical w" "\<lambda>v. v", OF e(3)] returns
      by (simp add: id)
  qed
  then show ?thesis
    by unfold_locales (auto simp: mapCodec_def nullable_def isNullish_def split: rich.splits)
qed

definition member_pair :: "(codec \<Rightarrow> rich \<Rightarrow> codec_error + rich) \<Rightarrow> string \<times> codec \<Rightarrow> string \<times> rich \<Rightarrow> string \<times> rich \<Rightarrow> bool" where
  "member_pair conv c e e' \<longleftrightarrow> fst e = fst c \<and> fst e' = fst c \<and> snd e \<noteq> RUndef \<and> conv (snd c) (snd e) = Inr (snd e')"

text \<open>Entries that a conversion takes to entries, member by member.\<close>

definition members_to :: "(codec \<Rightarrow> rich \<Rightarrow> codec_error + rich) \<Rightarrow> (string \<times> codec) list \<Rightarrow> (string \<times> rich) list \<Rightarrow> (string \<times> rich) list \<Rightarrow> bool" where
  "members_to conv cs es out \<longleftrightarrow> length es = length cs \<and> length out = length cs \<and>
     (\<forall>i<length cs. member_pair conv (cs ! i) (es ! i) (out ! i))"

lemma members_to_Nil [simp]: "members_to conv [] es out \<longleftrightarrow> es = [] \<and> out = []"
  by (simp add: members_to_def)

lemma members_to_Cons [simp]:
  "members_to conv (c # cs) (e # es) (e' # out) \<longleftrightarrow> member_pair conv c e e' \<and> members_to conv cs es out"
  by (auto simp: members_to_def less_Suc_eq_0_disj)

lemma members_to_keys: "members_to conv cs es out \<Longrightarrow> map fst es = map fst cs \<and> map fst out = map fst cs"
  by (auto simp: members_to_def member_pair_def intro!: nth_equalityI)

lemma struct_conv_members:
  assumes d: "distinct (map fst cs)" and m: "members_to conv cs es out"
  shows "struct_conv conv cs (RObj es) = Inr (RObj out)"
proof -
  note keys = members_to_keys [OF m]
  have "mapR (\<lambda>(name, c). rbind (conv c (or_null (rich_member (RObj es) name))) (\<lambda>w. Inr (name, w))) cs = Inr out"
    unfolding mapR_eq_Inr list_all2_conv_all_nth
  proof (intro conjI allI impI)
    show "length cs = length out" using m by (simp add: members_to_def)
    fix i assume i: "i < length cs"
    with m have p: "member_pair conv (cs ! i) (es ! i) (out ! i)" "i < length es" by (auto simp: members_to_def)
    have "(fst (cs ! i), snd (es ! i)) \<in> set es" using p nth_mem [OF p(2)] by (metis member_pair_def prod.collapse)
    moreover have "distinct (map fst es)" using d keys by simp
    ultimately have "map_of es (fst (cs ! i)) = Some (snd (es ! i))" by simp
    then have "rich_member (RObj es) (fst (cs ! i)) = snd (es ! i)" by (simp add: rich_member_def rich_entries_def)
    moreover have "or_null (snd (es ! i)) = snd (es ! i)" using p by (simp add: member_pair_def or_null_def isNullish_def)
    moreover have "out ! i = (fst (cs ! i), snd (out ! i))" using p by (metis member_pair_def prod.collapse)
    ultimately show "(case cs ! i of (name, c) \<Rightarrow> rbind (conv c (or_null (rich_member (RObj es) name))) (\<lambda>w. Inr (name, w))) = Inr (out ! i)"
      using p(1) by (simp add: member_pair_def case_prod_beta)
  qed
  moreover have "jm_of out = out" using d keys by (simp add: jm_of_distinct)
  ultimately show ?thesis by (simp add: struct_conv_def typeof_object_def)
qed

definition members_lossless ::
  "(string \<times> codec) list \<Rightarrow> ((string \<times> rich) list \<Rightarrow> bool) \<Rightarrow> ((string \<times> rich) list \<Rightarrow> (string \<times> rich) list) \<Rightarrow> bool" where
  "members_lossless cs P F \<longleftrightarrow> (\<forall>es. P es \<longrightarrow> members_to canonicalToRich cs es (F es) \<and> members_to richToCanonical cs (F es) es
     \<and> members_to canonicalToRaw cs es es \<and> members_to rawToCanonical cs es es)"

lemma struct_lossless:
  assumes m: "members_lossless cs P F" and d: "distinct (map fst cs)"
  shows "lossless_codec (structCodec cs) (\<lambda>v. case v of RNull \<Rightarrow> True | RObj es \<Rightarrow> P es | _ \<Rightarrow> False)
    (\<lambda>v. case v of RObj es \<Rightarrow> RObj (F es) | _ \<Rightarrow> v)"
proof -
  have "struct_conv canonicalToRich cs (RObj es) = Inr (RObj (F es)) \<and> struct_conv richToCanonical cs (RObj (F es)) = Inr (RObj es)
      \<and> struct_conv canonicalToRaw cs (RObj es) = Inr (RObj es) \<and> struct_conv rawToCanonical cs (RObj es) = Inr (RObj es)" if "P es" for es
    using m that struct_conv_members [OF d] unfolding members_lossless_def by blast
  then show ?thesis
    by unfold_locales (auto simp: structCodec_def nullable_def isNullish_def split: rich.splits)
qed

lemma members_lossless_Cons:
  assumes "lossless_codec (snd c) good form" "members_lossless cs P F"
  shows "members_lossless (c # cs) (\<lambda>es. case es of [] \<Rightarrow> False | e # es \<Rightarrow> fst e = fst c \<and> good (snd e) \<and> P es)
    (\<lambda>es. case es of [] \<Rightarrow> [] | e # es \<Rightarrow> (fst e, form (snd e)) # F es)"
  using assms(2) lossless_codec.to_rich [OF assms(1)] lossless_codec.from_rich [OF assms(1)]
    lossless_codec.to_raw [OF assms(1)] lossless_codec.from_raw [OF assms(1)] lossless_codec.no_undef [OF assms(1)]
  by (auto simp: members_lossless_def member_pair_def split: list.splits)

section \<open>Every codec is lossless\<close>

lemma lossless_on:
  assumes "lossless_codec c P F" "\<And>v. Q v \<Longrightarrow> P v" "\<And>v. Q v \<Longrightarrow> G v = F v"
  shows "lossless_codec c Q G"
  by unfold_locales (simp_all add: assms lossless_codec.to_rich [OF assms(1)] lossless_codec.from_rich [OF assms(1)]
      lossless_codec.to_raw [OF assms(1)] lossless_codec.from_raw [OF assms(1)] lossless_codec.no_undef [OF assms(1)])

lemma members_on:
  assumes "members_lossless cs P F" "\<And>es. Q es \<Longrightarrow> P es" "\<And>es. Q es \<Longrightarrow> G es = F es"
  shows "members_lossless cs Q G"
  using assms by (simp add: members_lossless_def)

lemma lossless_pass: "lossless_codec c P (\<lambda>v. v) \<Longrightarrow> (\<And>v. Q v \<Longrightarrow> P v) \<Longrightarrow> (\<And>v. G v = v) \<Longrightarrow> lossless_codec c Q G"
  by (erule lossless_on) auto

lemma codec_lossless:
  "codecFor js t = Inr c \<Longrightarrow> names_ok t \<Longrightarrow> lossless_codec c (canonical_value True t) (rich_of t)"
  "fieldCodec js f = Inr nc \<Longrightarrow> field_ok f \<Longrightarrow> fst nc = f_name f \<and> lossless_codec (snd nc) (canonical_field True f) (rich_field f)"
  "fieldCodecs js fs = Inr cs \<Longrightarrow> list_all field_ok fs \<Longrightarrow>
     map fst cs = map f_name fs \<and> members_lossless cs (canonical_fields True fs) (rich_fields fs)"
  "entryCodecs js f' = Inr cs' \<Longrightarrow> field_ok f' \<Longrightarrow> cs' = [] \<or> (\<exists>k w g h fk fw. cs' = [k, w] \<and> lossless_codec (snd k) g fk \<and>
     lossless_codec (snd w) h fw \<and> canonical_pair True f' = good_pair g h \<and> rich_pair f' = form_pair fk fw)"
proof (induction js t and js f and js fs and js f' arbitrary: c and nc and cs and cs' rule: codecFor_fieldCodec_fieldCodecs_entryCodecs.induct)
  case (1 js)
  then show ?case by (auto intro: lossless_pass [OF null_lossless])
next
  case (2 js)
  then show ?case by (auto intro: lossless_pass [OF bool_lossless])
next
  case (3 js bw sg)
  then show ?case by (auto intro: lossless_pass [OF int_codec_lossless])
next
  case (4 js p)
  then have c: "c = FLOAT_CODEC" by simp
  show ?case unfolding c by (rule lossless_pass [OF float_lossless [of p]]) simp_all
next
  case (5 js)
  then show ?case by (auto intro: lossless_pass [OF utf8_lossless])
next
  case (6 js)
  then show ?case by (auto intro: lossless_pass [OF utf8_lossless])
next
  case (7 js)
  then show ?case by (auto intro: lossless_pass [OF bytes_lossless])
next
  case (8 js)
  then show ?case by (auto intro: lossless_pass [OF bytes_lossless])
next
  case (9 js n)
  then show ?case by (auto intro: lossless_pass [OF fixed_bytes_lossless])
next
  case (10 js a b d)
  then show ?case by (auto intro: lossless_pass [OF decimal_lossless])
next
  case (11 js u)
  then have c: "c = (if u = 0 then dateDayCodec else dateMillisCodec)" by simp
  show ?case unfolding c by (rule date_lossless)
next
  case (12 js u)
  show ?case
  proof (cases "time_width u = 64")
    case True
    with 12 show ?thesis by (auto intro: lossless_pass [OF bigIntUnit_lossless])
  next
    case False
    with 12 have c: "c = time32Codec" by simp
    show ?thesis unfolding c by (rule time32_lossless [OF False])
  qed
next
  case (13 js u tz)
  then show ?case by (auto intro: lossless_pass [OF bigIntUnit_lossless])
next
  case (14 js u)
  then show ?case by (auto intro: lossless_pass [OF bigIntUnit_lossless])
next
  case (15 js fs)
  then obtain cs where cs: "fieldCodecs js fs = Inr cs" "c = structCodec cs" by (auto simp: result_simps)
  with 15 have m: "map fst cs = map f_name fs" "members_lossless cs (canonical_fields True fs) (rich_fields fs)" by auto
  with 15(3) have "distinct (map fst cs)" by simp
  from lossless_on [OF struct_lossless [OF m(2) this]] show ?case unfolding cs(2) by simp
next
  case (16 js u fs)
  then show ?case by (auto intro: lossless_pass [OF pass_lossless])
next
  case (17 js f)
  then obtain nc where nc: "fieldCodec js f = Inr nc" "c = listCodec (snd nc)" by (auto simp: result_simps)
  with 17 have "lossless_codec (snd nc) (canonical_field True f) (rich_field f)" by auto
  from lossless_on [OF list_lossless [OF this]] show ?case unfolding nc(2) by simp
next
  case (18 js n f)
  then obtain nc where nc: "fieldCodec js f = Inr nc" "c = listCodec (snd nc)" by (auto simp: result_simps)
  with 18 have "lossless_codec (snd nc) (canonical_field True f) (rich_field f)" by auto
  from lossless_on [OF list_lossless [OF this]] show ?case unfolding nc(2) by simp
next
  case (19 js f)
  then obtain cs where cs: "entryCodecs js f = Inr cs" by (auto simp: result_simps)
  with 19 obtain k w g h fk fw where m: "cs = [k, w]" "c = mapCodec (snd k) (snd w)" "lossless_codec (snd k) g fk"
      "lossless_codec (snd w) h fw" "canonical_pair True f = good_pair g h" "rich_pair f = form_pair fk fw"
    by (auto simp: result_simps split: list.splits)
  show ?case unfolding m(2) by (rule lossless_on [OF map_lossless [OF m(3,4)]]) (auto simp: m(5,6) split: rich.splits)
next
  case (20 js d i ordered)
  then obtain inner where i: "codecFor js d = Inr inner" "c = dictionaryCodec inner" by (auto simp: result_simps)
  with 20 have l: "lossless_codec inner (canonical_value True d) (rich_of d)" by auto
  show ?case unfolding i(2)
    by unfold_locales (simp_all add: dictionaryCodec_def lossless_codec.to_rich [OF l] lossless_codec.from_rich [OF l]
      lossless_codec.to_raw [OF l] lossless_codec.from_raw [OF l] lossless_codec.no_undef [OF l])
next
  case (21 js u)
  then show ?case by (auto intro: lossless_pass [OF pass_lossless])
next
  case (22 js n t a b d)
  then obtain c where "codecFor js t = Inr c" "nc = (n, c)" by (auto simp: result_simps)
  with 22 lossless_on show ?case by (simp add: lossless_on)
next
  case (23 js)
  then show ?case by (auto simp: members_lossless_def)
next
  case (24 js f fs)
  then obtain c cs' where c: "fieldCodec js f = Inr c" "fieldCodecs js fs = Inr cs'" "cs = c # cs'" by (auto simp: result_simps)
  with 24 have h: "fst c = f_name f" "lossless_codec (snd c) (canonical_field True f) (rich_field f)"
      "map fst cs' = map f_name fs" "members_lossless cs' (canonical_fields True fs) (rich_fields fs)" by auto
  have "members_lossless (c # cs') (canonical_fields True (f # fs)) (rich_fields (f # fs))"
    by (rule members_on [OF members_lossless_Cons [OF h(2,4)]]) (auto simp: h(1) split: list.splits)
  with c(3) h(1,3) show ?case by (simp del: canonical_fields.simps)
next
  case (25 js n k w ws a b d)
  then obtain k' w' where c: "fieldCodec js k = Inr k'" "fieldCodec js w = Inr w'" "cs' = [k', w']" by (auto simp: result_simps)
  with 25 have "lossless_codec (snd k') (canonical_field True k) (rich_field k)" "lossless_codec (snd w') (canonical_field True w) (rich_field w)"
    by auto
  moreover have "canonical_pair True (Field n (TStruct (k # w # ws)) a b d) = good_pair (canonical_field True k) (canonical_field True w)"
    "rich_pair (Field n (TStruct (k # w # ws)) a b d) = form_pair (rich_field k) (rich_field w)"
    by (auto simp: fun_eq_iff good_pair_def form_pair_def)
  ultimately show ?case using c(3) by blast
qed simp_all

end
