(* ===== verification/ArrowColumns.thy ===== *)
theory ArrowColumns
  imports CodecLaws
begin

text \<open>
  The columns of the arrow-js backend, \<open>src/arrow/impl-arrowjs/canonical.ts\<close>: the writer that lays
  canonical values out in Arrow buffers (validity bitmaps, 32-bit offsets, little-endian values,
  flattened children) and the reader that takes a canonical value out of them again.  What
  \<open>makeData\<close> is given is a \<open>Data\<close> node; a column \<open>vectorFromArray\<close> of the Arrow library builds is an
  opaque \<open>Lib\<close> node, read through the accessors of the library, which are parameters.
\<close>

section \<open>Column data\<close>

text \<open>Type, length, null count, validity bitmap, value buffer, offsets, children.\<close>

datatype 'lib col_data =
    Data arrow_type nat nat "bytes option" bytes "int list option" "'lib col_data list"
  | Lib 'lib

text \<open>
  \<open>lib_values\<close> is \<open>data.values[i]\<close>, \<open>lib_word\<close> the \<open>i\<close>-th 32-bit word of it, \<open>vec_get\<close> is
  \<open>Vector.get\<close>; \<open>undefined\<close> where there is none.  \<open>to_number\<close>, \<open>to_bigint\<close> and \<open>array_from\<close> are the
  language's conversions of values of other kinds.
\<close>

record 'lib arrow_host =
  vectorFromArray :: "arrow_type \<Rightarrow> rich list \<Rightarrow> 'lib"
  lib_valid :: "'lib \<Rightarrow> nat \<Rightarrow> bool"
  lib_values :: "'lib \<Rightarrow> nat \<Rightarrow> rich"
  lib_word :: "'lib \<Rightarrow> nat \<Rightarrow> nat"
  lib_offsets :: "'lib \<Rightarrow> int list option"
  lib_typeIds :: "'lib \<Rightarrow> int list option"
  lib_children :: "'lib \<Rightarrow> 'lib list"
  lib_dictionary :: "'lib \<Rightarrow> 'lib option"
  vec_get :: "'lib col_data \<Rightarrow> nat \<Rightarrow> rich"
  childOfTypeId :: "arrow_type \<Rightarrow> int \<Rightarrow> int option"
  to_number :: "rich \<Rightarrow> jsnum"
  to_bigint :: "rich \<Rightarrow> codec_error + int"
  array_from :: "rich \<Rightarrow> rich list"
  to_text :: "rich \<Rightarrow> string"

section \<open>Writing\<close>

definition null_count :: "rich list \<Rightarrow> nat" where
  "null_count vs = length (filter isNullish vs)"

fun mark_valid :: "nat \<Rightarrow> rich list \<Rightarrow> bytes \<Rightarrow> bytes" where
  "mark_valid i [] bm = bm"
| "mark_valid i (v # vs) bm =
     mark_valid (Suc i) vs (if isNullish v then bm else bm[i div 8 := bm ! (i div 8) OR push_bit (i mod 8) 1])"

definition null_bitmap :: "rich list \<Rightarrow> bytes option" where
  "null_bitmap vs = (if 0 < null_count vs then Some (mark_valid 0 vs (replicate ((length vs + 7) div 8) 0)) else None)"

text \<open>Storing a number into an \<open>Int32Array\<close>.\<close>

definition to_int32 :: "jsnum \<Rightarrow> nat" where
  "to_int32 n = (case n of Fin r \<Rightarrow> nat (rat_trunc r mod 2 ^ 32) | _ \<Rightarrow> 0)"

definition int32_slot :: "'lib arrow_host \<Rightarrow> rich \<Rightarrow> nat" where
  "int32_slot h v = (if isNullish v then 0 else case v of RBig b \<Rightarrow> to_int32 (num_of_int b) | RNum n \<Rightarrow> to_int32 n
     | _ \<Rightarrow> to_int32 (to_number h v))"

definition buildInt32Data :: "'lib arrow_host \<Rightarrow> arrow_type \<Rightarrow> rich list \<Rightarrow> 'lib col_data" where
  "buildInt32Data h t vs =
     Data t (length vs) (null_count vs) (null_bitmap vs) (concat (map (\<lambda>v. le_bytes 4 (int32_slot h v)) vs)) None []"

definition bigint_slot :: "'lib arrow_host \<Rightarrow> rich \<Rightarrow> codec_error + int" where
  "bigint_slot h v = (if isNullish v then Inr 0 else case v of RBig b \<Rightarrow> Inr b
     | RNum n \<Rightarrow> (if is_integer n then Inr (num_floor n) else Inl CodecRangeError)
     | _ \<Rightarrow> to_bigint h v)"

definition buildBigIntData :: "'lib arrow_host \<Rightarrow> arrow_type \<Rightarrow> rich list \<Rightarrow> codec_error + 'lib col_data" where
  "buildBigIntData h t vs = rbind (mapR (bigint_slot h) vs) (\<lambda>slots.
     Inr (Data t (length vs) (null_count vs) (null_bitmap vs) (concat (map i64_le slots)) None []))"

definition dec_width :: "nat \<Rightarrow> nat" where
  "dec_width bitWidth = (if bitWidth = 0 then 16 else bitWidth div 8)"

fun dec_loop :: "nat \<Rightarrow> int \<Rightarrow> bytes" where
  "dec_loop 0 v = []"
| "dec_loop (Suc k) v = word_of_int (v AND 255) # dec_loop k (drop_bit 8 v)"

definition bigIntToDecimalBytes :: "int \<Rightarrow> nat \<Rightarrow> bytes" where
  "bigIntToDecimalBytes value byteWidth =
     dec_loop byteWidth (if value < 0 then 2 ^ (byteWidth * 8) + value else value)"

definition toBig :: "'lib arrow_host \<Rightarrow> rich \<Rightarrow> codec_error + int" where
  "toBig h v = (case v of RBig b \<Rightarrow> Inr b
     | _ \<Rightarrow> (case num_trunc (case v of RNum n \<Rightarrow> n | _ \<Rightarrow> to_number h v) of
         Fin r \<Rightarrow> Inr \<lfloor>r\<rfloor> | NegZero \<Rightarrow> Inr 0 | _ \<Rightarrow> Inl CodecRangeError))"

definition pad_to :: "nat \<Rightarrow> bytes \<Rightarrow> bytes" where
  "pad_to w bs = take w bs @ replicate (w - length bs) 0"

definition decimal_slot :: "'lib arrow_host \<Rightarrow> nat \<Rightarrow> rich \<Rightarrow> codec_error + bytes" where
  "decimal_slot h w v = (if isNullish v then Inr (replicate w 0) else case v of
     RBytes bs \<Rightarrow> Inr (pad_to w bs)
   | RView bs _ \<Rightarrow> Inr (pad_to w bs)
   | _ \<Rightarrow> rbind (toBig h v) (\<lambda>b. Inr (pad_to w (bigIntToDecimalBytes b w))))"

definition buildDecimalData :: "'lib arrow_host \<Rightarrow> arrow_type \<Rightarrow> nat \<Rightarrow> rich list \<Rightarrow> codec_error + 'lib col_data" where
  "buildDecimalData h t w vs = rbind (mapR (decimal_slot h w) vs) (\<lambda>slots.
     Inr (Data t (length vs) (null_count vs) (null_bitmap vs) (concat slots) None []))"

text \<open>An \<open>Int32Array\<close> of offsets: the running item count, wrapped to 32 bits.\<close>

definition s32 :: "int \<Rightarrow> int" where
  "s32 i = (i + 2 ^ 31) mod 2 ^ 32 - 2 ^ 31"

fun running :: "nat \<Rightarrow> 'a list list \<Rightarrow> nat list" where
  "running n [] = [n]"
| "running n (r # rs) = n # running (n + length r) rs"

definition offsets_of :: "'a list list \<Rightarrow> int list" where
  "offsets_of rows = map (\<lambda>n. s32 (int n)) (running 0 rows)"

definition list_row :: "rich \<Rightarrow> rich list" where
  "list_row row = (if isNullish row then [] else case iter_elems row of Some es \<Rightarrow> es | None \<Rightarrow> [])"

definition fixed_row :: "'lib arrow_host \<Rightarrow> nat \<Rightarrow> rich \<Rightarrow> codec_error + rich list" where
  "fixed_row h listSize row =
     (if isNullish row then Inr (replicate listSize RNull)
      else let items = (case iter_elems row of Some es \<Rightarrow> es | None \<Rightarrow> array_from h row) in
        if length items \<noteq> listSize then Inl CodecTypeError else Inr items)"

definition map_row :: "rich \<Rightarrow> codec_error + (rich \<times> rich) list" where
  "map_row row = (if isNullish row then Inr []
     else mapR pair_of (case iter_elems row of Some ps \<Rightarrow> ps
       | None \<Rightarrow> if typeof_object row then map (\<lambda>(k, w). RArr [RStr k, w]) (rich_entries row) else []))"

text \<open>\<open>row[name] ?? row[c] ?? null\<close>\<close>

definition struct_slot :: "string \<Rightarrow> nat \<Rightarrow> rich \<Rightarrow> rich" where
  "struct_slot name c row = (if isNullish row then RNull
     else let v = rich_member row name in if isNullish v then or_null (rich_member row (nat_to_string c)) else v)"

fun emptyDataForType :: "arrow_type \<Rightarrow> 'lib col_data"
  and emptyDataForField :: "arrow_field \<Rightarrow> 'lib col_data" where
  "emptyDataForType (TList f) = Data (TList f) 0 0 None [] (Some [0]) [emptyDataForField f]"
| "emptyDataForType (TMap f) = Data (TMap f) 0 0 None [] (Some [0]) [emptyDataForField f]"
| "emptyDataForType (TFixedSizeList n f) = Data (TFixedSizeList n f) 0 0 None [] None [emptyDataForField f]"
| "emptyDataForType (TStruct fs) = Data (TStruct fs) 0 0 None [] None (map emptyDataForField fs)"
| "emptyDataForType t = Data t 0 0 None [] None []"
| "emptyDataForField (Field _ t _ _ _) = emptyDataForType t"

fun temporal_width :: "arrow_type \<Rightarrow> nat option" where
  "temporal_width (TDate unit) = Some (if unit = 0 then 32 else 64)"
| "temporal_width (TTime unit) = Some (time_width unit)"
| "temporal_width (TTimestamp _ _) = Some 64"
| "temporal_width (TDuration _) = Some 64"
| "temporal_width _ = None"

definition is_int64 :: "arrow_type \<Rightarrow> bool" where
  "is_int64 t = (case t of TInt bw _ \<Rightarrow> bw = 64 | _ \<Rightarrow> False)"

definition items_data :: "'lib col_data \<Rightarrow> (rich list \<Rightarrow> codec_error + 'lib col_data) \<Rightarrow> rich list \<Rightarrow> codec_error + 'lib col_data" where
  "items_data blank build items = (if 0 < length items then build items else Inr blank)"

fun buildColumnData :: "'lib arrow_host \<Rightarrow> arrow_type \<Rightarrow> rich list \<Rightarrow> codec_error + 'lib col_data"
  and build_field :: "'lib arrow_host \<Rightarrow> arrow_field \<Rightarrow> rich list \<Rightarrow> codec_error + 'lib col_data"
  and build_fields :: "'lib arrow_host \<Rightarrow> nat \<Rightarrow> arrow_field list \<Rightarrow> rich list \<Rightarrow> codec_error + 'lib col_data list"
  and build_entries :: "'lib arrow_host \<Rightarrow> arrow_field \<Rightarrow> (rich \<times> rich) list \<Rightarrow> codec_error + 'lib col_data" where
  "buildColumnData h (TList f) vs =
     (let rows = map list_row vs; items = concat rows in
      rbind (items_data (emptyDataForField f) (build_field h f) items) (\<lambda>child.
      Inr (Data (TList f) (length vs) (null_count vs) (null_bitmap vs) [] (Some (offsets_of rows)) [child])))"
| "buildColumnData h (TFixedSizeList n f) vs =
     rbind (mapR (fixed_row h n) vs) (\<lambda>rows.
     rbind (items_data (emptyDataForField f) (build_field h f) (concat rows)) (\<lambda>child.
     Inr (Data (TFixedSizeList n f) (length vs) (null_count vs) (null_bitmap vs) [] None [child])))"
| "buildColumnData h (TMap f) vs =
     rbind (mapR map_row vs) (\<lambda>rows.
     rbind (build_entries h f (concat rows)) (\<lambda>entries.
     Inr (Data (TMap f) (length vs) (null_count vs) (null_bitmap vs) [] (Some (offsets_of rows)) [entries])))"
| "buildColumnData h (TStruct fs) vs =
     rbind (build_fields h 0 fs vs) (\<lambda>children.
     Inr (Data (TStruct fs) (length vs) (null_count vs) (null_bitmap vs) [] None children))"
| "buildColumnData h (TDecimal bitWidth p s) vs = buildDecimalData h (TDecimal bitWidth p s) (dec_width bitWidth) vs"
| "buildColumnData h t vs = (case temporal_width t of
     Some w \<Rightarrow> if w = 64 then buildBigIntData h t vs else Inr (buildInt32Data h t vs)
   | None \<Rightarrow> if is_int64 t then buildBigIntData h t vs
       else Inr (Lib (vectorFromArray h t vs)))"
| "build_field h (Field _ t _ _ _) vs = buildColumnData h t vs"
| "build_fields h c [] vs = Inr []"
| "build_fields h c (f # fs) vs =
     rbind (build_field h f (map (struct_slot (f_name f) c) vs)) (\<lambda>d. rbind (build_fields h (Suc c) fs vs) (\<lambda>ds. Inr (d # ds)))"
| "build_entries h (Field n (TStruct (k # w # fs)) a b e) pairs =
     rbind (items_data (emptyDataForField k) (build_field h k) (map fst pairs)) (\<lambda>keys.
     rbind (items_data (emptyDataForField w) (build_field h w) (map snd pairs)) (\<lambda>values.
     Inr (Data (TStruct (k # w # fs)) (length pairs) 0 None [] None [keys, values])))"
| "build_entries h (Field _ _ _ _ _) pairs = Inl CodecTypeError"

definition writeCanonicalColumn :: "'lib arrow_host \<Rightarrow> arrow_type \<Rightarrow> rich list \<Rightarrow> codec_error + 'lib col_data" where
  "writeCanonicalColumn h t canonical = buildColumnData h t canonical"

section \<open>Reading\<close>

definition col_valid :: "'lib arrow_host \<Rightarrow> 'lib col_data \<Rightarrow> nat \<Rightarrow> bool" where
  "col_valid h c i = (case c of
     Lib l \<Rightarrow> lib_valid h l i
   | Data _ _ _ bm _ _ _ \<Rightarrow> (case bm of
       None \<Rightarrow> True
     | Some b \<Rightarrow> if 0 < length b then i div 8 < length b \<and> drop_bit (i mod 8) (b ! (i div 8)) AND 1 = 1 else True))"

text \<open>\<open>data.values[i]\<close>: the typed array over the value buffer that the type has.\<close>

definition int32_at :: "bytes \<Rightarrow> nat \<Rightarrow> rich" where
  "int32_at buf i = (if 4 * i + 4 \<le> length buf then RNum (num_of_int (s32 (int (le_nat (take 4 (drop (4 * i) buf)))))) else RUndef)"

definition int64_at :: "bool \<Rightarrow> bytes \<Rightarrow> nat \<Rightarrow> rich" where
  "int64_at sg buf i = (if 8 * i + 8 \<le> length buf
     then RBig (if sg then i64_of_le (take 8 (drop (8 * i) buf)) else int (le_nat (take 8 (drop (8 * i) buf)))) else RUndef)"

definition col_values :: "'lib arrow_host \<Rightarrow> arrow_type \<Rightarrow> 'lib col_data \<Rightarrow> nat \<Rightarrow> rich" where
  "col_values h t c i = (case c of
     Lib l \<Rightarrow> lib_values h l i
   | Data _ _ _ _ buf _ _ \<Rightarrow> if temporal_width t = Some 32 then int32_at buf i
       else int64_at (t \<noteq> TInt 64 False) buf i)"

definition col_word :: "'lib arrow_host \<Rightarrow> 'lib col_data \<Rightarrow> nat \<Rightarrow> nat" where
  "col_word h c k = (case c of Lib l \<Rightarrow> lib_word h l k | Data _ _ _ _ buf _ _ \<Rightarrow> le_nat (take 4 (drop (4 * k) buf)))"

definition col_offsets :: "'lib arrow_host \<Rightarrow> 'lib col_data \<Rightarrow> int list option" where
  "col_offsets h c = (case c of Lib l \<Rightarrow> lib_offsets h l | Data _ _ _ _ _ os _ \<Rightarrow> os)"

definition col_child :: "'lib arrow_host \<Rightarrow> 'lib col_data \<Rightarrow> nat \<Rightarrow> 'lib col_data option" where
  "col_child h c k = (let cs = (case c of Lib l \<Rightarrow> map Lib (lib_children h l) | Data _ _ _ _ _ _ cs \<Rightarrow> cs) in
     if k < length cs then Some (cs ! k) else None)"

definition number_value :: "rich \<Rightarrow> rich" where
  "number_value v = RNum (case v of RNum n \<Rightarrow> n | RBig b \<Rightarrow> num_of_int b | _ \<Rightarrow> NaN)"

definition bigint_value :: "rich \<Rightarrow> codec_error + rich" where
  "bigint_value v = (case v of RBig b \<Rightarrow> Inr (RBig b)
     | RNum n \<Rightarrow> (if is_integer n then Inr (RBig (num_floor n)) else Inl CodecRangeError) | _ \<Rightarrow> Inl CodecTypeError)"

definition toUint8 :: "rich \<Rightarrow> rich" where
  "toUint8 v = (case v of RBytes bs \<Rightarrow> RBytes bs | RView bs _ \<Rightarrow> RBytes bs | RUndef \<Rightarrow> RNull | _ \<Rightarrow> v)"

definition decimalBytesToBigInt :: "bytes \<Rightarrow> int" where
  "decimalBytesToBigInt u8 =
     (let bi = foldl (\<lambda>bi b. push_bit 8 bi OR int (unat b)) 0 (rev u8) in
      if u8 \<noteq> [] \<and> last u8 AND 0x80 \<noteq> 0 then bi - 2 ^ (length u8 * 8) else bi)"

definition decimalToBigInt :: "'lib arrow_host \<Rightarrow> nat \<Rightarrow> 'lib col_data \<Rightarrow> nat \<Rightarrow> int" where
  "decimalToBigInt h w c i =
     decimalBytesToBigInt (concat (map (\<lambda>k. le_bytes 4 (col_word h c (i * (w div 4) + k))) [0..<w div 4]))"

text \<open>The rows a list's items take: the offsets, or the fixed size.\<close>

definition list_span :: "'lib arrow_host \<Rightarrow> nat \<Rightarrow> 'lib col_data \<Rightarrow> nat \<Rightarrow> nat list" where
  "list_span h listSize c i = (case col_offsets h c of
     Some os \<Rightarrow> if Suc i < length os then map nat [os ! i..os ! Suc i - 1] else []
   | None \<Rightarrow> [i * listSize..<i * listSize + listSize])"

definition map_span :: "'lib arrow_host \<Rightarrow> 'lib col_data \<Rightarrow> nat \<Rightarrow> nat list" where
  "map_span h c i = (case col_offsets h c of
     Some os \<Rightarrow> if Suc i < length os then map nat [os ! i..os ! Suc i - 1] else []
   | None \<Rightarrow> [])"

definition union_tag :: "'lib arrow_host \<Rightarrow> arrow_type \<Rightarrow> nat \<Rightarrow> 'lib col_data \<Rightarrow> nat \<Rightarrow> int" where
  "union_tag h t n c i =
     (let tcode = (case c of Lib l \<Rightarrow> (case lib_typeIds h l of Some ids \<Rightarrow> (if i < length ids then ids ! i else - 1)
         | None \<Rightarrow> if 0 < n then 0 else - 1) | _ \<Rightarrow> if 0 < n then 0 else - 1) in
      case childOfTypeId h t tcode of Some k \<Rightarrow> k | None \<Rightarrow> tcode)"

definition union_row :: "'lib arrow_host \<Rightarrow> 'lib col_data \<Rightarrow> nat \<Rightarrow> nat" where
  "union_row h c i = (case col_offsets h c of Some os \<Rightarrow> (if i < length os then nat (os ! i) else i) | None \<Rightarrow> i)"

definition tagged :: "rich \<Rightarrow> rich \<Rightarrow> rich" where
  "tagged tag value = RObj [(''tag'', tag), (''value'', value)]"

definition when_valid :: "'lib arrow_host \<Rightarrow> 'lib col_data \<Rightarrow> nat \<Rightarrow> codec_error + rich \<Rightarrow> codec_error + rich" where
  "when_valid h c i r = (if col_valid h c i then r else Inr RNull)"

definition dictionary_index :: "rich \<Rightarrow> nat" where
  "dictionary_index v = (case v of RNum n \<Rightarrow> nat (num_floor n) | RBig b \<Rightarrow> nat b | _ \<Rightarrow> 0)"

text \<open>A reader takes a value out of a column; the readers of composites are given those of their children.\<close>

type_synonym 'lib reader = "'lib col_data \<Rightarrow> nat \<Rightarrow> codec_error + rich"

fun struct_members :: "'lib arrow_host \<Rightarrow> nat \<Rightarrow> (string \<times> 'lib reader) list \<Rightarrow> 'lib col_data \<Rightarrow> nat \<Rightarrow> codec_error + (string \<times> rich) list" where
  "struct_members h k [] c i = Inr []"
| "struct_members h k (r # rs) c i =
     rbind (case col_child h c k of None \<Rightarrow> Inr RNull | Some child \<Rightarrow> snd r child i) (\<lambda>v.
     rbind (struct_members h (Suc k) rs c i) (\<lambda>es. Inr ((fst r, v) # es)))"

definition readStruct :: "'lib arrow_host \<Rightarrow> (string \<times> 'lib reader) list \<Rightarrow> 'lib reader" where
  "readStruct h rs c i = rbind (struct_members h 0 rs c i) (\<lambda>es. Inr (RObj (jm_of es)))"

definition readUnion :: "'lib arrow_host \<Rightarrow> arrow_type \<Rightarrow> (string \<times> 'lib reader) list \<Rightarrow> 'lib reader" where
  "readUnion h t rs c i = (let k = union_tag h t (length rs) c i in
     if k < 0 \<or> int (length rs) \<le> k then Inr (tagged RNull RNull)
     else rbind (case col_child h c (nat k) of None \<Rightarrow> Inr RNull | Some child \<Rightarrow> snd (rs ! nat k) child (union_row h c i))
       (\<lambda>v. Inr (tagged (RStr (fst (rs ! nat k))) v)))"

definition readList :: "'lib arrow_host \<Rightarrow> nat \<Rightarrow> 'lib reader \<Rightarrow> 'lib reader" where
  "readList h listSize read c i = (case col_child h c 0 of
     None \<Rightarrow> Inl CodecTypeError
   | Some child \<Rightarrow> rbind (mapR (read child) (list_span h listSize c i)) (\<lambda>vs. Inr (RArr vs)))"

definition readMap :: "'lib arrow_host \<Rightarrow> (string \<times> 'lib reader) list \<Rightarrow> 'lib reader" where
  "readMap h rs c i = (case (rs, col_child h c 0) of
     (kr # vr # _, Some entries) \<Rightarrow> (case (col_child h entries 0, col_child h entries 1) of
         (Some keys, Some values) \<Rightarrow>
           rbind (mapR (\<lambda>j. rbind (snd kr keys j) (\<lambda>k. rbind (snd vr values j) (\<lambda>w. Inr (RArr [k, w])))) (map_span h c i)) (\<lambda>vs. Inr (RArr vs))
       | _ \<Rightarrow> Inl CodecTypeError)
   | _ \<Rightarrow> Inl CodecTypeError)"

definition readDictionary :: "'lib arrow_host \<Rightarrow> 'lib reader \<Rightarrow> 'lib reader" where
  "readDictionary h read c i = (case c of
     Lib l \<Rightarrow> (case lib_dictionary h l of
         Some dict \<Rightarrow> read (Lib dict) (dictionary_index (lib_values h l i)) | None \<Rightarrow> Inr (vec_get h c i))
   | _ \<Rightarrow> Inr (vec_get h c i))"

definition text_value :: "'lib arrow_host \<Rightarrow> rich \<Rightarrow> rich" where
  "text_value h v = (case v of RStr s \<Rightarrow> RStr s | _ \<Rightarrow> RStr (to_text h v))"

lemma field_type_smaller [termination_simp]: "size (f_type f) < Suc (size f)"
  by (cases f) simp

fun readFromData :: "'lib arrow_host \<Rightarrow> arrow_type \<Rightarrow> 'lib reader"
  and read_field :: "'lib arrow_host \<Rightarrow> arrow_field \<Rightarrow> string \<times> 'lib reader"
  and entry_readers :: "'lib arrow_host \<Rightarrow> arrow_type \<Rightarrow> (string \<times> 'lib reader) list" where
  "readFromData h TNull = (\<lambda>c i. Inr RNull)"
| "readFromData h TBool = (\<lambda>c i. when_valid h c i (Inr (vec_get h c i)))"
| "readFromData h (TInt bw sg) = (\<lambda>c i. when_valid h c i
     (let v = col_values h (TInt bw sg) c i in if bw = 64 then bigint_value v else Inr (number_value v)))"
| "readFromData h (TFloat p) = (\<lambda>c i. when_valid h c i (Inr (number_value (col_values h (TFloat p) c i))))"
| "readFromData h TUtf8 = (\<lambda>c i. when_valid h c i (Inr (text_value h (vec_get h c i))))"
| "readFromData h TLargeUtf8 = (\<lambda>c i. when_valid h c i (Inr (text_value h (vec_get h c i))))"
| "readFromData h TBinary = (\<lambda>c i. when_valid h c i (Inr (toUint8 (vec_get h c i))))"
| "readFromData h TLargeBinary = (\<lambda>c i. when_valid h c i (Inr (toUint8 (vec_get h c i))))"
| "readFromData h (TFixedSizeBinary n) = (\<lambda>c i. when_valid h c i (Inr (toUint8 (vec_get h c i))))"
| "readFromData h (TDecimal w p s) = (\<lambda>c i. when_valid h c i (Inr (RBig (decimalToBigInt h (dec_width w) c i))))"
| "readFromData h (TDate unit) = (\<lambda>c i. when_valid h c i
     (let v = col_values h (TDate unit) c i in if unit = 0 then Inr (number_value v) else bigint_value v))"
| "readFromData h (TTime unit) = (\<lambda>c i. when_valid h c i
     (let v = col_values h (TTime unit) c i in if time_width unit = 64 then bigint_value v else Inr (number_value v)))"
| "readFromData h (TTimestamp u tz) = (\<lambda>c i. when_valid h c i (bigint_value (col_values h (TTimestamp u tz) c i)))"
| "readFromData h (TDuration u) = (\<lambda>c i. when_valid h c i (bigint_value (col_values h (TDuration u) c i)))"
| "readFromData h (TStruct fs) = (\<lambda>c i. when_valid h c i (readStruct h (map (read_field h) fs) c i))"
| "readFromData h (TUnion mode fs) = (\<lambda>c i. when_valid h c i (readUnion h (TUnion mode fs) (map (read_field h) fs) c i))"
| "readFromData h (TList f) = (\<lambda>c i. when_valid h c i (readList h 0 (snd (read_field h f)) c i))"
| "readFromData h (TFixedSizeList n f) = (\<lambda>c i. when_valid h c i (readList h n (snd (read_field h f)) c i))"
| "readFromData h (TMap f) = (\<lambda>c i. when_valid h c i (readMap h (entry_readers h (f_type f)) c i))"
| "readFromData h (TDictionary d x y) = (\<lambda>c i. when_valid h c i (readDictionary h (readFromData h d) c i))"
| "readFromData h (TInterval u) = (\<lambda>c i. when_valid h c i (Inr (vec_get h c i)))"
| "read_field h (Field n t _ _ _) = (n, readFromData h t)"
| "entry_readers h (TStruct fs) = map (read_field h) fs"
| "entry_readers h _ = []"

text \<open>A batch of columns: the authors' values through the codec, then to column data.\<close>

definition build_column :: "'lib arrow_host \<Rightarrow> arrow_type \<Rightarrow> rich list \<Rightarrow> codec_error + 'lib col_data" where
  "build_column h t vs = rbind (codecFor (to_text h) t) (\<lambda>c. rbind (mapR (richToCanonical c) vs) (writeCanonicalColumn h t))"

end
