(* ===== verification/CodecTypes.thy ===== *)
theory CodecTypes
  imports CodecLaws
begin

text \<open>
  What the codecs of \<open>ArrowCodec\<close> let into a column: whatever an author writes, the canonical value
  is of the column's type.
\<close>

section \<open>What the codecs let through\<close>

text \<open>A \<open>Date\<close> holds no time, or an integral number of milliseconds within the range of dates.\<close>

fun rich_ok :: "rich \<Rightarrow> bool" where
  "rich_ok (RDate ms) = (ms = NaN \<or> (\<exists>i. ms = Fin (of_int i) \<and> \<bar>i\<bar> \<le> MAX_MS))"
| "rich_ok (RArr vs) = list_all rich_ok vs"
| "rich_ok (RSet vs) = list_all rich_ok vs"
| "rich_ok (RMap ps) = list_all (\<lambda>(k, w). rich_ok k \<and> rich_ok w) ps"
| "rich_ok (RObj es) = list_all (\<lambda>(_, w). rich_ok w) es"
| "rich_ok (RView _ (Some es)) = list_all rich_ok es"
| "rich_ok _ = True"

lemma rich_ok_map: "rich_ok (RMap ps) \<Longrightarrow> (k, w) \<in> set ps \<Longrightarrow> rich_ok k \<and> rich_ok w"
  by (auto simp: list_all_iff)

lemma rich_ok_obj: "rich_ok (RObj es) \<Longrightarrow> (k, w) \<in> set es \<Longrightarrow> rich_ok w"
  by (auto simp: list_all_iff)

lemma rich_ok_indexed: "list_all rich_ok vs \<Longrightarrow> (k, w) \<in> set (indexed vs) \<Longrightarrow> rich_ok w"
  by (auto simp: indexed_def list_all_iff dest!: set_zip_rightD)

lemma rich_ok_bytes: "list_all rich_ok (map byte_value bs)"
  by (simp add: list_all_iff byte_value_def)

lemma rich_ok_chars: "list_all rich_ok (map (\<lambda>c. RStr [c]) s)"
  by (simp add: list_all_iff)

lemma rich_ok_elems:
  assumes "rich_ok v" "iter_elems v = Some es" "w \<in> set es"
  shows "rich_ok w"
proof (cases v)
  case (RMap ps)
  with assms(2,3) obtain a b where p: "(a, b) \<in> set ps" "w = RArr [a, b]" by (auto simp: iter_elems_def)
  from rich_ok_map [OF assms(1) [unfolded RMap] p(1)] show ?thesis by (simp add: p(2))
next
  case (RStr s)
  with assms(2) rich_ok_chars [of s] show ?thesis using assms(3) by (auto simp: iter_elems_def)
next
  case (RBytes s)
  with assms(2) rich_ok_bytes [of s] show ?thesis using assms(3) by (auto simp: iter_elems_def byte_value_def)
next
  case (RView bs vs)
  with assms show ?thesis by (cases vs) (auto simp: iter_elems_def list_all_iff)
qed (use assms in \<open>auto simp: iter_elems_def list_all_iff\<close>)

lemma rich_ok_entries:
  assumes "rich_ok v" "(k, w) \<in> set (rich_entries v)"
  shows "rich_ok w"
proof (cases v)
  case (RObj es)
  show ?thesis by (rule rich_ok_obj [OF assms(1) [unfolded RObj] assms(2) [unfolded RObj rich_entries_def rich.case]])
next
  case (RArr vs)
  from assms show ?thesis unfolding RArr rich_entries_def rich.case rich_ok.simps by (rule rich_ok_indexed)
next
  case (RStr s)
  from rich_ok_chars assms(2) show ?thesis unfolding RStr rich_entries_def rich.case by (rule rich_ok_indexed)
next
  case (RBytes s)
  from rich_ok_bytes assms(2) show ?thesis unfolding RBytes rich_entries_def rich.case by (rule rich_ok_indexed)
next
  case (RView bs es)
  show ?thesis
  proof (cases es)
    case None
    then show ?thesis using assms(2) RView by (simp add: rich_entries_def)
  next
    case (Some vs)
    from assms show ?thesis unfolding RView Some rich_entries_def rich.case option.case rich_ok.simps by (rule rich_ok_indexed)
  qed
qed (use assms(2) in \<open>simp_all add: rich_entries_def\<close>)

lemma rich_ok_member: "rich_ok v \<Longrightarrow> rich_ok (rich_member v k)"
  using rich_ok_entries [of v] by (auto simp: rich_member_def split: option.splits rich.splits dest!: map_of_SomeD)

lemma rich_ok_pair: "rich_ok p \<Longrightarrow> pair_of p = Inr (k, w) \<Longrightarrow> rich_ok k \<and> rich_ok w"
  using rich_ok_elems [of p] by (auto simp: pair_of_def split: option.splits list.splits)

lemma rich_ok_pairs:
  assumes "rich_ok v" "toPairs v = Inr ps" "p \<in> set ps"
  shows "rich_ok p"
proof (cases "iter_elems v")
  case None
  with assms obtain a b where "(a, b) \<in> set (rich_entries v)" "p = RArr [RStr a, b]"
    by (auto simp: toPairs_def codec_err_def split: if_splits)
  with rich_ok_entries [OF assms(1)] show ?thesis by simp
next
  case (Some es)
  with assms show ?thesis by (auto simp: toPairs_def intro: rich_ok_elems)
qed

definition yields :: "codec \<Rightarrow> (rich \<Rightarrow> bool) \<Rightarrow> bool" where
  "yields c P \<longleftrightarrow> (\<forall>v w. rich_ok v \<longrightarrow> richToCanonical c v = Inr w \<or> rawToCanonical c v = Inr w \<longrightarrow> P w)"

lemma yieldsI:
  "(\<And>v w. rich_ok v \<Longrightarrow> richToCanonical c v = Inr w \<Longrightarrow> P w) \<Longrightarrow> (\<And>v w. rich_ok v \<Longrightarrow> rawToCanonical c v = Inr w \<Longrightarrow> P w) \<Longrightarrow> yields c P"
  by (auto simp: yields_def)

lemma nullable_yields: "nullable f v = Inr w \<Longrightarrow> w = RNull \<or> (\<not> isNullish v \<and> f v = Inr w)"
  by (auto simp: nullable_def split: if_splits)

lemma identity_yields:
  assumes "P RNull" "\<And>v. \<not> isNullish v \<Longrightarrow> check v = Inr () \<Longrightarrow> P v"
  shows "yields (identity_codec label check) P"
  by (rule yieldsI) (auto simp: identity_codec_def same_codec_def result_simps assms dest!: nullable_yields)

lemma checkInt_yields:
  assumes "checkIntNumber label lo hi v = Inr ()" "\<bar>lo\<bar> \<le> 2 ^ 53" "\<bar>hi\<bar> \<le> 2 ^ 53"
  shows "case v of RNum n \<Rightarrow> is_integer n \<and> in_range lo hi (num_floor n) | RBig b \<Rightarrow> in_range lo hi b | _ \<Rightarrow> False"
proof (cases v)
  case (RNum n)
  show ?thesis
  proof (cases n)
    case (Fin r)
    with assms(1) RNum have i: "r = of_int \<lfloor>r\<rfloor>" by (auto simp: checkIntNumber_def is_integer_def codec_err_def split: if_splits)
    have "\<not> num_lt (Fin (of_int \<lfloor>r\<rfloor>)) (num_of_int lo)" "\<not> num_lt (num_of_int hi) (Fin (of_int \<lfloor>r\<rfloor>))"
      using assms(1) RNum Fin i by (auto simp: checkIntNumber_def codec_err_def split: if_splits)
    then have "in_range lo hi \<lfloor>r\<rfloor>" using assms(2,3) by (simp add: num_lt_int num_lt_int' in_range_def)
    then show ?thesis using RNum Fin i by (simp add: is_integer_def num_floor_def)
  next
    case NegZero
    then show ?thesis using assms RNum
      by (auto simp: checkIntNumber_def codec_err_def is_integer_def num_floor_def in_range_def num_lt_def num_of_int_def split: if_splits)
  qed (use assms(1) RNum in \<open>auto simp: checkIntNumber_def codec_err_def is_integer_def\<close>)
next
  case (RBig b)
  then show ?thesis using assms(1) by (auto simp: checkIntNumber_def codec_err_def in_range_def split: if_splits)
qed (use assms(1) in \<open>auto simp: checkIntNumber_def codec_err_def\<close>)

lemma int_codec_yields: "yields (int_codec bw sg) (canonical_value False (TInt bw sg))"
proof (cases "bw = 64")
  case True
  show ?thesis unfolding int_codec_def if_P [OF True]
    by (cases sg; simp only: if_True if_False; rule identity_yields)
      (auto simp: True canonical_int_def checkBigInt_def in_range_def int_lo_def int_hi_def integral_def codec_err_def result_simps
        split: rich.splits if_splits)
next
  case False
  have c: "int_codec bw sg = identity_codec label (checkIntNumber label lo hi) \<Longrightarrow> lo = int_lo bw sg \<Longrightarrow> hi = int_hi bw sg
      \<Longrightarrow> \<bar>lo\<bar> \<le> 2 ^ 53 \<Longrightarrow> \<bar>hi\<bar> \<le> 2 ^ 53 \<Longrightarrow> ?thesis" for label lo hi
    by (simp only:, rule identity_yields, simp)
      (use False in \<open>auto simp: canonical_int_def integral_def split: rich.splits dest: checkInt_yields\<close>)
  show ?thesis
    using False
    by (cases sg; cases "bw = 8"; cases "bw = 16")
      (rule c, simp add: int_codec_def, simp add: int_lo_def, simp add: int_hi_def, simp, simp)+
qed

lemma pow2_powi: "pow2 k = 2 powi k"
proof (cases "0 \<le> k")
  case True
  show ?thesis unfolding pow2_def power_int_def if_P [OF True] by (rule refl)
next
  case False
  show ?thesis unfolding pow2_def power_int_def if_not_P [OF False] by (simp only: power_inverse divide_inverse mult_1)
qed

lemma pow2_add: "pow2 (j + k) = pow2 j * pow2 k"
  unfolding pow2_powi by (rule power_int_add) simp

lemma pow2_ilog2:
  assumes "0 < a"
  shows "pow2 (ilog2 a) \<le> a"
proof -
  obtain n d where nd: "quotient_of a = (n, d)" by (cases "quotient_of a")
  have d: "0 < d" "a = of_int n / of_int d" using quotient_of_denom_pos [OF nd] quotient_of_div [OF nd] by auto
  with assms have n: "0 < n" by (simp add: zero_less_divide_iff)
  define bn where "bn = bit_length (nat n)"
  define bd where "bd = bit_length (nat d)"
  have b: "0 < bn" "2 ^ (bn - 1) \<le> nat n" "nat d < 2 ^ bd"
    using bit_length_bounds [of "nat n"] bit_length_bounds [of "nat d"] n d(1) by (auto simp: bn_def bd_def)
  have "int (2 ^ (bn - 1)) \<le> n" "d < int (2 ^ bd)" using b(2,3) n d(1) by linarith+
  then have "(of_int (int (2 ^ (bn - 1))) :: rat) \<le> of_int n" "(of_int d :: rat) < of_int (int (2 ^ bd))"
    by (simp_all only: of_int_le_iff of_int_less_iff)
  then have "(2 :: rat) ^ (bn - 1) \<le> of_int n" "(of_int d :: rat) \<le> 2 ^ bd" by simp_all
  moreover have "0 < (of_int d :: rat)" "0 < (of_int n :: rat)" using d(1) n by simp_all
  ultimately have "2 ^ (bn - 1) / 2 ^ bd \<le> (of_int n / of_int d :: rat)" by (intro frac_le) auto
  moreover have "pow2 (int bn - int bd - 1) * 2 ^ bd = 2 ^ (bn - 1)"
  proof -
    have "pow2 (int bn - int bd - 1 + int bd) = pow2 (int bn - int bd - 1) * pow2 (int bd)" by (rule pow2_add)
    moreover have "int bn - int bd - 1 + int bd = int (bn - 1)" using b(1) by linarith
    moreover have "pow2 (int bd) = 2 ^ bd" "pow2 (int (bn - 1)) = 2 ^ (bn - 1)" by (simp_all only: pow2_def of_nat_0_le_iff if_True nat_int)
    ultimately show ?thesis by metis
  qed
  ultimately have "pow2 (int bn - int bd - 1) \<le> a"
    unfolding d(2) by (metis nonzero_mult_div_cancel_right power_not_zero zero_neq_numeral)
  then show ?thesis by (simp add: ilog2_def nd Let_def bn_def bd_def)
qed

lemma round_half_even_le: "of_int (round_half_even x) \<le> x + 1"
  by (auto simp: round_half_even_def Let_def) linarith+

lemma round_double_finite:
  assumes "\<bar>x\<bar> \<le> 2 ^ 60"
  shows "round_double s x = NegZero \<or> (\<exists>r. round_double s x = Fin r)"
proof (cases "x = 0")
  case False
  define a where "a = \<bar>x\<bar>"
  define q where "q = max (ilog2 a) (- 1022) - 52"
  have a: "0 < a" using False by (simp add: a_def)
  have pos: "0 < pow2 k" for k by (simp add: pow2_def)
  have mono: "pow2 j \<le> pow2 k" if "j \<le> k" for j k
  proof -
    have "pow2 k = pow2 j * pow2 (k - j)" using pow2_add [of j "k - j"] by simp
    moreover have "1 \<le> pow2 (k - j)" using that by (simp add: pow2_ge1)
    ultimately show ?thesis using pos [of j] by simp
  qed
  have "pow2 q \<le> a + 1"
  proof (cases "ilog2 a \<le> - 1022")
    case True
    then have "pow2 q \<le> pow2 0" by (intro mono) (simp add: q_def)
    then show ?thesis using a by (simp add: pow2_def)
  next
    case False
    then have "pow2 q \<le> pow2 (ilog2 a)" by (intro mono) (simp add: q_def)
    then show ?thesis using pow2_ilog2 [OF a] by simp
  qed
  moreover have "of_int (round_half_even (a / pow2 q)) * pow2 q \<le> (a / pow2 q + 1) * pow2 q"
    by (intro mult_right_mono round_half_even_le) (simp add: pos less_imp_le)
  moreover have "(a / pow2 q + 1) * pow2 q = a + pow2 q" using pos [of q] by (simp add: distrib_right)
  ultimately have "of_int (round_half_even (a / pow2 q)) * pow2 q \<le> 2 * 2 ^ 60 + 1" using assms unfolding a_def [symmetric] by linarith
  moreover have "2 * 2 ^ 60 + 1 < pow2 1024"
  proof -
    have "(2 :: rat) * 2 ^ 60 + 1 < 2 ^ 62" by simp
    also have "(2 :: rat) ^ 62 = pow2 62" by (simp add: pow2_def)
    also have "pow2 62 \<le> pow2 1024" by (rule mono) simp
    finally show ?thesis .
  qed
  ultimately have "\<not> pow2 1024 \<le> of_int (round_half_even (a / pow2 q)) * pow2 q" by linarith
  then show ?thesis using False unfolding round_double_def Let_def a_def [symmetric] q_def [symmetric] by auto
qed (simp add: round_double_def)

lemma day_number_yields: "day_number label msg n = Inr m \<Longrightarrow> is_integer m"
  by (auto simp: day_number_def codec_err_def split: if_splits)

lemma safe_number_yields: "bigIntToSafeNumber label b = Inr n \<Longrightarrow> is_integer n"
  by (auto simp: bigIntToSafeNumber_def codec_err_def num_of_int_def is_integer_def split: if_splits)

lemma floor_day:
  assumes "\<bar>i\<bar> \<le> MAX_MS"
  shows "is_integer (math_floor (num_div (Fin (of_int i)) MS_PER_DAY))"
proof -
  have "\<bar>of_int i / 86400000 :: rat\<bar> \<le> \<bar>of_int i\<bar>" by (simp add: abs_divide)
  also have "\<dots> \<le> of_int MAX_MS" using assms by (simp only: of_int_abs [symmetric] of_int_le_iff)
  also have "\<dots> \<le> 2 ^ 60" by (simp add: MAX_MS_def)
  finally have b: "\<bar>of_int i / 86400000 :: rat\<bar> \<le> 2 ^ 60" .
  have "num_div (Fin (of_int i)) MS_PER_DAY = round_double (num_sign (Fin (of_int i)) \<noteq> num_sign MS_PER_DAY) (of_int i / 86400000)"
    by (simp add: num_div_def MS_PER_DAY_def num_zero_def)
  with round_double_finite [OF b] have "num_div (Fin (of_int i)) MS_PER_DAY = NegZero \<or> (\<exists>r. num_div (Fin (of_int i)) MS_PER_DAY = Fin r)"
    by metis
  then show ?thesis by (auto simp: is_integer_def math_floor_def)
qed

lemma whole_day:
  assumes "num_eq (num_mod (Fin (of_int i)) MS_PER_DAY) (Fin 0)" "\<bar>i\<bar> \<le> MAX_MS"
  shows "is_integer (num_div (Fin (of_int i)) MS_PER_DAY)"
proof -
  define k where "k = rat_trunc (of_int i / 86400000)"
  have "(of_int i :: rat) - 86400000 * of_int k = 0"
    using assms(1) by (auto simp: num_mod_def MS_PER_DAY_def num_zero_def num_eq_def Let_def k_def split: if_splits)
  then have "(of_int i :: rat) = of_int (k * 86400000)" by simp
  then have i: "i = k * 86400000" by (simp only: of_int_eq_iff)
  then have "\<bar>k\<bar> < 2 ^ 53" using assms(2) by (simp add: MAX_MS_def abs_mult)
  from num_div_mult [OF _ this, of 86400000] show ?thesis by (simp add: i MS_PER_DAY_def is_integer_def)
qed

lemma dateDay_yields: "yields dateDayCodec (canonical_value False (TDate 0))"
proof (rule yieldsI)
  fix v w assume ok: "rich_ok v" and r: "richToCanonical dateDayCodec v = Inr w"
  from r have "w = RNull \<or> dateDay_richToCanonical v = Inr w" by (auto simp: dateDayCodec_def dest!: nullable_yields)
  then show "canonical_value False (TDate 0) w"
  proof
    assume d: "dateDay_richToCanonical v = Inr w"
    show ?thesis
    proof (cases v)
      case (RDate ms)
      with d ok obtain i where i: "ms = Fin (of_int i)" "\<bar>i\<bar> \<le> MAX_MS" by (auto simp: dateDay_richToCanonical_def codec_err_def)
      from d whole_day [OF _ i(2)] floor_day [OF i(2)] show ?thesis
        by (auto simp: dateDay_richToCanonical_def RDate i(1) canonical_number_def integral_def split: if_splits)
    qed (use d in \<open>auto simp: dateDay_richToCanonical_def canonical_number_def integral_def result_simps codec_err_def
      dest: day_number_yields safe_number_yields\<close>)
  qed simp
next
  fix v w assume "rich_ok v" and r: "rawToCanonical dateDayCodec v = Inr w"
  from r have "w = RNull \<or> dateDay_rawToCanonical v = Inr w" by (auto simp: dateDayCodec_def dest!: nullable_yields)
  then show "canonical_value False (TDate 0) w"
    by (cases v) (auto simp: dateDay_rawToCanonical_def canonical_number_def integral_def result_simps codec_err_def
      dest: day_number_yields safe_number_yields)
qed

lemma dateMillis_yields: "u \<noteq> 0 \<Longrightarrow> yields dateMillisCodec (canonical_value False (TDate u))"
  by (rule yieldsI)
    (auto simp: dateMillisCodec_def dateMillis_richToCanonical_def dateMillis_rawToCanonical_def canonical_big_def codec_err_def result_simps
      split: rich.splits if_splits dest!: nullable_yields)

lemma simple_yields:
  "yields time32Codec (\<lambda>v. v = RNull \<or> canonical_number False MAX_UNITS v)"
  "yields (bigIntUnitCodec label) (\<lambda>v. v = RNull \<or> canonical_big v)"
  "yields decimalCodec (\<lambda>v. v = RNull \<or> canonical_big v)"
  "yields (UTF8_CODEC js) (canonical_value False TUtf8)"
  "yields (bytesCodec label None) (canonical_value False TBinary)"
  "yields (bytesCodec label (Some n)) (canonical_value False (TFixedSizeBinary n))"
  "yields NULL_CODEC (canonical_value False TNull)"
  "yields (identity_codec label no_check) (\<lambda>v. v \<noteq> RUndef)"
  "yields BOOL_CODEC (canonical_value False TBool)"
  "yields FLOAT_CODEC (canonical_value False (TFloat p))"
proof -
  show "yields time32Codec (\<lambda>v. v = RNull \<or> canonical_number False MAX_UNITS v)"
    by (rule yieldsI) (auto simp: time32Codec_def time32_toCanon_def canonical_number_def integral_def codec_err_def result_simps
      split: rich.splits if_splits dest!: nullable_yields safe_number_yields)
  show "yields (bigIntUnitCodec label) (\<lambda>v. v = RNull \<or> canonical_big v)"
    by (rule yieldsI) (auto simp: bigIntUnitCodec_def same_codec_def canonical_big_def result_simps dest!: nullable_yields)
  show "yields decimalCodec (\<lambda>v. v = RNull \<or> canonical_big v)"
    by (rule yieldsI) (auto simp: decimalCodec_def same_codec_def decimal_toCanon_def canonical_big_def codec_err_def result_simps
      split: rich.splits dest!: nullable_yields)
  show "yields (UTF8_CODEC js) (canonical_value False TUtf8)"
    by (rule yieldsI) (auto simp: UTF8_CODEC_def utf8_toCanon_def split: rich.splits dest!: nullable_yields)
  show "yields (bytesCodec label None) (canonical_value False TBinary)"
    "yields (bytesCodec label (Some n)) (canonical_value False (TFixedSizeBinary n))"
    by (rule yieldsI; auto simp: bytesCodec_def same_codec_def toCanonBytes_def codec_err_def result_simps
      split: rich.splits if_splits dest!: nullable_yields)+
  show "yields NULL_CODEC (canonical_value False TNull)"
    by (rule yieldsI) (auto simp: NULL_CODEC_def same_codec_def)
  show "yields (identity_codec label no_check) (\<lambda>v. v \<noteq> RUndef)"
    by (rule identity_yields) (auto simp: isNullish_def)
  show "yields BOOL_CODEC (canonical_value False TBool)" "yields FLOAT_CODEC (canonical_value False (TFloat p))"
    unfolding BOOL_CODEC_def FLOAT_CODEC_def
    by (rule identity_yields; auto simp: checkBoolean_def checkFloat_def codec_err_def split: rich.splits)+
qed

lemma yields_on: "yields c P \<Longrightarrow> (\<And>v. P v \<Longrightarrow> Q v) \<Longrightarrow> yields c Q"
  by (auto simp: yields_def)

lemma yields_conv:
  assumes "yields c P" "conv = richToCanonical \<or> conv = rawToCanonical" "rich_ok v" "conv c v = Inr w"
  shows "P w"
  using assms by (auto simp: yields_def)

lemma yields_nullable:
  assumes "\<And>conv v w. conv = richToCanonical \<or> conv = rawToCanonical \<Longrightarrow> rich_ok v \<Longrightarrow> f conv v = Inr w \<Longrightarrow> P w" "P RNull"
    "richToCanonical c = nullable (f richToCanonical)" "rawToCanonical c = nullable (f rawToCanonical)"
  shows "yields c P"
proof (rule yieldsI)
  fix v w assume ok: "rich_ok v" and r: "richToCanonical c v = Inr w"
  from nullable_yields [OF r [unfolded assms(3)]] show "P w"
  proof
    assume "\<not> isNullish v \<and> f richToCanonical v = Inr w"
    with ok show "P w" by (intro assms(1) [of richToCanonical v]) auto
  qed (simp only: assms(2))
next
  fix v w assume ok: "rich_ok v" and r: "rawToCanonical c v = Inr w"
  from nullable_yields [OF r [unfolded assms(4)]] show "P w"
  proof
    assume "\<not> isNullish v \<and> f rawToCanonical v = Inr w"
    with ok show "P w" by (intro assms(1) [of rawToCanonical v]) auto
  qed (simp only: assms(2))
qed

lemma list_yields:
  assumes "yields c P"
  shows "yields (listCodec c) (\<lambda>v. case v of RNull \<Rightarrow> True | RArr vs \<Rightarrow> list_all P vs | _ \<Rightarrow> False)"
proof (rule yields_nullable [where f = "\<lambda>conv. list_conv (conv c)"])
  fix conv v w assume k: "conv = richToCanonical \<or> conv = rawToCanonical" and ok: "rich_ok v" and r: "list_conv (conv c) v = Inr w"
  from r obtain vs ws where w: "iter_elems v = Some vs" "mapR (conv c) vs = Inr ws" "w = RArr ws"
    by (auto simp: list_conv_def toArray_def codec_err_def result_simps split: option.splits)
  have "P x" if "x \<in> set ws" for x
    using mapR_mem [OF w(2) that] rich_ok_elems [OF ok w(1)] yields_conv [OF assms k] by blast
  then show "case w of RNull \<Rightarrow> True | RArr vs \<Rightarrow> list_all P vs | _ \<Rightarrow> False" by (simp add: w(3) list_all_iff)
qed (simp_all add: listCodec_def)

lemma map_yields:
  assumes "yields k P" "yields c Q"
  shows "yields (mapCodec k c) (\<lambda>v. case v of RNull \<Rightarrow> True | RArr ps \<Rightarrow> list_all (good_pair P Q) ps | _ \<Rightarrow> False)"
proof (rule yields_nullable [where f = "\<lambda>conv. map_conv (conv k) (conv c)"])
  fix conv v w assume m: "conv = richToCanonical \<or> conv = rawToCanonical" and ok: "rich_ok v" and r: "map_conv (conv k) (conv c) v = Inr w"
  let ?f = "\<lambda>p. rbind (pair_of p) (\<lambda>(a, b). rbind (conv k a) (\<lambda>a. rbind (conv c b) (\<lambda>b. Inr (RArr [a, b]))))"
  from r obtain ps ws where w: "toPairs v = Inr ps" "mapR ?f ps = Inr ws" "w = RArr ws"
    by (auto simp: map_conv_def result_simps)
  have "good_pair P Q x" if x: "x \<in> set ws" for x
  proof -
    obtain p where p: "p \<in> set ps" "?f p = Inr x" using mapR_mem [OF w(2) x] by blast
    then obtain a b a' b' where q: "pair_of p = Inr (a, b)" "conv k a = Inr a'" "conv c b = Inr b'" "x = RArr [a', b']"
      by (auto simp: result_simps)
    from rich_ok_pair [OF rich_ok_pairs [OF ok w(1) p(1)] q(1)] have "rich_ok a" "rich_ok b" by auto
    with yields_conv [OF assms(1) m _ q(2)] yields_conv [OF assms(2) m _ q(3)] show ?thesis by (simp add: good_pair_def q(4))
  qed
  then show "case w of RNull \<Rightarrow> True | RArr ps \<Rightarrow> list_all (good_pair P Q) ps | _ \<Rightarrow> False" by (simp add: w(3) list_all_iff)
qed (simp_all add: mapCodec_def)

lemma struct_yields:
  assumes l: "list_all2 (\<lambda>c f. fst c = f_name f \<and> yields (snd c) (canonical_field False f)) cs fs" and d: "distinct (map f_name fs)"
  shows "yields (structCodec cs) (canonical_value False (TStruct fs))"
proof (rule yields_nullable [where f = "\<lambda>conv. struct_conv conv cs"])
  fix conv v w assume m: "conv = richToCanonical \<or> conv = rawToCanonical" and ok: "rich_ok v" and r: "struct_conv conv cs v = Inr w"
  let ?f = "\<lambda>(name, c). rbind (conv c (or_null (rich_member v name))) (\<lambda>w. Inr (name, w))"
  from r obtain out where out: "mapR ?f cs = Inr out" "w = RObj (jm_of out)"
    by (auto simp: struct_conv_def codec_err_def result_simps split: if_splits)
  have o: "rich_ok (or_null x)" if "rich_ok x" for x using that by (simp add: or_null_def)
  have "canonical_fields False fs out" using l out(1)
  proof (induction cs fs arbitrary: out rule: list_all2_induct)
    case (Cons c cs f fs)
    obtain n k where c: "c = (n, k)" by (cases c)
    from Cons.prems obtain x rest where x: "conv (snd c) (or_null (rich_member v (fst c))) = Inr x" "mapR ?f cs = Inr rest" "out = (fst c, x) # rest"
      unfolding c mapR.simps by (auto simp: result_simps split: sum.splits)
    with Cons have "canonical_field False f x" using yields_conv [OF _ m _ x(1)] rich_ok_member [OF ok] o by blast
    with Cons x(2,3) show ?case by simp
  qed simp
  moreover have "map fst out = map f_name fs"
  proof -
    have "map fst out = map fst cs" using out(1)
    proof (induction cs arbitrary: out)
      case (Cons c cs)
      obtain n k where c: "c = (n, k)" by (cases c)
      from Cons show ?case unfolding c mapR.simps by (auto simp: result_simps split: sum.splits)
    qed simp
    also have "\<dots> = map f_name fs" using l by (auto simp: list_all2_conv_all_nth intro: nth_equalityI)
    finally show ?thesis .
  qed
  ultimately show "canonical_value False (TStruct fs) w" using d by (simp add: out(2) jm_of_distinct)
qed (simp_all add: structCodec_def)

lemma codec_yields:
  "codecFor js t = Inr c \<Longrightarrow> names_ok t \<Longrightarrow> yields c (canonical_value False t)"
  "fieldCodec js f = Inr nc \<Longrightarrow> field_ok f \<Longrightarrow> fst nc = f_name f \<and> yields (snd nc) (canonical_field False f)"
  "fieldCodecs js fs = Inr cs \<Longrightarrow> list_all field_ok fs \<Longrightarrow>
     list_all2 (\<lambda>c f. fst c = f_name f \<and> yields (snd c) (canonical_field False f)) cs fs"
  "entryCodecs js f' = Inr cs' \<Longrightarrow> field_ok f' \<Longrightarrow> cs' = [] \<or> (\<exists>k w g h. cs' = [k, w] \<and> yields (snd k) g \<and>
     yields (snd w) h \<and> canonical_pair False f' = good_pair g h)"
proof (induction js t and js f and js fs and js f' arbitrary: c and nc and cs and cs' rule: codecFor_fieldCodec_fieldCodecs_entryCodecs.induct)
  case (3 js bw sg)
  then show ?case using int_codec_yields [of bw sg] by (simp del: canonical_value.simps)
next
  case (11 js u)
  then show ?case using dateDay_yields dateMillis_yields [of u] by (auto simp del: canonical_value.simps)
next
  case (12 js u)
  then show ?case using simple_yields(1,2) by (auto elim: yields_on)
next
  case (15 js fs)
  then obtain cs where cs: "fieldCodecs js fs = Inr cs" "c = structCodec cs" by (auto simp: result_simps)
  with 15 show ?case using struct_yields [of cs fs] by (simp del: canonical_value.simps)
next
  case (17 js f)
  then obtain nc where nc: "fieldCodec js f = Inr nc" "c = listCodec (snd nc)" by (auto simp: result_simps)
  with 17 show ?case using list_yields [of "snd nc" "canonical_field False f"] by (auto elim: yields_on)
next
  case (18 js n f)
  then obtain nc where nc: "fieldCodec js f = Inr nc" "c = listCodec (snd nc)" by (auto simp: result_simps)
  with 18 show ?case using list_yields [of "snd nc" "canonical_field False f"] by (auto elim: yields_on)
next
  case (19 js f)
  then obtain cs where cs: "entryCodecs js f = Inr cs" by (auto simp: result_simps)
  with 19 obtain k w g h where m: "cs = [k, w]" "c = mapCodec (snd k) (snd w)" "yields (snd k) g"
      "yields (snd w) h" "canonical_pair False f = good_pair g h"
    by (auto simp: result_simps split: list.splits)
  show ?case unfolding m(2) by (rule yields_on [OF map_yields [OF m(3,4)]]) (auto simp: m(5) split: rich.splits)
next
  case (20 js d i ordered)
  then obtain inner where i: "codecFor js d = Inr inner" "c = dictionaryCodec inner" by (auto simp: result_simps)
  with 20 show ?case by (simp add: yields_def dictionaryCodec_def)
next
  case (22 js n t a b d)
  then show ?case by (auto simp: result_simps elim: yields_on)
next
  case (24 js f fs)
  then show ?case by (auto simp: result_simps)
next
  case (25 js n k w ws a b d)
  then obtain k' w' where c: "fieldCodec js k = Inr k'" "fieldCodec js w = Inr w'" "cs' = [k', w']" by (auto simp: result_simps)
  with 25 have "yields (snd k') (canonical_field False k)" "yields (snd w') (canonical_field False w)" by auto
  moreover have "canonical_pair False (Field n (TStruct (k # w # ws)) a b d) = good_pair (canonical_field False k) (canonical_field False w)"
    by (auto simp: fun_eq_iff good_pair_def)
  ultimately show ?case using c(3) by blast
next
  case (6 js)
  then show ?case using simple_yields(4) [of js] by (auto simp: yields_def)
next
  case (4 js p)
  then show ?case using simple_yields(10) [of p] by (simp del: canonical_value.simps)
next
  case (9 js n)
  then have "c = bytesCodec ''fixedSizeBinary'' (Some n)" by simp
  then show ?case using simple_yields(6) by (simp only:)
next
  case (8 js)
  then show ?case using simple_yields(5) [of "''binary''"] by (auto simp: yields_def)
next
  case (13 js u tz)
  then show ?case using simple_yields(2) [of "''timestamp''"] by (auto simp: yields_def)
next
  case (14 js u)
  then show ?case using simple_yields(2) [of "''duration''"] by (auto simp: yields_def)
next
  case (16 js u fs)
  then show ?case using simple_yields(8) [of "''union''"] by (auto simp: yields_def)
next
  case (21 js u)
  then show ?case using simple_yields(8) [of "''interval''"] by (auto simp: yields_def)
qed (use simple_yields in \<open>auto elim: yields_on\<close>)

section \<open>Properties\<close>

text \<open>
  C26: a column receives values of its type.  Whatever the author hands a column (a rich or a branded raw
  value, of any shape), the codec of the column's type either refuses it or gives a value of that type's
  canonical form: a null, or a boolean, an integer in the range of its width and signedness, a string, bytes of
  the declared length, an integral day or time number, a struct with exactly the declared members in order, a
  list or a map of such values.
\<close>

theorem codec_admits_only_the_type:
  assumes "codecFor js t = Inr c" "names_ok t" "rich_ok v"
    and "richToCanonical c v = Inr w \<or> rawToCanonical c v = Inr w"
  shows "canonical_value False t w"
  using codec_yields(1) [OF assms(1,2)] assms(3,4) by (auto simp: yields_def)

definition sample_type :: arrow_type where
  "sample_type = TStruct [Field ''d'' (TDate 0) True [] [], Field ''xs'' (TList (Field ''item'' (TInt 8 True) True [] [])) True [] []]"

definition sample_codec :: codec where
  "sample_codec = structCodec [(''d'', dateDayCodec), (''xs'', listCodec (int_codec 8 True))]"

definition sample_rich :: rich where
  "sample_rich = RObj [(''d'', RDate (Fin 172800000)), (''xs'', RArr [RNum (Fin 5), RUndef])]"

definition sample_canonical :: rich where
  "sample_canonical = RObj [(''d'', RNum (Fin 2)), (''xs'', RArr [RNum (Fin 5), RNull])]"

lemma sample_codecFor: "codecFor (\<lambda>_. []) sample_type = Inr sample_codec"
  by (simp add: sample_type_def sample_codec_def)

lemma sample_names: "names_ok sample_type"
  by (simp add: sample_type_def)

lemma sample_to_canonical: "richToCanonical sample_codec sample_rich = Inr sample_canonical"
  by code_simp

lemma codec_admits_only_the_type_witness: "canonical_value False sample_type sample_canonical"
proof (rule codec_admits_only_the_type [OF sample_codecFor sample_names])
  have "\<exists>i. Fin 172800000 = Fin (of_int i) \<and> \<bar>i\<bar> \<le> MAX_MS" by (rule exI [of _ 172800000]) (simp add: MAX_MS_def)
  then show "rich_ok sample_rich" by (simp add: sample_rich_def)
  show "richToCanonical sample_codec sample_rich = Inr sample_canonical \<or> rawToCanonical sample_codec sample_rich = Inr sample_canonical"
    by (simp add: sample_to_canonical)
qed

text \<open>
  C25: the canonical pivot is lossless.  A canonical value of any type, composites of any depth included, becomes
  its rich form (the value itself, with the days and milliseconds of dates turned into a \<open>Date\<close>) and that rich form
  becomes the very same canonical value again; to raw and back it does not change at all.
\<close>

theorem codec_canonical_roundtrip:
  assumes "codecFor js t = Inr c" "names_ok t" "canonical_value True t v"
  shows "canonicalToRich c v = Inr (rich_of t v) \<and> richToCanonical c (rich_of t v) = Inr v
    \<and> canonicalToRaw c v = Inr v \<and> rawToCanonical c v = Inr v"
proof -
  note l = codec_lossless(1) [OF assms(1,2)]
  show ?thesis using assms(3) by (simp add: lossless_codec.to_rich [OF l] lossless_codec.from_rich [OF l]
    lossless_codec.to_raw [OF l] lossless_codec.from_raw [OF l])
qed

lemma codec_canonical_roundtrip_witness:
  "canonicalToRich sample_codec sample_canonical = Inr (rich_of sample_type sample_canonical) \<and>
   richToCanonical sample_codec (rich_of sample_type sample_canonical) = Inr sample_canonical"
proof -
  have "canonical_value True sample_type sample_canonical" by code_simp
  from codec_canonical_roundtrip [OF sample_codecFor sample_names this] show ?thesis by blast
qed

text \<open>
  The table at the head of the registry gives a bigint for every 64-bit integer and a number for the narrower
  ones; the integer codecs let either through as it is.
\<close>

lemma int_codec_keeps_representation:
  "richToCanonical (int_codec 64 True) (RNum (Fin 5)) = Inr (RNum (Fin 5)) \<and> \<not> canonical_value True (TInt 64 True) (RNum (Fin 5))"
  "richToCanonical (int_codec 8 True) (RBig 5) = Inr (RBig 5) \<and> \<not> canonical_value True (TInt 8 True) (RBig 5)"
  by code_simp+

end
