(* ===== verification/ColumnLaws.thy ===== *)
theory ColumnLaws
  imports ArrowColumns CodecTypes
begin

text \<open>
  The columns of \<open>ArrowColumns\<close> hold what is written to them: validity bits, offsets, value slots
  and flattened children read back as the canonical values of the rows.
\<close>

section \<open>Validity\<close>

lemma length_mark_valid [simp]: "length (mark_valid i vs bm) = length bm"
  by (induction i vs bm rule: mark_valid.induct) simp_all

lemma bit_one_at: "m < 8 \<Longrightarrow> bit (2 ^ k :: 8 word) m \<longleftrightarrow> k = m"
  by (auto simp: bit_exp_iff possible_bit_word)

lemma mark_one_bit:
  fixes bm :: bytes
  assumes "i < 8 * length bm" "j < 8 * length bm"
  shows "bit (bm[i div 8 := bm ! (i div 8) OR push_bit (i mod 8) 1] ! (j div 8)) (j mod 8) \<longleftrightarrow>
    bit (bm ! (j div 8)) (j mod 8) \<or> j = (i :: nat)"
proof (cases "i div 8 = j div 8")
  case True
  have "j div 8 < length bm" using assms(2) by (simp add: less_mult_imp_div_less mult.commute)
  moreover have "i mod 8 = j mod 8 \<longleftrightarrow> j = i" using True by (metis mod_div_mult_eq)
  ultimately show ?thesis by (simp add: True bit_or_iff bit_one_at)
next
  case False
  then show ?thesis by auto
qed

lemma mark_valid_bit:
  assumes "i + length vs \<le> 8 * length bm" "j < 8 * length bm"
  shows "bit (mark_valid i vs bm ! (j div 8)) (j mod 8) \<longleftrightarrow>
    bit (bm ! (j div 8)) (j mod 8) \<or> (i \<le> j \<and> j < i + length vs \<and> \<not> isNullish (vs ! (j - i)))"
  using assms
proof (induction vs arbitrary: i bm)
  case Nil
  then show ?case by auto
next
  case (Cons v vs)
  define bm' where "bm' = (if isNullish v then bm else bm[i div 8 := bm ! (i div 8) OR push_bit (i mod 8) 1])"
  have "bit (bm' ! (j div 8)) (j mod 8) \<longleftrightarrow> bit (bm ! (j div 8)) (j mod 8) \<or> (j = i \<and> \<not> isNullish v)"
    using mark_one_bit [of i bm j] Cons.prems by (auto simp: bm'_def)
  moreover have "bit (mark_valid (Suc i) vs bm' ! (j div 8)) (j mod 8) \<longleftrightarrow>
      bit (bm' ! (j div 8)) (j mod 8) \<or> (Suc i \<le> j \<and> j < Suc i + length vs \<and> \<not> isNullish (vs ! (j - Suc i)))"
    using Cons.prems by (intro Cons.IH) (simp_all add: bm'_def)
  moreover have "(v # vs) ! (j - i) = (if j = i then v else vs ! (j - Suc i))" if "i \<le> j"
    using that by (cases "j = i") (simp_all add: nth_Cons' Suc_diff_Suc)
  moreover have "mark_valid i (v # vs) bm = mark_valid (Suc i) vs bm'" by (simp add: bm'_def)
  ultimately show ?case by (auto simp: Suc_le_eq split: if_splits)
qed

lemma bitmap_valid:
  assumes "i < length vs"
  shows "col_valid h (Data t n k (null_bitmap vs) buf os cs) i \<longleftrightarrow> \<not> isNullish (vs ! i)"
proof (cases "0 < null_count vs")
  case False
  with assms have "\<not> isNullish (vs ! i)" by (simp add: null_count_def filter_empty_conv)
  with False show ?thesis by (simp add: col_valid_def null_bitmap_def)
next
  case True
  define bm where "bm = mark_valid 0 vs (replicate ((length vs + 7) div 8) 0)"
  have l: "length bm = (length vs + 7) div 8" by (simp add: bm_def)
  have le: "length vs \<le> 8 * ((length vs + 7) div 8)" by presburger
  then have i: "i < 8 * length bm" "i div 8 < length bm" using assms by (simp_all add: l less_mult_imp_div_less mult.commute)
  then have "bit (bm ! (i div 8)) (i mod 8) \<longleftrightarrow> \<not> isNullish (vs ! i)"
    using mark_valid_bit [of 0 vs "replicate ((length vs + 7) div 8) 0" i] le assms
    by (simp add: bm_def del: mark_valid.simps)
  moreover have "0 < length bm" using i by linarith
  ultimately show ?thesis
    using True i(2) by (simp add: col_valid_def null_bitmap_def bm_def [symmetric] bit_iff_and_drop_bit_eq_1)
qed

section \<open>Slots of a fixed width\<close>

lemma concat_slots:
  assumes "list_all (\<lambda>b. length b = w) bs" "i < length bs"
  shows "take w (drop (w * i) (concat bs)) = bs ! i" "w * i + w \<le> length (concat bs)"
proof -
  have "take w (drop (w * i) (concat bs)) = bs ! i \<and> w * i + w \<le> length (concat bs)"
    using assms
  proof (induction bs arbitrary: i)
    case (Cons b bs)
    then show ?case by (cases i) auto
  qed simp
  then show "take w (drop (w * i) (concat bs)) = bs ! i" "w * i + w \<le> length (concat bs)" by auto
qed

lemma s32_id: "- (2 ^ 31) \<le> i \<Longrightarrow> i < 2 ^ 31 \<Longrightarrow> s32 i = i"
  by (simp add: s32_def)

lemma s32_wrap: "- (2 ^ 31) \<le> i \<Longrightarrow> i < 2 ^ 31 \<Longrightarrow> s32 (i mod 2 ^ 32) = i"
proof -
  assume b: "- (2 ^ 31) \<le> i" "i < 2 ^ 31"
  have "s32 (i mod 2 ^ 32) = (i + 2 ^ 31) mod 2 ^ 32 - 2 ^ 31" unfolding s32_def by (simp add: mod_add_left_eq)
  then show ?thesis using s32_id [OF b] by (simp add: s32_def)
qed

lemma int32_round:
  assumes "- (2 ^ 31) \<le> d" "d < 2 ^ 31"
  shows "s32 (int (le_nat (le_bytes 4 (to_int32 (Fin (of_int d)))))) = d"
proof -
  have t: "rat_trunc (of_int d) = d" by (simp add: rat_trunc_def)
  have "nat (d mod 2 ^ 32) < 2 ^ 32" by (simp add: nat_less_iff)
  then have "int (le_nat (le_bytes 4 (nat (d mod 2 ^ 32)))) = d mod 2 ^ 32"
    by (simp add: le_nat_le_bytes)
  then show ?thesis using s32_wrap [OF assms] by (simp add: to_int32_def t)
qed

section \<open>Offsets and spans\<close>

lemma running_nth: "i \<le> length rows \<Longrightarrow> running n rows ! i = n + length (concat (take i rows))"
proof (induction n rows arbitrary: i rule: running.induct)
  case (2 n r rs)
  then show ?case by (cases i) auto
qed simp

lemma length_running [simp]: "length (running n rows) = Suc (length rows)"
  by (induction n rows rule: running.induct) auto

lemma concat_span:
  assumes "i < length rows"
  shows "map ((!) (concat rows)) [length (concat (take i rows))..<length (concat (take (Suc i) rows))] = rows ! i"
proof (rule nth_equalityI)
  have t: "take (Suc i) rows = take i rows @ [rows ! i]" using assms by (simp add: take_Suc_conv_app_nth)
  then show l: "length (map ((!) (concat rows)) [length (concat (take i rows))..<length (concat (take (Suc i) rows))]) = length (rows ! i)"
    by simp
  fix k assume "k < length (map ((!) (concat rows)) [length (concat (take i rows))..<length (concat (take (Suc i) rows))])"
  then have k: "k < length (rows ! i)" using l by simp
  have "concat rows = concat (take i rows) @ rows ! i @ concat (drop (Suc i) rows)"
    using assms by (metis concat.simps(2) concat_append id_take_nth_drop)
  then show "map ((!) (concat rows)) [length (concat (take i rows))..<length (concat (take (Suc i) rows))] ! k = rows ! i ! k"
    using k t by (simp add: nth_append)
qed

lemma offsets_span:
  assumes "i < length rows" "length (concat rows) < 2 ^ 31"
  shows "map nat [offsets_of rows ! i..offsets_of rows ! Suc i - 1] =
    [length (concat (take i rows))..<length (concat (take (Suc i) rows))]"
proof -
  have b: "length (concat (take k rows)) \<le> length (concat rows)" for k
    by (metis append_take_drop_id concat_append le_add1 length_append)
  have o: "offsets_of rows ! k = int (length (concat (take k rows)))" if "k \<le> length rows" for k
  proof -
    have "length (concat (take k rows)) < 2 ^ 31" using b [of k] assms(2) by (rule le_less_trans)
    then have "int (length (concat (take k rows))) < int (2 ^ 31)" by (simp only: of_nat_less_iff)
    then have "int (length (concat (take k rows))) < 2 ^ 31" by simp
    then show ?thesis using that by (simp add: offsets_of_def running_nth s32_id del: length_concat)
  qed
  have "map nat [int a..int c - 1] = [a..<c]" for a c
  proof (rule nth_equalityI)
    fix k assume "k < length (map nat [int a..int c - 1])"
    then show "map nat [int a..int c - 1] ! k = [a..<c] ! k" by (simp add: nth_upto)
  qed simp
  then show ?thesis using o [of i] o [of "Suc i"] assms(1) by (simp del: length_concat)
qed

section \<open>Decimals\<close>

lemma push_or: "push_bit 8 (int n) OR int (unat (b :: byte)) = int (unat b + 256 * n)"
proof -
  have "push_bit 8 (int n) + int (unat b) = push_bit 8 (int n) OR int (unat b)"
    by (intro disjunctive_add) (auto simp: bit_push_bit_iff bit_uint_iff dest: bit_imp_le_length)
  moreover have "push_bit 8 (int n) = 256 * int n" by (simp add: push_bit_eq_mult)
  ultimately show ?thesis by (metis add.commute of_nat_add of_nat_mult of_nat_numeral)
qed

lemma fold_le: "foldl (\<lambda>bi b. push_bit 8 bi OR int (unat b)) 0 (rev u8) = int (le_nat u8)"
proof (induction u8)
  case (Cons b u8)
  show ?case unfolding rev.simps foldl_append foldl.simps Cons.IH push_or le_nat.simps by (rule refl)
qed simp

lemma dec_loop_le: "0 \<le> v \<Longrightarrow> dec_loop k v = le_bytes k (nat v)"
proof (induction k arbitrary: v)
  case (Suc k)
  have a: "v AND 255 = v mod 256" using take_bit_eq_mask [of 8 v] by (simp add: take_bit_eq_mod mask_eq_exp_minus_1)
  have d: "drop_bit 8 v = v div 256" by (simp add: drop_bit_eq_div)
  have "word_of_int (v mod 256) = (word_of_nat (nat v mod 256) :: 8 word)"
  proof -
    have "v mod 256 = int (nat v mod 256)" using Suc.prems by (simp add: zmod_int)
    then show ?thesis by (simp only: of_int_of_nat_eq)
  qed
  moreover have "nat (v div 256) = nat v div 256" using Suc.prems by (simp add: nat_div_distrib)
  ultimately show ?case using Suc by (simp add: a d)
qed simp

lemma le_nat_append: "le_nat (bs @ cs) = le_nat bs + 256 ^ length bs * le_nat cs"
  by (induction bs) (simp_all add: algebra_simps)

lemma high_bit: "b AND 0x80 \<noteq> 0 \<longleftrightarrow> 128 \<le> unat (b :: byte)"
proof -
  have "b AND 2 ^ 7 = 0 \<longleftrightarrow> \<not> bit b 7" by (rule and_exp_eq_0_iff_not_bit)
  moreover have "bit b 7 \<longleftrightarrow> bit (unat b) 7" by (simp add: bit_unsigned_iff)
  moreover have "bit (unat b) 7 \<longleftrightarrow> 128 \<le> unat b"
  proof -
    have "odd (x div 128) \<longleftrightarrow> 128 \<le> x" if "x < 256" for x :: nat
    proof -
      have "x div 128 < 2" using that by (simp add: less_mult_imp_div_less)
      then have "x div 128 = 0 \<or> x div 128 = 1" by linarith
      moreover have "0 < x div 128 \<longleftrightarrow> 128 \<le> x" by (simp add: div_greater_zero_iff)
      ultimately show ?thesis by auto
    qed
    then show ?thesis using byte_bound [of b] by (simp add: bit_iff_odd)
  qed
  ultimately show ?thesis by simp
qed

lemma decimal_sign:
  assumes "u8 \<noteq> []"
  shows "last u8 AND 0x80 \<noteq> 0 \<longleftrightarrow> 2 ^ (8 * length u8 - 1) \<le> le_nat u8"
proof -
  obtain init b where u: "u8 = init @ [b]" using assms by (metis append_butlast_last_id)
  have p: "(2 :: nat) ^ (8 * length u8 - 1) = 256 ^ length init * 128"
    by (simp add: u power_add power_mult)
  have lt: "le_nat init < 256 ^ length init" by (rule le_nat_bound)
  have "256 ^ length init * 128 \<le> le_nat u8 \<longleftrightarrow> 128 \<le> unat b"
  proof
    assume "128 \<le> unat b"
    then have "256 ^ length init * 128 \<le> 256 ^ length init * unat b" by (intro mult_left_mono) auto
    then show "256 ^ length init * 128 \<le> le_nat u8" unfolding u le_nat_append by (simp add: trans_le_add2)
  next
    assume a: "256 ^ length init * 128 \<le> le_nat u8"
    show "128 \<le> unat b"
    proof (rule ccontr)
      assume "\<not> 128 \<le> unat b"
      then have "256 ^ length init * (unat b + 1) \<le> 256 ^ length init * 128" by (intro mult_left_mono) auto
      moreover have "le_nat u8 = le_nat init + 256 ^ length init * unat b" by (simp add: u le_nat_append)
      moreover have "256 ^ length init * (unat b + 1) = 256 ^ length init * unat b + 256 ^ length init" by simp
      ultimately show False using lt a by linarith
    qed
  qed
  then show ?thesis unfolding p high_bit by (simp add: u)
qed

lemma decimal_value:
  assumes "u8 \<noteq> []"
  shows "decimalBytesToBigInt u8 = (if 2 ^ (8 * length u8 - 1) \<le> le_nat u8 then int (le_nat u8) - 2 ^ (8 * length u8) else int (le_nat u8))"
  using decimal_sign [OF assms] assms unfolding decimalBytesToBigInt_def fold_le Let_def by (simp add: mult.commute)

definition decimal_fits :: "nat \<Rightarrow> int \<Rightarrow> bool" where
  "decimal_fits w b \<longleftrightarrow> - (2 ^ (8 * w - 1)) \<le> b \<and> b < 2 ^ (8 * w - 1)"

lemma decimal_round:
  assumes "0 < w" "decimal_fits w b"
  shows "decimalBytesToBigInt (bigIntToDecimalBytes b w) = b" "length (bigIntToDecimalBytes b w) = w"
proof -
  define v where "v = (if b < 0 then 2 ^ (w * 8) + b else b)"
  define H :: int where "H = 2 ^ (8 * w - 1)"
  have T: "(2 :: int) ^ (w * 8) = 2 * H" using assms(1) unfolding H_def by (metis mult.commute mult_pos_pos power_eq_if zero_less_numeral neq0_conv)
  have b: "- H \<le> b" "b < H" using assms(2) by (simp_all add: decimal_fits_def H_def)
  have v: "0 \<le> v" "v < 2 ^ (w * 8)" using b T by (auto simp: v_def)
  have bytes: "bigIntToDecimalBytes b w = le_bytes w (nat v)"
    by (simp add: bigIntToDecimalBytes_def v_def [symmetric] dec_loop_le v(1))
  then show l: "length (bigIntToDecimalBytes b w) = w" by simp
  have "nat v < 256 ^ w"
  proof -
    have "(256 :: int) ^ w = 2 ^ (w * 8)" by (simp add: power_mult mult.commute [of w])
    then show ?thesis using v by (simp add: nat_less_iff)
  qed
  then have n: "le_nat (bigIntToDecimalBytes b w) = nat v" by (simp add: bytes le_nat_le_bytes)
  have "2 ^ (8 * w - 1) \<le> nat v \<longleftrightarrow> H \<le> v" using v(1) by (simp add: H_def nat_le_iff le_nat_iff)
  moreover have "H \<le> v \<longleftrightarrow> b < 0" using b T by (auto simp: v_def)
  moreover have "bigIntToDecimalBytes b w \<noteq> []" using l assms(1) by auto
  moreover have "(2 :: int) ^ (8 * w) = 2 ^ (w * 8)" by (simp add: mult.commute)
  ultimately show "decimalBytesToBigInt (bigIntToDecimalBytes b w) = b"
    using v(1) by (auto simp: decimal_value l n v_def)
qed

lemma words_back:
  assumes "length bs = 4 * k"
  shows "concat (map (\<lambda>j. le_bytes 4 (le_nat (take 4 (drop (4 * j) bs)))) [0..<k]) = bs"
  using assms
proof (induction k arbitrary: bs)
  case (Suc k)
  have "map (\<lambda>j. le_bytes 4 (le_nat (take 4 (drop (4 * j) bs)))) [0..<Suc k] =
      le_bytes 4 (le_nat (take 4 bs)) # map (\<lambda>j. le_bytes 4 (le_nat (take 4 (drop (4 * j) (drop 4 bs))))) [0..<k]"
  proof -
    have "[0..<Suc k] = 0 # map Suc [0..<k]" by (simp add: upt_conv_Cons map_Suc_upt del: upt_Suc)
    then show ?thesis by (simp add: add.commute del: upt_Suc)
  qed
  moreover have "le_bytes 4 (le_nat (take 4 bs)) = take 4 bs" using Suc.prems by (intro le_bytes_le_nat) simp
  moreover have "concat (map (\<lambda>j. le_bytes 4 (le_nat (take 4 (drop (4 * j) (drop 4 bs))))) [0..<k]) = drop 4 bs"
    using Suc.prems by (intro Suc.IH) simp
  ultimately show ?case by simp
qed simp

section \<open>What fits a column\<close>

text \<open>The types the arrow-js writer lays out by itself and those it hands to the library.\<close>

fun plain :: "arrow_type \<Rightarrow> bool" where
  "plain TNull = True" | "plain TBool = True" | "plain (TFloat _) = True" | "plain TUtf8 = True" | "plain TLargeUtf8 = True"
| "plain TBinary = True" | "plain TLargeBinary = True" | "plain (TFixedSizeBinary _) = True" | "plain (TInt bw _) = (bw \<noteq> 64)"
| "plain _ = False"

text \<open>
  No dictionaries, unions or intervals; decimals of whole 32-bit words; struct fields of distinct names
  none of which is the decimal index of another one.
\<close>

fun column_type :: "arrow_type \<Rightarrow> bool"
  and column_field :: "arrow_field \<Rightarrow> bool"
  and column_entries :: "arrow_type \<Rightarrow> bool" where
  "column_type (TStruct fs) = (distinct (map f_name fs) \<and> list_all column_field fs \<and>
     list_all (\<lambda>c. list_all (\<lambda>j. j = c \<or> f_name (fs ! j) \<noteq> nat_to_string c) [0..<length fs]) [0..<length fs])"
| "column_type (TList f) = column_field f"
| "column_type (TFixedSizeList _ f) = column_field f"
| "column_type (TMap f) = column_entries (f_type f)"
| "column_type (TDecimal w _ _) = (0 < dec_width w \<and> dec_width w mod 4 = 0)"
| "column_type (TDictionary _ _ _) = False"
| "column_type (TUnion _ _) = False"
| "column_type (TInterval _) = False"
| "column_type _ = True"
| "column_field (Field _ t _ _ _) = column_type t"
| "column_entries (TStruct (k # w # fs)) = (column_field k \<and> column_field w)"
| "column_entries _ = False"

definition int_of :: "rich \<Rightarrow> int" where
  "int_of v = (case v of RBig b \<Rightarrow> b | RNum n \<Rightarrow> num_floor n | _ \<Rightarrow> 0)"

text \<open>A value fits the slots of its type: the width of integers and decimals, the double of a float column.\<close>

definition value_fits :: "arrow_type \<Rightarrow> rich \<Rightarrow> bool" where
  "value_fits t v = (v = RNull \<or> (case t of
     TFloat p \<Rightarrow> p = 2
   | TDecimal w _ _ \<Rightarrow> decimal_fits (dec_width w) (int_of v)
   | _ \<Rightarrow> (case temporal_width t of
       Some w \<Rightarrow> - (2 ^ (w - 1)) \<le> int_of v \<and> int_of v < 2 ^ (w - 1) | None \<Rightarrow> True)))"

definition fixed_items :: "nat \<Rightarrow> rich \<Rightarrow> rich list" where
  "fixed_items n v = (case v of RArr vs \<Rightarrow> vs | _ \<Rightarrow> replicate n RNull)"

definition pair_items :: "rich \<Rightarrow> (rich \<times> rich) list" where
  "pair_items v = (case v of RArr ps \<Rightarrow> List.map_filter (\<lambda>p. case p of RArr [a, b] \<Rightarrow> Some (a, b) | _ \<Rightarrow> None) ps | _ \<Rightarrow> [])"

text \<open>A column fits when its values do, lists of fixed size have it, and no level holds \<open>2 ^ 31\<close> items.\<close>

fun fits_column :: "arrow_type \<Rightarrow> rich list \<Rightarrow> bool"
  and fits_field :: "arrow_field \<Rightarrow> rich list \<Rightarrow> bool"
  and fits_fields :: "nat \<Rightarrow> arrow_field list \<Rightarrow> rich list \<Rightarrow> bool"
  and fits_entries :: "arrow_type \<Rightarrow> (rich \<times> rich) list \<Rightarrow> bool" where
  "fits_column (TList f) vs = (length (concat (map list_row vs)) < 2 ^ 31 \<and> fits_field f (concat (map list_row vs)))"
| "fits_column (TFixedSizeList n f) vs = (list_all (\<lambda>v. length (fixed_items n v) = n) vs \<and> fits_field f (concat (map (fixed_items n) vs)))"
| "fits_column (TMap f) vs = (length (concat (map pair_items vs)) < 2 ^ 31 \<and> fits_entries (f_type f) (concat (map pair_items vs)))"
| "fits_column (TStruct fs) vs = fits_fields 0 fs vs"
| "fits_column t vs = list_all (value_fits t) vs"
| "fits_field (Field _ t _ _ _) vs = fits_column t vs"
| "fits_fields c [] vs = True"
| "fits_fields c (f # fs) vs = (fits_field f (map (struct_slot (f_name f) c) vs) \<and> fits_fields (Suc c) fs vs)"
| "fits_entries (TStruct (k # w # fs)) ps = (fits_field k (map fst ps) \<and> fits_field w (map snd ps))"
| "fits_entries _ ps = False"

text \<open>What the library promises of the columns it builds.\<close>

definition number_type :: "arrow_type \<Rightarrow> bool" where
  "number_type t = (case t of TInt _ _ \<Rightarrow> True | TFloat _ \<Rightarrow> True | _ \<Rightarrow> False)"

definition lib_laws :: "'lib arrow_host \<Rightarrow> bool" where
  "lib_laws h \<longleftrightarrow> (\<forall>t vs i. plain t \<longrightarrow> list_all (canonical_value True t) vs \<longrightarrow> list_all (value_fits t) vs \<longrightarrow> i < length vs \<longrightarrow>
     lib_valid h (vectorFromArray h t vs) i = (vs ! i \<noteq> RNull) \<and>
     (vs ! i \<noteq> RNull \<longrightarrow> (if number_type t then lib_values h (vectorFromArray h t vs) i = vs ! i
        else vec_get h (Lib (vectorFromArray h t vs)) i = vs ! i)))"

section \<open>Columns of single values\<close>

definition holds :: "'lib arrow_host \<Rightarrow> arrow_type \<Rightarrow> rich list \<Rightarrow> 'lib col_data \<Rightarrow> bool" where
  "holds h t vs c \<longleftrightarrow> (\<forall>i<length vs. readFromData h t c i = Inr (vs ! i))"

lemma canonical_null: "canonical_value True t v \<Longrightarrow> isNullish v \<longleftrightarrow> v = RNull"
proof (induction t)
  case (TDictionary a b c)
  then show ?case by simp
qed (auto simp: isNullish_def canonical_int_def canonical_number_def canonical_big_def split: if_splits)

lemma plain_column:
  assumes h: "lib_laws h" and t: "plain t" "list_all (canonical_value True t) vs" "list_all (value_fits t) vs"
  shows "\<exists>c. buildColumnData h t vs = Inr c \<and> holds h t vs c"
proof -
  let ?c = "Lib (vectorFromArray h t vs)"
  have b: "buildColumnData h t vs = Inr ?c" using t(1) by (cases t) (auto simp: is_int64_def)
  have "readFromData h t ?c i = Inr (vs ! i)" if i: "i < length vs" for i
  proof -
    have l: "lib_valid h (vectorFromArray h t vs) i = (vs ! i \<noteq> RNull)"
      "vs ! i \<noteq> RNull \<Longrightarrow> (if number_type t then lib_values h (vectorFromArray h t vs) i = vs ! i else vec_get h ?c i = vs ! i)"
      using h t i unfolding lib_laws_def by blast+
    have v: "canonical_value True t (vs ! i)" using t(2) i by (simp add: list_all_length)
    show ?thesis
    proof (cases "vs ! i = RNull")
      case True
      with l(1) show ?thesis using t(1) by (cases t) (simp_all add: when_valid_def col_valid_def)
    next
      case False
      with l v show ?thesis using t(1)
        by (cases t) (auto simp: when_valid_def col_valid_def number_type_def number_value_def toUint8_def text_value_def col_values_def
            canonical_int_def split: rich.splits)
    qed
  qed
  with b show ?thesis by (auto simp: holds_def)
qed

lemma int_slots:
  assumes "list_all (canonical_value True t) vs" "list_all (value_fits t) vs" "temporal_width t = Some 32" "i < length vs"
  shows "vs ! i = RNull \<or> int32_at (concat (map (\<lambda>v. le_bytes 4 (int32_slot h v)) vs)) i = vs ! i"
proof (cases "vs ! i = RNull")
  case False
  have c: "canonical_value True t (vs ! i)" "value_fits t (vs ! i)" using assms(1,2,4) by (simp_all add: list_all_length)
  have n: "\<exists>bound. canonical_number True bound (vs ! i)"
    using c(1) False assms(3) by (cases t) (auto simp: time_width_def split: if_splits)
  then obtain n where v: "vs ! i = RNum n" "integral True n" by (cases "vs ! i") (auto simp: canonical_number_def)
  obtain d where d: "n = Fin (of_int d)" using integralD [OF v(2)] by metis
  have r: "- (2 ^ 31) \<le> d" "d < 2 ^ 31"
    using c(2) False assms(3) v(1) d by (cases t; auto simp: value_fits_def int_of_def num_floor_def time_width_def split: if_splits)+
  let ?bs = "map (\<lambda>v. le_bytes 4 (int32_slot h v)) vs"
  have "list_all (\<lambda>b. length b = 4) ?bs" "i < length ?bs" using assms(4) by (simp_all add: list_all_length)
  note slots = concat_slots [OF this]
  have "?bs ! i = le_bytes 4 (to_int32 (Fin (of_int d)))" using assms(4) by (simp add: v(1) d int32_slot_def isNullish_def)
  then have "int32_at (concat ?bs) i = RNum (num_of_int d)"
    using slots int32_round [OF r] by (simp add: int32_at_def)
  moreover have "num_of_int d = Fin (of_int d)" using r by (auto simp: num_of_int_def abs_le_iff)
  ultimately show ?thesis by (simp add: v(1) d)
qed simp

lemma i64_unsigned: "0 \<le> b \<Longrightarrow> b < 2 ^ 64 \<Longrightarrow> int (le_nat (i64_le b)) = b"
  using i64_wrap_bound [of b] by (simp add: i64_le_def le_nat_le_bytes i64_wrap_def)

lemma big_slots:
  assumes "list_all (canonical_value True t) vs" "list_all (value_fits t) vs" "temporal_width t = Some 64 \<or> is_int64 t"
  shows "\<exists>slots. mapR (bigint_slot h) vs = Inr slots \<and>
    (\<forall>i<length vs. vs ! i = RNull \<or> int64_at (t \<noteq> TInt 64 False) (concat (map i64_le slots)) i = vs ! i)"
proof -
  have big: "v = RNull \<or> (\<exists>b. v = RBig b)" if "v \<in> set vs" for v
  proof -
    have "canonical_value True t v" using assms(1) that by (simp add: list_all_iff)
    then show ?thesis using assms(3)
      by (cases t) (auto simp: canonical_big_def canonical_int_def is_int64_def time_width_def split: rich.splits if_splits)
  qed
  have m: "mapR (bigint_slot h) vs = Inr (map int_of vs)"
  proof (rule mapR_all)
    fix v assume "v \<in> set vs"
    from big [OF this] show "bigint_slot h v = Inr (int_of v)" by (auto simp: bigint_slot_def isNullish_def int_of_def)
  qed
  have "int64_at (t \<noteq> TInt 64 False) (concat (map i64_le (map int_of vs))) i = vs ! i" if i: "i < length vs" "vs ! i \<noteq> RNull" for i
  proof -
    obtain b where b: "vs ! i = RBig b" using big [of "vs ! i"] i by auto
    have c: "canonical_value True t (vs ! i)" "value_fits t (vs ! i)" using assms(1,2) i(1) by (simp_all add: list_all_length)
    let ?bs = "map i64_le (map int_of vs)"
    have "list_all (\<lambda>b. length b = 8) ?bs" "i < length ?bs" using i(1) by (simp_all add: list_all_length)
    note slots = concat_slots [OF this]
    have s: "?bs ! i = i64_le b" using i(1) by (simp add: b int_of_def)
    show ?thesis
    proof (cases "t = TInt 64 False")
      case True
      then have "0 \<le> b" "b < 2 ^ 64" using c(1) b by (auto simp: canonical_int_def in_range_def int_lo_def int_hi_def big_min_def big_max_def)
      from i64_unsigned [OF this] slots s show ?thesis by (simp add: int64_at_def True b)
    next
      case False
      then have "- (2 ^ 63) \<le> b" "b < 2 ^ 63"
        using c b assms(3) by (cases t; auto simp: canonical_int_def in_range_def int_lo_def int_hi_def big_min_def big_max_def
          value_fits_def int_of_def is_int64_def time_width_def split: if_splits)+
      from i64_le_roundtrip [OF this] slots s False show ?thesis by (simp add: int64_at_def b)
    qed
  qed
  with m show ?thesis by blast
qed

lemma temporal_column:
  assumes t: "temporal_width t \<noteq> None \<or> is_int64 t" "list_all (canonical_value True t) vs" "list_all (value_fits t) vs"
  shows "\<exists>c. buildColumnData h t vs = Inr c \<and> holds h t vs c"
proof (cases "temporal_width t = Some 32")
  case True
  have b: "buildColumnData h t vs = Inr (buildInt32Data h t vs)" using True by (cases t) (auto simp: time_width_def split: if_splits)
  have "readFromData h t (buildInt32Data h t vs) i = Inr (vs ! i)" if i: "i < length vs" for i
  proof -
    have v: "canonical_value True t (vs ! i)" using t(2) i by (simp add: list_all_length)
    have valid: "col_valid h (buildInt32Data h t vs) i \<longleftrightarrow> vs ! i \<noteq> RNull"
      unfolding buildInt32Data_def using bitmap_valid [OF i] canonical_null [OF v] by simp
    have "vs ! i \<noteq> RNull \<Longrightarrow> number_value (vs ! i) = vs ! i"
      using v True by (cases t) (auto simp: number_value_def canonical_number_def time_width_def split: rich.splits if_splits)
    moreover have "vs ! i \<noteq> RNull \<Longrightarrow> col_values h t (buildInt32Data h t vs) i = vs ! i"
      using int_slots [OF t(2,3) True i, of h] by (simp add: buildInt32Data_def col_values_def True)
    ultimately show ?thesis using valid True
      by (cases t) (auto simp: when_valid_def time_width_def Let_def split: if_splits)
  qed
  with b show ?thesis by (auto simp: holds_def)
next
  case False
  have w: "temporal_width t = Some 64 \<or> is_int64 t" using t(1) False by (cases t) (auto simp: time_width_def split: if_splits)
  obtain slots where s: "mapR (bigint_slot h) vs = Inr slots"
    "\<And>i. i < length vs \<Longrightarrow> vs ! i = RNull \<or> int64_at (t \<noteq> TInt 64 False) (concat (map i64_le slots)) i = vs ! i"
    using big_slots [OF t(2,3) w] by blast
  let ?c = "Data t (length vs) (null_count vs) (null_bitmap vs) (concat (map i64_le slots)) None []"
  have b: "buildColumnData h t vs = Inr ?c" using w s(1)
    by (cases t) (auto simp: is_int64_def time_width_def buildBigIntData_def split: if_splits)
  have "readFromData h t ?c i = Inr (vs ! i)" if i: "i < length vs" for i
  proof -
    have v: "canonical_value True t (vs ! i)" using t(2) i by (simp add: list_all_length)
    have valid: "col_valid h ?c i \<longleftrightarrow> vs ! i \<noteq> RNull" using bitmap_valid [OF i] canonical_null [OF v] by simp
    have "vs ! i \<noteq> RNull \<Longrightarrow> bigint_value (vs ! i) = Inr (vs ! i)"
      using v w by (cases t) (auto simp: bigint_value_def canonical_big_def canonical_int_def is_int64_def time_width_def split: rich.splits if_splits)
    moreover have "vs ! i \<noteq> RNull \<Longrightarrow> col_values h t ?c i = vs ! i"
      using s(2) [OF i] False by (simp add: col_values_def)
    ultimately show ?thesis using valid w
      by (cases t) (auto simp: when_valid_def time_width_def is_int64_def Let_def split: if_splits)
  qed
  with b show ?thesis by (auto simp: holds_def)
qed

lemma decimal_column:
  assumes t: "column_type (TDecimal w p s)" "list_all (canonical_value True (TDecimal w p s)) vs" "list_all (value_fits (TDecimal w p s)) vs"
  shows "\<exists>c. buildColumnData h (TDecimal w p s) vs = Inr c \<and> holds h (TDecimal w p s) vs c"
proof -
  let ?w = "dec_width w"
  define slot where "slot v = (if v = RNull then replicate ?w 0 else bigIntToDecimalBytes (int_of v) ?w)" for v
  have w: "0 < ?w" "?w mod 4 = 0" using t(1) by simp_all
  have v: "v = RNull \<or> (\<exists>b. v = RBig b \<and> decimal_fits ?w b)" if "v \<in> set vs" for v
  proof -
    have "canonical_value True (TDecimal w p s) v" "value_fits (TDecimal w p s) v" using t(2,3) that by (simp_all add: list_all_iff)
    then show ?thesis by (cases v) (simp_all add: canonical_big_def value_fits_def int_of_def)
  qed
  have l: "length (slot v) = ?w" if "v \<in> set vs" for v
    using v [OF that] decimal_round [OF w(1)] by (auto simp: slot_def int_of_def)
  have "decimal_slot h ?w v = Inr (slot v)" if "v \<in> set vs" for v
    using v [OF that] decimal_round [OF w(1)] by (auto simp: slot_def int_of_def decimal_slot_def isNullish_def toBig_def pad_to_def)
  then have m: "mapR (decimal_slot h ?w) vs = Inr (map slot vs)" by (rule mapR_all)
  let ?c = "Data (TDecimal w p s) (length vs) (null_count vs) (null_bitmap vs) (concat (map slot vs)) None []"
  have b: "buildColumnData h (TDecimal w p s) vs = Inr ?c" by (simp add: buildDecimalData_def m)
  have "readFromData h (TDecimal w p s) ?c i = Inr (vs ! i)" if i: "i < length vs" for i
  proof -
    have c: "canonical_value True (TDecimal w p s) (vs ! i)" using t(2) i by (simp add: list_all_length)
    have valid: "col_valid h ?c i \<longleftrightarrow> vs ! i \<noteq> RNull" using bitmap_valid [OF i] canonical_null [OF c] by simp
    show ?thesis
    proof (cases "vs ! i = RNull")
      case True
      with valid show ?thesis by (simp add: when_valid_def)
    next
      case False
      obtain d where d: "vs ! i = RBig d" "decimal_fits ?w d" using v [of "vs ! i"] i False by auto
      have all: "list_all (\<lambda>b. length b = ?w) (map slot vs)" "i < length (map slot vs)" using l i by (auto simp: list_all_iff)
      note slots = concat_slots [OF all]
      have e: "map slot vs ! i = bigIntToDecimalBytes d ?w" using i by (simp add: slot_def d(1) int_of_def)
      have dw: "?w = 4 * (?w div 4)" using w(2) by presburger
      have "col_word h ?c (i * (?w div 4) + k) = le_nat (take 4 (drop (4 * k) (bigIntToDecimalBytes d ?w)))" if k: "k < ?w div 4" for k
      proof -
        have "take 4 (drop (4 * k) (take ?w (drop (?w * i) (concat (map slot vs))))) =
            take 4 (drop (4 * k + ?w * i) (concat (map slot vs)))"
        proof -
          have "4 \<le> ?w - 4 * k" using k by linarith
          then have m: "min 4 (?w - 4 * k) = 4" by (rule min_absorb1)
          show ?thesis unfolding drop_take take_take m drop_drop by (rule refl)
        qed
        moreover have "4 * (i * (?w div 4) + k) = 4 * k + ?w * i" using dw by (simp add: algebra_simps)
        ultimately show ?thesis unfolding col_word_def col_data.case by (simp only: slots(1) e)
      qed
      then have words: "map (\<lambda>k. le_bytes 4 (col_word h ?c (i * (?w div 4) + k))) [0..<?w div 4] =
          map (\<lambda>k. le_bytes 4 (le_nat (take 4 (drop (4 * k) (bigIntToDecimalBytes d ?w))))) [0..<?w div 4]"
        by (intro map_cong) simp_all
      have n4: "length (bigIntToDecimalBytes d ?w) = 4 * (?w div 4)" using decimal_round(2) [OF w(1) d(2)] dw by simp
      have "decimalToBigInt h ?w ?c i = d"
        unfolding decimalToBigInt_def words words_back [OF n4] by (rule decimal_round(1) [OF w(1) d(2)])
      with valid d(1) show ?thesis by (simp add: when_valid_def)
    qed
  qed
  with b show ?thesis by (auto simp: holds_def)
qed

section \<open>Columns of composites\<close>

lemma items_holds:
  assumes "items \<noteq> [] \<Longrightarrow> \<exists>c. build items = Inr c \<and> holds h t items c"
  shows "\<exists>c. items_data blank build items = Inr c \<and> holds h t items c"
proof (cases "items = []")
  case True
  then show ?thesis by (auto simp: items_data_def holds_def)
next
  case False
  with assms show ?thesis by (auto simp: items_data_def)
qed

lemma holds_span:
  assumes "holds h t items c" "set idx \<subseteq> {..<length items}"
  shows "mapR (readFromData h t c) idx = Inr (map ((!) items) idx)"
  by (rule mapR_all) (use assms in \<open>auto simp: holds_def\<close>)

lemma row_span_bound:
  assumes "i < length rows"
  shows "set [length (concat (take i rows))..<length (concat (take (Suc i) rows))] \<subseteq> {..<length (concat rows)}"
proof -
  have "length (concat (take k rows)) \<le> length (concat rows)" for k
    by (metis append_take_drop_id concat_append le_add1 length_append)
  from this [of "Suc i"] show ?thesis by auto
qed

lemma list_column:
  assumes f: "\<And>vs'. list_all (canonical_field True f) vs' \<Longrightarrow> fits_field f vs' \<Longrightarrow> \<exists>c. build_field h f vs' = Inr c \<and> holds h (f_type f) vs' c"
    and c: "list_all (canonical_value True (TList f)) vs" "fits_column (TList f) vs"
  shows "\<exists>c. buildColumnData h (TList f) vs = Inr c \<and> holds h (TList f) vs c"
proof -
  let ?rows = "map list_row vs"
  have v: "v = RNull \<and> list_row v = [] \<or> (\<exists>xs. v = RArr xs \<and> list_row v = xs \<and> list_all (canonical_field True f) xs)" if "v \<in> set vs" for v
  proof -
    have "canonical_value True (TList f) v" using c(1) that by (simp add: list_all_iff)
    then show ?thesis by (cases v) (simp_all add: list_row_def isNullish_def iter_elems_def)
  qed
  have items: "list_all (canonical_field True f) (concat ?rows)"
    using v by (fastforce simp: list_all_iff)
  have fit: "length (concat ?rows) < 2 ^ 31" "fits_field f (concat ?rows)" using c(2) by (simp_all del: length_concat)
  obtain child where child: "items_data (emptyDataForField f) (build_field h f) (concat ?rows) = Inr child" "holds h (f_type f) (concat ?rows) child"
    using items_holds [of "concat ?rows" "build_field h f" h "f_type f" "emptyDataForField f"] f [OF items fit(2)] by blast
  let ?c = "Data (TList f) (length vs) (null_count vs) (null_bitmap vs) [] (Some (offsets_of ?rows)) [child]"
  have b: "buildColumnData h (TList f) vs = Inr ?c" by (simp add: child(1) Let_def del: length_concat)
  have "readFromData h (TList f) ?c i = Inr (vs ! i)" if i: "i < length vs" for i
  proof -
    have cv: "canonical_value True (TList f) (vs ! i)" using c(1) i by (simp add: list_all_length)
    have valid: "col_valid h ?c i \<longleftrightarrow> vs ! i \<noteq> RNull" using bitmap_valid [OF i] canonical_null [OF cv] by simp
    show ?thesis
    proof (cases "vs ! i = RNull")
      case True
      with valid show ?thesis by (simp add: when_valid_def)
    next
      case False
      with v [of "vs ! i"] i obtain xs where xs: "vs ! i = RArr xs" "?rows ! i = xs" by auto
      have il: "i < length ?rows" using i by simp
      have "list_span h 0 ?c i = [length (concat (take i ?rows))..<length (concat (take (Suc i) ?rows))]"
        using offsets_span [OF il fit(1)] i by (simp add: list_span_def col_offsets_def offsets_of_def del: length_concat)
      then have "mapR (readFromData h (f_type f) child) (list_span h 0 ?c i) = Inr xs"
        using holds_span [OF child(2) row_span_bound [OF il]] concat_span [OF il] xs(2) by (simp del: length_concat)
      moreover have "snd (read_field h f) = readFromData h (f_type f)" by (cases f) simp
      ultimately show ?thesis using valid False xs(1)
        by (simp add: when_valid_def readList_def col_child_def)
    qed
  qed
  with b show ?thesis by (auto simp: holds_def)
qed

lemma fixed_list_column:
  assumes f: "\<And>vs'. list_all (canonical_field True f) vs' \<Longrightarrow> fits_field f vs' \<Longrightarrow> \<exists>c. build_field h f vs' = Inr c \<and> holds h (f_type f) vs' c"
    and null: "canonical_field True f RNull"
    and c: "list_all (canonical_value True (TFixedSizeList n f)) vs" "fits_column (TFixedSizeList n f) vs"
  shows "\<exists>c. buildColumnData h (TFixedSizeList n f) vs = Inr c \<and> holds h (TFixedSizeList n f) vs c"
proof -
  let ?rows = "map (fixed_items n) vs"
  have v: "v = RNull \<and> fixed_items n v = replicate n RNull \<or> (\<exists>xs. v = RArr xs \<and> fixed_items n v = xs \<and> length xs = n \<and> list_all (canonical_field True f) xs)"
    if "v \<in> set vs" for v
  proof -
    have "canonical_value True (TFixedSizeList n f) v" "length (fixed_items n v) = n" using c that by (simp_all add: list_all_iff)
    then show ?thesis by (cases v) (simp_all add: fixed_items_def)
  qed
  have m: "mapR (fixed_row h n) vs = Inr ?rows"
  proof (rule mapR_all)
    fix v assume "v \<in> set vs"
    from v [OF this] consider "v = RNull" | xs where "v = RArr xs" "length xs = n" by blast
    then show "fixed_row h n v = Inr (fixed_items n v)"
      by cases (simp_all add: fixed_row_def isNullish_def iter_elems_def fixed_items_def)
  qed
  have items: "list_all (canonical_field True f) (concat ?rows)"
    using v null by (fastforce simp: list_all_iff)
  have fit: "fits_field f (concat ?rows)" using c(2) by simp
  obtain child where child: "items_data (emptyDataForField f) (build_field h f) (concat ?rows) = Inr child" "holds h (f_type f) (concat ?rows) child"
    using items_holds [of "concat ?rows" "build_field h f" h "f_type f" "emptyDataForField f"] f [OF items fit] by blast
  let ?c = "Data (TFixedSizeList n f) (length vs) (null_count vs) (null_bitmap vs) [] None [child]"
  have b: "buildColumnData h (TFixedSizeList n f) vs = Inr ?c" by (simp add: child(1) m)
  have len: "length (concat (take k ?rows)) = k * n" if "k \<le> length vs" for k
    using that
  proof (induction k)
    case (Suc k)
    then have "take (Suc k) ?rows = take k ?rows @ [?rows ! k]" by (simp add: take_Suc_conv_app_nth)
    moreover have "length (?rows ! k) = n" using v [of "vs ! k"] Suc.prems by auto
    ultimately show ?case using Suc by simp
  qed simp
  have "readFromData h (TFixedSizeList n f) ?c i = Inr (vs ! i)" if i: "i < length vs" for i
  proof -
    have cv: "canonical_value True (TFixedSizeList n f) (vs ! i)" using c(1) i by (simp add: list_all_length)
    have valid: "col_valid h ?c i \<longleftrightarrow> vs ! i \<noteq> RNull" using bitmap_valid [OF i] canonical_null [OF cv] by simp
    show ?thesis
    proof (cases "vs ! i = RNull")
      case True
      with valid show ?thesis by (simp add: when_valid_def)
    next
      case False
      with v [of "vs ! i"] i obtain xs where xs: "vs ! i = RArr xs" "?rows ! i = xs" by auto
      have il: "i < length ?rows" using i by simp
      have "list_span h n ?c i = [length (concat (take i ?rows))..<length (concat (take (Suc i) ?rows))]"
        using len [of i] len [of "Suc i"] i by (simp add: list_span_def col_offsets_def add.commute del: length_concat)
      then have "mapR (readFromData h (f_type f) child) (list_span h n ?c i) = Inr xs"
        using holds_span [OF child(2) row_span_bound [OF il]] concat_span [OF il] xs(2) by (simp del: length_concat)
      moreover have "snd (read_field h f) = readFromData h (f_type f)" by (cases f) simp
      ultimately show ?thesis using valid False xs(1)
        by (simp add: when_valid_def readList_def col_child_def)
    qed
  qed
  with b show ?thesis by (auto simp: holds_def)
qed

lemma pair_items_ok:
  assumes "list_all (canonical_pair True f) ps"
  shows "\<exists>qs. pair_items (RArr ps) = qs \<and> mapR pair_of ps = Inr qs \<and> map (\<lambda>(a, b). RArr [a, b]) qs = ps"
  using assms
proof (induction ps)
  case (Cons p ps)
  then obtain a b where p: "p = RArr [a, b]"
    by (cases f; cases "f_type f") (auto split: rich.splits list.splits elim: canonical_pair.elims)
  with Cons show ?case by (auto simp: pair_items_def List.map_filter_simps pair_of_def iter_elems_def)
qed (simp add: pair_items_def List.map_filter_simps)

lemma map_column:
  assumes k: "\<And>vs'. list_all (canonical_field True kf) vs' \<Longrightarrow> fits_field kf vs' \<Longrightarrow> \<exists>c. build_field h kf vs' = Inr c \<and> holds h (f_type kf) vs' c"
    and w: "\<And>vs'. list_all (canonical_field True xf) vs' \<Longrightarrow> fits_field xf vs' \<Longrightarrow> \<exists>c. build_field h xf vs' = Inr c \<and> holds h (f_type xf) vs' c"
    and f: "f_type f = TStruct (kf # xf # fs)"
    and c: "list_all (canonical_value True (TMap f)) vs" "fits_column (TMap f) vs"
  shows "\<exists>c. buildColumnData h (TMap f) vs = Inr c \<and> holds h (TMap f) vs c"
proof -
  let ?rows = "map pair_items vs"
  obtain n a b d where ff: "f = Field n (TStruct (kf # xf # fs)) a b d" using f by (cases f) auto
  have v: "v = RNull \<and> pair_items v = [] \<or> (\<exists>ps. v = RArr ps \<and> mapR pair_of ps = Inr (pair_items v) \<and>
      map (\<lambda>(a, b). RArr [a, b]) (pair_items v) = ps \<and> list_all (canonical_pair True f) ps)" if "v \<in> set vs" for v
  proof -
    have cv: "canonical_value True (TMap f) v" using c(1) that by (simp add: list_all_iff)
    show ?thesis
    proof (cases "v = RNull")
      case True
      then show ?thesis by (simp add: pair_items_def)
    next
      case False
      with cv obtain ps where "v = RArr ps" "list_all (canonical_pair True f) ps" by (cases v) auto
      with pair_items_ok show ?thesis by blast
    qed
  qed
  have m: "mapR map_row vs = Inr ?rows"
  proof (rule mapR_all)
    fix v assume "v \<in> set vs"
    from v [OF this] consider "v = RNull" "pair_items v = []" | ps where "v = RArr ps" "mapR pair_of ps = Inr (pair_items v)" by blast
    then show "map_row v = Inr (pair_items v)" by cases (simp_all add: map_row_def isNullish_def iter_elems_def)
  qed
  have pairs: "canonical_field True kf (fst q) \<and> canonical_field True xf (snd q)" if qm: "q \<in> set (concat ?rows)" for q
  proof -
    obtain v where vq: "v \<in> set vs" "q \<in> set (pair_items v)" using qm by auto
    with v [OF vq(1)] obtain ps where ps: "map (\<lambda>(a, b). RArr [a, b]) (pair_items v) = ps" "list_all (canonical_pair True f) ps" by auto
    obtain a b where q: "q = (a, b)" by (cases q)
    have "RArr [a, b] \<in> set ps" using vq(2) q ps(1) by force
    with ps(2) have "canonical_pair True f (RArr [a, b])" by (simp add: list_all_iff)
    then show ?thesis by (simp add: ff q)
  qed
  have fit: "length (concat ?rows) < 2 ^ 31" "fits_field kf (map fst (concat ?rows))" "fits_field xf (map snd (concat ?rows))"
    using c(2) f by (simp_all del: length_concat)
  have kc: "list_all (canonical_field True kf) (map fst (concat ?rows))" "list_all (canonical_field True xf) (map snd (concat ?rows))"
    using pairs by (auto simp: list_all_iff)
  obtain keys where keys: "items_data (emptyDataForField kf) (build_field h kf) (map fst (concat ?rows)) = Inr keys"
      "holds h (f_type kf) (map fst (concat ?rows)) keys"
    using items_holds [of "map fst (concat ?rows)" "build_field h kf" h "f_type kf" "emptyDataForField kf"] k [OF kc(1) fit(2)] by blast
  obtain vals where vals: "items_data (emptyDataForField xf) (build_field h xf) (map snd (concat ?rows)) = Inr vals"
      "holds h (f_type xf) (map snd (concat ?rows)) vals"
    using items_holds [of "map snd (concat ?rows)" "build_field h xf" h "f_type xf" "emptyDataForField xf"] w [OF kc(2) fit(3)] by blast
  let ?entries = "Data (TStruct (kf # xf # fs)) (length (concat ?rows)) 0 None [] None [keys, vals]"
  let ?c = "Data (TMap f) (length vs) (null_count vs) (null_bitmap vs) [] (Some (offsets_of ?rows)) [?entries]"
  have b: "buildColumnData h (TMap f) vs = Inr ?c"
    unfolding buildColumnData.simps m rbind_Inr unfolding ff build_entries.simps keys(1) vals(1) rbind_Inr by (rule refl)
  have "readFromData h (TMap f) ?c i = Inr (vs ! i)" if i: "i < length vs" for i
  proof -
    have cv: "canonical_value True (TMap f) (vs ! i)" using c(1) i by (simp add: list_all_length)
    have valid: "col_valid h ?c i \<longleftrightarrow> vs ! i \<noteq> RNull" using bitmap_valid [OF i] canonical_null [OF cv] by simp
    show ?thesis
    proof (cases "vs ! i = RNull")
      case True
      with valid show ?thesis by (simp add: when_valid_def)
    next
      case False
      with v [of "vs ! i"] i obtain ps where ps: "vs ! i = RArr ps" "map (\<lambda>(a, b). RArr [a, b]) (?rows ! i) = ps" by auto
      have il: "i < length ?rows" using i by simp
      let ?idx = "[length (concat (take i ?rows))..<length (concat (take (Suc i) ?rows))]"
      have sp: "map_span h ?c i = ?idx"
        using offsets_span [OF il fit(1)] i by (simp add: map_span_def col_offsets_def offsets_of_def del: length_concat)
      have er: "entry_readers h (f_type f) = (f_name kf, readFromData h (f_type kf)) # (f_name xf, readFromData h (f_type xf)) # map (read_field h) fs"
        unfolding f by (cases kf; cases xf) simp
      have "mapR (\<lambda>j. rbind (readFromData h (f_type kf) keys j) (\<lambda>k. rbind (readFromData h (f_type xf) vals j) (\<lambda>w. Inr (RArr [k, w])))) ?idx
          = Inr (map (\<lambda>j. (\<lambda>(a, b). RArr [a, b]) (concat ?rows ! j)) ?idx)"
      proof (rule mapR_all)
        fix j assume "j \<in> set ?idx"
        then have j: "j < length (concat ?rows)" using row_span_bound [OF il] by blast
        then have "readFromData h (f_type kf) keys j = Inr (fst (concat ?rows ! j))" "readFromData h (f_type xf) vals j = Inr (snd (concat ?rows ! j))"
          using keys(2) vals(2) by (simp_all add: holds_def del: length_concat)
        then show "rbind (readFromData h (f_type kf) keys j) (\<lambda>k. rbind (readFromData h (f_type xf) vals j) (\<lambda>w. Inr (RArr [k, w])))
            = Inr ((\<lambda>(a, b). RArr [a, b]) (concat ?rows ! j))" by (simp add: case_prod_beta)
      qed
      moreover have "map (\<lambda>j. (\<lambda>(a, b). RArr [a, b]) (concat ?rows ! j)) ?idx = ps"
      proof -
        have "map (\<lambda>j. (\<lambda>(a, b). RArr [a, b]) (concat ?rows ! j)) ?idx = map (\<lambda>(a, b). RArr [a, b]) (map ((!) (concat ?rows)) ?idx)"
          by (simp del: length_concat)
        also have "\<dots> = map (\<lambda>(a, b). RArr [a, b]) (?rows ! i)" by (simp only: concat_span [OF il])
        finally show ?thesis using ps(2) by simp
      qed
      ultimately have "readMap h (entry_readers h (f_type f)) ?c i = Inr (RArr ps)"
        unfolding readMap_def er sp by (simp add: col_child_def del: length_concat)
      with valid False ps(1) show ?thesis by (simp add: when_valid_def)
    qed
  qed
  with b show ?thesis by (auto simp: holds_def)
qed

lemma canonical_fields_nth:
  assumes "canonical_fields True fs es"
  shows "map fst es = map f_name fs \<and> (\<forall>j<length fs. canonical_field True (fs ! j) (snd (es ! j)))"
  using assms
proof (induction fs arbitrary: es)
  case (Cons f fs)
  then obtain e es' where e: "es = e # es'" "fst e = f_name f" "canonical_field True f (snd e)" "canonical_fields True fs es'"
    by (cases es) auto
  with Cons.IH [OF e(4)] show ?case by (auto simp: nth_Cons split: nat.splits)
qed simp

lemma field_null: "column_field f \<Longrightarrow> canonical_field True f RNull"
proof (cases f)
  case (Field n t a b c)
  assume "column_field f"
  with Field show ?thesis by (cases t) simp_all
qed

lemma canonical_defined: "column_field f \<Longrightarrow> canonical_field True f v \<Longrightarrow> isNullish v \<longleftrightarrow> v = RNull"
  using canonical_null [of "f_type f" v] by (cases f) simp

lemma struct_slots:
  assumes names: "distinct (map f_name fs)" "list_all column_field fs"
      "\<And>c j. c < length fs \<Longrightarrow> j < length fs \<Longrightarrow> j = c \<or> f_name (fs ! j) \<noteq> nat_to_string c"
    and c: "canonical_value True (TStruct fs) (RObj es)" and j: "j < length fs"
  shows "struct_slot (f_name (fs ! j)) j (RObj es) = snd (es ! j)" "canonical_field True (fs ! j) (snd (es ! j))" "length es = length fs"
proof -
  have n: "map fst es = map f_name fs" "\<And>j. j < length fs \<Longrightarrow> canonical_field True (fs ! j) (snd (es ! j))"
    using canonical_fields_nth [of fs es] c by auto
  then show l: "length es = length fs" "canonical_field True (fs ! j) (snd (es ! j))" using j by (metis length_map, blast)
  have "es ! j \<in> set es" "fst (es ! j) = f_name (fs ! j)" using j l n(1) by (simp, metis nth_map)
  then have mem: "(f_name (fs ! j), snd (es ! j)) \<in> set es" by (metis prod.collapse)
  have d: "distinct (map fst es)" using names(1) n(1) by simp
  then have r: "rich_member (RObj es) (f_name (fs ! j)) = snd (es ! j)"
    using mem by (simp add: rich_member_def rich_entries_def)
  have null: "isNullish (snd (es ! j)) \<longleftrightarrow> snd (es ! j) = RNull"
    by (rule canonical_defined [OF _ l(2)]) (use names(2) j in \<open>simp add: list_all_length\<close>)
  have "or_null (rich_member (RObj es) (nat_to_string j)) = RNull" if "snd (es ! j) = RNull"
  proof (cases "map_of es (nat_to_string j)")
    case None
    then show ?thesis by (simp add: rich_member_def rich_entries_def or_null_def isNullish_def)
  next
    case (Some w)
    then have "(nat_to_string j, w) \<in> set es" by (rule map_of_SomeD)
    then obtain k where k: "k < length es" "es ! k = (nat_to_string j, w)" by (auto simp: in_set_conv_nth)
    then have "f_name (fs ! k) = nat_to_string j" using n(1) l by (metis fst_conv nth_map)
    with names(3) [OF j, of k] k(1) l have "k = j" by auto
    with k that show ?thesis using Some by (simp add: rich_member_def rich_entries_def or_null_def isNullish_def)
  qed
  then show "struct_slot (f_name (fs ! j)) j (RObj es) = snd (es ! j)"
    using r null by (auto simp: struct_slot_def isNullish_def Let_def)
qed

lemma struct_members_read:
  assumes "length cs = length fs" "length es = length fs" "map fst es = map f_name fs"
    "\<And>j. j < length fs \<Longrightarrow> readFromData h (f_type (fs ! j)) (cs ! j) i = Inr (snd (es ! j))"
    "\<And>j. j < length fs \<Longrightarrow> col_child h c (k + j) = Some (cs ! j)"
  shows "struct_members h k (map (read_field h) fs) c i = Inr es"
  using assms
proof (induction fs arbitrary: k cs es)
  case (Cons f fs)
  obtain d cs' where cs: "cs = d # cs'" using Cons.prems(1) by (cases cs) auto
  obtain e es' where es: "es = e # es'" using Cons.prems(2) by (cases es) auto
  have rf: "read_field h f = (f_name f, readFromData h (f_type f))" by (cases f) simp
  have "struct_members h (Suc k) (map (read_field h) fs) c i = Inr es'"
  proof (rule Cons.IH [of cs'])
    fix j assume j: "j < length fs"
    show "readFromData h (f_type (fs ! j)) (cs' ! j) i = Inr (snd (es' ! j))" using Cons.prems(4) [of "Suc j"] j by (simp add: cs es)
    show "col_child h c (Suc k + j) = Some (cs' ! j)" using Cons.prems(5) [of "Suc j"] j by (simp add: cs)
  qed (use Cons.prems cs es in simp_all)
  moreover have "readFromData h (f_type f) d i = Inr (snd e)" "col_child h c k = Some d" "f_name f = fst e"
    using Cons.prems(4) [of 0] Cons.prems(5) [of 0] Cons.prems(3) by (simp_all add: cs es)
  ultimately show ?case by (simp add: rf es)
qed simp

lemma struct_column:
  assumes names: "column_type (TStruct fs)"
    and fs: "list_all column_field fs \<Longrightarrow>
      (\<And>j. j < length fs \<Longrightarrow> list_all (canonical_field True (fs ! j)) (map (struct_slot (f_name (fs ! j)) (0 + j)) vs)) \<Longrightarrow> fits_fields 0 fs vs \<Longrightarrow>
      \<exists>cs. build_fields h 0 fs vs = Inr cs \<and> length cs = length fs \<and>
        (\<forall>j<length fs. holds h (f_type (fs ! j)) (map (struct_slot (f_name (fs ! j)) (0 + j)) vs) (cs ! j))"
    and c: "list_all (canonical_value True (TStruct fs)) vs" "fits_column (TStruct fs) vs"
  shows "\<exists>c. buildColumnData h (TStruct fs) vs = Inr c \<and> holds h (TStruct fs) vs c"
proof -
  have ok: "distinct (map f_name fs)" "list_all column_field fs"
      "\<And>c j. c < length fs \<Longrightarrow> j < length fs \<Longrightarrow> j = c \<or> f_name (fs ! j) \<noteq> nat_to_string c"
    using names by (auto simp: list_all_iff)
  have v: "v = RNull \<or> (\<exists>es. v = RObj es \<and> canonical_value True (TStruct fs) (RObj es))" if "v \<in> set vs" for v
  proof -
    have "canonical_value True (TStruct fs) v" using c(1) that by (simp add: list_all_iff)
    then show ?thesis by (cases v) simp_all
  qed
  have "list_all (canonical_field True (fs ! j)) (map (struct_slot (f_name (fs ! j)) (0 + j)) vs)" if j: "j < length fs" for j
    unfolding list_all_iff
  proof
    fix x assume "x \<in> set (map (struct_slot (f_name (fs ! j)) (0 + j)) vs)"
    then obtain u where u: "u \<in> set vs" "x = struct_slot (f_name (fs ! j)) j u" by auto
    from v [OF u(1)] show "canonical_field True (fs ! j) x"
    proof
      assume "u = RNull"
      then show ?thesis using u(2) field_null ok(2) j by (simp add: struct_slot_def isNullish_def list_all_length)
    next
      assume "\<exists>es. u = RObj es \<and> canonical_value True (TStruct fs) (RObj es)"
      then obtain es where e: "u = RObj es" "canonical_value True (TStruct fs) (RObj es)" by blast
      from struct_slots(1,2) [OF ok e(2) j] show ?thesis unfolding u(2) e(1) by (simp only:)
    qed
  qed
  from fs [OF ok(2) this] c(2) obtain cs where cs: "build_fields h 0 fs vs = Inr cs" "length cs = length fs"
      "\<And>j. j < length fs \<Longrightarrow> holds h (f_type (fs ! j)) (map (struct_slot (f_name (fs ! j)) (0 + j)) vs) (cs ! j)" by auto
  let ?c = "Data (TStruct fs) (length vs) (null_count vs) (null_bitmap vs) [] None cs"
  have b: "buildColumnData h (TStruct fs) vs = Inr ?c" by (simp add: cs(1))
  have "readFromData h (TStruct fs) ?c i = Inr (vs ! i)" if i: "i < length vs" for i
  proof -
    have cv: "canonical_value True (TStruct fs) (vs ! i)" using c(1) i by (simp add: list_all_length)
    have valid: "col_valid h ?c i \<longleftrightarrow> vs ! i \<noteq> RNull" using bitmap_valid [OF i] canonical_null [OF cv] by simp
    show ?thesis
    proof (cases "vs ! i = RNull")
      case True
      with valid show ?thesis by (simp add: when_valid_def)
    next
      case False
      with v [of "vs ! i"] i obtain es where es: "vs ! i = RObj es" "canonical_value True (TStruct fs) (RObj es)" by auto
      have keys: "map fst es = map f_name fs" using canonical_fields_nth [of fs es] es(2) by simp
      then have len: "length es = length fs" by (metis length_map)
      have "struct_members h 0 (map (read_field h) fs) ?c i = Inr es"
      proof (rule struct_members_read [OF cs(2) len keys])
        fix j assume j: "j < length fs"
        have "readFromData h (f_type (fs ! j)) (cs ! j) i = Inr (struct_slot (f_name (fs ! j)) j (vs ! i))"
          using cs(3) [OF j] i by (simp add: holds_def)
        then show "readFromData h (f_type (fs ! j)) (cs ! j) i = Inr (snd (es ! j))"
          unfolding es(1) by (simp only: struct_slots(1) [OF ok es(2) j])
        show "col_child h ?c (0 + j) = Some (cs ! j)" using j cs(2) by (simp add: col_child_def)
      qed
      moreover have "jm_of es = es" using keys ok(1) by (simp add: jm_of_distinct)
      ultimately show ?thesis using valid False es(1) by (simp add: when_valid_def readStruct_def)
    qed
  qed
  with b show ?thesis by (auto simp: holds_def)
qed

section \<open>Every column\<close>

definition field_holds :: "'lib arrow_host \<Rightarrow> arrow_field \<Rightarrow> bool" where
  "field_holds h f \<longleftrightarrow> (\<forall>vs. list_all (canonical_field True f) vs \<longrightarrow> fits_field f vs \<longrightarrow>
     (\<exists>c. build_field h f vs = Inr c \<and> holds h (f_type f) vs c))"

lemma fields_hold:
  assumes "list_all (field_holds h) fs"
    "\<And>j. j < length fs \<Longrightarrow> list_all (canonical_field True (fs ! j)) (map (struct_slot (f_name (fs ! j)) (k + j)) vs)"
    "fits_fields k fs vs"
  shows "\<exists>cs. build_fields h k fs vs = Inr cs \<and> length cs = length fs \<and>
    (\<forall>j<length fs. holds h (f_type (fs ! j)) (map (struct_slot (f_name (fs ! j)) (k + j)) vs) (cs ! j))"
  using assms
proof (induction fs arbitrary: k)
  case (Cons f fs)
  have slot: "list_all (canonical_field True f) (map (struct_slot (f_name f) k) vs)" using Cons.prems(2) [of 0] by simp
  have "field_holds h f" "fits_field f (map (struct_slot (f_name f) k) vs)" using Cons.prems(1,3) by simp_all
  with slot obtain c where c: "build_field h f (map (struct_slot (f_name f) k) vs) = Inr c"
      "holds h (f_type f) (map (struct_slot (f_name f) k) vs) c"
    unfolding field_holds_def by blast
  have "\<exists>cs. build_fields h (Suc k) fs vs = Inr cs \<and> length cs = length fs \<and>
      (\<forall>j<length fs. holds h (f_type (fs ! j)) (map (struct_slot (f_name (fs ! j)) (Suc k + j)) vs) (cs ! j))"
  proof (rule Cons.IH)
    show "list_all (field_holds h) fs" "fits_fields (Suc k) fs vs" using Cons.prems(1,3) by simp_all
    fix j assume "j < length fs"
    with Cons.prems(2) [of "Suc j"] show "list_all (canonical_field True (fs ! j)) (map (struct_slot (f_name (fs ! j)) (Suc k + j)) vs)" by simp
  qed
  then obtain cs where cs: "build_fields h (Suc k) fs vs = Inr cs" "length cs = length fs"
      "\<And>j. j < length fs \<Longrightarrow> holds h (f_type (fs ! j)) (map (struct_slot (f_name (fs ! j)) (Suc k + j)) vs) (cs ! j)" by blast
  have "holds h (f_type ((f # fs) ! j)) (map (struct_slot (f_name ((f # fs) ! j)) (k + j)) vs) ((c # cs) ! j)"
    if "j < length (f # fs)" for j
    using that c(2) cs(3) by (cases j) simp_all
  then show ?case using c(1) cs(1,2) by (intro exI [of _ "c # cs"]) simp
qed simp

lemma leaf_column:
  assumes "lib_laws h" "plain t \<or> temporal_width t \<noteq> None \<or> is_int64 t" "list_all (canonical_value True t) vs" "fits_column t vs"
  shows "\<exists>c. buildColumnData h t vs = Inr c \<and> holds h t vs c"
proof -
  have "list_all (value_fits t) vs" using assms(2,4) by (cases t) (simp_all add: is_int64_def)
  then show ?thesis using assms plain_column temporal_column by blast
qed

lemma column_holds:
  assumes h: "lib_laws h"
  shows
    "column_type t \<Longrightarrow> list_all (canonical_value True t) vs \<Longrightarrow> fits_column t vs \<Longrightarrow> \<exists>c. buildColumnData h t vs = Inr c \<and> holds h t vs c"
    "column_field f \<Longrightarrow> field_holds h f"
    "column_entries e \<Longrightarrow> \<exists>kf xf rest. e = TStruct (kf # xf # rest) \<and> field_holds h kf \<and> field_holds h xf"
proof (induction t and f and e arbitrary: vs rule: column_type_column_field_column_entries.induct)
  case (1 fs)
  show ?case
  proof (rule struct_column [OF 1(2) _ 1(3,4)])
    assume "list_all column_field fs"
    then have "list_all (field_holds h) fs" using 1(1) by (simp add: list_all_iff)
    then show "(\<And>j. j < length fs \<Longrightarrow> list_all (canonical_field True (fs ! j)) (map (struct_slot (f_name (fs ! j)) (0 + j)) vs)) \<Longrightarrow> fits_fields 0 fs vs \<Longrightarrow>
      \<exists>cs. build_fields h 0 fs vs = Inr cs \<and> length cs = length fs \<and>
        (\<forall>j<length fs. holds h (f_type (fs ! j)) (map (struct_slot (f_name (fs ! j)) (0 + j)) vs) (cs ! j))"
      by (rule fields_hold)
  qed
next
  case (2 f)
  then have "field_holds h f" by simp
  with list_column [OF _ 2(3,4)] show ?case unfolding field_holds_def by blast
next
  case (3 n f)
  then have "field_holds h f" "column_field f" by simp_all
  with fixed_list_column [OF _ field_null 3(3,4)] show ?case unfolding field_holds_def by blast
next
  case (4 f)
  then obtain kf xf rest where "f_type f = TStruct (kf # xf # rest)" "field_holds h kf" "field_holds h xf" by auto
  with map_column [OF _ _ _ 4(3,4)] show ?case unfolding field_holds_def by blast
next
  case (5 w p s)
  from decimal_column [OF 5(1,2)] 5(3) show ?case by simp
next
  case (10 n t a b c)
  have "canonical_field True (Field n t a b c) = canonical_value True t" by (rule ext) simp
  with 10 show ?case by (simp add: field_holds_def)
next
  case (11 k w fs)
  then show ?case by simp
qed (((rule leaf_column [OF h]; simp add: is_int64_def; fail)+), simp_all)

section \<open>Properties\<close>

lemma codec_exists:
  "column_type t \<Longrightarrow> \<exists>c. codecFor js t = Inr c"
  "column_field f \<Longrightarrow> \<exists>nc. fieldCodec js f = Inr nc"
  "column_entries e \<Longrightarrow> \<exists>k w cs. entryCodecs js (Field n e a b d) = Inr (k # w # cs)"
proof (induction t and f and e rule: column_type_column_field_column_entries.induct)
  case (1 fs)
  then have "\<forall>f\<in>set fs. \<exists>nc. fieldCodec js f = Inr nc" by (simp add: list_all_iff)
  then have "\<exists>cs. fieldCodecs js fs = Inr cs" by (induction fs) (auto simp: result_simps)
  then show ?case by (auto simp: result_simps)
next
  case (4 f)
  obtain n e a b d where f: "f = Field n e a b d" by (cases f)
  have "column_entries e" using 4(2) by (simp add: f)
  then obtain k w xs where "e = TStruct (k # w # xs)" by (cases e rule: column_entries.cases) auto
  moreover obtain k' w' where "fieldCodec js k = Inr k'" "fieldCodec js w = Inr w'"
    using 4 f calculation by (auto simp: result_simps)
  ultimately show ?case by (simp add: f)
qed (auto simp: result_simps)


definition list_host :: "rich list arrow_host" where
  "list_host = \<lparr>vectorFromArray = (\<lambda>_ vs. vs), lib_valid = (\<lambda>l i. l ! i \<noteq> RNull), lib_values = (\<lambda>l i. l ! i), lib_word = (\<lambda>_ _. 0),
     lib_offsets = (\<lambda>_. None), lib_typeIds = (\<lambda>_. None), lib_children = (\<lambda>_. []), lib_dictionary = (\<lambda>_. None),
     vec_get = (\<lambda>c i. case c of Lib l \<Rightarrow> l ! i | _ \<Rightarrow> RUndef), childOfTypeId = (\<lambda>_ _. None), to_number = (\<lambda>_. NaN),
     to_bigint = (\<lambda>_. Inl CodecTypeError), array_from = (\<lambda>_. []), to_text = (\<lambda>_. [])\<rparr>"

lemma list_host_laws: "lib_laws list_host"
  by (simp add: lib_laws_def list_host_def)


text \<open>
  \<open>row[name] ?? row[c]\<close>: a NULL member takes the value of a member named by its position.  The row
  \<open>{a: NULL, "0": 'x'}\<close> is stored as \<open>{a: 'x', "0": 'x'}\<close>.
\<close>

lemma member_named_by_index:
  assumes "t = TStruct [Field ''a'' TUtf8 True [] [], Field ''0'' TUtf8 True [] []]"
    and "row = RObj [(''a'', RNull), (''0'', RStr ''x'')]"
  shows "rbind (writeCanonicalColumn list_host t [row]) (\<lambda>col. readFromData list_host t col 0)
    = Inr (RObj [(''a'', RStr ''x''), (''0'', RStr ''x'')])"
  unfolding assms by code_simp

end
