(* ===== verification/StateSerializer.thy ===== *)
theory StateSerializer
  imports FilterHistory CodecLaws
begin

text \<open>
  What an HTTP cursor carries between turns, \<open>src/protocol/state-serializer.ts\<close> and
  \<open>src/protocol/carried-init-request.ts\<close>: the Arrow type inferred for user state, the flat binary
  frame of the exchange state, the packed init request with the process-wide memo of its parse.
  Reading and writing Arrow IPC, zstd, writing the bits of a double and decoding malformed text are
  parameters.
\<close>

section \<open>The type of user state\<close>

datatype state_error =
    Unsupported string
  | MixedArray string string
  | StateCodec codec_error
  | UnknownFormat
  | Truncated
  | TrailingBytes
  | NoInitRequest
  | NoZstd
  | UnknownCodec byte
  | HistoryError filter_error
  | IpcError string

definition LIST_CHILD_NAME :: string where "LIST_CHILD_NAME = ''item''"
definition emptyListElementType :: arrow_type where "emptyListElementType = TUtf8"

definition inferred_field :: "string \<Rightarrow> arrow_type \<Rightarrow> arrow_field" where
  "inferred_field name t = Field name t True [] []"

fun inferFieldType :: "rich \<Rightarrow> state_error + arrow_type"
  and inferElementType :: "arrow_type option \<Rightarrow> rich list \<Rightarrow> state_error + arrow_type"
  and inferFields :: "(string \<times> rich) list \<Rightarrow> state_error + arrow_field list" where
  "inferFieldType RNull = Inr TNull"
| "inferFieldType RUndef = Inr TNull"
| "inferFieldType (RNum _) = Inr (TFloat 2)"
| "inferFieldType (RBig _) = Inr (TInt 64 True)"
| "inferFieldType (RStr _) = Inr TUtf8"
| "inferFieldType (RBool _) = Inr TBool"
| "inferFieldType (RBytes _) = Inr TBinary"
| "inferFieldType (RBuffer _) = Inr TBinary"
| "inferFieldType (RView _ _) = Inr TBinary"
| "inferFieldType (RArr vs) = rbind (inferElementType None vs) (\<lambda>t. Inr (TList (inferred_field LIST_CHILD_NAME t)))"
| "inferFieldType (RMap _) = Inl (Unsupported ''Map'')"
| "inferFieldType (RSet _) = Inl (Unsupported ''Set'')"
| "inferFieldType (RDate _) = Inl (Unsupported ''Date'')"
| "inferFieldType (ROther ob cls) = (if \<not> ob \<or> cls = ''RegExp'' then Inl (Unsupported cls) else Inr (TStruct []))"
| "inferFieldType (RObj es) = rbind (inferFields es) (\<lambda>fs. Inr (TStruct fs))"
| "inferElementType element [] = Inr (case element of Some t \<Rightarrow> t | None \<Rightarrow> emptyListElementType)"
| "inferElementType element (v # vs) =
     (if isNullish v then inferElementType element vs
      else rbind (inferFieldType v) (\<lambda>t. case element of
        None \<Rightarrow> inferElementType (Some t) vs
      | Some e \<Rightarrow> if typeSignature t \<noteq> typeSignature e then Inl (MixedArray (typeSignature e) (typeSignature t))
          else inferElementType element vs))"
| "inferFields [] = Inr []"
| "inferFields ((k, v) # es) = rbind (inferFieldType v) (\<lambda>t. rbind (inferFields es) (\<lambda>fs. Inr (inferred_field k t # fs)))"

text \<open>A batch of the canonical values of its columns, as the backend writes it to IPC bytes and reads it.\<close>

record state_batch =
  st_fields :: "arrow_field list"
  st_rows :: nat
  st_columns :: "rich list list"

record state_host =
  ipc_write :: "state_batch \<Rightarrow> bytes"
  ipc_parse :: "bytes \<Rightarrow> string + state_batch"
  set_float64 :: "jsnum \<Rightarrow> bytes"
  lossy_text :: "bytes \<Rightarrow> string"
  zstd_codec :: "((bytes \<Rightarrow> bytes) \<times> (bytes \<Rightarrow> bytes)) option"
  js_string :: "rich \<Rightarrow> string"

definition codec_state :: "codec_error + 'a \<Rightarrow> state_error + 'a" where
  "codec_state r = (case r of Inl e \<Rightarrow> Inl (StateCodec e) | Inr x \<Rightarrow> Inr x)"

definition column_of :: "state_host \<Rightarrow> arrow_field \<Rightarrow> rich list \<Rightarrow> state_error + rich list" where
  "column_of H f vs = codec_state (rbind (codecFor (js_string H) (f_type f)) (\<lambda>c. mapR (richToCanonical c) vs))"

text \<open>The batch user state is written as: a row of its entries, and none for an object without entries.\<close>

definition userBatch :: "state_host \<Rightarrow> rich \<Rightarrow> state_error + state_batch" where
  "userBatch H userState =
     (let entries = rich_entries userState in
      if entries = [] then Inr \<lparr>st_fields = [], st_rows = 0, st_columns = []\<rparr>
      else rbind (inferFields entries) (\<lambda>fs.
        let columns = jm_of (map (\<lambda>(k, v). (k, [v])) entries) in
        rbind (mapR (\<lambda>f. column_of H f (case jm_get columns (f_name f) of Some vs \<Rightarrow> vs | None \<Rightarrow> [])) fs) (\<lambda>cols.
        Inr \<lparr>st_fields = fs, st_rows = 1, st_columns = cols\<rparr>)))"

definition serializeUserState :: "state_host \<Rightarrow> rich \<Rightarrow> state_error + bytes option" where
  "serializeUserState H userState =
     (if isNullish userState then Inr None
      else rbind (userBatch H userState) (\<lambda>batch. Inr (Some (ipc_write H batch))))"

definition extractTypedValue :: "state_host \<Rightarrow> rich list \<Rightarrow> nat \<Rightarrow> arrow_type \<Rightarrow> state_error + rich" where
  "extractTypedValue H col index t =
     codec_state (rbind (codecFor (js_string H) t) (\<lambda>c. canonicalToRich c (if index < length col then col ! index else RNull)))"

definition batchColumn :: "state_batch \<Rightarrow> string \<Rightarrow> rich list option" where
  "batchColumn b name = map_of (zip (map f_name (st_fields b)) (st_columns b)) name"

definition deserializeUserState :: "state_host \<Rightarrow> bytes option \<Rightarrow> state_error + rich" where
  "deserializeUserState H bs = (case bs of
     None \<Rightarrow> Inr RNull
   | Some bs \<Rightarrow> (case ipc_parse H bs of
       Inl e \<Rightarrow> Inl (IpcError e)
     | Inr batch \<Rightarrow>
         if st_rows batch = 0 \<and> st_fields batch = [] then Inr (RObj [])
         else if st_rows batch = 0 then Inr RNull
         else rbind (mapR (\<lambda>f. case batchColumn batch (f_name f) of
             None \<Rightarrow> Inr (f_name f, RNull)
           | Some col \<Rightarrow> rbind (extractTypedValue H col 0 (f_type f)) (\<lambda>v. Inr (f_name f, v))) (st_fields batch))
           (\<lambda>es. Inr (RObj (jm_of es)))))"

section \<open>The init request a cursor carries\<close>

definition RAW :: byte where "RAW = 0"
definition ZSTD :: byte where "ZSTD = 1"

definition packInitRequest :: "state_host \<Rightarrow> bytes \<Rightarrow> bytes" where
  "packInitRequest H ipc = (case zstd_codec H of
     None \<Rightarrow> RAW # ipc
   | Some (compress, _) \<Rightarrow> let compressed = compress ipc in
       if length compressed < length ipc then ZSTD # compressed else RAW # ipc)"

definition unpackInitRequest :: "state_host \<Rightarrow> bytes \<Rightarrow> state_error + bytes" where
  "unpackInitRequest H packed = (case packed of
     [] \<Rightarrow> Inl NoInitRequest
   | codec # body \<Rightarrow>
       if codec = RAW then Inr body
       else if codec = ZSTD then (case zstd_codec H of None \<Rightarrow> Inl NoZstd | Some (_, decompress) \<Rightarrow> Inr (decompress body))
       else Inl (UnknownCodec codec))"

text \<open>
  The memo of parsed requests, a \<open>Map\<close> whose first entry is the least recently used.  The IPC read with
  the scalar dictionary and \<open>deserializeInitRequest\<close> are the parameters \<open>dict_of\<close> and \<open>request_of\<close>.
\<close>

definition MAX_ENTRIES :: nat where "MAX_ENTRIES = 128"

fun hash_loop :: "32 word \<Rightarrow> bytes \<Rightarrow> 32 word" where
  "hash_loop h [] = h"
| "hash_loop h (b # bs) = hash_loop ((h XOR ucast b) * 0x01000193) bs"

definition hashBytes :: "bytes \<Rightarrow> 32 word" where
  "hashBytes bs = hash_loop (0x811c9dc5 XOR word_of_nat (length bs)) bs"

definition sameBytes :: "bytes \<Rightarrow> bytes \<Rightarrow> bool" where
  "sameBytes a b \<longleftrightarrow> length a = length b \<and> list_all (\<lambda>i. a ! i = b ! i) [0..<length a]"

record 'req parsed_request =
  p_packed :: bytes
  p_request :: 'req
  p_bindCallIpc :: bytes

record 'req memo =
  parsed :: "(32 word, 'req parsed_request) jsmap"
  parses :: nat
  hits :: nat

definition fresh_memo :: "'req memo" where
  "fresh_memo = \<lparr>parsed = [], parses = 0, hits = 0\<rparr>"

record ('dict, 'req) request_reader =
  dict_of :: "bytes \<Rightarrow> state_error + 'dict"
  request_of :: "'dict \<Rightarrow> state_error + 'req"
  bind_call_of :: "'dict \<Rightarrow> bytes"

definition evict_oldest :: "('k, 'v) jsmap \<Rightarrow> ('k, 'v) jsmap" where
  "evict_oldest m = (if MAX_ENTRIES \<le> length m then (case m of [] \<Rightarrow> [] | (k, _) # _ \<Rightarrow> jm_del k m) else m)"

definition parseCarriedInitRequest ::
  "state_host \<Rightarrow> ('dict, 'req) request_reader \<Rightarrow> bytes \<Rightarrow> 'req memo \<Rightarrow> (state_error + 'req \<times> bytes) \<times> 'req memo" where
  "parseCarriedInitRequest H R packed m =
     (let key = hashBytes packed in
      case (case jm_get (parsed m) key of Some e \<Rightarrow> if sameBytes (p_packed e) packed then Some e else None | None \<Rightarrow> None) of
        Some e \<Rightarrow> (Inr (p_request e, p_bindCallIpc e), m\<lparr>parsed := jm_set key e (jm_del key (parsed m)), hits := hits m + 1\<rparr>)
      | None \<Rightarrow> (case rbind (unpackInitRequest H packed) (dict_of R) of
          Inl err \<Rightarrow> (Inl err, m)
        | Inr dict \<Rightarrow> let m = m\<lparr>parses := parses m + 1\<rparr> in (case request_of R dict of
            Inl err \<Rightarrow> (Inl err, m)
          | Inr request \<Rightarrow>
              let e = \<lparr>p_packed = packed, p_request = request, p_bindCallIpc = bind_call_of R dict\<rparr> in
              (Inr (request, bind_call_of R dict), m\<lparr>parsed := jm_set key e (evict_oldest (jm_del key (parsed m)))\<rparr>))))"

definition carriedInitRequestStats :: "'req memo \<Rightarrow> nat \<times> nat \<times> nat" where
  "carriedInitRequestStats m = (parses m, hits m, length (parsed m))"

section \<open>The frame\<close>

definition STATE_FORMAT_VERSION :: byte where "STATE_FORMAT_VERSION = 1"
definition FLAG_PRODUCER :: nat where "FLAG_PRODUCER = 1"
definition FLAG_OPAQUE_DATA :: nat where "FLAG_OPAQUE_DATA = 2"
definition FLAG_USER_STATE :: nat where "FLAG_USER_STATE = 4"
definition FLAG_FILTER_HISTORY :: nat where "FLAG_FILTER_HISTORY = 8"
definition FLAG_MORE_PENDING :: nat where "FLAG_MORE_PENDING = 16"

lemmas state_flags = FLAG_PRODUCER_def FLAG_OPAQUE_DATA_def FLAG_USER_STATE_def FLAG_FILTER_HISTORY_def FLAG_MORE_PENDING_def

definition toUint8Array :: "rich \<Rightarrow> bytes" where
  "toUint8Array v = (case v of RBytes bs \<Rightarrow> bs | RBuffer bs \<Rightarrow> bs | RView bs _ \<Rightarrow> bs | _ \<Rightarrow> [])"

record exchange_state =
  functionName :: "string option"
  initRequestPacked :: "bytes option"
  initRequestIpc :: bytes
  executionId :: rich
  maxWorkers :: "jsnum option"
  opaqueData :: rich
  isProducer :: bool
  userState :: rich
  filterHistory :: "FilterDeltaHistory option"
  st_morePending :: "bool option"

definition flag :: "bool \<Rightarrow> nat \<Rightarrow> nat" where
  "flag b f = (if b then f else 0)"

definition put_chunk :: "bytes \<Rightarrow> bytes" where
  "put_chunk c = le_bytes 4 (length c) @ c"

definition serialize :: "state_host \<Rightarrow> exchange_state \<Rightarrow> state_error + bytes" where
  "serialize H state =
     (let fname = utf8 (case functionName state of None \<Rightarrow> [] | Some s \<Rightarrow> s);
          init = (case initRequestPacked state of Some p \<Rightarrow> p | None \<Rightarrow> packInitRequest H (initRequestIpc state));
          execId = toUint8Array (executionId state);
          opq = (if isNullish (opaqueData state) then None else Some (toUint8Array (opaqueData state))) in
      rbind (serializeUserState H (userState state)) (\<lambda>user.
      let history = encodeFilterHistory (filterHistory state);
          flags = flag (isProducer state) FLAG_PRODUCER OR flag (opq \<noteq> None) FLAG_OPAQUE_DATA OR flag (user \<noteq> None) FLAG_USER_STATE
            OR flag (history \<noteq> None) FLAG_FILTER_HISTORY OR flag (st_morePending state = Some True) FLAG_MORE_PENDING;
          chunks = [fname, init, execId] @ List.map_filter id [opq, user, history] in
      Inr ([STATE_FORMAT_VERSION, word_of_nat flags] @ set_float64 H (case maxWorkers state of Some n \<Rightarrow> n | None \<Rightarrow> Fin 1)
        @ concat (map put_chunk chunks))))"

definition take_chunk :: "bytes \<Rightarrow> state_error + (bytes \<times> bytes)" where
  "take_chunk view =
     (if length view < 4 then Inl Truncated
      else let len = le_nat (take 4 view); rest = drop 4 view in
        if length rest < len then Inl Truncated else Inr (take len rest, drop len rest))"

definition take_if :: "bool \<Rightarrow> bytes \<Rightarrow> state_error + (bytes option \<times> bytes)" where
  "take_if present view = (if present then rbind (take_chunk view) (\<lambda>(c, r). Inr (Some c, r)) else Inr (None, view))"

definition has_flag :: "nat \<Rightarrow> nat \<Rightarrow> bool" where
  "has_flag flags f \<longleftrightarrow> flags AND f \<noteq> 0"

record carried_state =
  cs_functionName :: string
  cs_initRequestPacked :: bytes
  cs_executionId :: bytes
  cs_maxWorkers :: jsnum
  cs_opaqueData :: "bytes option"
  cs_isProducer :: bool
  cs_userState :: rich
  cs_filterHistory :: FilterDeltaHistory
  cs_morePending :: bool

definition decode_text :: "state_host \<Rightarrow> bytes \<Rightarrow> string" where
  "decode_text H bs = (case utf8_decode bs of Some s \<Rightarrow> s | None \<Rightarrow> lossy_text H bs)"

definition deserialize :: "state_host \<Rightarrow> bytes \<Rightarrow> state_error + carried_state" where
  "deserialize H bytes =
     (if length bytes < 10 \<or> bytes ! 0 \<noteq> STATE_FORMAT_VERSION then Inl UnknownFormat
      else let flags = unat (bytes ! 1); workers = f64_of_bits (le_nat (take 8 (drop 2 bytes))) in
      rbind (take_chunk (drop 10 bytes)) (\<lambda>(fname, r).
      rbind (take_chunk r) (\<lambda>(init, r).
      rbind (take_chunk r) (\<lambda>(execId, r).
      rbind (take_if (has_flag flags FLAG_OPAQUE_DATA) r) (\<lambda>(opq, r).
      rbind (take_if (has_flag flags FLAG_USER_STATE) r) (\<lambda>(user, r).
      rbind (take_if (has_flag flags FLAG_FILTER_HISTORY) r) (\<lambda>(history, r).
      if r \<noteq> [] then Inl TrailingBytes
      else rbind (deserializeUserState H user) (\<lambda>user.
      case decodeFilterHistory history of
        Inl e \<Rightarrow> Inl (HistoryError e)
      | Inr history \<Rightarrow> Inr \<lparr>cs_functionName = decode_text H fname, cs_initRequestPacked = init, cs_executionId = execId,
          cs_maxWorkers = workers, cs_opaqueData = opq, cs_isProducer = has_flag flags FLAG_PRODUCER, cs_userState = user,
          cs_filterHistory = history, cs_morePending = has_flag flags FLAG_MORE_PENDING\<rparr>))))))))"

end
