(* ===== verification/StateLaws.thy ===== *)
theory StateLaws
  imports StateSerializer
begin

text \<open>
  The laws of \<open>StateSerializer\<close>: the memo of parsed init requests never shows, the type inferred for
  user state determines how it travels, and the exchange state comes back out of its frame.
\<close>

section \<open>The memo of parsed requests\<close>

text \<open>What parsing the packed bytes gives without the memo.\<close>

definition direct_parse :: "state_host \<Rightarrow> ('dict, 'req) request_reader \<Rightarrow> bytes \<Rightarrow> state_error + 'req \<times> bytes" where
  "direct_parse H R packed = rbind (unpackInitRequest H packed) (\<lambda>ipc. rbind (dict_of R ipc) (\<lambda>dict.
     rbind (request_of R dict) (\<lambda>request. Inr (request, bind_call_of R dict))))"

fun parse_calls :: "state_host \<Rightarrow> ('dict, 'req) request_reader \<Rightarrow> bytes list \<Rightarrow> 'req memo \<Rightarrow> (state_error + 'req \<times> bytes) list \<times> 'req memo" where
  "parse_calls H R [] m = ([], m)"
| "parse_calls H R (p # ps) m = (let (r, m) = parseCarriedInitRequest H R p m; (rs, m) = parse_calls H R ps m in (r # rs, m))"

definition entry_ok :: "state_host \<Rightarrow> ('dict, 'req) request_reader \<Rightarrow> 32 word \<times> 'req parsed_request \<Rightarrow> bool" where
  "entry_ok H R ke \<longleftrightarrow> fst ke = hashBytes (p_packed (snd ke)) \<and>
     direct_parse H R (p_packed (snd ke)) = Inr (p_request (snd ke), p_bindCallIpc (snd ke))"

definition memo_ok :: "state_host \<Rightarrow> ('dict, 'req) request_reader \<Rightarrow> 'req memo \<Rightarrow> bool" where
  "memo_ok H R m \<longleftrightarrow> jm_ok (parsed m) \<and> length (parsed m) \<le> MAX_ENTRIES \<and> (\<forall>ke\<in>set (parsed m). entry_ok H R ke)"

lemma sameBytes_iff [simp]: "sameBytes a b \<longleftrightarrow> a = b"
  by (auto simp: sameBytes_def list_all_length intro: nth_equalityI)

lemma jm_del_mem: "e \<in> set (jm_del k m) \<Longrightarrow> e \<in> set m"
  by (simp add: jm_del_def)

lemma jm_set_del: "jm_set k v (jm_del k m) = jm_del k m @ [(k, v)]"
  by (rule jm_set_absent) (simp add: jm_get_del)

lemma jm_del_shorter: "jm_get m k \<noteq> None \<Longrightarrow> length (jm_del k m) < length m"
  unfolding jm_del_def by (rule length_filter_less [of "(k, the (jm_get m k))"]) (auto simp: jm_get_def dest: map_of_SomeD)

lemma jm_del_length: "length (jm_del k m) \<le> length m"
  by (simp add: jm_del_def)

lemma evict_facts:
  assumes "jm_ok m" "length m \<le> MAX_ENTRIES"
  shows "jm_ok (evict_oldest m)" "length (evict_oldest m) < MAX_ENTRIES" "set (evict_oldest m) \<subseteq> set m"
proof -
  show "jm_ok (evict_oldest m)" using assms(1) by (auto simp: evict_oldest_def jm_ok_del split: list.splits)
  show "set (evict_oldest m) \<subseteq> set m" by (auto simp: evict_oldest_def dest: jm_del_mem split: list.splits)
  show "length (evict_oldest m) < MAX_ENTRIES"
  proof (cases "MAX_ENTRIES \<le> length m")
    case True
    then obtain k v rest where m: "m = (k, v) # rest" by (cases m) (auto simp: MAX_ENTRIES_def)
    have "length (jm_del k m) < length m" by (rule jm_del_shorter) (simp add: m jm_get_def)
    with assms(2) True show ?thesis by (simp add: evict_oldest_def m)
  qed (simp add: evict_oldest_def)
qed

lemma parse_step:
  assumes "memo_ok H R m" "parseCarriedInitRequest H R packed m = (r, m')"
  shows "r = direct_parse H R packed \<and> memo_ok H R m'"
proof -
  define key where "key = hashBytes packed"
  let ?old = "jm_del key (parsed m)"
  have old: "jm_ok ?old" "length ?old \<le> MAX_ENTRIES" "\<And>ke. ke \<in> set ?old \<Longrightarrow> entry_ok H R ke"
    using assms(1) jm_del_length [of key "parsed m"] by (auto simp: memo_ok_def jm_ok_del dest: jm_del_mem)
  define found where "found = (case jm_get (parsed m) key of Some e \<Rightarrow> if sameBytes (p_packed e) packed then Some e else None | None \<Rightarrow> None)"
  show ?thesis
  proof (cases found)
    case (Some e)
    then have e: "jm_get (parsed m) key = Some e" "p_packed e = packed"
      by (auto simp: found_def split: option.splits if_splits)
    then have ok: "entry_ok H R (key, e)" using assms(1) by (auto simp: memo_ok_def jm_get_def dest: map_of_SomeD)
    have res: "r = Inr (p_request e, p_bindCallIpc e)" "m' = m\<lparr>parsed := jm_set key e ?old, hits := hits m + 1\<rparr>"
      using assms(2) Some by (simp_all add: parseCarriedInitRequest_def Let_def key_def found_def)
    have "length ?old < length (parsed m)" by (rule jm_del_shorter) (simp add: e(1))
    then have "length (?old @ [(key, e)]) \<le> MAX_ENTRIES" using assms(1) by (simp add: memo_ok_def)
    moreover have "jm_ok (jm_set key e ?old)" using old(1) by (rule jm_ok_set)
    ultimately have "memo_ok H R m'" using old(3) ok by (auto simp: res(2) memo_ok_def jm_set_del)
    then show ?thesis using ok e(2) by (simp add: res(1) entry_ok_def)
  next
    case None
    show ?thesis
    proof (cases "rbind (unpackInitRequest H packed) (dict_of R)")
      case (Inl err)
      then have "(r, m') = (Inl err, m)" using assms(2) None by (simp add: parseCarriedInitRequest_def Let_def key_def found_def)
      then show ?thesis using assms(1) Inl by (auto simp: direct_parse_def result_simps)
    next
      case (Inr dict)
      then obtain ipc where d: "unpackInitRequest H packed = Inr ipc" "dict_of R ipc = Inr dict" by (auto simp: result_simps)
      show ?thesis
      proof (cases "request_of R dict")
        case (Inl err)
        then have "(r, m') = (Inl err, m\<lparr>parses := parses m + 1\<rparr>)"
          using assms(2) None Inr by (simp add: parseCarriedInitRequest_def Let_def key_def found_def)
        then show ?thesis using assms(1) Inl d by (simp add: direct_parse_def memo_ok_def)
      next
        case req: (Inr request)
        define e where "e = \<lparr>p_packed = packed, p_request = request, p_bindCallIpc = bind_call_of R dict\<rparr>"
        have dp: "direct_parse H R packed = Inr (request, bind_call_of R dict)" by (simp add: direct_parse_def d req)
        have res: "r = Inr (request, bind_call_of R dict)" "parsed m' = jm_set key e (evict_oldest ?old)"
          using assms(2) None Inr req by (auto simp: parseCarriedInitRequest_def Let_def key_def found_def e_def)
        have ok: "entry_ok H R (key, e)" by (simp add: entry_ok_def e_def key_def dp)
        note ev = evict_facts [OF old(1,2)]
        have "jm_get (evict_oldest ?old) key = None"
        proof -
          have "jm_get ?old key = None" by (simp add: jm_get_del)
          then show ?thesis using ev(3) by (auto simp: jm_get_def map_of_eq_None_iff)
        qed
        then have s: "jm_set key e (evict_oldest ?old) = evict_oldest ?old @ [(key, e)]" by (rule jm_set_absent)
        have "memo_ok H R m'" using ev old(3) ok jm_ok_set [OF ev(1), of key e]
          by (auto simp: memo_ok_def res(2) s)
        then show ?thesis by (simp add: res(1) dp)
      qed
    qed
  qed
qed

text \<open>
  C14: the memo of parsed init requests is never seen.  In any sequence of calls in one process, on
  whatever packed bytes, with colliding hashes, evictions and malformed requests in between, every call returns
  what unpacking and parsing its bytes gives without the memo, errors included; and the memo keeps at most
  128 entries, each under the hash of its own bytes with the parse of them.
\<close>

theorem carried_request_memo_transparent:
  "case parse_calls H R calls fresh_memo of (results, m) \<Rightarrow>
     results = map (direct_parse H R) calls \<and> length (parsed m) \<le> 128 \<and> list_all (entry_ok H R) (parsed m)"
proof -
  have run: "memo_ok H R m \<Longrightarrow> parse_calls H R calls m = (results, m') \<Longrightarrow> results = map (direct_parse H R) calls \<and> memo_ok H R m'" for m results m'
  proof (induction calls arbitrary: m results)
    case (Cons p ps)
    obtain r n where r: "parseCarriedInitRequest H R p m = (r, n)" by (cases "parseCarriedInitRequest H R p m")
    obtain rs n' where rs: "parse_calls H R ps n = (rs, n')" by (cases "parse_calls H R ps n")
    from parse_step [OF Cons.prems(1) r] have "r = direct_parse H R p" "memo_ok H R n" by simp_all
    with Cons.IH [of n rs] Cons.prems(2) r rs show ?case by auto
  qed simp
  obtain results m where c: "parse_calls H R calls fresh_memo = (results, m)" by (cases "parse_calls H R calls fresh_memo")
  have "memo_ok H R fresh_memo" by (simp add: memo_ok_def fresh_memo_def)
  from run [OF this c] show ?thesis by (simp add: c memo_ok_def MAX_ENTRIES_def list_all_iff)
qed

section \<open>Signatures of inferred types\<close>

definition clean_name :: "string \<Rightarrow> bool" where
  "clean_name k \<longleftrightarrow> list_all (\<lambda>c. c \<notin> set '',:<>'') k"

fun inferred :: "arrow_type \<Rightarrow> bool"
  and inferred_ok :: "arrow_field \<Rightarrow> bool" where
  "inferred TNull = True" | "inferred TUtf8 = True" | "inferred TBool = True" | "inferred TBinary = True"
| "inferred (TFloat p) = (p = 2)"
| "inferred (TInt w sg) = (w = 64 \<and> sg)"
| "inferred (TList f) = inferred_ok f"
| "inferred (TStruct fs) = list_all inferred_ok fs"
| "inferred _ = False"
| "inferred_ok (Field n t nl md ex) = (clean_name n \<and> inferred t \<and> nl \<and> md = [] \<and> ex = [])"

text \<open>What may follow the signature of a type in one that contains it.\<close>

definition stops :: "string \<Rightarrow> bool" where
  "stops r \<longleftrightarrow> r = [] \<or> hd r \<in> set '',>''"

lemma number_texts: "nat_to_string 64 = ''64''" "nat_to_string 2 = ''2''"
  by code_simp+

lemma split_colon:
  assumes "clean_name n" "clean_name m" "n @ CHR '':'' # x = m @ CHR '':'' # y"
  shows "n = m \<and> x = y"
  using assms
proof (induction n arbitrary: m)
  case Nil
  then show ?case by (cases m) (auto simp: clean_name_def)
next
  case (Cons c n)
  then show ?case by (cases m) (auto simp: clean_name_def)
qed

lemma join_signatures:
  "join_with '','' (kids_signature (Field n t a b c # fs)) =
     n @ CHR '':'' # typeSignature t @ (if fs = [] then [] else CHR '','' # join_with '','' (kids_signature fs))"
  by (cases fs) simp_all

lemma stops_simps [simp]: "stops []" "stops (CHR '','' # r)" "stops (CHR ''>'' # r)"
  by (simp_all add: stops_def)

definition sig_inj :: "arrow_type \<Rightarrow> bool" where
  "sig_inj t \<longleftrightarrow> (\<forall>t' r r'. inferred t' \<longrightarrow> stops r \<longrightarrow> stops r' \<longrightarrow> typeSignature t @ r = typeSignature t' @ r' \<longrightarrow> t = t' \<and> r = r')"

lemma fields_inj:
  assumes "list_all inferred_ok fs" "list_all inferred_ok fs'" "list_all (\<lambda>f. sig_inj (f_type f)) fs"
    "join_with '','' (kids_signature fs) @ CHR ''>'' # r = join_with '','' (kids_signature fs') @ CHR ''>'' # r'"
  shows "fs = fs' \<and> r = r'"
  using assms
proof (induction fs arbitrary: fs')
  case Nil
  show ?case
  proof (cases fs')
    case (Cons f' fs'')
    obtain n t a b c where f: "f' = Field n t a b c" by (cases f')
    with Nil(2) Cons have "clean_name n" by simp
    with Nil(4) show ?thesis unfolding Cons f join_signatures by (cases n) (auto simp: clean_name_def)
  qed (use Nil in simp)
next
  case (Cons f fs)
  obtain n t a b c where f: "f = Field n t a b c" by (cases f)
  then have n: "clean_name n" "inferred t" "sig_inj t" "a" "b = []" "c = []" using Cons.prems(1,3) by simp_all
  obtain f' fs'' where fs': "fs' = f' # fs''"
  proof (cases fs')
    case Nil
    with Cons.prems(4) n(1) show ?thesis unfolding f join_signatures by (cases n) (auto simp: clean_name_def)
  qed simp
  obtain n' t' a' b' c' where f': "f' = Field n' t' a' b' c'" by (cases f')
  then have n': "clean_name n'" "inferred t'" "a'" "b' = []" "c' = []" using Cons.prems(2) fs' by simp_all
  let ?rest = "\<lambda>fs r. (if fs = [] then [] else CHR '','' # join_with '','' (kids_signature fs)) @ CHR ''>'' # r"
  have "n @ CHR '':'' # (typeSignature t @ ?rest fs r) = n' @ CHR '':'' # (typeSignature t' @ ?rest fs'' r')"
    using Cons.prems(4) unfolding f fs' f' join_signatures by simp
  from split_colon [OF n(1) n'(1) this] have eq: "n = n'" "typeSignature t @ ?rest fs r = typeSignature t' @ ?rest fs'' r'" by simp_all
  have "stops (?rest fs r)" "stops (?rest fs'' r')" by simp_all
  with n(3) n'(2) eq(2) have t: "t = t'" "?rest fs r = ?rest fs'' r'" unfolding sig_inj_def by blast+
  have e: "fs = [] \<longleftrightarrow> fs'' = []" using t(2) by (auto split: if_splits)
  have "fs = fs'' \<and> r = r'"
  proof (cases "fs = []")
    case True
    with e t(2) show ?thesis by simp
  next
    case False
    with e t(2) have "join_with '','' (kids_signature fs) @ CHR ''>'' # r = join_with '','' (kids_signature fs'') @ CHR ''>'' # r'" by simp
    with Cons.IH [of fs''] Cons.prems(1-3) fs' show ?thesis by simp
  qed
  with eq(1) t(1) n n' f f' fs' show ?case by simp
qed

lemma signature_inj:
  "inferred t \<Longrightarrow> sig_inj t"
  "inferred_ok f \<Longrightarrow> sig_inj (f_type f)"
proof (induction t and f rule: inferred_inferred_ok.induct)
  case (7 f)
  then have f: "inferred_ok f" "sig_inj (f_type f)" by simp_all
  show ?case unfolding sig_inj_def
  proof (intro allI impI)
    fix t' r r' assume a: "inferred t'" "stops r" "stops r'" "typeSignature (TList f) @ r = typeSignature t' @ r'"
    then obtain f' where t': "t' = TList f'" by (cases t') (auto simp: brackets_def stops_def number_texts)
    with a fields_inj [of "[f]" "[f']" r r'] f show "TList f = t' \<and> r = r'" by (simp add: brackets_def)
  qed
next
  case (8 fs)
  then have f: "list_all inferred_ok fs" "list_all (\<lambda>f. sig_inj (f_type f)) fs" by (simp_all add: list_all_iff)
  show ?case unfolding sig_inj_def
  proof (intro allI impI)
    fix t' r r' assume a: "inferred t'" "stops r" "stops r'" "typeSignature (TStruct fs) @ r = typeSignature t' @ r'"
    then obtain fs' where t': "t' = TStruct fs'" by (cases t') (auto simp: brackets_def stops_def number_texts)
    with a fields_inj [of fs fs' r r'] f show "TStruct fs = t' \<and> r = r'" by (simp add: brackets_def)
  qed
next
  case (5 p)
  show ?case unfolding sig_inj_def
  proof (intro allI impI)
    fix t' r r' assume "inferred t'" "stops r" "stops r'" "typeSignature (TFloat p) @ r = typeSignature t' @ r'"
    with 5 show "TFloat p = t' \<and> r = r'" by (cases t') (auto simp: brackets_def stops_def number_texts)
  qed
next
  case (6 w sg)
  show ?case unfolding sig_inj_def
  proof (intro allI impI)
    fix t' r r' assume "inferred t'" "stops r" "stops r'" "typeSignature (TInt w sg) @ r = typeSignature t' @ r'"
    with 6 show "TInt w sg = t' \<and> r = r'" by (cases t') (auto simp: brackets_def stops_def number_texts)
  qed
qed (auto simp: sig_inj_def, (case_tac t'; auto simp: brackets_def stops_def number_texts)+)

section \<open>User state travels\<close>

text \<open>
  The values user state is made of: no \<open>ArrayBuffer\<close>, \<open>Map\<close>, \<open>Set\<close>, \<open>Date\<close> or instance of another class;
  objects with distinct keys free of the punctuation of type signatures.
\<close>

fun state_value :: "rich \<Rightarrow> bool" where
  "state_value (RArr vs) = list_all state_value vs"
| "state_value (RObj es) = (distinct (map fst es) \<and> list_all (\<lambda>(k, v). clean_name k \<and> state_value v) es)"
| "state_value (RBuffer _) = False" | "state_value (RDate _) = False" | "state_value (RMap _) = False"
| "state_value (RSet _) = False" | "state_value (ROther _ _) = False"
| "state_value _ = True"

text \<open>How a value arrives: \<open>undefined\<close> as \<open>null\<close>, every view of a buffer as its bytes.\<close>

fun settle :: "rich \<Rightarrow> rich" where
  "settle RUndef = RNull"
| "settle (RView bs _) = RBytes bs"
| "settle (RArr vs) = RArr (map settle vs)"
| "settle (RObj es) = RObj (map (\<lambda>(k, v). (k, settle v)) es)"
| "settle v = v"

definition travels :: "(rich \<Rightarrow> string) \<Rightarrow> arrow_type \<Rightarrow> rich \<Rightarrow> bool" where
  "travels js t v \<longleftrightarrow> (\<exists>c. codecFor js t = Inr c \<and>
     (\<forall>w. richToCanonical c v = Inr w \<longrightarrow> w = settle v \<and> canonicalToRich c w = Inr w))"

lemma settle_defined: "settle v \<noteq> RUndef"
  by (cases v) simp_all

lemma settle_null: "isNullish v \<Longrightarrow> settle v = RNull"
  by (auto simp: isNullish_def)

lemma codec_nulls:
  assumes "codecFor js t = Inr c" "inferred t" "isNullish v"
  shows "richToCanonical c v = Inr RNull \<and> canonicalToRich c RNull = Inr RNull"
  using assms by (cases t)
    (auto simp: isNullish_def nullable_def NULL_CODEC_def same_codec_def UTF8_CODEC_def BOOL_CODEC_def FLOAT_CODEC_def identity_codec_def
      bytesCodec_def int_codec_def listCodec_def structCodec_def result_simps)

lemma travels_null: "inferred t \<Longrightarrow> codecFor js t = Inr c \<Longrightarrow> isNullish v \<Longrightarrow> travels js t v"
  using codec_nulls [of js t c v] settle_null [of v] by (auto simp: travels_def)

lemma list_travels:
  assumes c: "codecFor js t = Inr c" and v: "\<And>v. v \<in> set vs \<Longrightarrow> travels js t v"
  shows "travels js (TList (inferred_field n t)) (RArr vs)"
proof -
  have lc: "codecFor js (TList (inferred_field n t)) = Inr (listCodec c)" by (simp add: inferred_field_def c)
  have "w = RArr (map settle vs) \<and> canonicalToRich (listCodec c) w = Inr w" if r: "richToCanonical (listCodec c) (RArr vs) = Inr w" for w
  proof -
    obtain ws where ws: "mapR (richToCanonical c) vs = Inr ws" "w = RArr ws"
      using r by (auto simp: listCodec_def nullable_def isNullish_def list_conv_def toArray_def iter_elems_def result_simps)
    have "list_all2 (\<lambda>v w. w = settle v \<and> canonicalToRich c w = Inr w) vs ws"
      unfolding list_all2_conv_all_nth
    proof (intro conjI allI impI)
      show "length vs = length ws" using ws(1) by (simp add: mapR_eq_Inr list_all2_lengthD)
      fix i assume i: "i < length vs"
      then have "richToCanonical c (vs ! i) = Inr (ws ! i)" using ws(1) by (simp add: mapR_eq_Inr list_all2_conv_all_nth)
      moreover have "travels js t (vs ! i)" using v i by simp
      ultimately show "ws ! i = settle (vs ! i)" "canonicalToRich c (ws ! i) = Inr (ws ! i)" using c by (auto simp: travels_def)
    qed
    then have e: "ws = map settle vs" "list_all2 (\<lambda>w w'. canonicalToRich c w = Inr w') ws ws"
      by (auto simp: list_all2_conv_all_nth intro: nth_equalityI)
    from e(2) have "mapR (canonicalToRich c) ws = Inr ws" by (simp add: mapR_eq_Inr)
    then show ?thesis by (simp add: ws(2) e(1) listCodec_def nullable_def isNullish_def list_conv_def toArray_def iter_elems_def)
  qed
  then show ?thesis using lc by (simp add: travels_def)
qed

lemma struct_conv_entries:
  assumes "distinct (map fst es)" "map fst cs = map fst es"
    "\<And>i. i < length es \<Longrightarrow> conv (snd (cs ! i)) (or_null (snd (es ! i))) = Inr (out i)"
  shows "struct_conv conv cs (RObj es) = Inr (RObj (map (\<lambda>i. (fst (es ! i), out i)) [0..<length es]))"
proof -
  let ?out = "map (\<lambda>i. (fst (es ! i), out i)) [0..<length es]"
  have len: "length cs = length es" using assms(2) by (metis length_map)
  have "mapR (\<lambda>(name, c). rbind (conv c (or_null (rich_member (RObj es) name))) (\<lambda>w. Inr (name, w))) cs = Inr ?out"
    unfolding mapR_eq_Inr list_all2_conv_all_nth
  proof (intro conjI allI impI)
    fix i assume i: "i < length cs"
    then have k: "fst (cs ! i) = fst (es ! i)" using assms(2) len by (metis nth_map)
    have "es ! i \<in> set es" using i len by simp
    then have "map_of es (fst (es ! i)) = Some (snd (es ! i))" using assms(1) by simp
    then have "rich_member (RObj es) (fst (cs ! i)) = snd (es ! i)" by (simp add: k rich_member_def rich_entries_def)
    then show "(case cs ! i of (name, c) \<Rightarrow> rbind (conv c (or_null (rich_member (RObj es) name))) (\<lambda>w. Inr (name, w))) = Inr (?out ! i)"
      using assms(3) [of i] i len k by (simp add: case_prod_beta)
  qed (simp add: len)
  moreover have "map fst ?out = map fst es" by (rule nth_equalityI) simp_all
  ultimately show ?thesis using assms(1) by (simp add: struct_conv_def typeof_object_def jm_of_distinct)
qed

lemma struct_conv_inv:
  assumes "distinct (map fst es)" "map fst cs = map fst es" "struct_conv conv cs (RObj es) = Inr w"
  shows "\<exists>out. (\<forall>i<length es. conv (snd (cs ! i)) (or_null (snd (es ! i))) = Inr (out i)) \<and>
    w = RObj (map (\<lambda>i. (fst (es ! i), out i)) [0..<length es])"
proof -
  have len: "length cs = length es" using assms(2) by (metis length_map)
  obtain o1 where o1: "mapR (\<lambda>(name, c). rbind (conv c (or_null (rich_member (RObj es) name))) (\<lambda>w. Inr (name, w))) cs = Inr o1"
    using assms(3) by (auto simp: struct_conv_def codec_err_def result_simps split: if_splits)
  define out where "out i = snd (o1 ! i)" for i
  have "conv (snd (cs ! i)) (or_null (snd (es ! i))) = Inr (out i)" if i: "i < length es" for i
  proof -
    have k: "fst (cs ! i) = fst (es ! i)" using assms(2) len i by (metis nth_map)
    have "es ! i \<in> set es" using i by simp
    then have "map_of es (fst (es ! i)) = Some (snd (es ! i))" using assms(1) by simp
    then have m: "rich_member (RObj es) (fst (cs ! i)) = snd (es ! i)" by (simp add: k rich_member_def rich_entries_def)
    have "(case cs ! i of (name, c) \<Rightarrow> rbind (conv c (or_null (rich_member (RObj es) name))) (\<lambda>w. Inr (name, w))) = Inr (o1 ! i)"
      using o1 i len by (simp add: mapR_eq_Inr list_all2_conv_all_nth)
    then have eq: "rbind (conv (snd (cs ! i)) (or_null (snd (es ! i)))) (\<lambda>w. Inr (fst (cs ! i), w)) = Inr (o1 ! i)"
      using m by (simp add: case_prod_beta)
    show ?thesis
    proof (cases "conv (snd (cs ! i)) (or_null (snd (es ! i)))")
      case (Inr x)
      with eq have "(fst (cs ! i), x) = o1 ! i" by simp
      then show ?thesis using Inr unfolding out_def by (metis snd_conv)
    qed (use eq in simp)
  qed
  then have o: "\<forall>i<length es. conv (snd (cs ! i)) (or_null (snd (es ! i))) = Inr (out i)" by blast
  then have "struct_conv conv cs (RObj es) = Inr (RObj (map (\<lambda>i. (fst (es ! i), out i)) [0..<length es]))"
    by (intro struct_conv_entries [OF assms(1,2)]) simp
  with assms(3) o show ?thesis by auto
qed

lemma settle_or_null: "settle (or_null v) = settle v" "or_null (settle v) = settle v"
  using settle_defined [of v] by (auto simp: or_null_def isNullish_def)

lemma struct_travels:
  assumes d: "distinct (map fst es)" and k: "map f_name fs = map fst es"
    and c: "fieldCodecs js fs = Inr cs" "map fst cs = map f_name fs"
    and t: "\<And>i. i < length es \<Longrightarrow> codecFor js (f_type (fs ! i)) = Inr (snd (cs ! i)) \<and> inferred (f_type (fs ! i)) \<and> travels js (f_type (fs ! i)) (snd (es ! i))"
  shows "travels js (TStruct fs) (RObj es)"
proof -
  have kc: "map fst cs = map fst es" using c(2) k by simp
  have sc: "codecFor js (TStruct fs) = Inr (structCodec cs)" by (simp add: c(1))
  have "w = settle (RObj es) \<and> canonicalToRich (structCodec cs) w = Inr w" if r: "richToCanonical (structCodec cs) (RObj es) = Inr w" for w
  proof -
    have "struct_conv richToCanonical cs (RObj es) = Inr w" using r by (simp add: structCodec_def nullable_def isNullish_def)
    from struct_conv_inv [OF d kc this] obtain out where out:
        "\<And>i. i < length es \<Longrightarrow> richToCanonical (snd (cs ! i)) (or_null (snd (es ! i))) = Inr (out i)"
        "w = RObj (map (\<lambda>i. (fst (es ! i), out i)) [0..<length es])" by blast
    have o: "out i = settle (snd (es ! i)) \<and> canonicalToRich (snd (cs ! i)) (out i) = Inr (out i)" if i: "i < length es" for i
    proof (cases "isNullish (snd (es ! i))")
      case True
      then have "isNullish (or_null (snd (es ! i)))" by (simp add: or_null_def isNullish_def)
      with codec_nulls [OF conjunct1 [OF t [OF i]] _ this] t [OF i] out(1) [OF i] settle_null [OF True] show ?thesis by simp
    next
      case False
      then have "or_null (snd (es ! i)) = snd (es ! i)" by (simp add: or_null_def)
      with out(1) [OF i] t [OF i] show ?thesis by (auto simp: travels_def)
    qed
    have ents: "map (\<lambda>i. (fst (es ! i), out i)) [0..<length es] = map (\<lambda>(k, v). (k, settle v)) es"
      using o by (intro nth_equalityI) (auto simp: case_prod_beta)
    have w: "w = settle (RObj es)" unfolding out(2) ents by simp
    let ?es = "map (\<lambda>(k, v). (k, settle v)) es"
    have ke: "map fst ?es = map fst es" by (simp add: case_prod_beta comp_def)
    have "struct_conv canonicalToRich cs (RObj ?es) = Inr (RObj (map (\<lambda>i. (fst (?es ! i), out i)) [0..<length ?es]))"
    proof (rule struct_conv_entries)
      fix i assume "i < length ?es"
      then have i: "i < length es" by simp
      then have "snd (?es ! i) = out i" using o by (simp add: case_prod_beta)
      moreover have "or_null (out i) = out i" using o [OF i] settle_or_null(2) [of "snd (es ! i)"] by simp
      ultimately show "canonicalToRich (snd (cs ! i)) (or_null (snd (?es ! i))) = Inr (out i)"
        using conjunct2 [OF o [OF i]] by (simp only:)
    next
      show "distinct (map fst ?es)" unfolding ke by (rule d)
      show "map fst cs = map fst ?es" unfolding ke by (rule kc)
    qed
    moreover have "map (\<lambda>i. (fst (?es ! i), out i)) [0..<length ?es] = ?es"
      using o by (intro nth_equalityI) (auto simp: case_prod_beta)
    ultimately show ?thesis by (simp add: w structCodec_def nullable_def isNullish_def)
  qed
  then show ?thesis using sc by (simp add: travels_def)
qed

lemma same_type:
  "inferred t \<Longrightarrow> inferred e \<Longrightarrow> typeSignature t = typeSignature e \<Longrightarrow> t = e"
  using signature_inj(1) [of t] unfolding sig_inj_def by (metis append_Nil2 stops_simps(1))

lemma fieldCodecs_nth:
  assumes "fieldCodecs js fs = Inr cs"
  shows "length cs = length fs \<and> map fst cs = map f_name fs \<and> (\<forall>i<length fs. codecFor js (f_type (fs ! i)) = Inr (snd (cs ! i)))"
  using assms
proof (induction fs arbitrary: cs)
  case (Cons f fs)
  obtain n t a b d where f: "f = Field n t a b d" by (cases f)
  from Cons.prems obtain c cs' where c: "codecFor js t = Inr c" "fieldCodecs js fs = Inr cs'" "cs = (n, c) # cs'"
    by (auto simp: f result_simps)
  with Cons.IH [OF c(2)] show ?case by (auto simp: f nth_Cons split: nat.splits)
qed simp

lemma inferred_codec:
  "inferred t \<Longrightarrow> \<exists>c. codecFor js t = Inr c"
  "inferred_ok f \<Longrightarrow> \<exists>nc. fieldCodec js f = Inr nc"
proof (induction t and f rule: inferred_inferred_ok.induct)
  case (8 fs)
  then have "\<forall>f\<in>set fs. \<exists>nc. fieldCodec js f = Inr nc" by (simp add: list_all_iff)
  then have "\<exists>cs. fieldCodecs js fs = Inr cs" by (induction fs) (auto simp: result_simps)
  then show ?case by (auto simp: result_simps)
qed (auto simp: result_simps)

lemma infer_travels:
  "state_value v \<Longrightarrow> inferFieldType v = Inr t \<Longrightarrow> inferred t \<and> travels js t v"
  "list_all state_value vs \<Longrightarrow> inferElementType element vs = Inr t' \<Longrightarrow> (\<And>e. element = Some e \<Longrightarrow> inferred e) \<Longrightarrow>
     inferred t' \<and> (\<forall>e. element = Some e \<longrightarrow> t' = e) \<and> (\<forall>v\<in>set vs. travels js t' v)"
  "list_all (\<lambda>(k, v). clean_name k \<and> state_value v) es \<Longrightarrow> inferFields es = Inr fs \<Longrightarrow>
     list_all inferred_ok fs \<and> map f_name fs = map fst es \<and> (\<forall>i<length es. inferred (f_type (fs ! i)) \<and> travels js (f_type (fs ! i)) (snd (es ! i)))"
proof (induction v and element vs and es arbitrary: t and t' and fs rule: inferFieldType_inferElementType_inferFields.induct)
  case (10 vs)
  from "10.prems"(2) obtain e where e: "inferElementType None vs = Inr e" "t = TList (inferred_field LIST_CHILD_NAME e)"
    by (auto simp: result_simps)
  have "list_all state_value vs" using "10.prems"(1) by simp
  from "10.IH" [OF this e(1)] have i: "inferred e" "\<And>v. v \<in> set vs \<Longrightarrow> travels js e v" by simp_all
  obtain c where "codecFor js e = Inr c" using inferred_codec(1) [OF i(1)] by blast
  from list_travels [OF this i(2)] show ?case using i(1) by (simp add: e(2) inferred_field_def LIST_CHILD_NAME_def clean_name_def)
next
  case (15 es)
  from "15.prems"(2) obtain fs where fs: "inferFields es = Inr fs" "t = TStruct fs" by (auto simp: result_simps)
  have p: "distinct (map fst es)" "list_all (\<lambda>(k, v). clean_name k \<and> state_value v) es" using "15.prems"(1) by simp_all
  from "15.IH" [OF p(2) fs(1)] have i: "list_all inferred_ok fs" "map f_name fs = map fst es"
      "\<And>i. i < length es \<Longrightarrow> inferred (f_type (fs ! i)) \<and> travels js (f_type (fs ! i)) (snd (es ! i))" by blast+
  have inf: "inferred (TStruct fs)" using i(1) by simp
  then obtain cs where cs: "fieldCodecs js fs = Inr cs" using inferred_codec(1) [of "TStruct fs" js] by (auto simp: result_simps)
  note nth = fieldCodecs_nth [OF cs]
  have len: "length fs = length es" using i(2) by (metis length_map)
  have "travels js (TStruct fs) (RObj es)"
  proof (rule struct_travels [OF p(1) i(2) cs conjunct1 [OF conjunct2 [OF nth]]])
    fix i assume "i < length es"
    with len nth i(3) [OF this]
    show "codecFor js (f_type (fs ! i)) = Inr (snd (cs ! i)) \<and> inferred (f_type (fs ! i)) \<and> travels js (f_type (fs ! i)) (snd (es ! i))"
      by simp
  qed
  with inf show ?case unfolding fs(2) by blast
next
  case (16 element)
  then show ?case by (auto simp: emptyListElementType_def split: option.splits)
next
  case (17 element v vs)
  have sv: "state_value v" "list_all state_value vs" using "17.prems"(1) by simp_all
  show ?case
  proof (cases "isNullish v")
    case True
    with "17.prems"(2) have r: "inferElementType element vs = Inr t'" by simp
    from "17.IH"(1) [OF True sv(2) r "17.prems"(3)]
    have h: "inferred t'" "\<forall>e. element = Some e \<longrightarrow> t' = e" "\<forall>v\<in>set vs. travels js t' v" by simp_all
    obtain c where "codecFor js t' = Inr c" using inferred_codec(1) [OF h(1)] by blast
    from travels_null [OF h(1) this True] h show ?thesis by simp
  next
    case False
    with "17.prems"(2) obtain t where t: "inferFieldType v = Inr t" by (auto simp: result_simps)
    from "17.IH"(2) [OF False sv(1) t] have tv: "inferred t" "travels js t v" by simp_all
    show ?thesis
    proof (cases element)
      case None
      with "17.prems"(2) False t have r: "inferElementType (Some t) vs = Inr t'" by simp
      have "inferred t' \<and> (\<forall>e. Some t = Some e \<longrightarrow> t' = e) \<and> (\<forall>v\<in>set vs. travels js t' v)"
        by (rule "17.IH"(3) [OF False t None sv(2) r]) (use tv(1) in simp)
      then have h: "t' = t" "\<forall>v\<in>set vs. travels js t' v" by blast+
      have "\<forall>u\<in>set (v # vs). travels js t' u" using h(2) tv(2) unfolding h(1) by (simp only: list.set ball_simps)
      then show ?thesis using tv(1) None h(1) by blast
    next
      case (Some e)
      with "17.prems"(2) False t have s: "typeSignature t = typeSignature e" "inferElementType element vs = Inr t'"
        by (auto split: if_splits)
      have te: "t = e" using same_type [OF tv(1) _ s(1)] "17.prems"(3) Some by blast
      have "inferred t' \<and> (\<forall>e. element = Some e \<longrightarrow> t' = e) \<and> (\<forall>v\<in>set vs. travels js t' v)"
        by (rule "17.IH"(4) [OF False t Some _ sv(2) s(2) "17.prems"(3)]) (simp add: s(1))
      then have h: "t' = t" "inferred t'" "\<forall>v\<in>set vs. travels js t' v" using te Some by blast+
      have "\<forall>u\<in>set (v # vs). travels js t' u" using h(3) tv(2) unfolding h(1) by (simp only: list.set ball_simps)
      then show ?thesis using h te Some by blast
    qed
  qed
next
  case (19 k v es)
  from "19.prems"(2) obtain t fs' where t: "inferFieldType v = Inr t" "inferFields es = Inr fs'" "fs = inferred_field k t # fs'"
    by (auto simp: result_simps)
  have p: "clean_name k" "state_value v" "list_all (\<lambda>(k, v). clean_name k \<and> state_value v) es" using "19.prems"(1) by simp_all
  from "19.IH"(1) [OF p(2) t(1)] "19.IH"(2) [OF t(1) p(3) t(2)] p(1)
  show ?case by (simp add: t(3) inferred_field_def nth_Cons split: nat.split)
qed (auto simp: travels_def nullable_def isNullish_def NULL_CODEC_def same_codec_def UTF8_CODEC_def BOOL_CODEC_def FLOAT_CODEC_def
  identity_codec_def bytesCodec_def int_codec_def toCanonBytes_def utf8_toCanon_def utf8_fromCanon_def checkString_def result_simps)

section \<open>The frame\<close>

lemma fieldCodecs_single: "fieldCodec js f = Inr nc \<Longrightarrow> fieldCodecs js [f] = Inr [nc]"
  by simp

lemma user_state_travels:
  assumes sv: "state_value (RObj es)" and es: "es \<noteq> []" and b: "userBatch H (RObj es) = Inr b" and ipc: "ipc_parse H (ipc_write H b) = Inr b"
  shows "deserializeUserState H (Some (ipc_write H b)) = Inr (settle (RObj es))"
proof -
  have d: "distinct (map fst es)" and sv': "list_all (\<lambda>(k, v). clean_name k \<and> state_value v) es" using sv by simp_all
  let ?cols = "map (\<lambda>(k, v). (k, [v])) es"
  have dc: "map fst ?cols = map fst es" by (simp add: case_prod_beta comp_def)
  have jm: "jm_of ?cols = ?cols" by (rule jm_of_distinct) (unfold dc, rule d)
  obtain fs cols where fs: "inferFields es = Inr fs" and
      cols: "mapR (\<lambda>f. column_of H f (case jm_get ?cols (f_name f) of Some vs \<Rightarrow> vs | None \<Rightarrow> [])) fs = Inr cols" and
      b': "b = \<lparr>st_fields = fs, st_rows = 1, st_columns = cols\<rparr>"
    using b es by (auto simp: userBatch_def rich_entries_def Let_def jm result_simps)
  have inf: "map f_name fs = map fst es" "\<And>i. i < length es \<Longrightarrow> inferred (f_type (fs ! i)) \<and> travels (js_string H) (f_type (fs ! i)) (snd (es ! i))"
    using infer_travels(3) [OF sv' fs, of "js_string H"] by blast+
  have lf: "length fs = length es" using arg_cong [OF inf(1), of length] by simp
  have "length cols = length es" using mapR_length [OF cols] lf by simp
  note len = lf this
  have col: "f_name (fs ! i) = fst (es ! i) \<and> (\<exists>c. codecFor (js_string H) (f_type (fs ! i)) = Inr c \<and>
      cols ! i = [settle (snd (es ! i))] \<and> canonicalToRich c (settle (snd (es ! i))) = Inr (settle (snd (es ! i))))" if i: "i < length es" for i
  proof -
    have n: "f_name (fs ! i) = fst (es ! i)" using inf(1) i len by (metis nth_map)
    have "map_of ?cols (fst (es ! i)) = Some [snd (es ! i)]"
    proof (rule map_of_is_SomeI)
      show "distinct (map fst ?cols)" unfolding dc by (rule d)
      show "(fst (es ! i), [snd (es ! i)]) \<in> set ?cols" using i by (force simp: in_set_conv_nth case_prod_beta)
    qed
    then have "jm_get ?cols (f_name (fs ! i)) = Some [snd (es ! i)]" by (simp add: jm_get_def n)
    moreover have "column_of H (fs ! i) (case jm_get ?cols (f_name (fs ! i)) of Some vs \<Rightarrow> vs | None \<Rightarrow> []) = Inr (cols ! i)"
      using cols i len by (simp add: mapR_eq_Inr list_all2_conv_all_nth)
    ultimately have c: "column_of H (fs ! i) [snd (es ! i)] = Inr (cols ! i)" by simp
    obtain c where cf: "codecFor (js_string H) (f_type (fs ! i)) = Inr c"
        "\<And>w. richToCanonical c (snd (es ! i)) = Inr w \<Longrightarrow> w = settle (snd (es ! i)) \<and> canonicalToRich c w = Inr w"
      using inf(2) [OF i] by (auto simp: travels_def)
    from c cf(1) have "codec_state (mapR (richToCanonical c) [snd (es ! i)]) = Inr (cols ! i)" by (simp add: column_of_def)
    then obtain w where w: "richToCanonical c (snd (es ! i)) = Inr w" "cols ! i = [w]"
      by (cases "richToCanonical c (snd (es ! i))") (auto simp: codec_state_def)
    from cf(2) [OF w(1)] cf(1) n w(2) show ?thesis by metis
  qed
  have "mapR (\<lambda>f. case batchColumn b (f_name f) of None \<Rightarrow> Inr (f_name f, RNull)
      | Some col \<Rightarrow> rbind (extractTypedValue H col 0 (f_type f)) (\<lambda>v. Inr (f_name f, v))) fs = Inr (map (\<lambda>(k, v). (k, settle v)) es)"
    unfolding mapR_eq_Inr list_all2_conv_all_nth
  proof (intro conjI allI impI)
    fix i assume "i < length fs"
    then have i: "i < length es" using len by simp
    obtain c where c: "f_name (fs ! i) = fst (es ! i)" "codecFor (js_string H) (f_type (fs ! i)) = Inr c"
        "cols ! i = [settle (snd (es ! i))]" "canonicalToRich c (settle (snd (es ! i))) = Inr (settle (snd (es ! i)))"
      using col [OF i] by blast
    have "batchColumn b (f_name (fs ! i)) = Some (cols ! i)"
      unfolding batchColumn_def
    proof (rule map_of_is_SomeI)
      show "distinct (map fst (zip (map f_name (st_fields b)) (st_columns b)))" using d by (simp add: b' inf(1) len)
      show "(f_name (fs ! i), cols ! i) \<in> set (zip (map f_name (st_fields b)) (st_columns b))"
        using i len by (force simp: b' set_zip)
    qed
    then show "(case batchColumn b (f_name (fs ! i)) of None \<Rightarrow> Inr (f_name (fs ! i), RNull)
        | Some col \<Rightarrow> rbind (extractTypedValue H col 0 (f_type (fs ! i))) (\<lambda>v. Inr (f_name (fs ! i), v)))
        = Inr (map (\<lambda>(k, v). (k, settle v)) es ! i)"
      using c i by (simp add: extractTypedValue_def codec_state_def case_prod_beta)
  qed (simp add: len)
  moreover have ke: "map fst (map (\<lambda>(k, v). (k, settle v)) es) = map fst es" by (simp add: case_prod_beta comp_def)
  moreover have "jm_of (map (\<lambda>(k, v). (k, settle v)) es) = map (\<lambda>(k, v). (k, settle v)) es"
    by (rule jm_of_distinct) (unfold ke, rule d)
  moreover have "st_rows b \<noteq> 0" "st_fields b = fs" by (simp_all add: b')
  ultimately show ?thesis by (simp add: deserializeUserState_def ipc)
qed

lemma flags_read:
  assumes "flags = flag a FLAG_PRODUCER OR flag b FLAG_OPAQUE_DATA OR flag c FLAG_USER_STATE OR flag d FLAG_FILTER_HISTORY OR flag e FLAG_MORE_PENDING"
  shows "unat (word_of_nat flags :: byte) = flags" "has_flag flags FLAG_PRODUCER = a" "has_flag flags FLAG_OPAQUE_DATA = b"
    "has_flag flags FLAG_USER_STATE = c" "has_flag flags FLAG_FILTER_HISTORY = d" "has_flag flags FLAG_MORE_PENDING = e"
proof -
  have "flags < 256" unfolding assms by (cases a; cases b; cases c; cases d; cases e) (simp_all add: flag_def state_flags)
  then show "unat (word_of_nat flags :: byte) = flags" by (simp add: unat_of_nat)
qed (unfold assms, (cases a; cases b; cases c; cases d; cases e; simp add: flag_def state_flags has_flag_def)+)

definition optional_chunk :: "bytes option \<Rightarrow> bytes" where
  "optional_chunk c = (case c of None \<Rightarrow> [] | Some x \<Rightarrow> put_chunk x)"

definition chunk_fits :: "bytes option \<Rightarrow> bool" where
  "chunk_fits c \<longleftrightarrow> (case c of None \<Rightarrow> True | Some x \<Rightarrow> length x < 2 ^ 32)"

lemma optional_chunks:
  "concat (map put_chunk ([a, b, c] @ List.map_filter id [x, y, z])) =
     put_chunk a @ put_chunk b @ put_chunk c @ optional_chunk x @ optional_chunk y @ optional_chunk z"
  by (auto simp: optional_chunk_def map_filter_simps split: option.split)

lemma take_chunk_put: "length c < 2 ^ 32 \<Longrightarrow> take_chunk (put_chunk c @ r) = Inr (c, r)"
  by (simp add: take_chunk_def put_chunk_def Let_def codec_simps)

lemma take_if_put: "chunk_fits c \<Longrightarrow> take_if (c \<noteq> None) (optional_chunk c @ r) = Inr (c, r)"
  by (auto simp: take_if_def optional_chunk_def chunk_fits_def take_chunk_put split: option.splits)

lemma put_chunk_length: "length (put_chunk c) = 4 + length c" "length (optional_chunk (Some c)) = 4 + length c"
  by (simp_all add: put_chunk_def optional_chunk_def)

definition state_workers :: "exchange_state \<Rightarrow> jsnum" where
  "state_workers s = (case maxWorkers s of Some n \<Rightarrow> n | None \<Rightarrow> Fin 1)"

definition state_init :: "state_host \<Rightarrow> exchange_state \<Rightarrow> bytes" where
  "state_init H s = (case initRequestPacked s of Some p \<Rightarrow> p | None \<Rightarrow> packInitRequest H (initRequestIpc s))"

definition arriving_history :: "FilterDeltaHistory option \<Rightarrow> FilterDeltaHistory" where
  "arriving_history h = (case h of None \<Rightarrow> EMPTY_FILTER_HISTORY | Some h \<Rightarrow> if h_deltas h = [] then EMPTY_FILTER_HISTORY else h)"

text \<open>User state the serializer is given: nothing, or an object of values it can carry.\<close>

definition user_state_ok :: "rich \<Rightarrow> bool" where
  "user_state_ok u \<longleftrightarrow> isNullish u \<or> (case u of RObj _ \<Rightarrow> state_value u | _ \<Rightarrow> False)"

lemma user_state_arrives:
  assumes u: "user_state_ok u" and s: "serializeUserState H u = Inr bs"
    and ipc: "\<And>b. userBatch H u = Inr b \<Longrightarrow> ipc_parse H (ipc_write H b) = Inr b"
  shows "deserializeUserState H bs = Inr (settle u)"
proof (cases "isNullish u")
  case True
  then show ?thesis using s settle_null [OF True] by (simp add: serializeUserState_def deserializeUserState_def)
next
  case False
  then obtain es where es: "u = RObj es" "state_value u" using u by (auto simp: user_state_ok_def split: rich.splits)
  obtain b where b: "userBatch H u = Inr b" "bs = Some (ipc_write H b)"
    using s False by (auto simp: serializeUserState_def result_simps)
  show ?thesis
  proof (cases "es = []")
    case True
    then have "b = \<lparr>st_fields = [], st_rows = 0, st_columns = []\<rparr>" using b(1) by (simp add: es(1) userBatch_def rich_entries_def)
    then show ?thesis using ipc [OF b(1)] True by (simp add: b(2) deserializeUserState_def es(1))
  next
    case False
    show ?thesis using user_state_travels [OF _ False, of H b] es ipc [OF b(1)] b by simp
  qed
qed

lemma history_arrives:
  assumes "case h of None \<Rightarrow> True | Some h \<Rightarrow> chunks_ok (h_deltas h) \<and> chunks_ok (map utf8 (h_order h))"
  shows "decodeFilterHistory (encodeFilterHistory h) = Inr (arriving_history h)"
proof (cases "encodeFilterHistory h")
  case None
  then show ?thesis by (auto simp: encodeFilterHistory_def decodeFilterHistory_def arriving_history_def split: option.splits if_splits)
next
  case (Some bs)
  then obtain hist where h: "h = Some hist" "h_deltas hist \<noteq> []" by (auto simp: encodeFilterHistory_def split: option.splits if_splits)
  show ?thesis unfolding Some using decode_encode_history [of hist bs] Some assms by (simp add: h arriving_history_def)
qed

lemma unpack_pack:
  assumes "\<And>c d. zstd_codec H = Some (c, d) \<Longrightarrow> d (c ipc) = ipc"
  shows "unpackInitRequest H (packInitRequest H ipc) = Inr ipc"
  using assms by (auto simp: unpackInitRequest_def packInitRequest_def Let_def RAW_def ZSTD_def split: option.splits)

text \<open>
  C13: the state an HTTP stream carries in its cursor arrives as it left.  For a state whose user state is an
  object of carriable values (or nothing), whose filter history fits its counts and whose frame is shorter than
  4 GB, deserializing the serialized frame succeeds and returns every field: the function name, the
  packed init request, the execution id, the worker count, the opaque data, both flags, the filter history,
  and the user state with \<open>undefined\<close> as \<open>null\<close> and views as bytes; and the packed init request unpacks to
  the raw one it was packed from.
\<close>

theorem exchange_state_roundtrip:
  assumes ser: "serialize H s = Inr bs" and fits: "length bs < 2 ^ 32"
    and user: "user_state_ok (userState s)" and ipc: "\<And>b. userBatch H (userState s) = Inr b \<Longrightarrow> ipc_parse H (ipc_write H b) = Inr b"
    and f64: "length (set_float64 H (state_workers s)) = 8" "f64_of_bits (le_nat (set_float64 H (state_workers s))) = state_workers s"
    and history: "case filterHistory s of None \<Rightarrow> True | Some h \<Rightarrow> chunks_ok (h_deltas h) \<and> chunks_ok (map utf8 (h_order h))"
    and zstd: "\<And>c d. zstd_codec H = Some (c, d) \<Longrightarrow> d (c (initRequestIpc s)) = initRequestIpc s"
  shows "deserialize H bs = Inr \<lparr>
      cs_functionName = (case functionName s of None \<Rightarrow> [] | Some n \<Rightarrow> n),
      cs_initRequestPacked = state_init H s,
      cs_executionId = toUint8Array (executionId s),
      cs_maxWorkers = state_workers s,
      cs_opaqueData = (if isNullish (opaqueData s) then None else Some (toUint8Array (opaqueData s))),
      cs_isProducer = isProducer s,
      cs_userState = settle (userState s),
      cs_filterHistory = arriving_history (filterHistory s),
      cs_morePending = (st_morePending s = Some True)\<rparr> \<and>
    (initRequestPacked s = None \<longrightarrow> unpackInitRequest H (state_init H s) = Inr (initRequestIpc s))"
proof -
  define fname where "fname = utf8 (case functionName s of None \<Rightarrow> [] | Some n \<Rightarrow> n)"
  define opq where "opq = (if isNullish (opaqueData s) then None else Some (toUint8Array (opaqueData s)))"
  define hist where "hist = encodeFilterHistory (filterHistory s)"
  obtain us where us: "serializeUserState H (userState s) = Inr us" using ser by (auto simp: serialize_def Let_def result_simps)
  define flags where "flags = flag (isProducer s) FLAG_PRODUCER OR flag (opq \<noteq> None) FLAG_OPAQUE_DATA OR flag (us \<noteq> None) FLAG_USER_STATE
            OR flag (hist \<noteq> None) FLAG_FILTER_HISTORY OR flag (st_morePending s = Some True) FLAG_MORE_PENDING"
  let ?tail = "put_chunk fname @ put_chunk (state_init H s) @ put_chunk (toUint8Array (executionId s)) @
    optional_chunk opq @ optional_chunk us @ optional_chunk hist"
  have bs: "bs = [STATE_FORMAT_VERSION, word_of_nat flags] @ set_float64 H (state_workers s) @ ?tail"
    using ser unfolding serialize_def Let_def us rbind_Inr opq_def [symmetric] hist_def [symmetric] fname_def [symmetric]
      state_init_def [symmetric] state_workers_def [symmetric] flags_def [symmetric] optional_chunks by simp
  have fit: "length fname < 2 ^ 32" "length (state_init H s) < 2 ^ 32" "length (toUint8Array (executionId s)) < 2 ^ 32"
      "chunk_fits opq" "chunk_fits us" "chunk_fits hist"
    using fits by (auto simp: bs put_chunk_length chunk_fits_def split: option.splits)
  note read = flags_read [OF flags_def]
  have ten: "drop 10 bs = ?tail" "take 8 (drop 2 bs) = set_float64 H (state_workers s)" "(length bs < 10) = False"
      "bs ! 0 = STATE_FORMAT_VERSION" "bs ! 1 = word_of_nat flags"
    using f64(1) by (simp_all add: bs)
  have "decode_text H fname = (case functionName s of None \<Rightarrow> [] | Some n \<Rightarrow> n)"
    by (simp add: decode_text_def fname_def codec_simps)
  moreover have "deserializeUserState H us = Inr (settle (userState s))" by (rule user_state_arrives [OF user us ipc])
  moreover have "decodeFilterHistory hist = Inr (arriving_history (filterHistory s))" unfolding hist_def by (rule history_arrives [OF history])
  moreover have "take_if (hist \<noteq> None) (optional_chunk hist) = Inr (hist, [])" using take_if_put [OF fit(6), of "[]"] by simp
  ultimately have "deserialize H bs = Inr \<lparr>
      cs_functionName = (case functionName s of None \<Rightarrow> [] | Some n \<Rightarrow> n),
      cs_initRequestPacked = state_init H s,
      cs_executionId = toUint8Array (executionId s),
      cs_maxWorkers = state_workers s,
      cs_opaqueData = opq,
      cs_isProducer = isProducer s,
      cs_userState = settle (userState s),
      cs_filterHistory = arriving_history (filterHistory s),
      cs_morePending = (st_morePending s = Some True)\<rparr>"
    unfolding deserialize_def Let_def ten read f64(2)
    using ten(3) by (simp only: take_chunk_put [OF fit(1)] take_chunk_put [OF fit(2)] take_chunk_put [OF fit(3)] take_if_put [OF fit(4)]
        take_if_put [OF fit(5)] rbind_Inr case_prod_conv sum.case not_less simp_thms if_False if_True)
  then show ?thesis using unpack_pack [of H "initRequestIpc s"] zstd by (simp add: opq_def state_init_def)
qed

definition sample_row :: state_batch where
  "sample_row = \<lparr>st_fields = [inferred_field ''n'' (TFloat 2), inferred_field ''v'' TNull], st_rows = 1, st_columns = [[RNum (Fin 3)], [RNull]]\<rparr>"

definition sample_state_host :: state_host where
  "sample_state_host = \<lparr>ipc_write = (\<lambda>_. [9, 9]), ipc_parse = (\<lambda>_. Inr sample_row),
     set_float64 = (\<lambda>_. [0, 0, 0, 0, 0, 0, 0xF0, 0x3F]), lossy_text = (\<lambda>_. []), zstd_codec = None, js_string = (\<lambda>_. [])\<rparr>"

definition sample_state :: exchange_state where
  "sample_state = \<lparr>functionName = Some ''f'', initRequestPacked = None, initRequestIpc = [1, 2], executionId = RBytes [7],
     maxWorkers = None, opaqueData = RNull, isProducer = True, userState = RObj [(''n'', RNum (Fin 3)), (''v'', RUndef)],
     filterHistory = None, st_morePending = None\<rparr>"

lemma sample_user_batch: "userBatch sample_state_host (userState sample_state) = Inr sample_row"
  by code_simp

lemma exchange_state_roundtrip_witness:
  "deserialize sample_state_host
      ([1, 5, 0, 0, 0, 0, 0, 0, 0xF0, 0x3F, 1, 0, 0, 0, 102, 3, 0, 0, 0, 0, 1, 2, 1, 0, 0, 0, 7, 2, 0, 0, 0, 9, 9]) =
    Inr \<lparr>cs_functionName = ''f'', cs_initRequestPacked = [0, 1, 2], cs_executionId = [7], cs_maxWorkers = Fin 1, cs_opaqueData = None,
      cs_isProducer = True, cs_userState = RObj [(''n'', RNum (Fin 3)), (''v'', RNull)],
      cs_filterHistory = EMPTY_FILTER_HISTORY, cs_morePending = False\<rparr> \<and>
    unpackInitRequest sample_state_host [0, 1, 2] = Inr [1, 2]"
proof -
  have ser: "serialize sample_state_host sample_state = Inr [1, 5, 0, 0, 0, 0, 0, 0, 0xF0, 0x3F, 1, 0, 0, 0, 102, 3, 0, 0, 0, 0, 1, 2, 1, 0, 0, 0, 7, 2, 0, 0, 0, 9, 9]"
    by code_simp
  have "state_init sample_state_host sample_state = [0, 1, 2]" by code_simp
  moreover have "user_state_ok (userState sample_state)" by code_simp
  moreover have "f64_of_bits (le_nat [0, 0, 0, 0, 0, 0, 0xF0, 0x3F]) = Fin 1" by code_simp
  moreover have "functionName sample_state = Some ''f''" "initRequestPacked sample_state = None" "initRequestIpc sample_state = [1, 2]"
    "executionId sample_state = RBytes [7]" "state_workers sample_state = Fin 1" "opaqueData sample_state = RNull" "isProducer sample_state"
    "settle (userState sample_state) = RObj [(''n'', RNum (Fin 3)), (''v'', RNull)]" "filterHistory sample_state = None"
    "st_morePending sample_state = None"
    by (simp_all add: sample_state_def state_workers_def)
  moreover have "ipc_parse sample_state_host bs = Inr sample_row" "set_float64 sample_state_host n = [0, 0, 0, 0, 0, 0, 0xF0, 0x3F]"
    "zstd_codec sample_state_host = None" for bs n
    by (simp_all add: sample_state_host_def)
  ultimately show ?thesis
    using exchange_state_roundtrip [OF ser] by (simp add: sample_user_batch isNullish_def toUint8Array_def arriving_history_def)
qed

section \<open>What user state loses\<close>

text \<open>A \<open>Map\<close> handed over as the user state itself is not refused: it is stored as an object without entries.\<close>

lemma top_level_map_lost:
  "serializeUserState H (RMap ps) = serializeUserState H (RObj [])"
  by (simp add: serializeUserState_def userBatch_def rich_entries_def isNullish_def)

text \<open>Two objects of different fields whose signatures collide pass for a homogeneous array.\<close>

lemma mixed_array_accepted:
  "inferElementType None [RObj [(''a'', RNum (Fin 1)), (''b'', RNum (Fin 2))], RObj [(''a:float2,b'', RNum (Fin 3))]] =
    Inr (TStruct [inferred_field ''a'' (TFloat 2), inferred_field ''b'' (TFloat 2)])"
  by code_simp

end
