(* ===== verification/ClientDrain.thy ===== *)
theory ClientDrain
  imports Continuation
begin

text \<open>
  The client's side of continued output, \<open>src/client/client.ts\<close>: \<open>exchangeContinued\<close> sends one input
  and ticks until a reply stops saying that more follows.  The transport's \<open>exchangeRaw\<close> is a
  parameter that carries its own state; run against a worker that answers by \<open>continuationTurn\<close>, the
  loop is shown to end and to leave the worker ready for the next input.
\<close>

section \<open>The client\<close>

definition isNotModified :: "batch_md \<Rightarrow> bool" where
  "isNotModified md = (case jm_get md CACHE_NOT_MODIFIED_KEY of None \<Rightarrow> False
     | Some v \<Rightarrow> v \<noteq> ''0'' \<and> to_lower v \<noteq> ''false'')"

record 'row client_reply =
  reply_batch_md :: "batch_md option"
  reply_md :: batch_md
  reply_rows :: "'row list"

text \<open>What the client sends: the input batch with no metadata, or a tick, a zero-row batch of its schema.\<close>

datatype 'row client_message = SendInput "'row list" | SendTick batch_md

datatype client_error =
    NoExchangeRaw
  | EndedWhilePending
  | NotModifiedContinued bool
  | Transport turn_error

type_synonym ('s, 'row) transport = "'s \<Rightarrow> 'row client_message \<Rightarrow> (turn_error + 'row client_reply option) \<times> 's"

definition reply_metadata :: "'row client_reply \<Rightarrow> batch_md" where
  "reply_metadata r = fold (\<lambda>(k, v). jm_set k v) (reply_md r) (case reply_batch_md r of None \<Rightarrow> [] | Some m \<Rightarrow> m)"

definition says_more :: "batch_md \<Rightarrow> bool" where
  "says_more md \<longleftrightarrow> jm_get md STATUS_KEY = Some HAVE_MORE_OUTPUT"

definition continue_tick :: "'row client_message" where
  "continue_tick = SendTick [(STATUS_KEY, CONTINUE)]"

text \<open>
  The generator: the batches of rows it yields, then how it ends.  The loop has no bound of its own, so
  \<open>None\<close> is a client that is still asking.
\<close>

partial_function (option) drain ::
  "('s, 'row) transport \<Rightarrow> bool \<Rightarrow> 'row client_reply option \<Rightarrow> 's \<Rightarrow> ('row list list \<times> (client_error + unit) \<times> 's) option" where
  "drain raw tick reply s = (case reply of
     None \<Rightarrow> Some ([], if tick then Inl EndedWhilePending else Inr (), s)
   | Some r \<Rightarrow>
       let md = reply_metadata r; has_more = says_more md in
       if isNotModified md \<and> (has_more \<or> tick) then Some ([], Inl (NotModifiedContinued tick), s)
       else let ys = (if reply_rows r = [] then [] else [reply_rows r]) in
         if \<not> has_more then Some (ys, Inr (), s)
         else (case raw s continue_tick of
             (Inl e, s') \<Rightarrow> Some (ys, Inl (Transport e), s')
           | (Inr reply', s') \<Rightarrow> Option.bind (drain raw True reply' s') (\<lambda>(zs, out, s'). Some (ys @ zs, out, s'))))"

definition exchangeContinued ::
  "('s, 'row) transport option \<Rightarrow> 'row list \<Rightarrow> 's \<Rightarrow> ('row list list \<times> (client_error + unit) \<times> 's) option" where
  "exchangeContinued raw input s = (case raw of
     None \<Rightarrow> Some ([], Inl NoExchangeRaw, s)
   | Some raw \<Rightarrow> (case raw s (SendInput input) of
       (Inl e, s') \<Rightarrow> Some ([], Inl (Transport e), s')
     | (Inr reply, s') \<Rightarrow> drain raw False reply s'))"

section \<open>Against the worker\<close>

text \<open>
  A worker stream as the client meets it: its continuation state, and what its function will do on
  each of its coming calls (the collector it leaves and the rows of its data batch).  A call is one
  \<open>continuationTurn\<close>; its reply is the data batch with its own metadata and that of the emit.  A
  stream whose function has no call left has ended.
\<close>

record 'row worker_stream =
  stream_state :: ContinuationState
  stream_calls :: "((string + turn_output) \<times> 'row list) list"

definition message_input :: "'row client_message \<Rightarrow> turn_input" where
  "message_input m = (case m of
     SendInput rows \<Rightarrow> \<lparr>in_rows = length rows, in_metadata = None, collector_metadata = None\<rparr>
   | SendTick md \<Rightarrow> \<lparr>in_rows = 0, in_metadata = None, collector_metadata = Some md\<rparr>)"

definition data_batch :: "turn_output \<Rightarrow> emitted_batch option" where
  "data_batch out = map_option (\<lambda>i. out_batches out ! i) (dataBatchIdx out)"

definition output_reply :: "turn_output \<Rightarrow> 'row list \<Rightarrow> 'row client_reply option" where
  "output_reply out rows = map_option (\<lambda>b. \<lparr>reply_batch_md = batch_carried b,
     reply_md = (case per_emit b of None \<Rightarrow> [] | Some m \<Rightarrow> m), reply_rows = rows\<rparr>) (data_batch out)"

definition worker_exchange :: "bool \<Rightarrow> ('row worker_stream, 'row) transport" where
  "worker_exchange resumable w m = (case stream_calls w of
     [] \<Rightarrow> (Inr None, w)
   | (result, rows) # calls \<Rightarrow>
       (case continuationTurn (stream_state w) (message_input m) resumable (\<lambda>tick. result) of
          Inl e \<Rightarrow> (Inl e, w\<lparr>stream_calls := calls\<rparr>)
        | Inr s' \<Rightarrow> (Inr (case result of Inl _ \<Rightarrow> None | Inr out \<Rightarrow> output_reply out rows),
            w\<lparr>stream_state := s', stream_calls := calls\<rparr>)))"

text \<open>A call that gives a reply the client accepts: on a tick it may not claim \<open>not_modified\<close>, nor carry cache keys.\<close>

definition call_ok :: "bool \<Rightarrow> bool \<Rightarrow> (string + turn_output) \<times> 'row list \<Rightarrow> bool" where
  "call_ok tick has_more c = (case fst c of Inl _ \<Rightarrow> False | Inr out \<Rightarrow> (case replyMetadata out of
     None \<Rightarrow> False
   | Some md \<Rightarrow> says_more md = has_more \<and> (tick \<longrightarrow> list_all (\<lambda>k. \<not> starts_with k CACHE_KEY_PREFIX) (map fst md)) \<and>
       \<not> (isNotModified md \<and> (has_more \<or> tick))))"

definition batches_of :: "((string + turn_output) \<times> 'row list) list \<Rightarrow> 'row list list" where
  "batches_of calls = filter (\<lambda>rows. rows \<noteq> []) (map snd calls)"

lemma output_reply_metadata:
  assumes "replyMetadata out = Some md"
  shows "\<exists>r. output_reply out rows = Some r \<and> reply_metadata r = md \<and> reply_rows r = rows"
proof -
  obtain i where i: "dataBatchIdx out = Some i" using assms by (cases "dataBatchIdx out") (auto simp: replyMetadata_def)
  then show ?thesis using assms by (simp add: replyMetadata_def output_reply_def data_batch_def reply_metadata_def Let_def)
qed

lemma is_tick_message [simp]:
  "is_tick (message_input (SendInput rows)) = False" "is_tick (message_input continue_tick) = True"
  "in_rows (message_input continue_tick) = 0"
  by (simp_all add: is_tick_def inputStatus_def lookup_opt_def message_input_def continue_tick_def jm_get_def)

lemma worker_turn:
  assumes "stream_calls w = c # calls" "call_ok tick has_more c" "has_more \<longrightarrow> resumable"
    "tick = (morePending (stream_state w) = Some True)" "tick = is_tick (message_input m)" "tick \<longrightarrow> in_rows (message_input m) = 0"
  shows "\<exists>r. worker_exchange resumable w m =
      (Inr (Some r), w\<lparr>stream_state := (stream_state w)\<lparr>morePending := Some has_more\<rparr>, stream_calls := calls\<rparr>) \<and>
    says_more (reply_metadata r) = has_more \<and> \<not> (isNotModified (reply_metadata r) \<and> (has_more \<or> tick)) \<and> reply_rows r = snd c"
proof -
  obtain out rows where c: "c = (Inr out, rows)" using assms(2) by (cases c) (auto simp: call_ok_def split: sum.splits)
  then obtain md where md: "replyMetadata out = Some md" "says_more md = has_more"
      "tick \<Longrightarrow> list_all (\<lambda>k. \<not> starts_with k CACHE_KEY_PREFIX) (map fst md)" "\<not> (isNotModified md \<and> (has_more \<or> tick))"
    using assms(2) by (auto simp: call_ok_def split: option.splits)
  obtain r where r: "output_reply out rows = Some r" "reply_metadata r = md" "reply_rows r = rows"
    using output_reply_metadata [OF md(1)] by blast
  have "replies (message_input m, \<lambda>tick. Inr out) tick has_more"
    using md by (auto simp: replies_def says_more_def)
  then have "continuationTurn (stream_state w) (message_input m) resumable (\<lambda>tick. Inr out) =
      Inr ((stream_state w)\<lparr>morePending := Some has_more\<rparr>)"
    using assms(3-6) by (cases tick) (auto simp: input_turn tick_turn)
  then show ?thesis using assms(1) c r md by (simp add: worker_exchange_def)
qed

lemma drain_run:
  assumes "says_more (reply_metadata r) = (calls \<noteq> [])" "\<not> (isNotModified (reply_metadata r) \<and> (calls \<noteq> [] \<or> tick))"
    "stream_calls w = calls @ later" "morePending (stream_state w) = Some (calls \<noteq> [])" "calls \<noteq> [] \<longrightarrow> resumable"
    "list_all (call_ok True True) (butlast calls)" "calls \<noteq> [] \<longrightarrow> call_ok True False (last calls)"
  shows "\<exists>w'. drain (worker_exchange resumable) tick (Some r) w =
      Some (filter (\<lambda>rows. rows \<noteq> []) [reply_rows r] @ batches_of calls, Inr (), w') \<and>
    stream_calls w' = later \<and> morePending (stream_state w') = Some False"
  using assms
proof (induction calls arbitrary: r tick w)
  case Nil
  then show ?case by (subst drain.simps) (simp add: Let_def batches_of_def)
next
  case (Cons c calls)
  have ok: "call_ok True (calls \<noteq> []) c" using Cons.prems(6,7) by (cases "calls = []") simp_all
  have rs: "resumable" using Cons.prems(5) by simp
  obtain r' where r': "worker_exchange resumable w continue_tick =
        (Inr (Some r'), w\<lparr>stream_state := (stream_state w)\<lparr>morePending := Some (calls \<noteq> [])\<rparr>, stream_calls := calls @ later\<rparr>)"
      "says_more (reply_metadata r') = (calls \<noteq> [])" "\<not> (isNotModified (reply_metadata r') \<and> (calls \<noteq> [] \<or> True))"
      "reply_rows r' = snd c"
    using worker_turn [of w c "calls @ later" True "calls \<noteq> []" resumable continue_tick] Cons.prems(3,4) ok rs by auto
  let ?w = "w\<lparr>stream_state := (stream_state w)\<lparr>morePending := Some (calls \<noteq> [])\<rparr>, stream_calls := calls @ later\<rparr>"
  have "\<exists>w'. drain (worker_exchange resumable) True (Some r') ?w =
      Some (filter (\<lambda>rows. rows \<noteq> []) [reply_rows r'] @ batches_of calls, Inr (), w') \<and>
    stream_calls w' = later \<and> morePending (stream_state w') = Some False"
  proof (rule Cons.IH [OF r'(2,3)])
    show "list_all (call_ok True True) (butlast calls)" using Cons.prems(6) by (cases "calls = []") simp_all
    show "calls \<noteq> [] \<longrightarrow> call_ok True False (last calls)" using Cons.prems(7) by auto
  qed (simp_all add: rs)
  then obtain w' where w': "drain (worker_exchange resumable) True (Some r') ?w =
      Some (filter (\<lambda>rows. rows \<noteq> []) [reply_rows r'] @ batches_of calls, Inr (), w')"
    "stream_calls w' = later" "morePending (stream_state w') = Some False" by blast
  have b: "batches_of (c # calls) = filter (\<lambda>rows. rows \<noteq> []) [reply_rows r'] @ batches_of calls"
    by (simp add: batches_of_def r'(4))
  show ?case
    using Cons.prems(1,2) by (subst drain.simps) (simp add: Let_def r'(1) w' b)
qed

text \<open>
  C12: continued output is delivered and ends.  When the function answers an input with a first reply and
  any number of further ones, every reply but the last saying that more follows, none of them claiming
  \<open>not_modified\<close> out of place and the ticked ones free of cache keys, the client's loop returns: it has
  asked exactly as often as there are replies, yielded the rows of every non-empty one in their order,
  and left the worker with no output pending, ready for the next input.
\<close>

theorem continued_output_delivered:
  assumes "stream_calls w = (first # ticks) @ later" "morePending (stream_state w) \<noteq> Some True"
    "call_ok False (ticks \<noteq> []) first" "list_all (call_ok True True) (butlast ticks)"
    "ticks \<noteq> [] \<Longrightarrow> call_ok True False (last ticks)" "ticks \<noteq> [] \<Longrightarrow> resumable"
  shows "\<exists>w'. exchangeContinued (Some (worker_exchange resumable)) input w = Some (batches_of (first # ticks), Inr (), w') \<and>
    stream_calls w' = later \<and> morePending (stream_state w') = Some False"
proof -
  let ?w = "w\<lparr>stream_state := (stream_state w)\<lparr>morePending := Some (ticks \<noteq> [])\<rparr>, stream_calls := ticks @ later\<rparr>"
  obtain r where r: "worker_exchange resumable w (SendInput input) = (Inr (Some r), ?w)"
      "says_more (reply_metadata r) = (ticks \<noteq> [])" "\<not> (isNotModified (reply_metadata r) \<and> (ticks \<noteq> [] \<or> False))"
      "reply_rows r = snd first"
    using worker_turn [of w first "ticks @ later" False "ticks \<noteq> []" resumable "SendInput input"] assms(1-3,6) by auto
  obtain w' where w': "drain (worker_exchange resumable) False (Some r) ?w =
      Some (filter (\<lambda>rows. rows \<noteq> []) [reply_rows r] @ batches_of ticks, Inr (), w')"
    "stream_calls w' = later" "morePending (stream_state w') = Some False"
    using drain_run [OF r(2,3), of ?w later resumable] assms(4-6) by auto
  have "batches_of (first # ticks) = filter (\<lambda>rows. rows \<noteq> []) [reply_rows r] @ batches_of ticks"
    by (simp add: batches_of_def r(4))
  then show ?thesis using r(1) w' by (simp add: exchangeContinued_def)
qed

definition sample_call :: "bool \<Rightarrow> nat list \<Rightarrow> (string + turn_output) \<times> nat list" where
  "sample_call has_more rows = (Inr \<lparr>out_batches = [\<lparr>batch_carried = None, per_emit = Some (moreOutputMetadata has_more None)\<rparr>],
     dataBatchIdx = Some 0\<rparr>, rows)"

lemma sample_call_ok: "call_ok tick b (sample_call b rows)"
  by (cases b) (simp_all add: call_ok_def sample_call_def replyMetadata_def moreOutputMetadata_def says_more_def isNotModified_def
    jm_get_def STATUS_KEY_def HAVE_MORE_OUTPUT_def CACHE_NOT_MODIFIED_KEY_def CACHE_KEY_PREFIX_def)

lemma continued_output_delivered_witness:
  "\<exists>w'. exchangeContinued (Some (worker_exchange True)) [9]
      \<lparr>stream_state = \<lparr>morePending = None\<rparr>, stream_calls = [sample_call True [1, 2], sample_call True [], sample_call False [3], sample_call False []]\<rparr> =
        Some ([[1, 2], [3]], Inr (), w') \<and>
    stream_calls w' = [sample_call False []] \<and> morePending (stream_state w') = Some False"
proof -
  have "batches_of [sample_call True [1, 2], sample_call True [], sample_call False [3]] = [[1, 2], [3]]"
    by (simp add: batches_of_def sample_call_def)
  then show ?thesis
    using continued_output_delivered [of "\<lparr>stream_state = \<lparr>morePending = None\<rparr>,
        stream_calls = [sample_call True [1, 2], sample_call True [], sample_call False [3], sample_call False []]\<rparr>"
        "sample_call True [1, 2]" "[sample_call True [], sample_call False [3]]" "[sample_call False []]" True "[9]"]
    by (simp add: sample_call_ok)
qed

end
