(* ===== verification/Conform.thy ===== *)
theory Conform
  imports ArrowCodec
begin

text \<open>
  Wire conformance of protocol records, \<open>src/codec/conform.ts\<close>, and the deterministic order of map
  columns, \<open>src/codec/asd.ts\<close>, over author values.  A conversion that may hand its argument back
  returns with the value whether it differs by \<open>!==\<close>: a \<open>NaN\<close> always does.
\<close>

definition isMap :: "arrow_type \<Rightarrow> bool" where "isMap t \<longleftrightarrow> typeId t = 17"
definition isDictionary :: "arrow_type \<Rightarrow> bool" where "isDictionary t \<longleftrightarrow> typeId t = - 1"

lemmas container_predicates = isMap_def isDictionary_def isList_def isStruct_def

section \<open>Pairs of a map value\<close>

text \<open>
  \<open>array_like\<close> is what \<open>Array.from\<close> reads from a value with no iterator, \<open>key_string\<close> is \<open>String\<close>.
\<close>

record codec_host =
  array_like :: "rich \<Rightarrow> rich list"
  key_string :: "rich \<Rightarrow> string"

definition rich_nth :: "rich list \<Rightarrow> nat \<Rightarrow> rich" where
  "rich_nth vs i = (if i < length vs then vs ! i else RUndef)"

definition optional_member :: "rich \<Rightarrow> string \<Rightarrow> rich" where
  "optional_member v k = (if isNullish v then RUndef else rich_member v k)"

text \<open>\<open>([k, v]) => ...\<close> of an entry that is not a pair the code built itself.\<close>

definition destruct_pair :: "rich \<Rightarrow> codec_error + rich \<times> rich" where
  "destruct_pair e = (case iter_elems e of Some es \<Rightarrow> Inr (rich_nth es 0, rich_nth es 1) | None \<Rightarrow> Inl CodecTypeError)"

definition mapPairs :: "rich \<Rightarrow> codec_error + (rich \<times> rich) list" where
  "mapPairs raw = (case raw of
     RArr vs \<Rightarrow> Inr (map (\<lambda>e. case e of RArr es \<Rightarrow> (rich_nth es 0, rich_nth es 1)
       | _ \<Rightarrow> (optional_member e ''key'', optional_member e ''value'')) vs)
   | RMap ps \<Rightarrow> Inr ps
   | _ \<Rightarrow> (case iter_elems raw of
       Some es \<Rightarrow> mapR destruct_pair es
     | None \<Rightarrow> Inr (map (\<lambda>(k, v). (RStr k, v)) (rich_entries raw))))"

definition pairs_value :: "(rich \<times> rich) list \<Rightarrow> rich" where
  "pairs_value ps = RArr (map (\<lambda>(k, v). RArr [k, v]) ps)"

definition arrayFrom :: "codec_host \<Rightarrow> rich \<Rightarrow> rich list" where
  "arrayFrom H v = (case iter_elems v of Some es \<Rightarrow> es | None \<Rightarrow> array_like H v)"

section \<open>Conformance\<close>

definition OPTIONAL_ITEM_FIELDS :: "string list" where
  "OPTIONAL_ITEM_FIELDS = [''argument_names'']"

fun hasContainer :: "arrow_type \<Rightarrow> bool"
  and field_container :: "arrow_field \<Rightarrow> bool" where
  "hasContainer (TList _) = True"
| "hasContainer (TMap _) = True"
| "hasContainer (TStruct fs) = list_ex field_container fs"
| "hasContainer _ = False"
| "field_container (Field _ t _ _ _) = hasContainer t"

text \<open>\<open>conformValue\<close> of a slot whose value is \<open>null\<close> or \<open>undefined\<close>.\<close>

definition conform_null :: "arrow_type \<Rightarrow> rich \<Rightarrow> bool \<Rightarrow> rich" where
  "conform_null t v null_ok = (if null_ok then or_null v else if isList t \<or> isMap t then RArr [] else v)"

fun zeroValue :: "arrow_type \<Rightarrow> rich"
  and zeroMember :: "arrow_field \<Rightarrow> string \<times> rich" where
  "zeroValue (TDictionary t _ _) = zeroValue t"
| "zeroValue TUtf8 = RStr []" | "zeroValue TLargeUtf8 = RStr []"
| "zeroValue TBinary = RBytes []" | "zeroValue TLargeBinary = RBytes []"
| "zeroValue TBool = RBool False"
| "zeroValue (TInt w _) = (if w = 64 then RBig 0 else RNum (Fin 0))"
| "zeroValue (TFloat _) = RNum (Fin 0)"
| "zeroValue (TList _) = RArr []"
| "zeroValue (TMap _) = RArr []"
| "zeroValue (TStruct fs) = RObj (jm_of (map zeroMember fs))"
| "zeroValue _ = RNull"
| "zeroMember (Field n t nl _ _) = (n, if nl then RNull else conform_null t RUndef False)"

definition same_value :: "rich \<Rightarrow> rich \<times> bool" where
  "same_value v = (v, v = RNum NaN)"

definition replaced :: "rich \<Rightarrow> rich \<Rightarrow> rich \<times> bool" where
  "replaced v next_v = (next_v, next_v \<noteq> v)"

text \<open>Members that changed are written over a copy of the object.\<close>

definition with_members :: "rich \<Rightarrow> (string \<times> rich) list \<Rightarrow> rich \<times> bool" where
  "with_members v changes = (if changes = [] then (v, False)
     else (RObj (fold (\<lambda>(k, w). jm_set k w) changes (rich_entries v)), True))"

fun conformValue :: "codec_host \<Rightarrow> arrow_type \<Rightarrow> string \<Rightarrow> bool \<Rightarrow> rich \<Rightarrow> codec_error + rich \<times> bool"
  and conformContent :: "codec_host \<Rightarrow> arrow_type \<Rightarrow> string \<Rightarrow> rich \<Rightarrow> codec_error + rich \<times> bool"
  and conformEntries :: "codec_host \<Rightarrow> arrow_field \<Rightarrow> string \<Rightarrow> rich \<Rightarrow> codec_error + rich \<times> bool"
  and conformMembers :: "codec_host \<Rightarrow> arrow_field list \<Rightarrow> rich \<Rightarrow> codec_error + (string \<times> rich) list" where
  "conformValue H t name null_ok v =
     (if isNullish v then Inr (replaced v (conform_null t v null_ok))
      else if \<not> hasContainer t then Inr (same_value v)
      else conformContent H t name v)"
| "conformContent H (TList (Field _ t _ _ _)) name v =
     rbind (mapR (\<lambda>item. if isNullish item \<and> name \<notin> set OPTIONAL_ITEM_FIELDS then Inr (replaced item (zeroValue t))
         else conformValue H t name True item) (arrayFrom H v)) (\<lambda>out.
     Inr (if (case v of RArr _ \<Rightarrow> False | _ \<Rightarrow> True) \<or> list_ex snd out then (RArr (map fst out), True) else (v, False)))"
| "conformContent H (TMap entries) name v = conformEntries H entries name v"
| "conformContent H (TStruct fs) name v = rbind (conformMembers H fs v) (\<lambda>changes. Inr (with_members v changes))"
| "conformContent H _ name v = Inr (same_value v)"
| "conformEntries H (Field _ (TStruct (_ # Field _ t _ _ _ # _)) _ _ _) name v =
     rbind (mapPairs v) (\<lambda>pairs.
     rbind (mapR (\<lambda>(k, w). rbind (if isNullish w then Inr (replaced w (zeroValue t)) else conformValue H t name True w)
       (\<lambda>(w, changed). Inr ((k, w), changed))) pairs) (\<lambda>out.
     Inr (if list_ex snd out then (pairs_value (map fst out), True) else (v, False))))"
| "conformEntries H _ name v = Inl CodecTypeError"
| "conformMembers H [] v = Inr []"
| "conformMembers H (Field n t nl _ _ # fs) v =
     rbind (conformValue H t n nl (rich_member v n)) (\<lambda>(w, changed).
     rbind (conformMembers H fs v) (\<lambda>rest. Inr (if changed then (n, w) # rest else rest)))"

definition conformRecord :: "codec_host \<Rightarrow> arrow_field list \<Rightarrow> rich \<Rightarrow> codec_error + rich" where
  "conformRecord H fs obj = rbind (conformMembers H fs obj) (\<lambda>changes. Inr (fst (with_members obj changes)))"

text \<open>The column form: every field a list of rows, an absent one a single \<open>undefined\<close>.\<close>

definition conformColumns ::
  "codec_host \<Rightarrow> arrow_field list \<Rightarrow> (string, rich list) jsmap \<Rightarrow> codec_error + (string, rich list) jsmap" where
  "conformColumns H fs columns =
     rbind (mapR (\<lambda>f. let col = jm_get columns (f_name f); rows = (case col of Some vs \<Rightarrow> vs | None \<Rightarrow> [RUndef]) in
       rbind (mapR (conformValue H (f_type f) (f_name f) (f_nullable f)) rows) (\<lambda>out.
       Inr (f_name f, map fst out, col = None \<or> list_ex snd out))) fs) (\<lambda>results.
     Inr (fold (\<lambda>(k, next_rows, changed). if changed then jm_set k next_rows else id) results columns))"

section \<open>Sorted maps\<close>

definition compareCodePoints :: "string \<Rightarrow> string \<Rightarrow> int" where
  "compareCodePoints a b =
     (case find (\<lambda>(x, y). x \<noteq> y) (zip a b) of
        Some (x, y) \<Rightarrow> int (of_char x) - int (of_char y)
      | None \<Rightarrow> int (length a) - int (length b))"

definition compare_numbers :: "jsnum \<Rightarrow> jsnum \<Rightarrow> int" where
  "compare_numbers a b = (if num_lt a b then - 1 else if num_lt b a then 1 else 0)"

definition numeric_key :: "rich \<Rightarrow> jsnum option" where
  "numeric_key v = (case v of RNum n \<Rightarrow> Some n | RBig b \<Rightarrow> Some (Fin (of_int b)) | _ \<Rightarrow> None)"

definition compareKeys :: "codec_host \<Rightarrow> rich \<Rightarrow> rich \<Rightarrow> int" where
  "compareKeys H a b = (case (a, b) of
     (RStr s, RStr t) \<Rightarrow> compareCodePoints s t
   | _ \<Rightarrow> (case (numeric_key a, numeric_key b) of
       (Some m, Some n) \<Rightarrow> compare_numbers m n
     | _ \<Rightarrow> compareCodePoints (key_string H a) (key_string H b)))"

fun typeHasMap :: "arrow_type \<Rightarrow> bool"
  and field_has_map :: "arrow_field \<Rightarrow> bool" where
  "typeHasMap (TMap _) = True"
| "typeHasMap (TList f) = field_has_map f"
| "typeHasMap (TStruct fs) = list_ex field_has_map fs"
| "typeHasMap _ = False"
| "field_has_map (Field _ t _ _ _) = typeHasMap t"

definition sort_pairs :: "codec_host \<Rightarrow> (rich \<times> rich) list \<Rightarrow> (rich \<times> rich) list" where
  "sort_pairs H = sort_by (\<lambda>x y. compareKeys H (fst x) (fst y) \<le> 0)"

fun sortMapsForType :: "codec_host \<Rightarrow> arrow_type \<Rightarrow> rich \<Rightarrow> codec_error + rich"
  and sortMapEntries :: "codec_host \<Rightarrow> arrow_field \<Rightarrow> rich \<Rightarrow> codec_error + rich"
  and sortMembers :: "codec_host \<Rightarrow> arrow_field list \<Rightarrow> rich \<Rightarrow> codec_error + (string \<times> rich) list" where
  "sortMapsForType H (TMap entries) v = (if isNullish v then Inr v else sortMapEntries H entries v)"
| "sortMapsForType H (TList (Field n t nl md ex)) v =
     (if isNullish v \<or> \<not> typeHasMap t then Inr v
      else rbind (mapR (sortMapsForType H t) (arrayFrom H v)) (\<lambda>vs. Inr (RArr vs)))"
| "sortMapsForType H (TStruct fs) v =
     (if isNullish v \<or> \<not> list_ex field_has_map fs then Inr v
      else rbind (sortMembers H fs v) (\<lambda>changes. Inr (RObj (fold (\<lambda>(k, w). jm_set k w) changes (rich_entries v)))))"
| "sortMapsForType H _ v = Inr v"
| "sortMapEntries H (Field _ (TStruct (_ # Field _ t _ _ _ # _)) _ _ _) v =
     rbind (mapPairs v) (\<lambda>pairs.
     rbind (mapR (\<lambda>(k, w). rbind (sortMapsForType H t w) (\<lambda>w. Inr (k, w))) pairs) (\<lambda>pairs.
     Inr (pairs_value (sort_pairs H pairs))))"
| "sortMapEntries H _ v = Inl CodecTypeError"
| "sortMembers H [] v = Inr []"
| "sortMembers H (Field n t _ _ _ # fs) v =
     rbind (sortMapsForType H t (rich_member v n)) (\<lambda>w. rbind (sortMembers H fs v) (\<lambda>rest. Inr ((n, w) # rest)))"

definition map_columns :: "arrow_field list \<Rightarrow> rich \<Rightarrow> arrow_field list" where
  "map_columns fs obj = filter (\<lambda>f. field_has_map f \<and> \<not> isNullish (rich_member obj (f_name f))) fs"

definition sortMapsForSchema :: "codec_host \<Rightarrow> arrow_field list \<Rightarrow> rich \<Rightarrow> codec_error + rich" where
  "sortMapsForSchema H fs obj =
     (let changing = map_columns fs obj in
      if changing = [] then Inr obj
      else rbind (mapR (\<lambda>f. rbind (sortMapsForType H (f_type f) (rich_member obj (f_name f))) (\<lambda>w. Inr (f_name f, w))) changing)
        (\<lambda>changes. Inr (RObj (fold (\<lambda>(k, w). jm_set k w) changes (rich_entries obj)))))"

text \<open>The record \<open>encodeASD\<close> hands to the batch builder.\<close>

definition wireRecord :: "codec_host \<Rightarrow> arrow_field list \<Rightarrow> rich \<Rightarrow> codec_error + rich" where
  "wireRecord H fs obj = rbind (conformRecord H fs obj) (sortMapsForSchema H fs)"

end
