(* ===== verification/ConformLaws.thy ===== *)
theory ConformLaws
  imports Conform FilterLaws
begin

text \<open>
  What conforming a record guarantees on the wire, what it leaves alone, and that a map is written in
  the order of its keys whatever order it was built in.
\<close>

section \<open>Records fit for the wire\<close>

text \<open>
  The schemas the laws speak of: distinct member names, none of them \<open>length\<close>, and maps with the
  two-member entries the code reads.
\<close>

fun fits :: "arrow_type \<Rightarrow> bool"
  and field_fits :: "arrow_field \<Rightarrow> bool"
  and entries_fit :: "arrow_field \<Rightarrow> bool" where
  "fits (TList f) = field_fits f"
| "fits (TStruct fs) = (distinct (map f_name fs) \<and> ''length'' \<notin> set (map f_name fs) \<and> list_all field_fits fs)"
| "fits (TMap f) = entries_fit f"
| "fits (TDictionary t _ _) = fits t"
| "fits _ = True"
| "field_fits (Field _ t _ _ _) = fits t"
| "entries_fit (Field _ (TStruct (_ # Field _ t _ _ _ # _)) _ _ _) = fits t"
| "entries_fit _ = False"

text \<open>
  A slot that may be \<open>null\<close> holds no \<open>undefined\<close>, one that may not holds a container if its type is
  one; no list item and no map value is null, unless the list is one of the optional ones or the type has no
  zero value.  With \<open>strict\<close>, no leaf is \<open>NaN\<close> either.
\<close>

fun slot_ok :: "bool \<Rightarrow> arrow_type \<Rightarrow> string \<Rightarrow> bool \<Rightarrow> rich \<Rightarrow> bool"
  and content_ok :: "bool \<Rightarrow> arrow_type \<Rightarrow> string \<Rightarrow> rich \<Rightarrow> bool"
  and entries_ok :: "bool \<Rightarrow> arrow_field \<Rightarrow> string \<Rightarrow> rich \<Rightarrow> bool"
  and members_ok :: "bool \<Rightarrow> arrow_field list \<Rightarrow> rich \<Rightarrow> bool" where
  "slot_ok strict t name null_ok v =
     (if isNullish v then (if null_ok then v = RNull else \<not> isList t \<and> \<not> isMap t) else content_ok strict t name v)"
| "content_ok strict (TList (Field _ t _ _ _)) name v = (case v of
     RArr vs \<Rightarrow> list_all (\<lambda>item. (isNullish item \<and> name \<notin> set OPTIONAL_ITEM_FIELDS \<longrightarrow> zeroValue t = RNull) \<and> slot_ok strict t name True item) vs
   | _ \<Rightarrow> False)"
| "content_ok strict (TMap entries) name v = entries_ok strict entries name v"
| "content_ok strict (TStruct fs) name v =
     (if list_ex field_container fs then members_ok strict fs v else strict \<longrightarrow> v \<noteq> RNum NaN)"
| "content_ok strict _ name v = (strict \<longrightarrow> v \<noteq> RNum NaN)"
| "entries_ok strict (Field _ (TStruct (_ # Field _ t _ _ _ # _)) _ _ _) name v = (case mapPairs v of
     Inr ps \<Rightarrow> list_all (\<lambda>(k, w). (isNullish w \<longrightarrow> zeroValue t = RNull) \<and> slot_ok strict t name True w) ps
   | Inl _ \<Rightarrow> False)"
| "entries_ok strict _ name v = False"
| "members_ok strict [] v = True"
| "members_ok strict (Field n t nl _ _ # fs) v = (slot_ok strict t n nl (rich_member v n) \<and> members_ok strict fs v)"

declare slot_ok.simps [simp del] conformValue.simps [simp del]

lemma or_null_facts [simp]: "isNullish RNull" "isNullish RUndef" "isNullish v \<Longrightarrow> or_null v = RNull" "\<not> isNullish (RArr vs)" "\<not> isNullish (RObj es)"
  by (auto simp: isNullish_def or_null_def)

lemma member_of_object:
  "k \<noteq> ''length'' \<Longrightarrow> rich_member v k = (case jm_get (rich_entries v) k of Some w \<Rightarrow> w | None \<Rightarrow> RUndef)"
  by (simp add: rich_member_def jm_get_def)

lemma empty_entries_ok: "entries_fit f \<Longrightarrow> entries_ok strict f name (RArr [])"
  by (cases f rule: entries_fit.cases) (simp_all add: mapPairs_def)

lemma empty_container_ok: "fits t \<Longrightarrow> isList t \<or> isMap t \<Longrightarrow> content_ok strict t name (RArr [])"
proof (cases t)
  case (TList f)
  then show ?thesis by (cases f) simp
qed (simp_all add: isList_def isMap_def empty_entries_ok)

lemma null_slot_ok: "fits t \<Longrightarrow> isNullish v \<Longrightarrow> slot_ok strict t name nl (conform_null t v nl)"
  using empty_container_ok [of t strict name] by (simp add: conform_null_def slot_ok.simps)

lemma members_okI:
  "(\<And>f. f \<in> set fs \<Longrightarrow> slot_ok strict (f_type f) (f_name f) (f_nullable f) (rich_member v (f_name f))) \<Longrightarrow> members_ok strict fs v"
proof (induction fs)
  case (Cons f fs)
  obtain n t nl md ex where f: "f = Field n t nl md ex" by (cases f)
  from Cons.prems [of f] Cons.IH Cons.prems show ?case by (simp add: f)
qed simp

lemma members_okD: "members_ok strict fs v \<Longrightarrow> f \<in> set fs \<Longrightarrow> slot_ok strict (f_type f) (f_name f) (f_nullable f) (rich_member v (f_name f))"
proof (induction fs)
  case (Cons g fs)
  obtain n t nl md ex where "g = Field n t nl md ex" by (cases g)
  with Cons show ?case by auto
qed simp

lemma zeroMember_field: "zeroMember f = (f_name f, if f_nullable f then RNull else conform_null (f_type f) RUndef False)"
  by (cases f) simp

lemma field_fits_type: "field_fits f \<longleftrightarrow> fits (f_type f)"
  by (cases f) simp

lemma zero_content_ok: "fits t \<Longrightarrow> zeroValue t \<noteq> RNull \<Longrightarrow> \<not> isNullish (zeroValue t) \<and> content_ok strict t name (zeroValue t)"
proof (induction t arbitrary: name rule: arrow_type.induct [where ?P2.0 = "\<lambda>_. True"])
  case (TStruct fs)
  have d: "distinct (map f_name fs)" "''length'' \<notin> set (map f_name fs)" using TStruct.prems(1) by simp_all
  have k: "map fst (map zeroMember fs) = map f_name fs" by (simp add: zeroMember_field)
  have z: "zeroValue (TStruct fs) = RObj (map zeroMember fs)" using jm_of_distinct [of "map zeroMember fs"] d(1) unfolding k by simp
  have "slot_ok strict (f_type f) (f_name f) (f_nullable f) (rich_member (RObj (map zeroMember fs)) (f_name f))" if f: "f \<in> set fs" for f
  proof -
    have ft: "fits (f_type f)" using TStruct.prems(1) f by (auto simp: list_all_iff field_fits_type)
    have "map_of (map zeroMember fs) (f_name f) = Some (snd (zeroMember f))"
    proof (rule map_of_is_SomeI)
      show "distinct (map fst (map zeroMember fs))" unfolding k by (rule d(1))
      have "zeroMember f \<in> set (map zeroMember fs)" using f by simp
      then show "(f_name f, snd (zeroMember f)) \<in> set (map zeroMember fs)" by (simp add: zeroMember_field)
    qed
    then have "rich_member (RObj (map zeroMember fs)) (f_name f) = snd (zeroMember f)" by (simp add: rich_member_def rich_entries_def)
    then show ?thesis using null_slot_ok [OF ft, of RUndef strict "f_name f" False] by (simp add: zeroMember_field slot_ok.simps)
  qed
  then show ?case unfolding z by (simp add: members_okI)
next
  case (TList f)
  then show ?case by (cases f) simp
next
  case (TMap f)
  then show ?case by (simp add: empty_entries_ok)
next
  case (TDictionary t1 t2 b)
  have "zeroValue t1 \<noteq> RNum NaN" by (induction t1) simp_all
  then show ?case using TDictionary by simp
qed (auto simp: isNullish_def)

section \<open>Conforming\<close>

lemma content_unchanged: "conformContent H t name v = Inr (w, False) \<Longrightarrow> w = v"
proof (cases t)
  case (TList f)
  then show "conformContent H t name v = Inr (w, False) \<Longrightarrow> w = v" by (cases f) (auto simp: result_simps split: if_splits)
next
  case (TMap f)
  then show "conformContent H t name v = Inr (w, False) \<Longrightarrow> w = v"
    by (cases f rule: entries_fit.cases) (auto simp: result_simps split: if_splits)
qed (auto simp: same_value_def with_members_def result_simps split: if_splits)

lemma conform_unchanged: "conformValue H t name nl v = Inr (w, False) \<Longrightarrow> w = v"
  using content_unchanged [of H t name v w]
  by (auto simp: conformValue.simps replaced_def same_value_def split: if_splits)

lemma conform_members_get:
  assumes "conformMembers H fs v = Inr ch" "distinct (map f_name fs)"
  shows "distinct (map fst ch) \<and> fst ` set ch \<subseteq> f_name ` set fs \<and> (\<forall>f\<in>set fs. \<exists>w c.
    conformValue H (f_type f) (f_name f) (f_nullable f) (rich_member v (f_name f)) = Inr (w, c) \<and> map_of ch (f_name f) = (if c then Some w else None))"
  using assms
proof (induction fs arbitrary: ch)
  case (Cons f fs)
  obtain n t nl md ex where f: "f = Field n t nl md ex" by (cases f)
  obtain w c rest where r: "conformValue H t n nl (rich_member v n) = Inr (w, c)" "conformMembers H fs v = Inr rest"
      "ch = (if c then (n, w) # rest else rest)"
    using Cons.prems(1) by (auto simp: f result_simps)
  have nn: "n \<notin> f_name ` set fs" "distinct (map f_name fs)" using Cons.prems(2) by (simp_all add: f)
  from Cons.IH [OF r(2) nn(2)] have ih: "distinct (map fst rest)" "fst ` set rest \<subseteq> f_name ` set fs"
      "\<And>g. g \<in> set fs \<Longrightarrow> \<exists>w c. conformValue H (f_type g) (f_name g) (f_nullable g) (rich_member v (f_name g)) = Inr (w, c) \<and>
        map_of rest (f_name g) = (if c then Some w else None)" by blast+
  have none: "map_of rest n = None" using ih(2) nn(1) by (auto simp: map_of_eq_None_iff)
  have "\<exists>w c. conformValue H (f_type g) (f_name g) (f_nullable g) (rich_member v (f_name g)) = Inr (w, c) \<and>
      map_of ch (f_name g) = (if c then Some w else None)" if g: "g \<in> set (f # fs)" for g
  proof (cases "g = f")
    case True
    then show ?thesis using r(1) none by (simp add: f r(3))
  next
    case False
    then have "g \<in> set fs" using g by simp
    moreover from this nn(1) have "f_name g \<noteq> n" by auto
    ultimately show ?thesis using ih(3) [of g] by (simp add: r(3))
  qed
  moreover have "distinct (map fst ch)" "fst ` set ch \<subseteq> f_name ` set (f # fs)" using ih(1,2) nn(1) by (auto simp: r(3) f)
  ultimately show ?case by blast
qed simp

lemma with_members_get:
  assumes "distinct (map fst ch)" "k \<noteq> ''length''"
  shows "rich_member (fst (with_members v ch)) k = (case map_of ch k of Some w \<Rightarrow> w | None \<Rightarrow> rich_member v k)"
proof (cases "ch = []")
  case False
  have "jm_get (fold (\<lambda>(k, w). jm_set k w) ch (rich_entries v)) k =
      (case map_of ch k of Some w \<Rightarrow> Some w | None \<Rightarrow> jm_get (rich_entries v) k)"
    using jm.get_fold_put [of ch "rich_entries v" k] by (simp add: map_of_rev_distinct [OF assms(1)])
  then show ?thesis using False assms(2)
    by (simp add: with_members_def member_of_object rich_entries_def [of "RObj _"] split: option.split)
qed (simp add: with_members_def)

lemma with_members_defined: "\<not> isNullish v \<Longrightarrow> \<not> isNullish (fst (with_members v ch))"
  by (simp add: with_members_def)

lemma members_conform:
  assumes r: "conformMembers H fs v = Inr ch" and d: "distinct (map f_name fs)" "''length'' \<notin> set (map f_name fs)"
    and ok: "\<And>f w c. f \<in> set fs \<Longrightarrow> conformValue H (f_type f) (f_name f) (f_nullable f) (rich_member v (f_name f)) = Inr (w, c) \<Longrightarrow>
      slot_ok strict (f_type f) (f_name f) (f_nullable f) w"
  shows "members_ok strict fs (fst (with_members v ch))"
proof (rule members_okI)
  fix f assume f: "f \<in> set fs"
  note g = conform_members_get [OF r d(1)]
  obtain w c where w: "conformValue H (f_type f) (f_name f) (f_nullable f) (rich_member v (f_name f)) = Inr (w, c)"
      "map_of ch (f_name f) = (if c then Some w else None)" using g f by blast
  have "f_name f \<noteq> ''length''" using d(2) f by (metis image_eqI list.set_map)
  from with_members_get [OF conjunct1 [OF g] this, of v] have "rich_member (fst (with_members v ch)) (f_name f) = w"
    using w conform_unchanged [of H "f_type f" "f_name f" "f_nullable f" "rich_member v (f_name f)" w] by (cases c) simp_all
  then show "slot_ok strict (f_type f) (f_name f) (f_nullable f) (rich_member (fst (with_members v ch)) (f_name f))"
    using ok [OF f w(1)] by simp
qed

text \<open>Every conversion leads to a slot that is fit for the wire.\<close>

lemma zero_slot_ok:
  assumes "fits t" "isNullish item"
  shows "(isNullish (zeroValue t) \<longrightarrow> zeroValue t = RNull) \<and> slot_ok strict t name True (zeroValue t)"
  using zero_content_ok [OF assms(1), of strict name] by (cases "zeroValue t = RNull") (simp_all add: slot_ok.simps)

lemma slot_null: "slot_ok strict t name True w \<Longrightarrow> isNullish w \<Longrightarrow> w = RNull"
  by (simp add: slot_ok.simps)

lemma conform_nonnull:
  assumes "conformValue H t name nl v = Inr (w, c)" "\<not> isNullish v" "fits t"
    "\<And>w c. conformContent H t name v = Inr (w, c) \<Longrightarrow> \<not> isNullish w"
  shows "\<not> isNullish w"
  using assms by (auto simp: conformValue.simps same_value_def split: if_splits)

lemma conform_ok:
  "conformValue H t name nl v = Inr (w, c) \<Longrightarrow> fits t \<Longrightarrow> slot_ok False t name nl w \<and> (\<not> isNullish v \<longrightarrow> \<not> isNullish w)"
  "conformContent H t name v = Inr (w, c) \<Longrightarrow> fits t \<Longrightarrow> \<not> isNullish v \<Longrightarrow> \<not> isNullish w \<and> content_ok False t name w"
  "conformEntries H e name v = Inr (w, c) \<Longrightarrow> entries_fit e \<Longrightarrow> \<not> isNullish v \<Longrightarrow> \<not> isNullish w \<and> entries_ok False e name w"
  "conformMembers H fs v = Inr ch \<Longrightarrow> list_all field_fits fs \<Longrightarrow> f \<in> set fs \<Longrightarrow>
     conformValue H (f_type f) (f_name f) (f_nullable f) (rich_member v (f_name f)) = Inr (w, c) \<Longrightarrow>
     slot_ok False (f_type f) (f_name f) (f_nullable f) w"
proof (induction H t name nl v and H t name v and H e name v and H fs v arbitrary: w c and w c and w c and ch f w c
    rule: conformValue_conformContent_conformEntries_conformMembers.induct)
  case (1 H t name nl v)
  consider "isNullish v" | "\<not> isNullish v" "\<not> hasContainer t" | "\<not> isNullish v" "hasContainer t" by blast
  then show ?case
  proof cases
    case 1
    then show ?thesis using "1.prems" null_slot_ok [of t v False name nl] by (simp add: conformValue.simps replaced_def)
  next
    case 2
    then have w: "w = v" using "1.prems"(1) by (simp add: conformValue.simps same_value_def)
    have "content_ok False t name v"
      using 2 by (cases t) simp_all
    then show ?thesis using 2 w by (simp add: slot_ok.simps)
  next
    case 3
    then have "conformContent H t name v = Inr (w, c)" using "1.prems"(1) by (simp add: conformValue.simps)
    from "1.IH" [OF 3(1) _ this "1.prems"(2) 3(1)] 3(2) show ?thesis by (simp add: slot_ok.simps)
  qed
next
  case (2 H n t nl md ex name v)
  have ft: "fits t" using "2.prems"(2) by simp
  let ?conv = "\<lambda>item. if isNullish item \<and> name \<notin> set OPTIONAL_ITEM_FIELDS then Inr (replaced item (zeroValue t))
         else conformValue H t name True item"
  obtain out where out: "mapR ?conv (arrayFrom H v) = Inr out" and
      w: "(w, c) = (if (case v of RArr _ \<Rightarrow> False | _ \<Rightarrow> True) \<or> list_ex snd out then (RArr (map fst out), True) else (v, False))"
    using "2.prems"(1) by (auto simp: result_simps)
  have step: "(isNullish x \<and> name \<notin> set OPTIONAL_ITEM_FIELDS \<longrightarrow> zeroValue t = RNull) \<and> slot_ok False t name True x \<and> (\<not> d \<longrightarrow> x = item)"
    if item: "item \<in> set (arrayFrom H v)" "?conv item = Inr (x, d)" for item x d
  proof (cases "isNullish item \<and> name \<notin> set OPTIONAL_ITEM_FIELDS")
    case True
    then have x: "x = zeroValue t" "d = (x \<noteq> item)" using item(2) by (auto simp: replaced_def)
    show ?thesis using zero_slot_ok [OF ft, of item False name] True by (simp add: x)
  next
    case False
    then have cv: "conformValue H t name True item = Inr (x, d)" using item(2) by (simp split: if_splits)
    have "slot_ok False t name True x \<and> (\<not> isNullish item \<longrightarrow> \<not> isNullish x)" by (rule "2.IH" [OF item(1) False cv ft])
    then show ?thesis using False conform_unchanged [of H t name True item x] cv by (cases d) auto
  qed
  have all: "list_all2 (\<lambda>item y. ?conv item = Inr y) (arrayFrom H v) out"
    using out by (simp add: mapR_eq_Inr)
  have len: "length (arrayFrom H v) = length out" using all by (rule list_all2_lengthD)
  have nth: "(isNullish (fst (out ! i)) \<and> name \<notin> set OPTIONAL_ITEM_FIELDS \<longrightarrow> zeroValue t = RNull) \<and> slot_ok False t name True (fst (out ! i)) \<and>
      (\<not> snd (out ! i) \<longrightarrow> fst (out ! i) = arrayFrom H v ! i)" if i: "i < length out" for i
  proof (rule step)
    show "arrayFrom H v ! i \<in> set (arrayFrom H v)" using i len by simp
    show "?conv (arrayFrom H v ! i) = Inr (fst (out ! i), snd (out ! i))"
      unfolding prod.collapse using list_all2_nthD2 [OF all i] .
  qed
  have ok: "list_all (\<lambda>item. (isNullish item \<and> name \<notin> set OPTIONAL_ITEM_FIELDS \<longrightarrow> zeroValue t = RNull) \<and> slot_ok False t name True item) (map fst out)"
    unfolding list_all_length using nth by simp
  have "w = RArr (map fst out)"
  proof (cases "(case v of RArr _ \<Rightarrow> False | _ \<Rightarrow> True) \<or> list_ex snd out")
    case False
    then obtain vs where vs: "v = RArr vs" by (cases v) simp_all
    have a: "arrayFrom H v = vs" by (simp add: vs arrayFrom_def iter_elems_def)
    have "vs = map fst out"
    proof (rule nth_equalityI)
      show "length vs = length (map fst out)" using len by (simp add: a)
      fix i assume "i < length vs"
      then have i: "i < length out" using len by (simp add: a)
      with False have "\<not> snd (out ! i)" by (auto simp: list_ex_length)
      with nth [OF i] i show "vs ! i = map fst out ! i" by (simp add: a)
    qed
    then show ?thesis using w False by (simp add: vs)
  qed (use w in simp)
  with ok show ?case by simp
next
  case (3 H entries name v)
  from "3.IH" [of w c] "3.prems" show ?case by simp
next
  case (4 H fs name v)
  obtain ch where ch: "conformMembers H fs v = Inr ch" "(w, c) = with_members v ch"
    using "4.prems"(1) by (auto simp: result_simps)
  have f: "list_all field_fits fs" "distinct (map f_name fs)" "''length'' \<notin> set (map f_name fs)" using "4.prems"(2) by simp_all
  have "members_ok False fs (fst (with_members v ch))"
    by (rule members_conform [OF ch(1) f(2,3)]) (rule "4.IH" [OF ch(1) f(1)])
  moreover have "\<not> isNullish (fst (with_members v ch))" using "4.prems"(3) by (rule with_members_defined)
  moreover have "w = fst (with_members v ch)" using ch(2) by (metis fst_conv)
  ultimately show ?case by simp
next
  case (6 H n0 k n t nl md ex rest nl0 md0 ex0 name v)
  have ft: "fits t" using "6.prems"(2) by simp
  let ?conv = "\<lambda>(k, w). rbind (if isNullish w then Inr (replaced w (zeroValue t)) else conformValue H t name True w) (\<lambda>(w, changed). Inr ((k, w), changed))"
  obtain pairs out where pairs: "mapPairs v = Inr pairs" and out: "mapR ?conv pairs = Inr out" and
      w: "(w, c) = (if list_ex snd out then (pairs_value (map fst out), True) else (v, False))"
    using "6.prems"(1) by (auto simp: result_simps)
  have step: "(isNullish x \<longrightarrow> zeroValue t = RNull) \<and> slot_ok False t name True x \<and> (\<not> d \<longrightarrow> x = u) \<and> k' = k"
    if p: "(k, u) \<in> set pairs" "?conv (k, u) = Inr ((k', x), d)" for k u k' x d
  proof (cases "isNullish u")
    case True
    then have x: "x = zeroValue t" "d = (x \<noteq> u)" "k' = k" using p(2) by (auto simp: replaced_def)
    show ?thesis using zero_slot_ok [OF ft True, of False name] by (simp add: x)
  next
    case False
    then have cv: "conformValue H t name True u = Inr (x, d)" "k' = k" using p(2) by (auto simp: result_simps)
    have "slot_ok False t name True x \<and> (\<not> isNullish u \<longrightarrow> \<not> isNullish x)" by (rule "6.IH" [OF pairs p(1) refl False cv(1) ft])
    then show ?thesis using False conform_unchanged [of H t name True u x] cv by (cases d) auto
  qed
  have all: "list_all2 (\<lambda>p y. ?conv p = Inr y) pairs out" using out by (simp add: mapR_eq_Inr)
  have nth: "i < length out \<Longrightarrow> (isNullish (snd (fst (out ! i))) \<longrightarrow> zeroValue t = RNull) \<and> slot_ok False t name True (snd (fst (out ! i))) \<and>
      (\<not> snd (out ! i) \<longrightarrow> fst (out ! i) = pairs ! i)" for i
  proof -
    assume i: "i < length out"
    obtain k u where ku: "pairs ! i = (k, u)" by (cases "pairs ! i")
    obtain k' x d where y: "out ! i = ((k', x), d)" by (cases "out ! i") (metis surj_pair)
    have "i < length pairs" using list_all2_lengthD [OF all] i by simp
    then have m: "(k, u) \<in> set pairs" unfolding ku [symmetric] by (rule nth_mem)
    have "?conv (k, u) = Inr ((k', x), d)" unfolding ku [symmetric] y [symmetric] by (rule list_all2_nthD2 [OF all i])
    from step [OF m this] show ?thesis by (simp add: ku y)
  qed
  have len: "length pairs = length out" using all by (rule list_all2_lengthD)
  have ok: "list_all (\<lambda>(k, w). (isNullish w \<longrightarrow> zeroValue t = RNull) \<and> slot_ok False t name True w) (map fst out)"
    unfolding list_all_length using nth by (simp add: case_prod_beta)
  have "mapPairs w = Inr (map fst out) \<and> \<not> isNullish w"
  proof (cases "list_ex snd out")
    case True
    then show ?thesis using w by (simp add: pairs_value_def mapPairs_def rich_nth_def case_prod_beta comp_def)
  next
    case False
    have "pairs = map fst out"
    proof (rule nth_equalityI)
      fix i assume "i < length pairs"
      then have i: "i < length out" using len by simp
      with False have "\<not> snd (out ! i)" by (auto simp: list_ex_length)
      with nth [OF i] i show "pairs ! i = map fst out ! i" by simp
    qed (simp add: len)
    then show ?thesis using w False pairs "6.prems"(3) by simp
  qed
  with ok show ?case by simp
next
  case (9 H n t nl md ex fs v)
  obtain w' c' rest where r: "conformValue H t n nl (rich_member v n) = Inr (w', c')" "conformMembers H fs v = Inr rest"
    using "9.prems"(1) by (auto simp: result_simps)
  have ft: "fits t" "list_all field_fits fs" using "9.prems"(2) by simp_all
  from "9.prems"(3) consider "f = Field n t nl md ex" | "f \<in> set fs" by auto
  then show ?case
  proof cases
    case 1
    then show ?thesis using "9.IH"(1) [of w c] "9.prems"(4) ft(1) by simp
  next
    case 2
    show ?thesis by (rule "9.IH"(2) [OF r(1) refl r(2) ft(2) 2 "9.prems"(4)])
  qed
qed (auto simp: same_value_def)

text \<open>What is fit for the wire already, and free of \<open>NaN\<close>, is handed back as it is.\<close>

lemma conform_keeps:
  "slot_ok True t name nl v \<Longrightarrow> conformValue H t name nl v = Inr (v, False)"
  "content_ok True t name v \<Longrightarrow> hasContainer t \<Longrightarrow> \<not> isNullish v \<Longrightarrow> conformContent H t name v = Inr (v, False)"
  "entries_ok True e name v \<Longrightarrow> conformEntries H e name v = Inr (v, False)"
  "members_ok True fs v \<Longrightarrow> conformMembers H fs v = Inr []"
proof (induction H t name nl v and H t name v and H e name v and H fs v
    rule: conformValue_conformContent_conformEntries_conformMembers.induct)
  case (1 H t name nl v)
  show ?case
  proof (cases "isNullish v")
    case True
    with "1.prems" show ?thesis by (auto simp: conformValue.simps slot_ok.simps conform_null_def replaced_def split: if_splits)
  next
    case False
    then have c: "content_ok True t name v" using "1.prems" by (simp add: slot_ok.simps)
    show ?thesis
    proof (cases "hasContainer t")
      case True
      from "1.IH" [OF False _ c True False] True False show ?thesis by (simp add: conformValue.simps)
    next
      case nc: False
      then have "v \<noteq> RNum NaN" using c by (cases t) simp_all
      with nc False show ?thesis by (simp add: conformValue.simps same_value_def)
    qed
  qed
next
  case (2 H n t nl md ex name v)
  from "2.prems"(1) obtain vs where vs: "v = RArr vs" by (cases v) simp_all
  have a: "arrayFrom H v = vs" by (simp add: vs arrayFrom_def iter_elems_def)
  have i: "(if isNullish item \<and> name \<notin> set OPTIONAL_ITEM_FIELDS then Inr (replaced item (zeroValue t)) else conformValue H t name True item) = Inr (item, False)"
    if item: "item \<in> set vs" for item
  proof -
    have ok: "isNullish item \<and> name \<notin> set OPTIONAL_ITEM_FIELDS \<longrightarrow> zeroValue t = RNull" "slot_ok True t name True item"
      using "2.prems"(1) item by (auto simp: vs list_all_iff)
    show ?thesis
    proof (cases "isNullish item \<and> name \<notin> set OPTIONAL_ITEM_FIELDS")
      case True
      with ok slot_null [of True t name item] show ?thesis by (simp add: replaced_def)
    next
      case False
      from "2.IH" [OF _ False ok(2)] item have "conformValue H t name True item = Inr (item, False)" by (simp add: a)
      with False show ?thesis by auto
    qed
  qed
  have "mapR (\<lambda>item. if isNullish item \<and> name \<notin> set OPTIONAL_ITEM_FIELDS then Inr (replaced item (zeroValue t))
         else conformValue H t name True item) vs = Inr (map (\<lambda>item. (item, False)) vs)"
    by (rule mapR_all) (rule i)
  then show ?case by (simp add: a) (simp add: vs list_ex_iff)
next
  case (3 H entries name v)
  then show ?case by simp
next
  case (4 H fs name v)
  then show ?case by (simp add: with_members_def)
next
  case (6 H n0 k n t nl md ex rest nl0 md0 ex0 name v)
  obtain ps where ps: "mapPairs v = Inr ps" "list_all (\<lambda>(k, w). (isNullish w \<longrightarrow> zeroValue t = RNull) \<and> slot_ok True t name True w) ps"
    using "6.prems" by (auto split: sum.splits)
  have i: "rbind (if isNullish w then Inr (replaced w (zeroValue t)) else conformValue H t name True w) (\<lambda>(w, changed). Inr ((k, w), changed)) = Inr ((k, w), False)"
    if p: "(k, w) \<in> set ps" for k w
  proof -
    have ok: "isNullish w \<longrightarrow> zeroValue t = RNull" "slot_ok True t name True w" using ps(2) p by (auto simp: list_all_iff)
    show ?thesis
    proof (cases "isNullish w")
      case True
      with ok slot_null [of True t name w] show ?thesis by (simp add: replaced_def)
    next
      case False
      from "6.IH" [OF ps(1) p refl False ok(2)] False show ?thesis by simp
    qed
  qed
  have "mapR (\<lambda>(k, w). rbind (if isNullish w then Inr (replaced w (zeroValue t)) else conformValue H t name True w) (\<lambda>(w, changed). Inr ((k, w), changed))) ps
      = Inr (map (\<lambda>p. (p, False)) ps)"
    by (rule mapR_all) (use i in auto)
  then show ?case by (simp add: ps(1) list_ex_iff)
next
  case (9 H n t nl md ex fs v)
  then have m: "slot_ok True t n nl (rich_member v n)" "members_ok True fs v" by simp_all
  have c: "conformValue H t n nl (rich_member v n) = Inr (rich_member v n, False)" by (rule "9.IH"(1) [OF m(1)])
  have "conformMembers H fs v = Inr []" by (rule "9.IH"(2) [OF c refl m(2)])
  with c show ?case by simp
qed (simp_all add: same_value_def)


definition sample_fields :: "arrow_field list" where
  "sample_fields = [Field ''names'' (TList (Field ''item'' TUtf8 True [] [])) False [] [],
     Field ''tags'' (TMap (Field ''entries'' (TStruct [Field ''key'' TUtf8 False [] [], Field ''value'' TUtf8 True [] []]) False [] [])) False [] [],
     Field ''note'' TUtf8 True [] []]"

definition sample_codec_host :: codec_host where
  "sample_codec_host = \<lparr>array_like = (\<lambda>_. []), key_string = (\<lambda>_. [])\<rparr>"


section \<open>Maps in key order\<close>

lemma compare_Cons: "compareCodePoints (x # s) (y # t) = (if x \<noteq> y then int (of_char x) - int (of_char y) else compareCodePoints s t)"
  by (simp add: compareCodePoints_def split: option.split)

lemma compareCodePoints_order: "compareCodePoints s t \<le> 0 \<longleftrightarrow> str_le s t"
proof (induction s arbitrary: t)
  case Nil
  then show ?case by (cases t) (simp_all add: compareCodePoints_def str_le_def)
next
  case (Cons x s)
  show ?case
  proof (cases t)
    case Nil
    then show ?thesis by (simp add: compareCodePoints_def str_le_def)
  next
    case t: (Cons y t')
    have "(of_char x :: nat) = of_char y \<longleftrightarrow> x = y" by (metis char_of_char)
    then show ?thesis using Cons.IH [of t'] by (auto simp: t compare_Cons str_le_def)
  qed
qed

text \<open>Pairs with string keys, by their keys.\<close>

definition string_key :: "rich \<Rightarrow> bool" where
  "string_key k \<longleftrightarrow> (case k of RStr _ \<Rightarrow> True | _ \<Rightarrow> False)"

lemma string_keyE: "string_key k \<Longrightarrow> \<exists>s. k = RStr s"
  by (cases k) (simp_all add: string_key_def)

definition key_le :: "rich \<times> rich \<Rightarrow> rich \<times> rich \<Rightarrow> bool" where
  "key_le p q \<longleftrightarrow> str_le (case fst p of RStr s \<Rightarrow> s | _ \<Rightarrow> []) (case fst q of RStr s \<Rightarrow> s | _ \<Rightarrow> [])"

lemma str_le_total: "str_le s t \<or> str_le t s"
  unfolding str_le_def using str_less_linear [of s t] str_less_irrefl by blast

lemma str_le_trans: "str_le r s \<Longrightarrow> str_le s t \<Longrightarrow> str_le r t"
  unfolding str_le_def using str_less_linear [of r s] str_less_trans [of t r s] by blast

lemma str_le_antisym: "str_le s t \<Longrightarrow> str_le t s \<Longrightarrow> s = t"
  unfolding str_le_def using str_less_linear [of s t] by blast

interpretation by_key: total_preorder key_le
  by unfold_locales (unfold key_le_def, (rule str_le_total, erule str_le_trans, assumption)+)

lemma insert_by_cong: "(\<And>y. y \<in> set ys \<Longrightarrow> le x y = le' x y) \<Longrightarrow> insert_by le x ys = insert_by le' x ys"
  by (induction ys) auto

lemma sort_by_cong: "(\<And>x y. x \<in> set xs \<Longrightarrow> y \<in> set xs \<Longrightarrow> le x y = le' x y) \<Longrightarrow> sort_by le xs = sort_by le' xs"
proof (induction xs)
  case (Cons x xs)
  have "sort_by le xs = sort_by le' xs" by (rule Cons.IH) (simp add: Cons.prems)
  then show ?case by (auto intro!: insert_by_cong simp: Cons.prems)
qed simp

lemma sort_pairs_by_key: "\<forall>p\<in>set ps. string_key (fst p) \<Longrightarrow> sort_pairs H ps = sort_by key_le ps"
  unfolding sort_pairs_def
proof (rule sort_by_cong)
  assume all: "\<forall>p\<in>set ps. string_key (fst p)"
  fix p q assume "p \<in> set ps" "q \<in> set ps"
  then obtain s t where "fst p = RStr s" "fst q = RStr t" using all string_keyE by metis
  then show "(compareKeys H (fst p) (fst q) \<le> 0) = key_le p q"
    by (simp add: key_le_def compareKeys_def compareCodePoints_order)
qed

lemma sorted_unique:
  assumes "sorted_wrt key_le xs" "sorted_wrt key_le ys" "set xs = set ys" "distinct (map fst xs)" "distinct (map fst ys)"
    "\<forall>p\<in>set xs. string_key (fst p)"
  shows "xs = ys"
  using assms
proof (induction xs arbitrary: ys)
  case (Cons x xs)
  then obtain y ys' where ys: "ys = y # ys'" by (cases ys) auto
  have mem: "x \<in> set ys" "y \<in> set (x # xs)" using Cons.prems(3) ys by auto
  have "key_le x y" "key_le y x" using Cons.prems(1,2) mem by_key.total [of x x] by (auto simp: ys)
  moreover have "string_key (fst x)" "string_key (fst y)" using Cons.prems(6) mem(2) by auto
  ultimately have "fst x = fst y"
    using str_le_antisym by (auto simp: key_le_def string_key_def split: rich.splits)
  have xy: "x = y"
  proof (rule ccontr)
    assume "x \<noteq> y"
    with mem(1) ys have "x \<in> set ys'" by simp
    then have "fst x \<in> fst ` set ys'" by (rule imageI)
    with Cons.prems(5) \<open>fst x = fst y\<close> show False by (simp add: ys)
  qed
  have "x \<notin> set xs" "y \<notin> set ys'" using Cons.prems(4,5) by (auto simp: ys)
  then have "set xs = set ys'" using Cons.prems(3) by (auto simp: ys xy)
  with Cons.IH [of ys'] Cons.prems show ?case by (simp add: ys xy)
qed simp

lemma distinct_sort: "distinct (map fst xs) \<Longrightarrow> distinct (map fst (sort_by le xs))"
proof -
  assume d: "distinct (map fst xs)"
  have "set (map fst (sort_by le xs)) = set (map fst xs)" "length (map fst (sort_by le xs)) = length (map fst xs)" by simp_all
  with d show ?thesis by (metis card_distinct distinct_card)
qed

lemma sort_pairs_unique:
  assumes "set ps = set qs" "distinct (map fst ps)" "distinct (map fst qs)" "\<forall>p\<in>set ps. string_key (fst p)"
  shows "sort_pairs H ps = sort_pairs H qs"
proof -
  have k: "\<forall>p\<in>set qs. string_key (fst p)" using assms(1,4) by simp
  show ?thesis unfolding sort_pairs_by_key [OF assms(4)] sort_pairs_by_key [OF k]
    by (rule sorted_unique) (use assms in \<open>simp_all add: by_key.sorted_sort_by distinct_sort\<close>)
qed

text \<open>Objects alike but for what the changed members hold.\<close>

definition agree :: "string set \<Rightarrow> (string \<times> rich) list \<Rightarrow> (string \<times> rich) list \<Rightarrow> bool" where
  "agree S es es' \<longleftrightarrow> distinct (map fst es) \<and> list_all2 (\<lambda>(a, x) (b, y). a = b \<and> (a \<in> S \<or> x = y)) es es'"

lemma agree_set: "agree (insert k S) es es' \<Longrightarrow> agree S (jm_set k w es) (jm_set k w es')"
  unfolding agree_def
proof (induction k w es arbitrary: es' rule: jm_set.induct)
  case (1 k w)
  then show ?case by simp
next
  case (2 k w k' v m)
  obtain y m' where es': "es' = (k', y) # m'" using "2.prems" by (auto simp: list_all2_Cons1)
  have m: "distinct (map fst m)" "list_all2 (\<lambda>(a, x) (b, y). a = b \<and> (a \<in> insert k S \<or> x = y)) m m'" "k' \<notin> fst ` set m"
    using "2.prems" es' by simp_all
  show ?case
  proof (cases "k' = k")
    case True
    have "list_all2 (\<lambda>(a, x) (b, y). a = b \<and> (a \<in> S \<or> x = y)) m m'"
      using m(2)
    proof (rule list.rel_mono_strong)
      fix p q assume "p \<in> set m" "(\<lambda>(a, x) (b, y). a = b \<and> (a \<in> insert k S \<or> x = y)) p q"
      moreover from this(1) have "fst p \<noteq> k" using m(3) True by (metis imageI)
      ultimately show "(\<lambda>(a, x) (b, y). a = b \<and> (a \<in> S \<or> x = y)) p q" by (auto simp: case_prod_beta)
    qed
    with True m show ?thesis by (simp add: es')
  next
    case False
    have "k' \<notin> fst ` set (jm_set k w m)" using m(3) False jm_set_keys [of k w m] by auto
    with "2.IH" [OF False, of m'] m False "2.prems" show ?thesis by (simp add: es')
  qed
qed

lemma agree_fold: "agree (fst ` set ch) es es' \<Longrightarrow> fold (\<lambda>(k, w). jm_set k w) ch es = fold (\<lambda>(k, w). jm_set k w) ch es'"
proof (induction ch arbitrary: es es')
  case Nil
  then have "list_all2 (=) es es'" unfolding agree_def by (auto elim!: list.rel_mono_strong)
  then show ?case by (simp add: list.rel_eq)
next
  case (Cons c ch)
  obtain k w where c: "c = (k, w)" by (cases c)
  have "agree (fst ` set ch) (jm_set k w es) (jm_set k w es')" by (rule agree_set) (use Cons.prems in \<open>simp add: c\<close>)
  from Cons.IH [OF this] show ?case by (simp add: c)
qed

text \<open>
  Two builds of one value: maps hold the same entries, under string keys and in any order, everything else
  is equal.
\<close>

fun same_maps :: "arrow_type \<Rightarrow> rich \<Rightarrow> rich \<Rightarrow> bool"
  and same_entries :: "arrow_field \<Rightarrow> rich \<Rightarrow> rich \<Rightarrow> bool"
  and same_members :: "arrow_field list \<Rightarrow> rich \<Rightarrow> rich \<Rightarrow> bool" where
  "same_maps (TMap e) v w = (if isNullish v \<or> isNullish w then v = w else same_entries e v w)"
| "same_maps (TList (Field _ t _ _ _)) v w = (v = w \<or> (case (v, w) of (RArr vs, RArr ws) \<Rightarrow> list_all2 (\<lambda>x y. same_maps t x y) vs ws | _ \<Rightarrow> False))"
| "same_maps (TStruct fs) v w = (v = w \<or> (case (v, w) of
     (RObj es, RObj es') \<Rightarrow> agree (set (map f_name (filter field_has_map fs))) es es' \<and> same_members fs v w
   | _ \<Rightarrow> False))"
| "same_maps _ v w = (v = w)"
| "same_entries (Field _ (TStruct (_ # Field _ t _ _ _ # _)) _ _ _) v w = (case (mapPairs v, mapPairs w) of
     (Inr ps, Inr qs) \<Rightarrow> distinct (map fst ps) \<and> distinct (map fst qs) \<and> set (map fst ps) = set (map fst qs) \<and>
       list_all (\<lambda>(k, x). string_key k \<and> (case map_of qs k of Some y \<Rightarrow> same_maps t x y | None \<Rightarrow> False)) ps
   | _ \<Rightarrow> False)"
| "same_entries _ v w = False"
| "same_members [] v w = True"
| "same_members (Field n t _ _ _ # fs) v w = (same_maps t (rich_member v n) (rich_member w n) \<and> same_members fs v w)"

lemma same_maps_plain: "same_maps t v w \<Longrightarrow> \<not> typeHasMap t \<Longrightarrow> v = w"
proof (induction t arbitrary: v w rule: measure_induct_rule [where f = size])
  case (less t)
  show ?case
  proof (cases t)
    case (TList f)
    obtain n s nl md ex where f: "f = Field n s nl md ex" by (cases f)
    have "x = y" if "same_maps s x y" for x y by (rule less.IH [of s x y]) (use that less.prems(2) in \<open>simp_all add: TList f\<close>)
    then have "list_all2 (\<lambda>x y. same_maps s x y) vs ws \<Longrightarrow> vs = ws" for vs ws
      using list.rel_mono [of "same_maps s" "(=)"] by (auto simp: list.rel_eq le_fun_def)
    then show ?thesis using less.prems(1) by (auto simp: TList f split: rich.splits)
  next
    case (TStruct fs)
    have "filter field_has_map fs = []" using less.prems(2) by (simp add: TStruct filter_empty_conv list_ex_iff)
    moreover have "agree {} es es' \<Longrightarrow> es = es'" for es es'
      using agree_fold [of "[]" es es'] by simp
    ultimately show ?thesis using less.prems(1) by (auto simp: TStruct split: rich.splits)
  qed (use less.prems in simp_all)
qed

lemma same_nullish: "same_maps t v w \<Longrightarrow> isNullish v = isNullish w"
proof (cases t)
  case (TList f)
  then show "same_maps t v w \<Longrightarrow> isNullish v = isNullish w" by (cases f) (auto split: rich.splits)
next
  case (TMap f)
  then show "same_maps t v w \<Longrightarrow> isNullish v = isNullish w"
    by (cases f rule: entries_fit.cases) (auto split: if_splits)
qed (auto split: rich.splits)

lemma sorted_same_members:
  assumes "\<And>f v w x. f \<in> set fs \<Longrightarrow> same_maps (f_type f) v w \<Longrightarrow> sortMapsForType H (f_type f) v = Inr x \<Longrightarrow> sortMapsForType H (f_type f) w = Inr x"
    "same_members fs v w" "sortMembers H fs v = Inr ch"
  shows "sortMembers H fs w = Inr ch \<and> fst ` set ch = f_name ` set fs"
  using assms
proof (induction fs arbitrary: ch)
  case (Cons f fs)
  obtain n t nl md ex where f: "f = Field n t nl md ex" by (cases f)
  obtain x rest where r: "sortMapsForType H t (rich_member v n) = Inr x" "sortMembers H fs v = Inr rest" "ch = (n, x) # rest"
    using Cons.prems(3) by (auto simp: f result_simps)
  have "sortMapsForType H t (rich_member w n) = Inr x"
    using Cons.prems(1) [of f "rich_member v n" "rich_member w n" x] Cons.prems(2) r(1) by (simp add: f)
  moreover have "sortMembers H fs w = Inr rest \<and> fst ` set rest = f_name ` set fs"
  proof (rule Cons.IH [OF _ _ r(2)])
    show "sortMapsForType H (f_type g) w = Inr x" if "g \<in> set fs" "same_maps (f_type g) v w" "sortMapsForType H (f_type g) v = Inr x" for g v w x
      using Cons.prems(1) [of g v w x] that by simp
    show "same_members fs v w" using Cons.prems(2) by (simp add: f)
  qed
  ultimately show ?case by (simp add: f r(3))
qed simp

lemma sorted_same_pairs:
  assumes sort: "\<And>v w x. same_maps t v w \<Longrightarrow> sortMapsForType H t v = Inr x \<Longrightarrow> sortMapsForType H t w = Inr x"
    and d: "distinct (map fst ps)" "distinct (map fst qs)" "set (map fst ps) = set (map fst qs)"
    and same: "\<And>k x. (k, x) \<in> set ps \<Longrightarrow> string_key k \<and> (\<exists>y. map_of qs k = Some y \<and> same_maps t x y)"
    and ps': "mapR (\<lambda>(k, w). rbind (sortMapsForType H t w) (\<lambda>w. Inr (k, w))) ps = Inr ps'"
  shows "\<exists>qs'. mapR (\<lambda>(k, w). rbind (sortMapsForType H t w) (\<lambda>w. Inr (k, w))) qs = Inr qs' \<and> sort_pairs H qs' = sort_pairs H ps'"
proof -
  let ?f = "\<lambda>(k :: rich, w). rbind (sortMapsForType H t w) (\<lambda>w. Inr (k, w))"
  have step: "\<exists>z. ?f q = Inr z \<and> z \<in> set ps' \<and> fst z = fst q" if q: "q \<in> set qs" for q
  proof -
    obtain k y where ky: "q = (k, y)" by (cases q)
    have "k \<in> set (map fst ps)" using q d(3) by (force simp: ky)
    then obtain x where x: "(k, x) \<in> set ps" by auto
    obtain y' where y': "map_of qs k = Some y'" "same_maps t x y'" using same [OF x] by blast
    have "map_of qs k = Some y" using q d(2) by (simp add: ky)
    with y'(1) have "y' = y" by simp
    obtain z where z: "z \<in> set ps'" "?f (k, x) = Inr z" using mapR_mem_of [OF ps' x] by blast
    then obtain u where u: "sortMapsForType H t x = Inr u" "z = (k, u)" by (auto simp: result_simps)
    from sort [OF y'(2) u(1)] z(1) u(2) show ?thesis by (simp add: ky \<open>y' = y\<close>)
  qed
  define g :: "rich \<times> rich \<Rightarrow> rich \<times> rich" where "g q = (case ?f q of Inr z \<Rightarrow> z | Inl _ \<Rightarrow> q)" for q
  have g: "?f q = Inr (g q) \<and> g q \<in> set ps' \<and> fst (g q) = fst q" if "q \<in> set qs" for q
    using step [OF that] by (auto simp: g_def)
  have qs': "mapR ?f qs = Inr (map g qs)" by (rule mapR_all) (simp only: g)
  have kq: "map fst (map g qs) = map fst qs" using g by simp
  have kp: "map fst ps' = map fst ps"
  proof (rule nth_equalityI)
    show len: "length (map fst ps') = length (map fst ps)" using mapR_length [OF ps'] by simp
    fix i assume "i < length (map fst ps')"
    then have i: "i < length ps" using len by simp
    have "?f (ps ! i) = Inr (ps' ! i)" using ps' i by (simp add: mapR_eq_Inr list_all2_conv_all_nth)
    moreover obtain a b where "ps ! i = (a, b)" by (cases "ps ! i")
    ultimately obtain u where "(a, u) = ps' ! i" "ps ! i = (a, b)" by (auto simp: result_simps)
    then have "fst (ps' ! i) = fst (ps ! i)" by (metis fst_conv)
    then show "map fst ps' ! i = map fst ps ! i" using i len by simp
  qed
  have "set (map g qs) \<subseteq> set ps'" using g by auto
  moreover have "card (set (map g qs)) = card (set ps')"
  proof -
    have "card (set (map g qs)) = length qs" "card (set ps') = length ps'"
      using d(1,2) kq kp by (metis distinct_card distinct_map length_map)+
    moreover have "length ps = length qs" using d by (metis distinct_card length_map)
    ultimately show ?thesis using mapR_length [OF ps'] by simp
  qed
  ultimately have eq: "set (map g qs) = set ps'" by (simp add: card_subset_eq)
  have "\<forall>p\<in>set (map g qs). string_key (fst p)"
  proof
    fix p assume "p \<in> set (map g qs)"
    then have "fst p \<in> set (map fst ps)" using eq kp by (metis imageI list.set_map)
    then show "string_key (fst p)" using same by auto
  qed
  moreover have "distinct (map fst (map g qs))" unfolding kq by (rule d(2))
  moreover have "distinct (map fst ps')" unfolding kp by (rule d(1))
  ultimately have "sort_pairs H (map g qs) = sort_pairs H ps'" by (metis sort_pairs_unique [OF eq])
  with qs' show ?thesis by blast
qed

lemma sorted_same: "same_maps t v w \<Longrightarrow> sortMapsForType H t v = Inr x \<Longrightarrow> sortMapsForType H t w = Inr x"
proof (induction t arbitrary: v w x rule: measure_induct_rule [where f = size])
  case (less t)
  show ?case
  proof (cases "v = w")
    case False
    show ?thesis
    proof (cases t)
      case (TList f)
      obtain n s nl md ex where f: "f = Field n s nl md ex" by (cases f)
      have m: "typeHasMap s" using same_maps_plain [OF less.prems(1)] False by (auto simp: TList f)
      obtain vs ws where vw: "v = RArr vs" "w = RArr ws" "list_all2 (\<lambda>x y. same_maps s x y) vs ws"
        using less.prems(1) False by (auto simp: TList f split: rich.splits)
      obtain xs where xs: "mapR (sortMapsForType H s) vs = Inr xs" "x = RArr xs"
        using less.prems(2) m by (auto simp: TList f vw arrayFrom_def iter_elems_def result_simps)
      have "mapR (sortMapsForType H s) ws = Inr xs"
        unfolding mapR_eq_Inr list_all2_conv_all_nth
      proof (intro conjI allI impI)
        have len: "length vs = length ws" using vw(3) by (rule list_all2_lengthD)
        then show "length ws = length xs" using mapR_length [OF xs(1)] by simp
        fix i assume i: "i < length ws"
        have s: "same_maps s (vs ! i) (ws ! i)" by (rule list_all2_nthD2 [OF vw(3) i])
        have "sortMapsForType H s (vs ! i) = Inr (xs ! i)" using xs(1) i len by (simp add: mapR_eq_Inr list_all2_conv_all_nth)
        from less.IH [OF _ s this] show "sortMapsForType H s (ws ! i) = Inr (xs ! i)" by (simp add: TList f)
      qed
      then show ?thesis using m xs(2) by (simp add: TList f vw arrayFrom_def iter_elems_def)
    next
      case (TStruct fs)
      have m: "list_ex field_has_map fs" using same_maps_plain [OF less.prems(1)] False by (auto simp: TStruct)
      obtain es es' where vw: "v = RObj es" "w = RObj es'" "agree (set (map f_name (filter field_has_map fs))) es es'" "same_members fs v w"
        using less.prems(1) False by (auto simp: TStruct split: rich.splits)
      obtain ch where ch: "sortMembers H fs v = Inr ch" "x = RObj (fold (\<lambda>(k, w). jm_set k w) ch es)"
        using less.prems(2) m by (auto simp: TStruct vw(1) rich_entries_def result_simps)
      have "sortMembers H fs w = Inr ch \<and> fst ` set ch = f_name ` set fs"
      proof (rule sorted_same_members [OF _ vw(4) ch(1)])
        fix f v w x assume f: "f \<in> set fs" "same_maps (f_type f) v w" "sortMapsForType H (f_type f) v = Inr x"
        have "size (f_type f) < size t"
        proof -
          have "size f < size t" using f(1) by (auto simp: TStruct dest: size_list_estimation' [of f fs _ size, OF _ order_refl])
          moreover have "size (f_type f) < size f" by (cases f) simp
          ultimately show ?thesis by simp
        qed
        from less.IH [OF this f(2,3)] show "sortMapsForType H (f_type f) w = Inr x" .
      qed
      moreover from this have "agree (fst ` set ch) es es'" using vw(3) by (auto simp: agree_def elim!: list.rel_mono_strong)
      ultimately show ?thesis using agree_fold [of ch es es'] m ch(2) by (simp add: TStruct vw(2) rich_entries_def)
    next
      case (TMap e)
      have n: "\<not> isNullish v" "\<not> isNullish w" "same_entries e v w" using less.prems(1) False by (auto simp: TMap split: if_splits)
      then obtain n0 k m s nl md ex rest nl0 md0 ex0 where e: "e = Field n0 (TStruct (k # Field m s nl md ex # rest)) nl0 md0 ex0"
        by (cases e rule: entries_fit.cases) auto
      obtain ps qs where pq: "mapPairs v = Inr ps" "mapPairs w = Inr qs" "distinct (map fst ps)" "distinct (map fst qs)" "set (map fst ps) = set (map fst qs)"
          "list_all (\<lambda>(k, x). string_key k \<and> (case map_of qs k of Some y \<Rightarrow> same_maps s x y | None \<Rightarrow> False)) ps"
        using n(3) by (auto simp: e split: sum.splits)
      obtain ps' where ps': "mapR (\<lambda>(k, w). rbind (sortMapsForType H s w) (\<lambda>w. Inr (k, w))) ps = Inr ps'" "x = pairs_value (sort_pairs H ps')"
        using less.prems(2) n(1) pq(1) by (auto simp: TMap e result_simps)
      have "\<exists>qs'. mapR (\<lambda>(k, w). rbind (sortMapsForType H s w) (\<lambda>w. Inr (k, w))) qs = Inr qs' \<and> sort_pairs H qs' = sort_pairs H ps'"
      proof (rule sorted_same_pairs [OF _ pq(3,4,5) _ ps'(1)])
        show "sortMapsForType H s w = Inr x" if "same_maps s v w" "sortMapsForType H s v = Inr x" for v w x
          using less.IH [OF _ that] by (simp add: TMap e)
        show "string_key k \<and> (\<exists>y. map_of qs k = Some y \<and> same_maps s x y)" if "(k, x) \<in> set ps" for k x
          using pq(6) that by (auto simp: list_all_iff split: option.splits)
      qed
      then show ?thesis using n(2) pq(2) ps'(2) by (auto simp: TMap e)
    qed (use less.prems False in simp_all)
  qed (use less.prems in simp)
qed

lemma same_members_nth: "same_members fs v w \<Longrightarrow> f \<in> set fs \<Longrightarrow> same_maps (f_type f) (rich_member v (f_name f)) (rich_member w (f_name f))"
proof (induction fs)
  case (Cons g fs)
  obtain n t nl md ex where "g = Field n t nl md ex" by (cases g)
  with Cons show ?case by auto
qed simp

text \<open>
  C16: the order a map was built in never reaches the wire.  Two builds of one record, whose maps at any depth
  hold the same entries under string keys in whatever order and in whatever form and whose other values
  are equal, are turned into the very same record, so their encodings and content digests agree.
\<close>

theorem map_order_immaterial:
  assumes "same_members fs (RObj es) (RObj es')" "agree (set (map f_name (map_columns fs (RObj es)))) es es'"
    "sortMapsForSchema H fs (RObj es) = Inr out"
  shows "sortMapsForSchema H fs (RObj es') = Inr out"
proof -
  let ?v = "RObj es" and ?w = "RObj es'"
  have cols: "map_columns fs ?w = map_columns fs ?v"
    unfolding map_columns_def by (rule filter_cong) (use same_nullish [OF same_members_nth [OF assms(1)]] in auto)
  show ?thesis
  proof (cases "map_columns fs ?v = []")
    case True
    then have "agree {} es es'" using assms(2) by simp
    then have "es = es'" using agree_fold [of "[]" es es'] by simp
    with assms(3) show ?thesis by simp
  next
    case False
    let ?conv = "\<lambda>v f. rbind (sortMapsForType H (f_type f) (rich_member v (f_name f))) (\<lambda>w. Inr (f_name f, w))"
    obtain ch where ch: "mapR (?conv ?v) (map_columns fs ?v) = Inr ch" "out = RObj (fold (\<lambda>(k, w). jm_set k w) ch es)"
      using assms(3) False by (auto simp: sortMapsForSchema_def Let_def rich_entries_def result_simps)
    have "list_all2 (\<lambda>f c. ?conv ?v f = Inr c) (map_columns fs ?v) ch" using ch(1) by (simp add: mapR_eq_Inr)
    then have both: "list_all2 (\<lambda>f c. ?conv ?w f = Inr c \<and> fst c = f_name f) (map_columns fs ?v) ch"
    proof (rule list.rel_mono_strong)
      fix f c assume f: "f \<in> set (map_columns fs ?v)" and c: "?conv ?v f = Inr c"
      obtain x where x: "sortMapsForType H (f_type f) (rich_member ?v (f_name f)) = Inr x" "(f_name f, x) = c" using c by (auto simp: result_simps)
      have "f \<in> set fs" using f by (simp add: map_columns_def)
      from sorted_same [OF same_members_nth [OF assms(1) this] x(1)] x(2)
      show "?conv ?w f = Inr c \<and> fst c = f_name f" by auto
    qed
    then have "mapR (?conv ?w) (map_columns fs ?w) = Inr ch"
      unfolding cols mapR_eq_Inr by (rule list.rel_mono_strong) simp
    moreover have "map fst ch = map f_name (map_columns fs ?v)"
      using both by (auto simp: list_all2_conv_all_nth intro: nth_equalityI)
    then have "fst ` set ch = set (map f_name (map_columns fs ?v))" by (metis list.set_map)
    then have "fold (\<lambda>(k, w). jm_set k w) ch es = fold (\<lambda>(k, w). jm_set k w) ch es'"
      by (intro agree_fold) (use assms(2) in simp)
    ultimately show ?thesis using False ch(2) cols by (simp add: sortMapsForSchema_def Let_def rich_entries_def)
  qed
qed

lemma map_order_immaterial_witness:
  "sortMapsForSchema sample_codec_host sample_fields (RObj [(''note'', RNull), (''tags'', RMap [(RStr ''a'', RStr ''1''), (RStr ''b'', RStr ''2'')])]) =
     Inr (RObj [(''note'', RNull), (''tags'', RArr [RArr [RStr ''a'', RStr ''1''], RArr [RStr ''b'', RStr ''2'']])])"
proof (rule map_order_immaterial)
  let ?built = "[(''note'', RNull), (''tags'', RObj [(''b'', RStr ''2''), (''a'', RStr ''1'')])]"
  show "sortMapsForSchema sample_codec_host sample_fields (RObj ?built) =
      Inr (RObj [(''note'', RNull), (''tags'', RArr [RArr [RStr ''a'', RStr ''1''], RArr [RStr ''b'', RStr ''2'']])])"
    by code_simp
  show "same_members sample_fields (RObj ?built) (RObj [(''note'', RNull), (''tags'', RMap [(RStr ''a'', RStr ''1''), (RStr ''b'', RStr ''2'')])])"
    by code_simp
  have "map_columns sample_fields (RObj ?built) = [sample_fields ! 1]" by code_simp
  then show "agree (set (map f_name (map_columns sample_fields (RObj ?built)))) ?built
      [(''note'', RNull), (''tags'', RMap [(RStr ''a'', RStr ''1''), (RStr ''b'', RStr ''2'')])]"
    by (simp add: agree_def sample_fields_def)
qed

section \<open>Zero values of structs\<close>

text \<open>A zero struct leaves its non-nullable members that are no containers \<open>undefined\<close>.\<close>

lemma zero_struct_incomplete:
  "zeroValue (TStruct [Field ''n'' TUtf8 False [] []]) = RObj [(''n'', RUndef)]"
  by code_simp

end
