(* ===== verification/Constraints.thy ===== *)
theory Constraints
  imports SqlGrammar ArrowTypes FilterEval Base64Codec
begin

text \<open>
  Canonical constraint records, \<open>src/catalog/constraints.ts\<close>, with the field classification of
  \<open>src/catalog/column-types.ts\<close> and the generated-column metadata of
  \<open>src/catalog/column-expressions.ts\<close> they lean on: building and reading a record, the selection of
  catalog capabilities, the checks at ATTACH, foreign-key targets, and the served nullability.  Records
  are coded row by row by the ASD codec over Arrow IPC, a parameter with one coder per row type.  The
  components of a path are strings: a NULL one, which the wire admits, is refused wherever paths are checked.
\<close>

section \<open>Fields as DuckDB classifies them\<close>

definition EXTENSION_KEY :: string where "EXTENSION_KEY = ''ARROW:extension:name''"
definition GENERATED_EXPRESSION_KEY :: string where "GENERATED_EXPRESSION_KEY = ''vgi.column.generated.v1''"
definition GENERATION_KEY :: string where "GENERATION_KEY = ''vgi.column.generation.v1''"

definition has_key :: "arrow_field \<Rightarrow> string \<Rightarrow> bool" where
  "has_key f k \<longleftrightarrow> k \<in> set (map fst (f_metadata f))"

definition isRowIdField :: "arrow_field \<Rightarrow> bool" where
  "isRowIdField f \<longleftrightarrow> has_key f ''is_row_id''"

definition hasLogicalType :: "arrow_field \<Rightarrow> bool" where
  "hasLogicalType f \<longleftrightarrow> list_ex (\<lambda>(k, _). k = EXTENSION_KEY \<or> starts_with k ''vgi.logical_type.'') (f_metadata f)"

definition ordinaryStructChildren :: "arrow_field \<Rightarrow> arrow_field list option" where
  "ordinaryStructChildren f = (case f_type f of
     TStruct fs \<Rightarrow> if hasLogicalType f then None else Some fs
   | _ \<Rightarrow> None)"

definition isGeneratedField :: "arrow_field \<Rightarrow> bool" where
  "isGeneratedField f \<longleftrightarrow> has_key f GENERATED_EXPRESSION_KEY \<or> has_key f GENERATION_KEY \<or> has_key f ''generated_expression''"

definition duckdbPrimitive :: "arrow_field \<Rightarrow> string option" where
  "duckdbPrimitive f = (if hasLogicalType f then None else case f_type f of
     TBool \<Rightarrow> Some ''BOOLEAN''
   | TUtf8 \<Rightarrow> Some ''VARCHAR''
   | TInt w sg \<Rightarrow> if \<not> sg then None
       else map_of [(8, ''TINYINT''), (16, ''SMALLINT''), (32, ''INTEGER''), (64, ''BIGINT'')] w
   | TFloat p \<Rightarrow> if p = 1 then Some ''FLOAT'' else if p = 2 then Some ''DOUBLE'' else None
   | TDecimal w _ _ \<Rightarrow> if w = 128 then Some ''DECIMAL'' else None
   | _ \<Rightarrow> None)"

section \<open>Rows and their coders\<close>

record object_ref =
  or_kind :: string
  or_schema_path :: "string list"
  or_name :: string
  or_owner_table :: "string option"

record eval_context =
  ec_timezone :: string
  ec_collation :: string
  ec_default_order :: string
  ec_default_null_order :: string
  ec_preserve_insertion_order :: bool

record sql_expression =
  se_sql :: string
  se_profile :: string
  se_schema_path :: "string list"
  se_evaluation_context :: eval_context

record foreign_key =
  fk_referenced_table :: bytes
  fk_referenced_column_paths :: "string list list"
  fk_match :: string
  fk_on_update :: string
  fk_on_delete :: string

record constraint_definition =
  cd_kind :: string
  cd_column_paths :: "string list list"
  cd_declared_name :: "string option"
  cd_check_expression :: "bytes option"
  cd_foreign_key :: "bytes option"

record constraint_info =
  ci_ref :: bytes
  ci_definition :: bytes
  ci_enforcement :: string
  ci_validation :: string
  ci_referenced_constraint :: "bytes option"

record 'row coder =
  encode :: "'row \<Rightarrow> bytes"
  decode :: "bytes \<Rightarrow> string + 'row"

record asd_codec =
  ref_coder :: "object_ref coder"
  expression_coder :: "sql_expression coder"
  foreign_coder :: "foreign_key coder"
  definition_coder :: "constraint_definition coder"
  info_coder :: "constraint_info coder"
  grammar :: host

datatype constraint_error =
    Refused string
  | Undecodable string
  | BadSql grammar_error

type_synonym 'a cresult = "constraint_error + 'a"

definition refuse :: "bool \<Rightarrow> string \<Rightarrow> unit cresult" where
  "refuse ok msg = ensure ok (Refused msg)"

definition decodeASD :: "'row coder \<Rightarrow> bytes \<Rightarrow> 'row cresult" where
  "decodeASD c bs = (case decode c bs of Inl e \<Rightarrow> Inl (Undecodable e) | Inr r \<Rightarrow> Inr r)"

definition check_sql :: "grammar_error + 'a \<Rightarrow> 'a cresult" where
  "check_sql r = (case r of Inl e \<Rightarrow> Inl (BadSql e) | Inr x \<Rightarrow> Inr x)"

section \<open>Building a record\<close>

definition CONSTRAINT_RECORDS_READ :: string where "CONSTRAINT_RECORDS_READ = ''vgi.constraint.records.read.v1''"
definition ROW_SCALAR_EXPRESSION :: string where "ROW_SCALAR_EXPRESSION = ''vgi.expression.duckdb.scalar.v1''"
definition CONSTRAINT_CREATE :: string where "CONSTRAINT_CREATE = ''vgi.constraint.create.v1''"
definition CONSTRAINT_MUTATE :: string where "CONSTRAINT_MUTATE = ''vgi.constraint.mutate.v1''"
definition CONSTRAINT_ENFORCE :: string where "CONSTRAINT_ENFORCE = ''vgi.constraint.enforce.v1''"
definition TRANSACTION_DDL :: string where "TRANSACTION_DDL = ''vgi.transaction.ddl.v1''"

record reference_spec =
  r_schemaPath :: "string list"
  r_table :: string
  r_columns :: "string list list"
  r_constraintId :: string

record constraint_spec =
  s_schemaPath :: "string list"
  s_table :: string
  s_id :: string
  s_kind :: string
  s_columns :: "string list list"
  s_enforcement :: string
  s_validation :: string
  s_declaredName :: "string option"
  s_checkSql :: "string option"
  s_references :: "reference_spec option"

definition CHECK_CONTEXT :: eval_context where
  "CHECK_CONTEXT = \<lparr>ec_timezone = ''UTC'', ec_collation = ''binary'', ec_default_order = ''asc'',
     ec_default_null_order = ''nulls_last'', ec_preserve_insertion_order = True\<rparr>"

definition check_identifier :: "string \<Rightarrow> unit cresult" where
  "check_identifier v = refuse (v \<noteq> [] \<and> CHR 0x00 \<notin> set v \<and> length (utf8 v) \<le> 4096) ''must be a nonempty identifier without NUL''"

definition objectRef :: "asd_codec \<Rightarrow> string \<Rightarrow> string list \<Rightarrow> string \<Rightarrow> string option \<Rightarrow> bytes" where
  "objectRef A kind schemaPath name ownerTable =
     encode (ref_coder A) \<lparr>or_kind = kind, or_schema_path = schemaPath, or_name = name, or_owner_table = ownerTable\<rparr>"

fun check_paths :: "bool \<Rightarrow> string list \<Rightarrow> string list list \<Rightarrow> unit cresult" where
  "check_paths topLevelOnly seen [] = Inr ()"
| "check_paths topLevelOnly seen (path # paths) =
     rbind (refuse (path \<noteq> [] \<and> length path \<le> 64) ''column path must have 1..64 components'') (\<lambda>_.
     rbind (refuse (topLevelOnly \<longrightarrow> length path = 1) ''nested column paths only for NOT_NULL'') (\<lambda>_.
     rbind (mapR check_identifier path) (\<lambda>_.
     rbind (refuse (json_string_array path \<notin> set seen) ''duplicate column path'') (\<lambda>_.
     check_paths topLevelOnly (json_string_array path # seen) paths))))"

definition checkPaths :: "string list list \<Rightarrow> bool \<Rightarrow> unit cresult" where
  "checkPaths paths topLevelOnly =
     rbind (refuse (length paths \<le> 1024) ''too many column paths'') (\<lambda>_. check_paths topLevelOnly [] paths)"

definition optionally :: "'a option \<Rightarrow> ('a \<Rightarrow> unit cresult) \<Rightarrow> unit cresult" where
  "optionally x f = (case x of None \<Rightarrow> Inr () | Some y \<Rightarrow> f y)"

definition check_reference :: "constraint_spec \<Rightarrow> reference_spec \<Rightarrow> unit cresult" where
  "check_reference spec ref =
     rbind (refuse (length (r_columns ref) = length (s_columns spec)) ''foreign key local and referenced arity must match'') (\<lambda>_.
     rbind (refuse (json_string_array (r_schemaPath ref) = json_string_array (s_schemaPath spec)) ''only foreign keys to a table in the same schema'') (\<lambda>_.
     rbind (check_identifier (r_table ref)) (\<lambda>_.
     rbind (check_identifier (r_constraintId ref)) (\<lambda>_.
     checkPaths (r_columns ref) True))))"

definition check_spec :: "asd_codec \<Rightarrow> constraint_spec \<Rightarrow> unit cresult" where
  "check_spec A spec =
     rbind (refuse (s_id spec \<noteq> [] \<and> CHR 0x00 \<notin> set (s_id spec)) ''constraint id must be nonempty without NUL'') (\<lambda>_.
     rbind (check_identifier (s_table spec)) (\<lambda>_.
     rbind (refuse (length (s_schemaPath spec) = 1) ''only one-component schema paths'') (\<lambda>_.
     rbind (check_identifier (hd (s_schemaPath spec))) (\<lambda>_.
     rbind (refuse (s_enforcement spec = ''ENFORCED'' \<and> s_validation spec = ''ALL_ROWS'') ''only ENFORCED + ALL_ROWS records'') (\<lambda>_.
     rbind (optionally (s_declaredName spec) check_identifier) (\<lambda>_.
     rbind (refuse ((s_kind spec = ''CHECK'') = (s_checkSql spec \<noteq> None)) ''checkSql is required for CHECK and only CHECK'') (\<lambda>_.
     rbind (refuse (if s_kind spec = ''CHECK'' then s_columns spec = [] else s_columns spec \<noteq> []) ''requires column paths'') (\<lambda>_.
     rbind (refuse (s_kind spec = ''NOT_NULL'' \<longrightarrow> length (s_columns spec) = 1) ''NOT_NULL requires exactly one column path'') (\<lambda>_.
     rbind (refuse ((s_kind spec = ''FOREIGN_KEY'') = (s_references spec \<noteq> None)) ''references is required for FOREIGN_KEY and only FOREIGN_KEY'') (\<lambda>_.
     rbind (checkPaths (s_columns spec) (s_kind spec \<noteq> ''NOT_NULL'')) (\<lambda>_.
     rbind (optionally (s_checkSql spec) (\<lambda>sql. check_sql (validateNumericCheckSql (grammar A) sql (\<lambda>_. Inr ())))) (\<lambda>_.
     optionally (s_references spec) (check_reference spec)))))))))))))"

definition constraintRecord :: "asd_codec \<Rightarrow> constraint_spec \<Rightarrow> bytes cresult" where
  "constraintRecord A spec = rbind (check_spec A spec) (\<lambda>_. Inr (
     let check = map_option (\<lambda>sql. encode (expression_coder A) \<lparr>se_sql = sql, se_profile = ROW_SCALAR_EXPRESSION,
           se_schema_path = s_schemaPath spec, se_evaluation_context = CHECK_CONTEXT\<rparr>) (s_checkSql spec);
         foreign = map_option (\<lambda>ref. encode (foreign_coder A) \<lparr>
           fk_referenced_table = objectRef A ''table'' (r_schemaPath ref) (r_table ref) None,
           fk_referenced_column_paths = r_columns ref, fk_match = ''SIMPLE'', fk_on_update = ''NO_ACTION'', fk_on_delete = ''NO_ACTION''\<rparr>) (s_references spec) in
     encode (info_coder A) \<lparr>
       ci_ref = objectRef A ''constraint'' (s_schemaPath spec) (s_id spec) (Some (s_table spec)),
       ci_definition = encode (definition_coder A) \<lparr>cd_kind = s_kind spec, cd_column_paths = s_columns spec,
         cd_declared_name = s_declaredName spec, cd_check_expression = check, cd_foreign_key = foreign\<rparr>,
       ci_enforcement = s_enforcement spec, ci_validation = s_validation spec,
       ci_referenced_constraint = map_option (\<lambda>ref. objectRef A ''constraint'' (r_schemaPath ref) (r_constraintId ref) (Some (r_table ref))) (s_references spec)\<rparr>))"

section \<open>Reading a record\<close>

record reference_view =
  rv_schemaPath :: "string list"
  rv_table :: string
  rv_columns :: "string list list"
  rv_constraintId :: "string option"
  rv_constraintTable :: "string option"
  rv_constraintSchemaPath :: "string list option"
  rv_match :: string
  rv_onUpdate :: string
  rv_onDelete :: string

record constraint_view =
  v_schemaPath :: "string list"
  v_table :: string
  v_id :: string
  v_kind :: string
  v_columns :: "string list list"
  v_enforcement :: string
  v_validation :: string
  v_declaredName :: "string option"
  v_checkSql :: "string option"
  v_references :: "reference_view option"

definition decode_optional :: "'row coder \<Rightarrow> bytes option \<Rightarrow> 'row option cresult" where
  "decode_optional c bs = (case bs of None \<Rightarrow> Inr None | Some b \<Rightarrow> rbind (decodeASD c b) (\<lambda>r. Inr (Some r)))"

definition readConstraintRecord :: "asd_codec \<Rightarrow> bytes \<Rightarrow> constraint_view cresult" where
  "readConstraintRecord A bs =
     rbind (decodeASD (info_coder A) bs) (\<lambda>info.
     rbind (decodeASD (ref_coder A) (ci_ref info)) (\<lambda>ref.
     rbind (decodeASD (definition_coder A) (ci_definition info)) (\<lambda>def.
     rbind (decode_optional (foreign_coder A) (cd_foreign_key def)) (\<lambda>fk.
     rbind (decode_optional (ref_coder A) (map_option fk_referenced_table fk)) (\<lambda>target.
     rbind (decode_optional (ref_coder A) (ci_referenced_constraint info)) (\<lambda>targetKey.
     rbind (decode_optional (expression_coder A) (cd_check_expression def)) (\<lambda>check.
     Inr \<lparr>v_schemaPath = or_schema_path ref, v_table = (case or_owner_table ref of Some t \<Rightarrow> t | None \<Rightarrow> []), v_id = or_name ref,
       v_kind = cd_kind def, v_columns = cd_column_paths def, v_enforcement = ci_enforcement info, v_validation = ci_validation info,
       v_declaredName = cd_declared_name def, v_checkSql = map_option se_sql check,
       v_references = (case (fk, target) of
         (Some fk, Some target) \<Rightarrow> Some \<lparr>rv_schemaPath = or_schema_path target, rv_table = or_name target,
           rv_columns = fk_referenced_column_paths fk, rv_constraintId = map_option or_name targetKey,
           rv_constraintTable = Option.bind targetKey or_owner_table, rv_constraintSchemaPath = map_option or_schema_path targetKey,
           rv_match = fk_match fk, rv_onUpdate = fk_on_update fk, rv_onDelete = fk_on_delete fk\<rparr>
       | _ \<Rightarrow> None)\<rparr>)))))))"

section \<open>Capabilities\<close>

record capabilities =
  cap_read :: "string list"
  cap_ddl :: "string list"
  cap_write :: "string list"
  cap_transaction :: "string list"

definition REQUIRES :: "string \<Rightarrow> string list" where
  "REQUIRES p = (case map_of
     [(ROW_SCALAR_EXPRESSION, [CONSTRAINT_RECORDS_READ]),
      (CONSTRAINT_CREATE, [CONSTRAINT_RECORDS_READ, CONSTRAINT_ENFORCE]),
      (CONSTRAINT_MUTATE, [CONSTRAINT_RECORDS_READ]),
      (CONSTRAINT_ENFORCE, [CONSTRAINT_RECORDS_READ]),
      (''vgi.index.definition.create.v1'', [''vgi.index.definition.read.v1'']),
      (''vgi.index.drop.v1'', [''vgi.index.definition.read.v1''])] p of Some rs \<Rightarrow> rs | None \<Rightarrow> [])"

text \<open>\<open>[...new Set(ps)].sort()\<close>.\<close>

definition sorted_set :: "string list \<Rightarrow> string list" where
  "sorted_set ps = sort_by str_le (remdups ps)"

definition catalogCapabilities :: "capabilities \<Rightarrow> capabilities" where
  "catalogCapabilities c = \<lparr>cap_read = sorted_set (cap_read c), cap_ddl = sorted_set (cap_ddl c),
     cap_write = sorted_set (cap_write c), cap_transaction = sorted_set (cap_transaction c)\<rparr>"

definition no_capabilities :: capabilities where
  "no_capabilities = \<lparr>cap_read = [], cap_ddl = [], cap_write = [], cap_transaction = []\<rparr>"

record constraint_options =
  opt_create :: bool
  opt_mutate :: bool
  opt_enforce :: bool
  opt_transactionDdl :: bool

definition when_set :: "bool \<Rightarrow> string \<Rightarrow> string list" where
  "when_set b p = (if b then [p] else [])"

definition constraintCapabilities :: "constraint_options \<Rightarrow> capabilities" where
  "constraintCapabilities opts = catalogCapabilities \<lparr>
     cap_read = [CONSTRAINT_RECORDS_READ, ROW_SCALAR_EXPRESSION],
     cap_ddl = when_set (opt_create opts) CONSTRAINT_CREATE @ when_set (opt_mutate opts) CONSTRAINT_MUTATE,
     cap_write = when_set (opt_enforce opts \<or> opt_create opts) CONSTRAINT_ENFORCE,
     cap_transaction = when_set (opt_transactionDdl opts) TRANSACTION_DDL\<rparr>"

text \<open>One pass over the chosen profiles, dropping each whose prerequisites are not all chosen any more.\<close>

definition drop_unmet :: "string \<Rightarrow> string list \<Rightarrow> string list" where
  "drop_unmet p chosen = (if list_ex (\<lambda>r. r \<notin> set chosen) (REQUIRES p) then filter (\<lambda>q. q \<noteq> p) chosen else chosen)"

definition drop_pass :: "string list \<Rightarrow> string list" where
  "drop_pass chosen = fold drop_unmet chosen chosen"

lemma drop_unmet_shrinks: "set (drop_unmet p chosen) \<subseteq> set chosen" "length (drop_unmet p chosen) \<le> length chosen"
  by (auto simp: drop_unmet_def)

lemma drop_fold_shrinks: "length (fold drop_unmet ps chosen) \<le> length chosen"
proof (induction ps arbitrary: chosen)
  case (Cons p ps)
  from Cons [of "drop_unmet p chosen"] drop_unmet_shrinks(2) [of p chosen] show ?case by simp
qed simp

function drop_loop :: "string list \<Rightarrow> string list" where
  "drop_loop chosen = (let next_chosen = drop_pass chosen in
     if length next_chosen = length chosen then chosen else drop_loop next_chosen)"
  by auto
termination
proof (relation "measure length")
  fix chosen x assume "x = drop_pass chosen" "length x \<noteq> length chosen"
  then show "(x, chosen) \<in> measure length"
    using drop_fold_shrinks [of chosen chosen] by (simp add: drop_pass_def)
qed simp

declare drop_loop.simps [simp del]

definition offered_of :: "string list \<Rightarrow> string list \<Rightarrow> string list" where
  "offered_of available offered = filter (\<lambda>p. p \<in> set offered) available"

definition candidate_profiles :: "capabilities \<Rightarrow> capabilities \<Rightarrow> bool \<Rightarrow> string list" where
  "candidate_profiles available offered supportsTransactions =
     filter (\<lambda>p. supportsTransactions \<or> p \<noteq> TRANSACTION_DDL) (remdups
       (offered_of (cap_read available) (cap_read offered) @ offered_of (cap_ddl available) (cap_ddl offered) @
        offered_of (cap_write available) (cap_write offered) @ offered_of (cap_transaction available) (cap_transaction offered)))"

definition selectCatalogCapabilities :: "capabilities \<Rightarrow> capabilities option \<Rightarrow> bool \<Rightarrow> capabilities" where
  "selectCatalogCapabilities available offered supportsTransactions = (case offered of
     None \<Rightarrow> no_capabilities
   | Some offered \<Rightarrow>
       let chosen = drop_loop (candidate_profiles available offered supportsTransactions) in
       catalogCapabilities \<lparr>cap_read = filter (\<lambda>p. p \<in> set chosen) (cap_read available), cap_ddl = filter (\<lambda>p. p \<in> set chosen) (cap_ddl available),
         cap_write = filter (\<lambda>p. p \<in> set chosen) (cap_write available),
         cap_transaction = filter (\<lambda>p. p \<in> set chosen) (cap_transaction available)\<rparr>)"

definition selectReadProfiles :: "string list \<Rightarrow> capabilities option \<Rightarrow> string list" where
  "selectReadProfiles available offered = cap_read (selectCatalogCapabilities (catalogCapabilities (no_capabilities\<lparr>cap_read := available\<rparr>)) offered False)"

definition capabilitiesEmpty :: "capabilities option \<Rightarrow> bool" where
  "capabilitiesEmpty caps = (case caps of None \<Rightarrow> True
     | Some c \<Rightarrow> cap_read c = [] \<and> cap_ddl c = [] \<and> cap_write c = [] \<and> cap_transaction c = [])"

section \<open>The checks at ATTACH\<close>

definition fieldsByExactName :: "arrow_field list \<Rightarrow> string \<Rightarrow> nat list" where
  "fieldsByExactName cols name = filter (\<lambda>i. f_name (cols ! i) = name) [0..<length cols]"

definition row_id_of :: "arrow_field list \<Rightarrow> nat option cresult" where
  "row_id_of cols = (case filter (\<lambda>i. isRowIdField (cols ! i)) [0..<length cols] of
     [] \<Rightarrow> Inr None | [i] \<Rightarrow> Inr (Some i) | _ \<Rightarrow> Inl (Refused ''at most one column may carry is_row_id''))"

definition resolveTop :: "arrow_field list \<Rightarrow> nat option \<Rightarrow> string list \<Rightarrow> nat cresult" where
  "resolveTop cols rowId path = (case fieldsByExactName cols (hd path) of
     [i] \<Rightarrow> if rowId = Some i then Inl (Refused ''column path names a row-id column'') else Inr i
   | _ \<Rightarrow> Inl (Refused ''column path names a missing or ambiguous column''))"

text \<open>The walk of a NOT_NULL path below its top-level column.\<close>

fun resolve_nested :: "arrow_field \<Rightarrow> string list \<Rightarrow> arrow_field cresult" where
  "resolve_nested f [] = Inr f"
| "resolve_nested f (part # rest) = (case ordinaryStructChildren f of
     None \<Rightarrow> Inl (Refused ''column path must traverse ordinary STRUCT fields'')
   | Some children \<Rightarrow> (case fieldsByExactName children part of
       [i] \<Rightarrow> resolve_nested (children ! i) rest
     | _ \<Rightarrow> Inl (Refused ''column path names a missing or ambiguous nested field'')))"

definition NUMERIC_TYPES :: "string list" where
  "NUMERIC_TYPES = [''TINYINT'', ''SMALLINT'', ''INTEGER'', ''BIGINT'', ''FLOAT'', ''DOUBLE'']"

definition check_column :: "arrow_field list \<Rightarrow> nat option \<Rightarrow> string \<Rightarrow> grammar_error + unit" where
  "check_column cols rowId name =
     (case filter (\<lambda>i. to_lower (f_name (cols ! i)) = to_lower name) [0..<length cols] of
        [] \<Rightarrow> fail ''CHECK references a missing or row-id column''
      | [i] \<Rightarrow> if rowId = Some i then fail ''CHECK references a missing or row-id column''
          else if has_key (cols ! i) EXTENSION_KEY then fail ''CHECK operand has an extension type''
          else if isGeneratedField (cols ! i) then fail ''CHECK operand is a generated column''
          else (case duckdbPrimitive (cols ! i) of
              Some t \<Rightarrow> if t \<in> set NUMERIC_TYPES then Inr () else fail ''CHECK requires primitive signed numeric columns''
            | None \<Rightarrow> fail ''CHECK requires primitive signed numeric columns'')
      | _ \<Rightarrow> fail ''ambiguous CHECK column reference'')"

definition decode_present :: "'row coder \<Rightarrow> bytes option \<Rightarrow> 'row cresult" where
  "decode_present c bs = (case bs of Some b \<Rightarrow> decodeASD c b | None \<Rightarrow> Inl (Undecodable ''null''))"

definition validateCheckRecord :: "asd_codec \<Rightarrow> bytes \<Rightarrow> string list \<Rightarrow> arrow_field list \<Rightarrow> nat option \<Rightarrow> unit cresult" where
  "validateCheckRecord A bs schemaPath cols rowId =
     rbind (decodeASD (info_coder A) bs) (\<lambda>info.
     rbind (decodeASD (definition_coder A) (ci_definition info)) (\<lambda>def.
     rbind (decode_present (expression_coder A) (cd_check_expression def)) (\<lambda>expression.
     rbind (refuse (se_profile expression = ROW_SCALAR_EXPRESSION) ''unsupported CHECK expression profile'') (\<lambda>_.
     rbind (refuse (json_string_array (se_schema_path expression) = json_string_array schemaPath) ''CHECK expression belongs to another schema'') (\<lambda>_.
     rbind (refuse (se_evaluation_context expression = CHECK_CONTEXT) ''unsupported CHECK evaluation context'') (\<lambda>_.
     check_sql (validateNumericCheckSql (grammar A) (se_sql expression) (check_column cols rowId))))))))"

record attach_state =
  at_required :: "string list"
  at_ids :: "string list"
  at_labels :: "string list"
  at_primaryKeys :: nat

definition check_foreign :: "string list \<Rightarrow> constraint_view \<Rightarrow> unit cresult" where
  "check_foreign schemaPath record = (case v_references record of
     None \<Rightarrow> Inl (Refused ''FOREIGN_KEY requires a referenced table and referenced constraint'')
   | Some ref \<Rightarrow>
       rbind (refuse (rv_constraintId ref \<noteq> None) ''FOREIGN_KEY requires a referenced table and referenced constraint'') (\<lambda>_.
       rbind (refuse (length (rv_schemaPath ref) = 1 \<and> hd (rv_schemaPath ref) = hd schemaPath \<and>
           (case rv_constraintSchemaPath ref of Some p \<Rightarrow> json_string_array p = json_string_array (rv_schemaPath ref) | None \<Rightarrow> False) \<and>
           rv_constraintTable ref = Some (rv_table ref)) ''only foreign keys to an identified key of a table in the same schema'') (\<lambda>_.
       rbind (refuse (length (rv_columns ref) = length (v_columns record)) ''foreign key arity mismatch'') (\<lambda>_.
       rbind (checkPaths (rv_columns ref) True) (\<lambda>_.
       rbind (refuse (rv_match ref = ''SIMPLE'') ''only MATCH SIMPLE'') (\<lambda>_.
       refuse (list_all (\<lambda>a. a = ''NO_ACTION'' \<or> a = ''RESTRICT'') [rv_onUpdate ref, rv_onDelete ref]) ''only NO_ACTION or RESTRICT''))))))"

definition check_kind ::
  "asd_codec \<Rightarrow> string list \<Rightarrow> arrow_field list \<Rightarrow> nat option \<Rightarrow> bytes \<Rightarrow> constraint_view \<Rightarrow> attach_state \<Rightarrow> attach_state cresult" where
  "check_kind A schemaPath cols rowId bs record st =
     (let kind = v_kind record in
      if kind = ''CHECK'' then
        rbind (refuse (v_checkSql record \<noteq> None) ''CHECK without an expression'') (\<lambda>_.
        rbind (validateCheckRecord A bs schemaPath cols rowId) (\<lambda>_. Inr st))
      else if kind = ''NOT_NULL'' then
        rbind (refuse (length (v_columns record) = 1) ''NOT_NULL requires exactly one column path'') (\<lambda>_.
        let path = hd (v_columns record) in
        rbind (resolveTop cols rowId path) (\<lambda>i.
        rbind (resolve_nested (cols ! i) (tl path)) (\<lambda>f.
        rbind (refuse (\<not> (length path = 1 \<and> isGeneratedField f)) ''a generated column, which DuckDB requires to be nullable'') (\<lambda>_.
        Inr (st\<lparr>at_required := json_string_array path # at_required st\<rparr>)))))
      else if kind = ''PRIMARY_KEY'' \<or> kind = ''UNIQUE'' then
        rbind (mapR (\<lambda>path. rbind (resolveTop cols rowId path) (\<lambda>i.
          refuse (\<not> (kind = ''PRIMARY_KEY'' \<and> isGeneratedField (cols ! i))) ''PRIMARY KEY column is a generated column'')) (v_columns record)) (\<lambda>_.
        if kind = ''PRIMARY_KEY'' then
          rbind (refuse (at_primaryKeys st = 0) ''a table may have only one PRIMARY KEY'') (\<lambda>_.
          Inr (st\<lparr>at_primaryKeys := at_primaryKeys st + 1, at_required := map json_string_array (v_columns record) @ at_required st\<rparr>))
        else Inr st)
      else if kind = ''FOREIGN_KEY'' then
        rbind (mapR (resolveTop cols rowId) (v_columns record)) (\<lambda>_.
        rbind (check_foreign schemaPath record) (\<lambda>_. Inr st))
      else Inl (Refused ''unknown constraint kind''))"

definition check_record ::
  "asd_codec \<Rightarrow> string \<Rightarrow> string list \<Rightarrow> arrow_field list \<Rightarrow> nat option \<Rightarrow> bytes \<Rightarrow> attach_state \<Rightarrow> (constraint_view \<times> attach_state) cresult" where
  "check_record A table schemaPath cols rowId bs st =
     rbind (readConstraintRecord A bs) (\<lambda>record.
     rbind (refuse (length schemaPath = 1 \<and> length (v_schemaPath record) = 1 \<and> hd (v_schemaPath record) = hd schemaPath \<and> v_table record = table)
       ''belongs to another table'') (\<lambda>_.
     rbind (refuse (v_id record \<notin> set (at_ids st)) ''duplicate constraint id'') (\<lambda>_.
     let st = st\<lparr>at_ids := v_id record # at_ids st\<rparr> in
     rbind (case v_declaredName record of None \<Rightarrow> Inr st
       | Some name \<Rightarrow> rbind (refuse (to_lower name \<notin> set (at_labels st)) ''duplicate declared name'') (\<lambda>_.
           Inr (st\<lparr>at_labels := to_lower name # at_labels st\<rparr>))) (\<lambda>st.
     rbind (refuse (v_enforcement record = ''ENFORCED'' \<and> v_validation record = ''ALL_ROWS'') ''only ENFORCED + ALL_ROWS records'') (\<lambda>_.
     rbind (checkPaths (v_columns record) (v_kind record \<noteq> ''NOT_NULL'')) (\<lambda>_.
     rbind (check_kind A schemaPath cols rowId bs record st) (\<lambda>st. Inr (record, st))))))))"

fun check_records ::
  "asd_codec \<Rightarrow> string \<Rightarrow> string list \<Rightarrow> arrow_field list \<Rightarrow> nat option \<Rightarrow> bytes list \<Rightarrow> attach_state \<Rightarrow> (constraint_view list \<times> attach_state) cresult" where
  "check_records A table schemaPath cols rowId [] st = Inr ([], st)"
| "check_records A table schemaPath cols rowId (bs # rest) st =
     rbind (check_record A table schemaPath cols rowId bs st) (\<lambda>(record, st).
     rbind (check_records A table schemaPath cols rowId rest st) (\<lambda>(records, st). Inr (record # records, st)))"

definition validateTableConstraints ::
  "asd_codec \<Rightarrow> string \<Rightarrow> string list \<Rightarrow> arrow_field list \<Rightarrow> bytes list \<Rightarrow> (constraint_view list \<times> string list) cresult" where
  "validateTableConstraints A table schemaPath cols constraints =
     rbind (refuse (length constraints \<le> 1024) ''too many constraints (at most 1024)'') (\<lambda>_.
     rbind (row_id_of cols) (\<lambda>rowId.
     rbind (check_records A table schemaPath cols rowId constraints
         \<lparr>at_required = [], at_ids = [], at_labels = [], at_primaryKeys = 0\<rparr>) (\<lambda>(records, st).
     Inr (records, at_required st))))"

section \<open>Foreign keys across tables\<close>

record constraint_table =
  ct_schemaPath :: "string list"
  ct_name :: string
  ct_constraints :: "bytes list"

definition table_key :: "string list \<Rightarrow> string \<Rightarrow> string" where
  "table_key schemaPath name = json_string_array (schemaPath @ [name])"

definition key_matches :: "reference_view \<Rightarrow> constraint_view option \<Rightarrow> bool" where
  "key_matches ref key = (case key of None \<Rightarrow> False | Some k \<Rightarrow>
     let want = map json_string_array (rv_columns ref) in
     length (v_columns k) = card (set want) \<and> list_all (\<lambda>p. json_string_array p \<in> set want) (v_columns k))"

definition check_target :: "(string, constraint_view list) jsmap \<Rightarrow> constraint_view \<Rightarrow> unit cresult" where
  "check_target byTable record = (if v_kind record \<noteq> ''FOREIGN_KEY'' then Inr () else case v_references record of
     None \<Rightarrow> Inr ()
   | Some ref \<Rightarrow> (case jm_get byTable (table_key (rv_schemaPath ref) (rv_table ref)) of
       None \<Rightarrow> Inl (Refused ''references a table this catalog does not serve'')
     | Some target \<Rightarrow>
         let key = find (\<lambda>r. Some (v_id r) = rv_constraintId ref) target in
         rbind (refuse (case key of Some k \<Rightarrow> v_kind k = ''PRIMARY_KEY'' \<or> v_kind k = ''UNIQUE'' | None \<Rightarrow> False)
           ''referenced constraint is not a PRIMARY_KEY or UNIQUE record'') (\<lambda>_.
         refuse (key_matches ref key) ''referenced columns do not match'')))"

definition validateForeignKeyTargets :: "asd_codec \<Rightarrow> constraint_table list \<Rightarrow> unit cresult" where
  "validateForeignKeyTargets A tables =
     rbind (mapR (\<lambda>t. rbind (mapR (readConstraintRecord A) (ct_constraints t)) (\<lambda>rs. Inr (table_key (ct_schemaPath t) (ct_name t), rs))) tables) (\<lambda>entries.
     let byTable = jm_of entries in
     rbind (mapR (\<lambda>t. mapR (check_target byTable) (case jm_get byTable (table_key (ct_schemaPath t) (ct_name t)) of Some rs \<Rightarrow> rs | None \<Rightarrow> [])) tables)
       (\<lambda>_. Inr ()))"

section \<open>Served nullability\<close>

text \<open>
  A field is rebuilt where its nullability or its children change; the rebuilt \<open>STRUCT\<close> type carries no
  extension name.
\<close>

fun rewrite_field :: "string list \<Rightarrow> string list \<Rightarrow> arrow_field \<Rightarrow> arrow_field" where
  "rewrite_field required prefix (Field n t nl md ex) =
     (if prefix = [] \<and> isRowIdField (Field n t nl md ex) then Field n t nl md ex
      else let path = prefix @ [n]; null_ok = json_string_array path \<notin> set required in
      case t of
        TStruct fs \<Rightarrow> if hasLogicalType (Field n t nl md ex) then Field n t null_ok md ex
          else let fs' = map (rewrite_field required path) fs in Field n (TStruct fs') null_ok md (if fs' = fs then ex else [])
      | _ \<Rightarrow> Field n t null_ok md ex)"

declare rewrite_field.simps [simp del]

definition servedConstraintFields :: "arrow_field list \<Rightarrow> string list \<Rightarrow> arrow_field list" where
  "servedConstraintFields cols required = map (rewrite_field required []) cols"

section \<open>Generated columns\<close>

definition js_space :: "char \<Rightarrow> bool" where
  "js_space c = (let n = of_char c :: nat in n = 32 \<or> 9 \<le> n \<and> n \<le> 13 \<or> n = 160)"

definition check_text :: "nat \<Rightarrow> string \<Rightarrow> unit cresult" where
  "check_text maximum v = refuse (v \<noteq> [] \<and> CHR 0x00 \<notin> set v \<and> length (utf8 v) \<le> maximum) ''invalid generated expression text''"

definition NULL_ORDERS :: "string list" where
  "NULL_ORDERS = [''nulls_first'', ''nulls_last'', ''nulls_first_on_asc_last_on_desc'', ''nulls_last_on_asc_first_on_desc'']"

definition check_expression :: "sql_expression \<Rightarrow> string list \<Rightarrow> unit cresult" where
  "check_expression value owner =
     rbind (check_text (1024 * 1024) (se_sql value)) (\<lambda>_.
     rbind (refuse (list_ex (\<lambda>c. \<not> js_space c) (se_sql value) \<and> se_profile value = ROW_SCALAR_EXPRESSION)
       ''unsupported generated expression profile or empty SQL'') (\<lambda>_.
     rbind (refuse (length (se_schema_path value) \<le> 32) ''invalid generated expression owner'') (\<lambda>_.
     rbind (mapR (check_text 4096) (se_schema_path value)) (\<lambda>_.
     rbind (refuse (json_string_array (se_schema_path value) = json_string_array owner) ''generated expression owner differs from table schema'') (\<lambda>_.
     let context = se_evaluation_context value in
     rbind (check_text 256 (ec_timezone context)) (\<lambda>_.
     rbind (check_text 256 (ec_collation context)) (\<lambda>_.
     refuse (ec_default_order context \<in> set [''asc'', ''desc''] \<and> ec_default_null_order context \<in> set NULL_ORDERS)
       ''invalid generated expression evaluation context'')))))))"

definition sqlExpression :: "string \<Rightarrow> string list \<Rightarrow> sql_expression cresult" where
  "sqlExpression sql schemaPath =
     (let value = \<lparr>se_sql = sql, se_profile = ROW_SCALAR_EXPRESSION, se_schema_path = schemaPath, se_evaluation_context = CHECK_CONTEXT\<rparr> in
      rbind (check_expression value schemaPath) (\<lambda>_. Inr value))"

definition expressionMetadata :: "asd_codec \<Rightarrow> expression_scope \<Rightarrow> string \<Rightarrow> string list \<Rightarrow> string cresult" where
  "expressionMetadata A sc sql owner =
     rbind (check_sql (validateColumnExpressionSql (grammar A) sc sql)) (\<lambda>_.
     rbind (sqlExpression sql owner) (\<lambda>e. Inr (b64_encode (encode (expression_coder A) e))))"

definition generatedExpressionMetadata :: "asd_codec \<Rightarrow> string \<Rightarrow> string list \<Rightarrow> string cresult" where
  "generatedExpressionMetadata A = expressionMetadata A \<lparr>usingColumns = True, generated = True\<rparr>"

definition defaultExpressionMetadata :: "asd_codec \<Rightarrow> string \<Rightarrow> string list \<Rightarrow> string cresult" where
  "defaultExpressionMetadata A = expressionMetadata A \<lparr>usingColumns = False, generated = False\<rparr>"

definition translate_field :: "asd_codec \<Rightarrow> string list \<Rightarrow> arrow_field \<Rightarrow> arrow_field cresult" where
  "translate_field A owner f = (case jm_get (f_metadata f) ''generated_expression'' of
     None \<Rightarrow> Inr f
   | Some sql \<Rightarrow>
       rbind (refuse (\<not> has_key f GENERATED_EXPRESSION_KEY \<and> \<not> has_key f GENERATION_KEY)
         ''carries both legacy generated_expression and canonical generated metadata'') (\<lambda>_.
       rbind (generatedExpressionMetadata A sql owner) (\<lambda>m.
       Inr (Field (f_name f) (f_type f) (f_nullable f)
         (jm_set GENERATION_KEY ''virtual'' (jm_set GENERATED_EXPRESSION_KEY m (jm_del ''generated_expression'' (f_metadata f)))) (f_ext f)))))"

definition translateLegacyGenerated :: "asd_codec \<Rightarrow> string list \<Rightarrow> arrow_field list \<Rightarrow> arrow_field list cresult" where
  "translateLegacyGenerated A owner cols = mapR (translate_field A owner) cols"

definition servedTableSchema :: "asd_codec \<Rightarrow> string \<Rightarrow> string list \<Rightarrow> arrow_field list \<Rightarrow> bytes list \<Rightarrow> arrow_field list cresult" where
  "servedTableSchema A table schemaPath cols constraints =
     rbind (translateLegacyGenerated A schemaPath cols) (\<lambda>cols.
     rbind (validateTableConstraints A table schemaPath cols constraints) (\<lambda>(_, required).
     Inr (servedConstraintFields cols required)))"

record table_info =
  ti_name :: string
  ti_schema_path :: "string list"
  ti_columns :: "bytes option"
  ti_constraints :: "bytes list"

text \<open>The original column bytes are kept when nothing changes.\<close>

definition servedTableInfo :: "asd_codec \<Rightarrow> arrow_field list coder \<Rightarrow> table_info \<Rightarrow> table_info cresult" where
  "servedTableInfo A schema_coder info = (case ti_columns info of
     Some (c # cs) \<Rightarrow>
       rbind (decodeASD schema_coder (c # cs)) (\<lambda>cols.
       rbind (servedTableSchema A (ti_name info) (ti_schema_path info) cols (ti_constraints info)) (\<lambda>served.
       Inr (if served = cols then info else info\<lparr>ti_columns := Some (encode schema_coder served)\<rparr>)))
   | _ \<Rightarrow> rbind (refuse (ti_constraints info = []) ''constraints on a table without columns'') (\<lambda>_. Inr info))"

definition validateConstraintNullability :: "asd_codec \<Rightarrow> string \<Rightarrow> arrow_field list \<Rightarrow> bytes list \<Rightarrow> unit cresult" where
  "validateConstraintNullability A table cols constraints =
     rbind (case constraints of [] \<Rightarrow> Inr [''main''] | c # _ \<Rightarrow> rbind (readConstraintRecord A c) (\<lambda>r. Inr (v_schemaPath r))) (\<lambda>schemaPath.
     rbind (validateTableConstraints A table schemaPath cols constraints) (\<lambda>_. Inr ()))"

end
