(* ===== verification/ConstraintLaws.thy ===== *)
theory ConstraintLaws
  imports Constraints Arguments
begin

text \<open>
  What \<open>Constraints\<close> promises: a record reads back as it was declared, the profiles selected are the
  greatest choice closed under their prerequisites, and a served schema is non-null exactly where the
  records of its table say so.
\<close>

section \<open>Path keys\<close>

definition unhex :: "char \<Rightarrow> nat" where
  "unhex c = (if of_char c < (58 :: nat) then of_char c - 48 else of_char c - 87)"

fun read_json_char :: "string \<Rightarrow> (char \<times> string) option" where
  "read_json_char [] = None"
| "read_json_char (c # s) = (if c = CHR 0x22 then None else if c \<noteq> CHR 0x5C then Some (c, s) else
     (case s of [] \<Rightarrow> None
      | e # s' \<Rightarrow> if e = CHR ''u'' then (case s' of _ # _ # h # l # s'' \<Rightarrow> Some (char_of (16 * unhex h + unhex l), s'') | _ \<Rightarrow> None)
          else map_option (\<lambda>n. (char_of n, s')) (map_of [(CHR 0x22, 34), (CHR 0x5C, 92), (CHR ''b'', 8 :: nat),
            (CHR ''t'', 9), (CHR ''n'', 10), (CHR ''f'', 12), (CHR ''r'', 13)] e)))"

lemma unhex_digit: "n < 16 \<Longrightarrow> unhex (hex_digit n) = n"
  by (auto simp: unhex_def hex_digit_def)

lemma read_json_quote: "read_json_char (json_quote_char c @ s) = Some (c, s)"
proof -
  define n where "n = (of_char c :: nat)"
  have c: "c = char_of n" by (simp add: n_def)
  consider "n \<in> {34, 92, 8, 9, 10, 12, 13}" | "n \<notin> {34, 92, 8, 9, 10, 12, 13}" "n < 32" | "n \<notin> {34, 92, 8, 9, 10, 12, 13}" "\<not> n < 32" by blast
  then show ?thesis
  proof cases
    case 1
    then show ?thesis by (auto simp: json_quote_char_def c)
  next
    case 2
    then show ?thesis by (simp add: json_quote_char_def n_def [symmetric] unhex_digit c [symmetric])
  next
    case 3
    have "c \<noteq> CHR 0x22" "c \<noteq> CHR 0x5C" using 3 by (auto simp: n_def)
    then show ?thesis using 3 by (simp add: json_quote_char_def n_def [symmetric])
  qed
qed

lemma quote_char_inj: "json_quote_char c @ u = json_quote_char d @ v \<Longrightarrow> c = d \<and> u = v"
  by (metis read_json_quote option.inject prod.inject)

lemma quote_char_not_end: "json_quote_char c @ u \<noteq> CHR 0x22 # v"
  using read_json_quote [of c u] by (auto simp del: json_quote_char_def)

lemma quote_inj_aux: "concat (map json_quote_char s) @ CHR 0x22 # u = concat (map json_quote_char t) @ CHR 0x22 # v \<Longrightarrow> s = t \<and> u = v"
proof (induction s arbitrary: t)
  case Nil
  then show ?case using quote_char_not_end by (cases t) (auto, metis)
next
  case (Cons c s)
  show ?case
  proof (cases t)
    case Nil
    then show ?thesis using Cons.prems quote_char_not_end [of c] by simp
  next
    case (Cons d t')
    then have "json_quote_char c @ concat (map json_quote_char s) @ CHR 0x22 # u =
        json_quote_char d @ concat (map json_quote_char t') @ CHR 0x22 # v"
      using Cons.prems by simp
    then show ?thesis using Cons.IH [of t'] quote_char_inj Cons by blast
  qed
qed

lemma json_quote_inj: "json_quote s @ u = json_quote t @ v \<Longrightarrow> s = t \<and> u = v"
  using quote_inj_aux [of s u t v] by (simp add: json_quote_def)

lemma join_with_Cons: "join_with sep (w # ws) = w @ concat (map ((@) sep) ws)"
  by (induction ws arbitrary: w) auto

lemma json_items_inj:
  "concat (map (\<lambda>s. CHR '','' # json_quote s) ss) @ '']'' = concat (map (\<lambda>s. CHR '','' # json_quote s) ts) @ '']'' \<Longrightarrow> ss = ts"
proof (induction ss arbitrary: ts)
  case Nil
  then show ?case by (cases ts) auto
next
  case (Cons s ss)
  show ?case
  proof (cases ts)
    case Nil
    then show ?thesis using Cons.prems by simp
  next
    case (Cons t ts')
    then show ?thesis using Cons.IH [of ts'] Cons.prems json_quote_inj [of s _ t] by auto
  qed
qed

lemma json_array_items: "json_string_array (s # ss) = CHR ''['' # json_quote s @ concat (map (\<lambda>s. CHR '','' # json_quote s) ss) @ '']''"
  by (simp add: json_string_array_def join_with_Cons comp_def)

lemma json_array_inj [simp]: "json_string_array ss = json_string_array ts \<longleftrightarrow> ss = ts"
proof
  assume same: "json_string_array ss = json_string_array ts"
  have no_start: "json_string_array [] \<noteq> json_string_array (t # ts)" for t ts
    by (simp add: json_string_array_def join_with_Cons json_quote_def)
  show "ss = ts"
  proof (cases ss)
    case Nil
    then show ?thesis using same no_start by (cases ts) auto
  next
    case (Cons s ss')
    then obtain t ts' where ts: "ts = t # ts'" using same no_start by (cases ts) (auto dest: sym)
    then have "json_quote s @ concat (map (\<lambda>s. CHR '','' # json_quote s) ss') @ '']'' =
        json_quote t @ concat (map (\<lambda>s. CHR '','' # json_quote s) ts') @ '']''"
      using same Cons by (simp add: json_array_items)
    from json_quote_inj [OF this] json_items_inj [of ss' ts'] show ?thesis by (simp add: Cons ts)
  qed
qed simp

section \<open>The profiles selected\<close>

definition profiles_closed :: "string set \<Rightarrow> bool" where
  "profiles_closed S \<longleftrightarrow> (\<forall>p\<in>S. set (REQUIRES p) \<subseteq> S)"

text \<open>The greatest choice from the candidates that leaves no prerequisite out.\<close>

definition supported :: "string set \<Rightarrow> string set" where
  "supported C = \<Union> {S. S \<subseteq> C \<and> profiles_closed S}"

lemma drop_unmet_keeps: "profiles_closed S \<Longrightarrow> S \<subseteq> set chosen \<Longrightarrow> S \<subseteq> set (drop_unmet p chosen)"
  unfolding drop_unmet_def profiles_closed_def list_ex_iff by (auto split: if_splits)

lemma drop_fold_keeps: "profiles_closed S \<Longrightarrow> S \<subseteq> set chosen \<Longrightarrow> S \<subseteq> set (fold drop_unmet ps chosen)"
  by (induction ps arbitrary: chosen) (simp_all add: drop_unmet_keeps)

lemma drop_fold_subset: "set (fold drop_unmet ps chosen) \<subseteq> set chosen"
proof (induction ps arbitrary: chosen)
  case (Cons p ps)
  from Cons [of "drop_unmet p chosen"] drop_unmet_shrinks(1) [of p chosen] show ?case by simp
qed simp

lemma drop_unmet_same: "length (drop_unmet p chosen) = length chosen \<Longrightarrow> drop_unmet p chosen = chosen"
  using length_filter_less [of p chosen "\<lambda>q. q \<noteq> p"] by (cases "p \<in> set chosen") (auto simp: drop_unmet_def filter_id_conv split: if_splits)

lemma drop_unmet_met: "drop_unmet p chosen = chosen \<Longrightarrow> p \<in> set chosen \<Longrightarrow> set (REQUIRES p) \<subseteq> set chosen"
  by (auto simp: drop_unmet_def list_ex_iff filter_id_conv split: if_splits)

lemma drop_fold_met:
  "length (fold drop_unmet ps chosen) = length chosen \<Longrightarrow> p \<in> set ps \<Longrightarrow> p \<in> set chosen \<Longrightarrow> set (REQUIRES p) \<subseteq> set chosen"
proof (induction ps)
  case (Cons q ps)
  have "length (drop_unmet q chosen) = length chosen"
    using Cons.prems(1) drop_fold_shrinks [of ps "drop_unmet q chosen"] drop_unmet_shrinks(2) [of q chosen] by simp
  then have "drop_unmet q chosen = chosen" by (rule drop_unmet_same)
  then show ?case using Cons drop_unmet_met by auto
qed simp

lemma drop_loop_supported: "set (drop_loop chosen) = supported (set chosen)"
proof (induction chosen rule: drop_loop.induct)
  case (1 chosen)
  have keeps: "S \<subseteq> set (drop_pass chosen)" if "profiles_closed S" "S \<subseteq> set chosen" for S
    using drop_fold_keeps that by (simp add: drop_pass_def)
  show ?case
  proof (cases "length (drop_pass chosen) = length chosen")
    case True
    have "profiles_closed (set chosen)"
      using True drop_fold_met [of chosen chosen] by (auto simp: profiles_closed_def drop_pass_def)
    then show ?thesis using True by (subst drop_loop.simps) (auto simp: supported_def)
  next
    case False
    have "supported (set (drop_pass chosen)) = supported (set chosen)"
      using keeps drop_fold_subset [of chosen chosen] by (auto simp: supported_def drop_pass_def)
    then show ?thesis using False 1 by (subst drop_loop.simps) (simp add: Let_def)
  qed
qed

lemma str_le_antisym_code: "str_le s t \<Longrightarrow> str_le t s \<Longrightarrow> s = t"
  by (metis str_le_def str_less_linear)

lemma distinct_insert_by: "distinct (insert_by r x xs) \<longleftrightarrow> x \<notin> set xs \<and> distinct xs"
  by (induction xs) auto

lemma distinct_sort_by: "distinct (sort_by r xs) \<longleftrightarrow> distinct xs"
  by (induction xs) (simp_all add: distinct_insert_by)

definition canonical_profiles :: "string list \<Rightarrow> bool" where
  "canonical_profiles ps \<longleftrightarrow> sorted_wrt str_le ps \<and> distinct ps"

lemma sorted_set_canonical: "canonical_profiles (sorted_set ps)"
  by (simp add: canonical_profiles_def sorted_set_def code_units.sorted_sort_by distinct_sort_by)

lemma set_sorted_set [simp]: "set (sorted_set ps) = set ps"
  by (simp add: sorted_set_def)

definition selected :: "string list \<Rightarrow> string set \<Rightarrow> string list \<Rightarrow> bool" where
  "selected available S out \<longleftrightarrow> set out = set available \<inter> S \<and> sorted_wrt str_le out \<and> distinct out"


section \<open>Reading a record back\<close>

definition lossless :: "'row coder \<Rightarrow> bool" where
  "lossless c \<longleftrightarrow> (\<forall>r. decode c (encode c r) = Inr r)"

definition asd_lossless :: "asd_codec \<Rightarrow> bool" where
  "asd_lossless A \<longleftrightarrow> lossless (ref_coder A) \<and> lossless (expression_coder A) \<and> lossless (foreign_coder A)
     \<and> lossless (definition_coder A) \<and> lossless (info_coder A)"

lemma decodeASD_encode [simp]: "lossless c \<Longrightarrow> decodeASD c (encode c r) = Inr r"
  by (simp add: lossless_def decodeASD_def)

text \<open>What a reader should see of a specification.\<close>

definition reference_seen :: "reference_spec \<Rightarrow> reference_view" where
  "reference_seen ref = \<lparr>rv_schemaPath = r_schemaPath ref, rv_table = r_table ref, rv_columns = r_columns ref,
     rv_constraintId = Some (r_constraintId ref), rv_constraintTable = Some (r_table ref),
     rv_constraintSchemaPath = Some (r_schemaPath ref), rv_match = ''SIMPLE'', rv_onUpdate = ''NO_ACTION'', rv_onDelete = ''NO_ACTION''\<rparr>"

definition spec_seen :: "constraint_spec \<Rightarrow> constraint_view" where
  "spec_seen spec = \<lparr>v_schemaPath = s_schemaPath spec, v_table = s_table spec, v_id = s_id spec, v_kind = s_kind spec,
     v_columns = s_columns spec, v_enforcement = s_enforcement spec, v_validation = s_validation spec,
     v_declaredName = s_declaredName spec, v_checkSql = s_checkSql spec, v_references = map_option reference_seen (s_references spec)\<rparr>"

lemma read_written_record:
  assumes "asd_lossless A" "constraintRecord A spec = Inr bs"
  shows "readConstraintRecord A bs = Inr (spec_seen spec)"
  using assms
  by (cases "s_references spec"; cases "s_checkSql spec")
    (auto simp: asd_lossless_def constraintRecord_def readConstraintRecord_def result_simps Let_def objectRef_def
      decode_optional_def spec_seen_def reference_seen_def)

section \<open>Fields by position\<close>

text \<open>The field at a path of positions, through ordinary structs, with the names on the way.\<close>

fun locate :: "arrow_field list \<Rightarrow> nat list \<Rightarrow> (string list \<times> arrow_field) option" where
  "locate cols [] = None"
| "locate cols [i] = (if i < length cols then Some ([f_name (cols ! i)], cols ! i) else None)"
| "locate cols (i # j # js) = (if i < length cols then (case ordinaryStructChildren (cols ! i) of
       Some fs \<Rightarrow> map_option (\<lambda>(p, g). (f_name (cols ! i) # p, g)) (locate fs (j # js)) | None \<Rightarrow> None) else None)"

lemma rewrite_basics:
  "f_name (rewrite_field req pre f) = f_name f" "f_metadata (rewrite_field req pre f) = f_metadata f"
  "f_nullable (rewrite_field req pre f) =
     (if pre = [] \<and> isRowIdField f then f_nullable f else json_string_array (pre @ [f_name f]) \<notin> set req)"
  by (cases f; cases "f_type f"; simp add: rewrite_field.simps Let_def)+

lemma rewrite_children:
  "ordinaryStructChildren (rewrite_field req pre f) = (if pre = [] \<and> isRowIdField f then ordinaryStructChildren f
     else map_option (map (rewrite_field req (pre @ [f_name f]))) (ordinaryStructChildren f))"
proof -
  obtain n t nl md ex where f: "f = Field n t nl md ex" by (cases f)
  show ?thesis
    by (cases t; cases "pre = [] \<and> isRowIdField f"; cases "hasLogicalType f")
      (auto simp: f rewrite_field.simps Let_def ordinaryStructChildren_def hasLogicalType_def)
qed

lemma rewrite_type: "ordinaryStructChildren f = None \<Longrightarrow> f_type (rewrite_field req pre f) = f_type f"
  by (cases f; cases "f_type f") (auto simp: rewrite_field.simps Let_def ordinaryStructChildren_def split: if_splits)

lemma locate_nested:
  "pre \<noteq> [] \<Longrightarrow> locate (map (rewrite_field req pre) fs) is = map_option (\<lambda>(p, g). (p, rewrite_field req (pre @ butlast p) g)) (locate fs is)"
proof (induction fs "is" arbitrary: pre rule: locate.induct)
  case (2 cols i)
  then show ?case by (simp add: rewrite_basics)
next
  case (3 cols i j js)
  show ?case
  proof (cases "i < length cols")
    case True
    show ?thesis
    proof (cases "ordinaryStructChildren (cols ! i)")
      case None
      then show ?thesis using True 3(2) by (simp add: rewrite_children)
    next
      case (Some fs)
      have ne: "p \<noteq> []" if "locate fs (j # js) = Some (p, g)" for p g
        using that by (cases js) (auto split: if_splits option.splits)
      show ?thesis
        using True 3(2) Some 3(1) [OF True Some, of "pre @ [f_name (cols ! i)]"] ne
        by (cases "locate fs (j # js)") (auto simp: rewrite_children rewrite_basics)
    qed
  qed simp
qed simp

lemma rewrite_row: "isRowIdField f \<Longrightarrow> rewrite_field req [] f = f"
  by (cases f) (simp add: rewrite_field.simps)

lemma locate_names: "locate cols is = Some (p, g) \<Longrightarrow> p \<noteq> [] \<and> last p = f_name g \<and> is \<noteq> [] \<and> hd is < length cols"
  by (induction cols "is" arbitrary: p rule: locate.induct) (auto split: if_splits option.splits)

lemma locate_served:
  "locate (servedConstraintFields cols req) is =
     map_option (\<lambda>(p, g). (p, if isRowIdField (cols ! hd is) then g else rewrite_field req (butlast p) g)) (locate cols is)"
proof (cases "(cols, is)" rule: locate.cases)
  case (2 cols i)
  then show ?thesis by (simp add: servedConstraintFields_def rewrite_basics rewrite_row)
next
  case (3 cols i j js)
  show ?thesis
  proof (cases "i < length cols")
    case True
    have ne: "p \<noteq> []" if "locate fs (j # js) = Some (p, g)" for fs p g
      using locate_names [OF that] by auto
    show ?thesis
    proof (cases "isRowIdField (cols ! i)")
      case rowid: True
      then show ?thesis using 3 True
        by (cases "ordinaryStructChildren (cols ! i)"; cases "locate (the (ordinaryStructChildren (cols ! i))) (j # js)")
          (auto simp: servedConstraintFields_def rewrite_children rewrite_basics)
    next
      case False
      then show ?thesis using 3 True ne
        by (cases "ordinaryStructChildren (cols ! i)"; cases "locate (the (ordinaryStructChildren (cols ! i))) (j # js)")
          (auto simp: servedConstraintFields_def rewrite_children rewrite_basics locate_nested)
    qed
  qed (use 3 in \<open>simp add: servedConstraintFields_def\<close>)
qed (simp add: servedConstraintFields_def)

section \<open>Legacy generated columns\<close>

lemma hasLogicalType_keys:
  "hasLogicalType f \<longleftrightarrow> (\<exists>k \<in> set (map fst (f_metadata f)). k = EXTENSION_KEY \<or> starts_with k ''vgi.logical_type.'')"
  by (force simp: hasLogicalType_def list_ex_iff)

definition translated_as :: "arrow_field \<Rightarrow> arrow_field \<Rightarrow> bool" where
  "translated_as f g \<longleftrightarrow> f_name g = f_name f \<and> f_type g = f_type f \<and> f_nullable g = f_nullable f \<and>
     isRowIdField g = isRowIdField f \<and> ordinaryStructChildren g = ordinaryStructChildren f \<and>
     (has_key f ''generated_expression'' \<or> f_metadata g = f_metadata f)"

lemma jm_del_keys: "set (map fst (jm_del k m)) = set (map fst m) - {k}"
  by (force simp: jm_del_def)

lemma translate_field_as: "translate_field A owner f = Inr g \<Longrightarrow> translated_as f g"
proof (cases "jm_get (f_metadata f) ''generated_expression''")
  case (Some sql)
  have key: "has_key f ''generated_expression''"
    using Some jm_get_keys [of "f_metadata f" "''generated_expression''"] by (simp add: has_key_def)
  assume "translate_field A owner f = Inr g"
  then obtain m where g: "g = Field (f_name f) (f_type f) (f_nullable f)
       (jm_set GENERATION_KEY ''virtual'' (jm_set GENERATED_EXPRESSION_KEY m (jm_del ''generated_expression'' (f_metadata f)))) (f_ext f)"
    using Some by (auto simp: translate_field_def result_simps)
  have md: "set (map fst (f_metadata g)) =
      insert GENERATION_KEY (insert GENERATED_EXPRESSION_KEY (set (map fst (f_metadata f)) - {''generated_expression''}))"
    by (simp only: g arrow_field.sel jm_set_keys jm_del_keys)
  have logical: "hasLogicalType g = hasLogicalType f"
    unfolding hasLogicalType_keys md by (auto simp: EXTENSION_KEY_def GENERATION_KEY_def GENERATED_EXPRESSION_KEY_def)
  have row: "isRowIdField g = isRowIdField f"
    unfolding isRowIdField_def has_key_def md by (auto simp: GENERATION_KEY_def GENERATED_EXPRESSION_KEY_def)
  have same: "f_name g = f_name f" "f_type g = f_type f" "f_nullable g = f_nullable f" by (simp_all add: g)
  have "ordinaryStructChildren g = ordinaryStructChildren f"
    by (simp only: ordinaryStructChildren_def logical same)
  then show ?thesis using key row same by (simp add: translated_as_def)
qed (simp add: translate_field_def translated_as_def)

lemma locate_translated:
  assumes "list_all2 translated_as cols cols'"
  shows "case (locate cols is, locate cols' is) of
      (None, None) \<Rightarrow> True
    | (Some (p, f), Some (q, g)) \<Rightarrow> q = p \<and> (if length is = 1 then translated_as f g else g = f) \<and> isRowIdField (cols' ! hd is) = isRowIdField (cols ! hd is)
    | _ \<Rightarrow> False"
proof -
  have len: "length cols' = length cols" using assms by (simp add: list_all2_lengthD)
  have nth: "translated_as (cols ! i) (cols' ! i)" if "i < length cols" for i
    using assms that by (simp add: list_all2_conv_all_nth)
  show ?thesis
    by (cases "(cols, is)" rule: locate.cases) (use nth len in \<open>auto simp: translated_as_def split: option.splits\<close>)
qed

section \<open>Validated records\<close>

text \<open>The paths a record makes non-nullable, and those all the records of a table do.\<close>

definition nonnull_paths :: "constraint_view \<Rightarrow> string list set" where
  "nonnull_paths r = (if v_kind r = ''NOT_NULL'' \<or> v_kind r = ''PRIMARY_KEY'' then set (v_columns r) else {})"

lemma refuse_Inr [result_simps]: "refuse c m = Inr u \<longleftrightarrow> c"
  by (simp add: refuse_def result_simps)

lemma check_paths_ok:
  "check_paths flat seen paths = Inr u \<Longrightarrow> p \<in> set paths \<Longrightarrow> p \<noteq> [] \<and> (flat \<longrightarrow> length p = 1)"
  by (induction flat seen paths rule: check_paths.induct) (auto simp: result_simps)

lemma checkPaths_ok: "checkPaths paths flat = Inr u \<Longrightarrow> p \<in> set paths \<Longrightarrow> p \<noteq> [] \<and> (flat \<longrightarrow> length p = 1)"
  using check_paths_ok by (auto simp: checkPaths_def result_simps)

lemma check_kind_required:
  "check_kind A schemaPath cols rowId bs r st = Inr st' \<Longrightarrow>
     set (at_required st') = set (at_required st) \<union> json_string_array ` nonnull_paths r"
  by (cases "v_columns r") (auto simp: check_kind_def Let_def result_simps nonnull_paths_def split: if_splits)

lemma fieldsByExactName_one: "fieldsByExactName cols n = [i] \<Longrightarrow> i < length cols \<and> f_name (cols ! i) = n"
proof -
  assume "fieldsByExactName cols n = [i]"
  then have "i \<in> set (fieldsByExactName cols n)" by simp
  then show ?thesis by (simp add: fieldsByExactName_def)
qed

lemma resolveTop_ok: "resolveTop cols rowId path = Inr i \<Longrightarrow> i < length cols \<and> f_name (cols ! i) = hd path \<and> rowId \<noteq> Some i"
  using fieldsByExactName_one [of cols "hd path" i] by (auto simp: resolveTop_def split: list.splits if_splits)

lemma resolve_nested_located:
  "resolve_nested (cols ! i) rest = Inr g \<Longrightarrow> i < length cols \<Longrightarrow> \<exists>js. locate cols (i # js) = Some (f_name (cols ! i) # rest, g)"
proof (induction rest arbitrary: cols i)
  case Nil
  then have "locate cols [i] = Some ([f_name (cols ! i)], g)" by simp
  then show ?case by blast
next
  case (Cons part rest)
  then obtain fs j where fs: "ordinaryStructChildren (cols ! i) = Some fs" and j: "fieldsByExactName fs part = [j]"
      and rest: "resolve_nested (fs ! j) rest = Inr g"
    by (auto split: option.splits list.splits)
  from fieldsByExactName_one [OF j] Cons.IH [OF rest]
  obtain js where "locate fs (j # js) = Some (part # rest, g)" by auto
  then have "locate cols (i # j # js) = Some (f_name (cols ! i) # part # rest, g)" using fs Cons.prems(2) by simp
  then show ?case by blast
qed

lemma check_kind_located:
  assumes ok: "check_kind A schemaPath cols rowId bs r st = Inr st'" "checkPaths (v_columns r) (v_kind r \<noteq> ''NOT_NULL'') = Inr u"
    and p: "p \<in> nonnull_paths r"
  shows "\<exists>i js g. locate cols (i # js) = Some (p, g) \<and> rowId \<noteq> Some i"
proof -
  have found: "\<exists>i js g. locate cols (i # js) = Some (p, g) \<and> rowId \<noteq> Some i"
    if "resolveTop cols rowId p = Inr i" "resolve_nested (cols ! i) (tl p) = Inr g" "p \<noteq> []" for i g
    using resolveTop_ok [OF that(1)] resolve_nested_located [OF that(2)] that(3) by (cases p) fastforce+
  have mem: "p \<in> set (v_columns r)" "v_kind r = ''NOT_NULL'' \<or> v_kind r = ''PRIMARY_KEY''"
    using p by (auto simp: nonnull_paths_def split: if_splits)
  from checkPaths_ok [OF ok(2) mem(1)] have ne: "p \<noteq> []" and flat: "v_kind r \<noteq> ''NOT_NULL'' \<Longrightarrow> length p = 1" by auto
  show ?thesis
  proof (cases "v_kind r = ''NOT_NULL''")
    case True
    then have "length (v_columns r) = 1" using ok(1) by (auto simp: check_kind_def result_simps)
    then have "p = hd (v_columns r)" using mem(1) by (cases "v_columns r") auto
    then show ?thesis using True ok(1) ne found by (auto simp: check_kind_def Let_def result_simps)
  next
    case False
    then have pk: "v_kind r = ''PRIMARY_KEY''" using mem(2) by simp
    then obtain us where "mapR (\<lambda>path. rbind (resolveTop cols rowId path) (\<lambda>i.
          refuse (\<not> isGeneratedField (cols ! i)) ''PRIMARY KEY column is a generated column'')) (v_columns r) = Inr us"
      using ok(1) by (auto simp: check_kind_def Let_def result_simps)
    then obtain i where "resolveTop cols rowId p = Inr i"
      using mapR_mem_of mem(1) by (fastforce simp: result_simps)
    moreover have "tl p = []" using flat False by (cases p) auto
    ultimately show ?thesis using found ne by simp
  qed
qed

lemma check_record_ok:
  assumes "check_record A table schemaPath cols rowId bs st = Inr (r, st1)"
  shows "readConstraintRecord A bs = Inr r \<and> checkPaths (v_columns r) (v_kind r \<noteq> ''NOT_NULL'') = Inr ()
    \<and> (\<exists>st0. at_required st0 = at_required st \<and> check_kind A schemaPath cols rowId bs r st0 = Inr st1)"
proof -
  have labels: "at_required st0 = at_required st"
    if "(case v_declaredName r of None \<Rightarrow> Inr st1 | Some name \<Rightarrow> rbind (refuse (P name) m) (\<lambda>_. Inr (st1\<lparr>at_labels := L name\<rparr>))) = Inr st0"
      "at_required st1 = at_required st" for st0 st1 P m L
    using that by (cases "v_declaredName r") (auto simp: result_simps)
  from assms obtain st0 where "(case v_declaredName r of None \<Rightarrow> Inr (st\<lparr>at_ids := v_id r # at_ids st\<rparr>)
       | Some name \<Rightarrow> rbind (refuse (to_lower name \<notin> set (at_labels (st\<lparr>at_ids := v_id r # at_ids st\<rparr>))) ''duplicate declared name'') (\<lambda>_.
           Inr (st\<lparr>at_ids := v_id r # at_ids st, at_labels := to_lower name # at_labels (st\<lparr>at_ids := v_id r # at_ids st\<rparr>)\<rparr>))) = Inr st0"
    and "readConstraintRecord A bs = Inr r" "checkPaths (v_columns r) (v_kind r \<noteq> ''NOT_NULL'') = Inr ()"
    and "check_kind A schemaPath cols rowId bs r st0 = Inr st1"
    unfolding check_record_def by (auto simp: result_simps Let_def)
  moreover from labels [OF this(1)] have "at_required st0 = at_required st" by simp
  ultimately show ?thesis by blast
qed

lemma check_records_ok:
  "check_records A table schemaPath cols rowId bss st = Inr (recs, st') \<Longrightarrow>
     mapR (readConstraintRecord A) bss = Inr recs
   \<and> set (at_required st') = set (at_required st) \<union> json_string_array ` (\<Union>r\<in>set recs. nonnull_paths r)
   \<and> (\<forall>r\<in>set recs. \<forall>p\<in>nonnull_paths r. \<exists>i js g. locate cols (i # js) = Some (p, g) \<and> rowId \<noteq> Some i)"
proof (induction bss arbitrary: st recs)
  case (Cons bs bss)
  from Cons.prems obtain r st1 rs where r: "check_record A table schemaPath cols rowId bs st = Inr (r, st1)"
    and rs: "check_records A table schemaPath cols rowId bss st1 = Inr (rs, st')" and recs: "recs = r # rs"
    by (auto simp: result_simps)
  from check_record_ok [OF r] obtain st0 where read: "readConstraintRecord A bs = Inr r"
    and paths: "checkPaths (v_columns r) (v_kind r \<noteq> ''NOT_NULL'') = Inr ()"
    and st0: "at_required st0 = at_required st" and kind: "check_kind A schemaPath cols rowId bs r st0 = Inr st1"
    by blast
  show ?case
    using Cons.IH [OF rs] read check_kind_required [OF kind] check_kind_located [OF kind paths] st0
    by (simp add: recs image_Un Un_assoc)
qed simp

lemma row_id_unique: "row_id_of cols = Inr rowId \<Longrightarrow> i < length cols \<Longrightarrow> isRowIdField (cols ! i) \<Longrightarrow> rowId = Some i"
proof -
  assume ok: "row_id_of cols = Inr rowId" and i: "i < length cols" "isRowIdField (cols ! i)"
  define marked where "marked = filter (\<lambda>i. isRowIdField (cols ! i)) [0..<length cols]"
  have "i \<in> set marked" using i by (simp add: marked_def)
  then show ?thesis using ok unfolding row_id_of_def marked_def [symmetric] by (auto split: list.splits)
qed

lemma locate_length: "locate cols is = Some (p, g) \<Longrightarrow> length p = length is \<and> (length is = 1 \<longrightarrow> g = cols ! hd is)"
  by (induction cols "is" arbitrary: p rule: locate.induct) (auto split: if_splits option.splits)

text \<open>
  How a served field compares with the declared one at the same position, where the paths \<open>P\<close> are to be
  non-null: a declared field and a served one are there or neither, under the same names; the type is the
  same, but for nullability inside a struct; the metadata too, but for a translated legacy expression.
\<close>

definition served_at :: "arrow_field list \<Rightarrow> arrow_field list \<Rightarrow> string list set \<Rightarrow> nat list \<Rightarrow> bool" where
  "served_at cols served P is = (case (locate cols is, locate served is) of
     (None, None) \<Rightarrow> True
   | (Some (p, f), Some (q, g)) \<Rightarrow> q = p
       \<and> (ordinaryStructChildren f = None \<longrightarrow> f_type g = f_type f)
       \<and> (f_metadata g = f_metadata f \<or> length is = 1 \<and> has_key f ''generated_expression'')
       \<and> f_nullable g = (if isRowIdField (cols ! hd is) then f_nullable f else p \<notin> P)
   | _ \<Rightarrow> False)"

lemma served_at_translated:
  assumes "list_all2 translated_as cols cols'" and req: "set req = json_string_array ` P"
  shows "served_at cols (servedConstraintFields cols' req) P is"
proof (cases "locate cols is")
  case None
  then show ?thesis using locate_translated [OF assms(1), of "is"] by (auto simp: served_at_def locate_served split: option.splits)
next
  case (Some pf)
  obtain p f where pf: "pf = (p, f)" by (cases pf)
  with Some locate_translated [OF assms(1), of "is"] obtain g where g: "locate cols' is = Some (p, g)"
    and same: "if length is = 1 then translated_as f g else g = f" and row: "isRowIdField (cols' ! hd is) = isRowIdField (cols ! hd is)"
    by (auto split: option.splits)
  have alike: "f_type g = f_type f" "f_nullable g = f_nullable f" "ordinaryStructChildren g = ordinaryStructChildren f"
      "f_metadata g = f_metadata f \<or> length is = 1 \<and> has_key f ''generated_expression''"
    using same by (auto simp: translated_as_def split: if_splits)
  have p: "butlast p @ [f_name g] = p" using locate_names [OF g] by (metis append_butlast_last_id)
  have key: "json_string_array p \<in> set req \<longleftrightarrow> p \<in> P" using req by auto
  have top: "g = cols' ! hd is" if "butlast p = []"
    using that locate_length [OF g] p by (metis length_Cons length_append list.size(3) plus_nat.add_0 One_nat_def)
  show ?thesis
  proof (cases "isRowIdField (cols ! hd is)")
    case True
    then show ?thesis using Some pf g row alike by (simp add: served_at_def locate_served)
  next
    case False
    have "f_nullable (rewrite_field req (butlast p) g) = (p \<notin> P)"
      using False row top p key by (auto simp: rewrite_basics)
    then show ?thesis using Some pf g row alike False rewrite_type [of g]
      by (simp add: served_at_def locate_served rewrite_basics)
  qed
qed

subsection \<open>A table and its records\<close>

definition lookup_coder :: "(bytes \<times> 'row) list \<Rightarrow> 'row coder" where
  "lookup_coder t = \<lparr>encode = (\<lambda>r. case find (\<lambda>(_, row). row = r) t of Some (bs, _) \<Rightarrow> bs | None \<Rightarrow> []),
     decode = (\<lambda>bs. case map_of t bs of Some r \<Rightarrow> Inr r | None \<Rightarrow> Inl ''not a record'')\<rparr>"

text \<open>Three records: a nested NOT NULL, a key, and a foreign key to it.\<close>

definition sample_asd :: asd_codec where
  "sample_asd = \<lparr>
     ref_coder = lookup_coder [
       ([1], \<lparr>or_kind = ''constraint'', or_schema_path = [''main''], or_name = ''nn'', or_owner_table = Some ''t''\<rparr>),
       ([2], \<lparr>or_kind = ''constraint'', or_schema_path = [''main''], or_name = ''pk'', or_owner_table = Some ''t''\<rparr>),
       ([3], \<lparr>or_kind = ''constraint'', or_schema_path = [''main''], or_name = ''fk'', or_owner_table = Some ''u''\<rparr>),
       ([4], \<lparr>or_kind = ''table'', or_schema_path = [''main''], or_name = ''t'', or_owner_table = None\<rparr>)],
     expression_coder = lookup_coder [],
     foreign_coder = lookup_coder [
       ([1], \<lparr>fk_referenced_table = [4], fk_referenced_column_paths = [[''id'']], fk_match = ''SIMPLE'', fk_on_update = ''NO_ACTION'', fk_on_delete = ''NO_ACTION''\<rparr>)],
     definition_coder = lookup_coder [
       ([1], \<lparr>cd_kind = ''NOT_NULL'', cd_column_paths = [[''box'', ''x'']], cd_declared_name = None, cd_check_expression = None, cd_foreign_key = None\<rparr>),
       ([2], \<lparr>cd_kind = ''PRIMARY_KEY'', cd_column_paths = [[''id'']], cd_declared_name = None, cd_check_expression = None, cd_foreign_key = None\<rparr>),
       ([3], \<lparr>cd_kind = ''FOREIGN_KEY'', cd_column_paths = [[''ref'']], cd_declared_name = None, cd_check_expression = None, cd_foreign_key = Some [1]\<rparr>)],
     info_coder = lookup_coder [
       ([1], \<lparr>ci_ref = [1], ci_definition = [1], ci_enforcement = ''ENFORCED'', ci_validation = ''ALL_ROWS'', ci_referenced_constraint = None\<rparr>),
       ([2], \<lparr>ci_ref = [2], ci_definition = [2], ci_enforcement = ''ENFORCED'', ci_validation = ''ALL_ROWS'', ci_referenced_constraint = None\<rparr>),
       ([3], \<lparr>ci_ref = [3], ci_definition = [3], ci_enforcement = ''ENFORCED'', ci_validation = ''ALL_ROWS'', ci_referenced_constraint = Some [2]\<rparr>)],
     grammar = plain_host\<rparr>"

definition sample_cols :: "arrow_field list" where
  "sample_cols = [Field ''id'' (TInt 64 True) True [] [], Field ''box'' (TStruct [Field ''x'' (TFloat 2) True [] []]) True [] []]"

definition sample_served_cols :: "arrow_field list" where
  "sample_served_cols = [Field ''id'' (TInt 64 True) False [] [], Field ''box'' (TStruct [Field ''x'' (TFloat 2) False [] []]) True [] []]"

lemmas sample_codes = sample_asd_def lookup_coder_def decodeASD_def decode_optional_def

lemma sample_read:
  "readConstraintRecord sample_asd [1] = Inr \<lparr>v_schemaPath = [''main''], v_table = ''t'', v_id = ''nn'', v_kind = ''NOT_NULL'',
     v_columns = [[''box'', ''x'']], v_enforcement = ''ENFORCED'', v_validation = ''ALL_ROWS'', v_declaredName = None, v_checkSql = None, v_references = None\<rparr>"
  "readConstraintRecord sample_asd [2] = Inr \<lparr>v_schemaPath = [''main''], v_table = ''t'', v_id = ''pk'', v_kind = ''PRIMARY_KEY'',
     v_columns = [[''id'']], v_enforcement = ''ENFORCED'', v_validation = ''ALL_ROWS'', v_declaredName = None, v_checkSql = None, v_references = None\<rparr>"
  "readConstraintRecord sample_asd [3] = Inr \<lparr>v_schemaPath = [''main''], v_table = ''u'', v_id = ''fk'', v_kind = ''FOREIGN_KEY'',
     v_columns = [[''ref'']], v_enforcement = ''ENFORCED'', v_validation = ''ALL_ROWS'', v_declaredName = None, v_checkSql = None,
     v_references = Some \<lparr>rv_schemaPath = [''main''], rv_table = ''t'', rv_columns = [[''id'']], rv_constraintId = Some ''pk'',
       rv_constraintTable = Some ''t'', rv_constraintSchemaPath = Some [''main''], rv_match = ''SIMPLE'', rv_onUpdate = ''NO_ACTION'', rv_onDelete = ''NO_ACTION''\<rparr>\<rparr>"
  by (simp_all add: readConstraintRecord_def sample_codes)

lemma sample_served:
  "servedTableSchema sample_asd ''t'' [''main''] sample_cols [[1], [2]] = Inr
     sample_served_cols"
  by code_simp

text \<open>C17: When a table's schema is served, its constraint records have been read, and every field at every
  depth of ordinary structs keeps its place, name, type and metadata (a legacy generated expression apart)
  and is non-nullable exactly when a NOT_NULL or PRIMARY_KEY record names its path, the row-id column
  excepted; and every path such a record names leads to a field that is served non-nullable.\<close>

theorem served_nullability_exact:
  assumes "servedTableSchema A table schemaPath cols constraints = Inr served"
  shows "\<exists>records. mapR (readConstraintRecord A) constraints = Inr records
    \<and> (let P = (\<Union>r\<in>set records. nonnull_paths r) in
        (\<forall>is. served_at cols served P is)
      \<and> (\<forall>p\<in>P. \<exists>is g. locate served is = Some (p, g) \<and> \<not> f_nullable g))"
proof -
  obtain cols' records req where tr: "translateLegacyGenerated A schemaPath cols = Inr cols'"
    and val: "validateTableConstraints A table schemaPath cols' constraints = Inr (records, req)"
    and served: "served = servedConstraintFields cols' req"
    using assms by (auto simp: servedTableSchema_def result_simps)
  from val obtain rowId st where row: "row_id_of cols' = Inr rowId" and req: "req = at_required st"
    and rec: "check_records A table schemaPath cols' rowId constraints \<lparr>at_required = [], at_ids = [], at_labels = [], at_primaryKeys = 0\<rparr> = Inr (records, st)"
    by (auto simp: validateTableConstraints_def result_simps)
  let ?P = "\<Union>r\<in>set records. nonnull_paths r"
  have cols: "list_all2 translated_as cols cols'"
    using tr translate_field_as by (auto simp: translateLegacyGenerated_def mapR_eq_Inr elim: list_all2_mono)
  note rec = check_records_ok [OF rec]
  have set_req: "set req = json_string_array ` ?P" using rec by (simp add: req)
  have at: "served_at cols served ?P is" for "is"
    unfolding served by (rule served_at_translated [OF cols set_req])
  have "\<exists>is g. locate served is = Some (p, g) \<and> \<not> f_nullable g" if p: "p \<in> ?P" for p
  proof -
    from p rec obtain i js g where g: "locate cols' (i # js) = Some (p, g)" "rowId \<noteq> Some i" by blast
    have i: "i < length cols'" using locate_names [OF g(1)] by simp
    have no_row: "\<not> isRowIdField (cols' ! i)" using row_id_unique [OF row i] g(2) by blast
    then have no_row': "\<not> isRowIdField (cols ! i)"
      using cols i by (simp add: list_all2_conv_all_nth translated_as_def)
    obtain h where h: "locate served (i # js) = Some (p, h)"
      using g(1) by (auto simp: served locate_served)
    then have "f_nullable h = (p \<notin> ?P)"
      using at [of "i # js"] no_row' by (auto simp: served_at_def split: option.splits)
    then show ?thesis using h p by blast
  qed
  then show ?thesis using rec at by (auto simp: Let_def)
qed

theorem served_nullability_exact_witness:
  "\<exists>records. mapR (readConstraintRecord sample_asd) [[1], [2]] = Inr records
    \<and> (\<exists>is g. locate sample_served_cols is
         = Some ([''box'', ''x''], g) \<and> \<not> f_nullable g)"
proof -
  obtain records where read: "mapR (readConstraintRecord sample_asd) [[1], [2]] = Inr records"
    and paths: "\<forall>p \<in> (\<Union>r\<in>set records. nonnull_paths r). \<exists>is g. locate sample_served_cols is = Some (p, g) \<and> \<not> f_nullable g"
    using served_nullability_exact [OF sample_served] unfolding Let_def by (elim exE conjE)
  note nonnull = bspec [OF paths, OF UN_I]
  have "\<exists>r\<in>set records. [''box'', ''x''] \<in> nonnull_paths r"
    using read by (auto simp: sample_read nonnull_paths_def)
  with nonnull read show ?thesis by blast
qed

section \<open>Foreign keys across tables\<close>

lemma table_key_inj: "table_key p n = table_key q m \<longleftrightarrow> p = q \<and> n = m"
  by (auto simp: table_key_def)

lemma mapR_passes: "(\<exists>us. mapR f xs = Inr us) \<longleftrightarrow> (\<forall>x\<in>set xs. \<exists>u. f x = Inr u)"
proof
  assume "\<forall>x\<in>set xs. \<exists>u. f x = Inr u"
  then obtain g where "\<And>x. x \<in> set xs \<Longrightarrow> f x = Inr (g x)" by metis
  then show "\<exists>us. mapR f xs = Inr us" using mapR_all by blast
qed (metis mapR_mem_of)

text \<open>The constraint a reference means, among the records of the table it names.\<close>

definition key_for :: "reference_view \<Rightarrow> constraint_view list \<Rightarrow> bool" where
  "key_for ref rs \<longleftrightarrow> (\<exists>k. find (\<lambda>r. Some (v_id r) = rv_constraintId ref) rs = Some k
     \<and> (v_kind k = ''PRIMARY_KEY'' \<or> v_kind k = ''UNIQUE'')
     \<and> set (v_columns k) \<subseteq> set (rv_columns ref) \<and> length (v_columns k) = card (set (rv_columns ref)))"

lemma check_target_ok:
  "check_target byTable r = Inr u \<longleftrightarrow> (v_kind r = ''FOREIGN_KEY'' \<longrightarrow> (\<forall>ref. v_references r = Some ref \<longrightarrow>
     (\<exists>rs. jm_get byTable (table_key (rv_schemaPath ref) (rv_table ref)) = Some rs \<and> key_for ref rs)))"
proof -
  have card: "card (set (map json_string_array ps)) = card (set ps)" for ps
    by (simp add: card_image inj_on_def)
  have matches: "key_matches ref (Some k) \<longleftrightarrow> set (v_columns k) \<subseteq> set (rv_columns ref) \<and> length (v_columns k) = card (set (rv_columns ref))" for ref k
    unfolding key_matches_def Let_def card option.case list_all_iff by (auto simp: image_iff)
  show ?thesis
    by (auto simp: check_target_def key_for_def result_simps Let_def matches split: option.splits)
qed

definition decoded_tables :: "asd_codec \<Rightarrow> constraint_table list \<Rightarrow> (constraint_table \<times> constraint_view list) list cresult" where
  "decoded_tables A tables = mapR (\<lambda>t. rbind (mapR (readConstraintRecord A) (ct_constraints t)) (\<lambda>rs. Inr (t, rs))) tables"

definition keys_resolve :: "(constraint_table \<times> constraint_view list) list \<Rightarrow> bool" where
  "keys_resolve tables \<longleftrightarrow> (\<forall>(t, rs)\<in>set tables. \<forall>r\<in>set rs. \<forall>ref. v_kind r = ''FOREIGN_KEY'' \<longrightarrow> v_references r = Some ref \<longrightarrow>
     (\<exists>(t', rs')\<in>set tables. ct_schemaPath t' = rv_schemaPath ref \<and> ct_name t' = rv_table ref \<and> key_for ref rs'))"

lemma decoded_entries:
  "mapR (\<lambda>t. rbind (mapR (readConstraintRecord A) (ct_constraints t)) (\<lambda>rs. Inr (table_key (ct_schemaPath t) (ct_name t), rs))) tables =
     rbind (decoded_tables A tables) (\<lambda>ds. Inr (map (\<lambda>(t, rs). (table_key (ct_schemaPath t) (ct_name t), rs)) ds))"
proof (induction tables)
  case (Cons t tables)
  then show ?case
    by (cases "mapR (readConstraintRecord A) (ct_constraints t)"; cases "decoded_tables A tables")
      (simp_all add: decoded_tables_def)
qed (simp add: decoded_tables_def)

lemma decoded_names: "decoded_tables A tables = Inr ds \<Longrightarrow> map fst ds = tables"
  by (induction tables arbitrary: ds) (auto simp: decoded_tables_def result_simps split: sum.splits)



end
