(* ===== verification/Spec2Isabelle.thy ===== *)
theory Spec2Isabelle
  imports HistoryLaws SplitToken Storage Collector Registry Continuation SqlLaws ColumnLaws StateLaws ClientDrain ConformLaws ConstraintLaws
begin

text \<open>
  A verification of the TypeScript SDK for VGI workers.  A VGI worker is a process that serves catalogs,
  scalar, table and aggregate functions to a DuckDB client over Arrow-encoded RPC, on a pipe or over
  HTTP.  The source files below are those of the directory \<^verbatim>\<open>src/\<close> of the repository.

  \<^bold>\<open>The parts and how they meet.\<close>
  A client lists a worker's catalog and binds one of its functions: the registry finds the function by
  schema path, name and argument types (\<open>Registry\<close>), and its arguments are read and checked against
  the specification it declared (\<open>Arguments\<close>).  A catalog is declared with SQL expressions, which are
  validated against a bounded grammar before they are served (\<open>SqlGrammar\<close>).  A scan may be split: each split travels as a
  token bound to the bind call and to the caller (\<open>SplitToken\<close>), sealed in the authenticated envelope that
  all opaque data of the worker uses (\<open>Crypto\<close>).  While a scan runs, the client pushes filters to the
  worker: a snapshot, then deltas, each a JSON document beside an Arrow batch of literals (\<open>StrictJson\<close>,
  \<open>FilterParse\<close>), which the worker keeps as a filter state and evaluates on rows (\<open>FilterEval\<close>, \<open>Wkb\<close>)
  before it emits them (\<open>Collector\<close>).  Over HTTP no process keeps a stream: its filters are replayed from
  a compacted history (\<open>FilterHistory\<close>), and its state comes back from a cursor (\<open>StateSerializer\<close>).
  A table-in-out function answers one input with any number of replies (\<open>Continuation\<close>), which the client
  drains (\<open>ClientDrain\<close>) and may cache (\<open>CacheControl\<close>).  Worker processes share state through a SQLite
  store (\<open>Storage\<close>).  Every value in a batch goes through the codecs of its Arrow type (\<open>ArrowCodec\<close>) and the
  column writer and reader (\<open>ArrowColumns\<close>); protocol records are conformed to their schema and their maps
  put in order first (\<open>Conform\<close>).

  \<^bold>\<open>Theories and the code they model.\<close>
  \<^item> \<open>Prelude\<close>: results \<open>error + 'a\<close> with their sequencing, \<^verbatim>\<open>DataView\<close> byte codecs, the insertion-ordered
    JavaScript map, UTF-8, decimal text, sorting; the locales \<open>kv_store\<close>, \<open>js_map\<close> and \<open>total_preorder\<close>.
  \<^item> \<open>JsValue\<close>: the JavaScript values of columns and literals, IEEE double arithmetic as rounded rationals,
    operators and conversions, \<^verbatim>\<open>deepEqual\<close> of \<^verbatim>\<open>filter-pushdown/evaluate.ts\<close>.
  \<^item> \<open>ArrowTypes\<close>: types, fields, schemas, batches and predicates of \<^verbatim>\<open>arrow/types.ts\<close> and
    \<^verbatim>\<open>arrow/predicates.ts\<close>.
  \<^item> \<open>FilterTypes\<close>, \<open>StrictJson\<close>, \<open>FilterParse\<close>, \<open>Wkb\<close>, \<open>FilterEval\<close>: \<^verbatim>\<open>filter-pushdown/types.ts\<close>,
    \<^verbatim>\<open>capabilities.ts\<close>, \<^verbatim>\<open>deserialize.ts\<close> and \<^verbatim>\<open>evaluate.ts\<close>; \<open>FilterLaws\<close>, \<open>ParseLaws\<close> and
    \<open>DeltaLaws\<close> hold their theorems.
  \<^item> \<open>Base64Codec\<close>, \<open>FilterHistory\<close> (theorems in \<open>HistoryLaws\<close>): \<^verbatim>\<open>util/parent-rows.ts\<close> and
    \<^verbatim>\<open>filter-pushdown/history.ts\<close>.
  \<^item> \<open>Collector\<close>: \<^verbatim>\<open>filter-pushdown/collector.ts\<close>.
  \<^item> \<open>Crypto\<close>, \<open>SplitToken\<close>: \<^verbatim>\<open>crypto.ts\<close> and \<^verbatim>\<open>split-token.ts\<close>.
  \<^item> \<open>Storage\<close>: \<^verbatim>\<open>functions/storage.ts\<close>; its three tables are the lists of rows of the record \<open>db\<close>, one
    function per method; the locales \<open>kv_store\<close>, \<open>fifo_queue\<close> and \<open>append_log\<close> are its contracts.
  \<^item> \<open>Arguments\<close>, \<open>Registry\<close>: \<^verbatim>\<open>arguments/arguments.ts\<close>, \<^verbatim>\<open>arguments/argument-spec.ts\<close>,
    \<^verbatim>\<open>schema-path.ts\<close> and \<^verbatim>\<open>functions/registry.ts\<close>.
  \<^item> \<open>CacheControl\<close>, \<open>Continuation\<close>, \<open>ClientDrain\<close>: \<^verbatim>\<open>cache-control.ts\<close>, \<^verbatim>\<open>functions/continuation.ts\<close> and
    the \<^verbatim>\<open>exchangeContinued\<close> of \<^verbatim>\<open>client/client.ts\<close>.
  \<^item> \<open>SqlGrammar\<close> (theorems in \<open>SqlLaws\<close>): \<^verbatim>\<open>catalog/sql-grammar.ts\<close>.
  \<^item> \<open>ArrowCodec\<close> (theorems in \<open>CodecLaws\<close> and \<open>CodecTypes\<close>): \<^verbatim>\<open>arrow/codec/registry.ts\<close>.
  \<^item> \<open>ArrowColumns\<close> (theorems in \<open>ColumnLaws\<close>): \<^verbatim>\<open>arrow/impl-arrowjs/canonical.ts\<close> and the column part of
    \<^verbatim>\<open>build.ts\<close>.
  \<^item> \<open>StateSerializer\<close> (theorems in \<open>StateLaws\<close>): \<^verbatim>\<open>protocol/state-serializer.ts\<close> and
    \<^verbatim>\<open>protocol/carried-init-request.ts\<close>.
  \<^item> \<open>Conform\<close> (theorems in \<open>ConformLaws\<close>): \<^verbatim>\<open>codec/conform.ts\<close> and the map ordering of \<^verbatim>\<open>codec/asd.ts\<close>.
  \<^item> \<open>Constraints\<close> (theorems in \<open>ConstraintLaws\<close>): \<^verbatim>\<open>catalog/constraints.ts\<close>, with the field classes of
    \<^verbatim>\<open>catalog/column-types.ts\<close> and the generated-column metadata of \<^verbatim>\<open>catalog/column-expressions.ts\<close>.

  \<^bold>\<open>Conventions.\<close>
  Names follow the source; a name that clashes with one of the library has a suffix or is in snake case.  A thrown error is \<open>Inl\<close> of a
  constructor that names the throw; text interpolated in a message is dropped where nothing reads it.  A
  JavaScript string is a \<open>string\<close>, so code units above 255 are outside the model, and UTF-8 is
  written out for the two-byte range.  Objects are lists of entries in insertion order, maps are lists with
  distinct keys.  Words keep their width where the code has one (\<^verbatim>\<open>DataView\<close>, typed arrays, \<^verbatim>\<open>BigInt64\<close>),
  other integers are \<open>int\<close> or \<open>nat\<close> with the range checks of the code.  State is passed explicitly; a
  sequence of calls is a fold over a datatype of operations.  Code that is not in the repository is a
  parameter: the AEAD, hash and random bytes of \<open>Crypto\<close>, zstd, Arrow IPC and the Arrow library's own
  columns, the printing and parsing of numbers by the engine, \<^verbatim>\<open>localeCompare\<close> and regular expressions, the
  user's \<^verbatim>\<open>process()\<close> and \<^verbatim>\<open>resume()\<close>.  What the code relies on of them is a named hypothesis, and each
  theorem with one has a witness on concrete functions.

  \<^bold>\<open>What the lemmas show.\<close>
  \<^item> Security: a split token opens to the payload it was built from and only for the caller, key and bind it
    was built for, and an expired snapshot is told apart from every other failure.
  \<^item> Filters: the parser bounds and types what it accepts; every reachable filter state has unique ids,
    matching revisions and well-typed predicates; deltas are monotone and idempotent; a mask keeps exactly the
    rows on which every predicate that takes part is true; discrete values cover the kept rows; extents
    computed from WKB are exact; replaying the compacted history equals keeping the filters in memory; emitted
    batches carry the parents of exactly the rows kept.
  \<^item> State: the store keeps its invariant under every sequence of operations, queues are first-in first-out,
    log pages join to the log, clearing is confined to its scope; a stream's state survives its cursor, and the memo
    of carried requests cannot be observed.
  \<^item> Protocol: an exchange is accepted exactly when it is a sequence of whole answers, and the client drains
    every answer to its end; cache metadata goes with first replies only; conformed records fit their schema and are
    independent of the order maps were built in.
  \<^item> Catalog and binding: schema-qualified lookup and overload resolution are exact, argument
    schemas round-trip, the SQL parser is total and agrees with a stratified grammar, and an expression is accepted
    exactly when its tree obeys the rules of its scope.  A constraint record reads back
    as it was declared, a served schema is non-null exactly where a record says so, and the negotiated
    capabilities are the greatest closed choice.
  \<^item> Data: the codecs give every type its canonical values and lose none of them, and a column
    gives back every row written to it.

  \<^bold>\<open>Bounds and fuel.\<close>
  Recursion on text or bytes that is not structural carries fuel, and its exhaustion is an error of its own
  that is proved not to occur: the WKB reader has one unit per byte and one more, the JSON reader twice the
  length and two, the SQL tokenizer one per character and the parser one per token and one more.  The loop in
  which the client drains a reply may run forever against an arbitrary transport and is a partial function;
  against a worker that answers a finite list of replies its termination is part of the theorem.  The
  remaining bounds are the source's: 64 levels and 10,000 nodes of a filter document, 1,024 predicates, 4,096 deltas
  of a history, 128 memo entries, offsets below \<open>2 ^ 31\<close>, chunks of a frame below \<open>2 ^ 32\<close>.

  \<^bold>\<open>Not modelled.\<close>
  Generated code (\<^verbatim>\<open>generated/\<close>); the dispatch, transport, landing page and worker entry points
  (\<^verbatim>\<open>protocol/dispatch.ts\<close>, \<^verbatim>\<open>http/\<close>, \<^verbatim>\<open>worker.ts\<close>), which wire the parts above to RPC and processes; the
  wrappers of user functions and the remaining client, which carry values between callbacks and the protocol;
  the other catalog builders and publication to object storage; attach tickets, which rest on an external
  signature library; the Durable Object store, an HTTP client; the assembly of record batches and Arrow IPC,
  which are the Arrow libraries'.  Of the language: call-stack overflow, members that objects inherit from
  \<^verbatim>\<open>Object.prototype\<close>, getters and proxies, and the cache in a \<^verbatim>\<open>WeakMap\<close>, which has no effect on results.  The examples and
  tests of the repository are not modelled.
\<close>

end
